(* ===== verification/Prelude.thy ===== *)
theory Prelude
  imports Main "HOL-Library.Word"
begin

text \<open>
  Shared vocabulary of the development: the result type of fallible Rust code, machine
  counters (\<open>usize\<close> and \<open>u64\<close>), identifiers, the insertion-ordered maps the graph compiler
  works with, and the list lemmas that several components use.
\<close>

named_theorems compile_simps "unfolding rules of the graph compiler"
named_theorems store_simps "unfolding rules of the checkpoint stores"
named_theorems runtime_simps "unfolding rules of the runtime"

section \<open>Results of fallible code\<close>

text \<open>
  \<open>Ok\<close> and \<open>Err\<close> are Rust's \<open>Result\<close>; \<open>Panic\<close> stands for a failed \<open>expect\<close>, an
  out-of-range index or an \<open>unreachable!\<close>. User callbacks that cannot panic in the model
  return the plain sum type, with \<open>Inl\<close> for the error.
\<close>

datatype ('e, 'a) result = Ok 'a | Err 'e | Panic

fun result_bind :: "('e, 'a) result \<Rightarrow> ('a \<Rightarrow> ('e, 'b) result) \<Rightarrow> ('e, 'b) result" where
  "result_bind (Ok a) f = f a"
| "result_bind (Err e) f = Err e"
| "result_bind Panic f = Panic"

lemma result_bind_eq_Ok [simp]:
  "result_bind m f = Ok b \<longleftrightarrow> (\<exists>a. m = Ok a \<and> f a = Ok b)"
  by (cases m) auto

lemma result_bind_eq_Panic:
  "result_bind m f = Panic \<longleftrightarrow> m = Panic \<or> (\<exists>a. m = Ok a \<and> f a = Panic)"
  by (cases m) auto

lemma result_bind_cong [fundef_cong]:
  assumes "m = m'" and "\<And>a. m' = Ok a \<Longrightarrow> f a = f' a"
  shows "result_bind m f = result_bind m' f'"
  using assms by (cases m') auto

text \<open>A fallible traversal that stops at the first error, as \<open>?\<close> in a \<open>for\<close> loop does.\<close>

fun each_ok :: "('a \<Rightarrow> 'e option) \<Rightarrow> 'a list \<Rightarrow> 'e option" where
  "each_ok f [] = None"
| "each_ok f (x # xs) = (case f x of Some e \<Rightarrow> Some e | None \<Rightarrow> each_ok f xs)"

lemma each_ok_None_iff: "each_ok f xs = None \<longleftrightarrow> (\<forall>x \<in> set xs. f x = None)"
  by (induction xs) (auto split: option.splits)

lemma each_ok_append:
  "each_ok f (xs @ ys) = (case each_ok f xs of Some e \<Rightarrow> Some e | None \<Rightarrow> each_ok f ys)"
  by (induction xs) (auto split: option.splits)

lemma each_ok_SomeD: "each_ok f xs = Some e \<Longrightarrow> \<exists>x \<in> set xs. f x = Some e"
  by (induction xs) (auto split: option.splits)

section \<open>Machine counters\<close>

text \<open>
  Counters are natural numbers below \<open>2 ^ 64\<close>, the width of \<open>usize\<close> on the 64-bit targets
  the crates are built for. \<open>usize_add\<close> wraps, as release builds do; \<open>usize_saturating_add\<close>
  and truncated subtraction are Rust's saturating operations.
\<close>

definition usize_bound :: nat where
  "usize_bound = 18446744073709551616"

definition usize_add :: "nat \<Rightarrow> nat \<Rightarrow> nat" where
  "usize_add a b = (a + b) mod usize_bound"

definition usize_saturating_add :: "nat \<Rightarrow> nat \<Rightarrow> nat" where
  "usize_saturating_add a b = min (a + b) (usize_bound - 1)"

lemma usize_bound_pos [simp]: "0 < usize_bound"
  by (simp add: usize_bound_def)

lemma usize_bound_eq: "usize_bound = 2 ^ 64"
  by (simp add: usize_bound_def)

lemma usize_add_exact [simp]: "a + b < usize_bound \<Longrightarrow> usize_add a b = a + b"
  by (simp add: usize_add_def)

lemma usize_add_less [simp]: "usize_add a b < usize_bound"
  by (simp add: usize_add_def)

lemma usize_saturating_add_less [simp]: "usize_saturating_add a b < usize_bound"
  by (simp add: usize_saturating_add_def min_less_iff_disj)

lemma usize_saturating_add_le: "usize_saturating_add a b \<le> a + b"
  by (simp add: usize_saturating_add_def)

section \<open>Identifiers\<close>

text \<open>
  The \<open>define_uuid_id!\<close> identifiers are 128-bit values that the code only compares and
  copies. Thread identifiers and graph versions are strings behind a newtype.
\<close>

type_synonym uuid = "128 word"

datatype checkpoint_id = CheckpointId uuid
datatype branch_id = BranchId uuid
datatype interrupt_id = InterruptId uuid
datatype run_id = RunId uuid
datatype thread_id = ThreadId string
datatype graph_version = GraphVersion string

section \<open>Insertion-ordered maps\<close>

text \<open>
  An \<open>IndexMap\<close> is an association list in insertion order with distinct keys; lookup is
  \<open>map_of\<close>. \<open>im_insert\<close> replaces the value of a present key in place and appends a new one.
\<close>

fun im_insert :: "'k \<Rightarrow> 'v \<Rightarrow> ('k \<times> 'v) list \<Rightarrow> ('k \<times> 'v) list" where
  "im_insert k v [] = [(k, v)]"
| "im_insert k v ((k', v') # m) = (if k = k' then (k, v) # m else (k', v') # im_insert k v m)"

definition im_contains :: "('k \<times> 'v) list \<Rightarrow> 'k \<Rightarrow> bool" where
  "im_contains m k \<longleftrightarrow> map_of m k \<noteq> None"

lemma im_contains_iff: "im_contains m k \<longleftrightarrow> k \<in> fst ` set m"
  by (simp add: im_contains_def map_of_eq_None_iff)

lemma im_insert_fresh: "k \<notin> fst ` set m \<Longrightarrow> im_insert k v m = m @ [(k, v)]"
  by (induction m) auto

lemma im_insert_set_subset: "set (im_insert k v m) \<subseteq> insert (k, v) (set m)"
  by (induction k v m rule: im_insert.induct) auto

lemma map_of_im_insert: "map_of (im_insert k v m) = (map_of m)(k \<mapsto> v)"
  by (induction m) auto

lemma fst_set_im_insert: "fst ` set (im_insert k v m) = insert k (fst ` set m)"
  by (induction k v m rule: im_insert.induct) auto

lemma distinct_im_insert: "distinct (map fst m) \<Longrightarrow> distinct (map fst (im_insert k v m))"
  by (induction m) (auto simp: fst_set_im_insert)

section \<open>Lists\<close>

text \<open>
  The duplicate check the builder, the router and the resume validation write as a loop over
  a \<open>HashSet\<close>: the first element that was already seen.
\<close>

fun first_dup :: "'a list \<Rightarrow> 'a list \<Rightarrow> 'a option" where
  "first_dup seen [] = None"
| "first_dup seen (x # xs) = (if x \<in> set seen then Some x else first_dup (x # seen) xs)"

lemma first_dup_None_iff:
  "first_dup seen xs = None \<longleftrightarrow> distinct xs \<and> set xs \<inter> set seen = {}"
  by (induction xs arbitrary: seen) auto

lemma first_dup_SomeD: "first_dup seen xs = Some x \<Longrightarrow> x \<in> set xs"
  by (induction xs arbitrary: seen) (auto split: if_splits)

text \<open>\<open>sort_unstable\<close> followed by \<open>dedup\<close> on indices.\<close>

definition sort_dedup :: "nat list \<Rightarrow> nat list" where
  "sort_dedup xs = remdups_adj (sort xs)"

lemma set_sort_dedup [simp]: "set (sort_dedup xs) = set xs"
  by (simp add: sort_dedup_def)

lemma sorted_wrt_less_remdups_adj:
  "sorted xs \<Longrightarrow> sorted_wrt (<) (remdups_adj xs)" for xs :: "nat list"
proof (induction xs rule: remdups_adj.induct)
  case (3 x y xs)
  then show ?case
    by (auto simp: less_le dest: order_trans)
qed auto

lemma strict_sorted_sort_dedup [simp]: "sorted_wrt (<) (sort_dedup xs)"
  by (simp add: sort_dedup_def sorted_wrt_less_remdups_adj)

lemma sort_dedup_Nil_iff [simp]: "sort_dedup xs = [] \<longleftrightarrow> xs = []"
  by (metis set_sort_dedup set_empty)

lemma sort_dedup_cong: "set xs = set ys \<Longrightarrow> sort_dedup xs = sort_dedup ys"
  by (metis set_sort_dedup strict_sorted_sort_dedup strict_sorted_equal)

lemma nth_option_range: "i < length xs \<Longrightarrow> xs ! i \<in> set xs"
  by simp

end
