(* ===== verification/Paths.thy ===== *)
theory Paths
  imports Prelude
begin

text \<open>
  Node identifiers (\<open>edge.rs\<close>) and the structured graph and node paths (\<open>path.rs\<close>): the
  reserved identifiers, the path operations the compiler uses to place subgraphs, and the
  textual form with its percent escapes. Text is a list of bytes; the two escaped characters
  are ASCII, so escaping bytes and escaping characters agree.
\<close>

section \<open>Node identifiers\<close>

datatype node_id = NodeId string

definition START :: string where "START = ''__start__''"

definition END :: string where "END = ''__end__''"

primrec as_str :: "node_id \<Rightarrow> string" where
  "as_str (NodeId s) = s"

definition node_id_start :: node_id where "node_id_start = NodeId START"

definition node_id_end :: node_id where "node_id_end = NodeId END"

definition is_start :: "node_id \<Rightarrow> bool" where
  "is_start n \<longleftrightarrow> as_str n = START"

definition is_end :: "node_id \<Rightarrow> bool" where
  "is_end n \<longleftrightarrow> as_str n = END"

definition is_reserved :: "node_id \<Rightarrow> bool" where
  "is_reserved n \<longleftrightarrow> is_start n \<or> is_end n"

lemma is_start_iff [simp]: "is_start n \<longleftrightarrow> n = node_id_start"
  by (cases n) (simp add: is_start_def node_id_start_def)

lemma is_end_iff [simp]: "is_end n \<longleftrightarrow> n = node_id_end"
  by (cases n) (simp add: is_end_def node_id_end_def)

lemma start_neq_end [simp]: "node_id_start \<noteq> node_id_end" "node_id_end \<noteq> node_id_start"
  by (simp_all add: node_id_start_def node_id_end_def START_def END_def)

section \<open>Structured paths\<close>

datatype graph_path = GraphPath "node_id list"

datatype node_path = NodePath "node_id list"

primrec graph_segments :: "graph_path \<Rightarrow> node_id list" where
  "graph_segments (GraphPath ss) = ss"

primrec node_segments :: "node_path \<Rightarrow> node_id list" where
  "node_segments (NodePath ss) = ss"

definition graph_path_root :: graph_path where
  "graph_path_root = GraphPath []"

definition graph_path_is_root :: "graph_path \<Rightarrow> bool" where
  "graph_path_is_root p \<longleftrightarrow> graph_segments p = []"

definition graph_path_child :: "graph_path \<Rightarrow> node_id \<Rightarrow> graph_path" where
  "graph_path_child p segment = GraphPath (graph_segments p @ [segment])"

definition graph_path_prefixed :: "graph_path \<Rightarrow> graph_path \<Rightarrow> graph_path" where
  "graph_path_prefixed p prefix = GraphPath (graph_segments prefix @ graph_segments p)"

definition graph_path_prefixes :: "graph_path \<Rightarrow> graph_path list" where
  "graph_path_prefixes p =
     map (\<lambda>n. GraphPath (take n (graph_segments p))) [1..<Suc (length (graph_segments p))]"

text \<open>The mount path of the root namespace is an assertion failure in the code.\<close>

definition graph_path_mount_path :: "graph_path \<Rightarrow> node_path option" where
  "graph_path_mount_path p =
     (if graph_path_is_root p then None else Some (NodePath (graph_segments p)))"

definition node_path_root :: "node_id \<Rightarrow> node_path" where
  "node_path_root n = NodePath [n]"

definition node_path_new :: "graph_path \<Rightarrow> node_id \<Rightarrow> node_path" where
  "node_path_new p n = NodePath (graph_segments p @ [n])"

definition node_path_leaf :: "node_path \<Rightarrow> node_id option" where
  "node_path_leaf p = (if node_segments p = [] then None else Some (last (node_segments p)))"

definition node_path_graph_path :: "node_path \<Rightarrow> graph_path" where
  "node_path_graph_path p = GraphPath (butlast (node_segments p))"

definition node_path_prefixed :: "node_path \<Rightarrow> graph_path \<Rightarrow> node_path" where
  "node_path_prefixed p prefix = NodePath (graph_segments prefix @ node_segments p)"

lemma graph_segments_child [simp]: "graph_segments (graph_path_child p n) = graph_segments p @ [n]"
  by (simp add: graph_path_child_def)

lemma graph_segments_prefixed [simp]:
  "graph_segments (graph_path_prefixed p q) = graph_segments q @ graph_segments p"
  by (simp add: graph_path_prefixed_def)

lemma node_segments_prefixed [simp]:
  "node_segments (node_path_prefixed p q) = graph_segments q @ node_segments p"
  by (simp add: node_path_prefixed_def)

lemma node_segments_new [simp]: "node_segments (node_path_new p n) = graph_segments p @ [n]"
  by (simp add: node_path_new_def)

lemma node_path_new_inj [simp]: "node_path_new p n = node_path_new q m \<longleftrightarrow> p = q \<and> n = m"
  by (cases p; cases q) (simp add: node_path_new_def)

lemma node_path_parts [simp]:
  "node_path_leaf (node_path_new p n) = Some n"
  "node_path_graph_path (node_path_new p n) = p"
  by (cases p; simp add: node_path_leaf_def node_path_new_def node_path_graph_path_def)+

lemma node_path_prefixed_new [simp]:
  "node_path_prefixed (node_path_new p n) q = node_path_new (graph_path_prefixed p q) n"
  by (simp add: node_path_prefixed_def node_path_new_def)

lemma node_path_prefixed_inj [simp]:
  "node_path_prefixed p q = node_path_prefixed p' q \<longleftrightarrow> p = p'"
  by (cases p; cases p') (simp add: node_path_prefixed_def)

lemma graph_path_prefixed_inj [simp]:
  "graph_path_prefixed p q = graph_path_prefixed p' q \<longleftrightarrow> p = p'"
  by (cases p; cases p') (simp add: graph_path_prefixed_def)

lemma graph_path_prefixed_root [simp]: "graph_path_prefixed graph_path_root q = q"
  by (cases q) (simp add: graph_path_prefixed_def graph_path_root_def)

section \<open>Textual form\<close>

fun escape_char :: "char \<Rightarrow> string" where
  "escape_char c =
     (if c = CHR ''%'' then ''%25'' else if c = CHR ''/'' then ''%2F'' else [c])"

definition escape :: "string \<Rightarrow> string" where
  "escape s = concat (map escape_char s)"

definition write_segments :: "node_id list \<Rightarrow> bool \<Rightarrow> string" where
  "write_segments segments root_label =
     (if segments = [] then (if root_label then ''<root>'' else [])
      else concat (map (\<lambda>segment. CHR ''/'' # escape (as_str segment)) segments))"

definition display_graph_path :: "graph_path \<Rightarrow> string" where
  "display_graph_path p = write_segments (graph_segments p) True"

definition display_node_path :: "node_path \<Rightarrow> string" where
  "display_node_path p = write_segments (node_segments p) False"

lemma slash_notin_escape: "CHR ''/'' \<notin> set (escape s)"
  by (induction s) (auto simp: escape_def)

lemma escape_Cons: "escape (c # s) = escape_char c @ escape s"
  by (simp add: escape_def)

lemma escape_Nil [simp]: "escape [] = []"
  by (simp add: escape_def)

lemma escape_inj: "escape s = escape t \<Longrightarrow> s = t"
proof (induction s arbitrary: t)
  case Nil
  then show ?case by (cases t) (auto simp: escape_Cons split: if_splits)
next
  case (Cons c s)
  then obtain d t' where t: "t = d # t'"
    by (cases t) (auto simp: escape_Cons split: if_splits)
  have "c = d \<and> escape s = escape t'"
    using Cons.prems unfolding t escape_Cons by (auto split: if_splits)
  with Cons.IH show ?case by (auto simp: t)
qed

text \<open>Slash-prefixed blocks without inner slashes can be split again.\<close>

definition slash_blocks :: "string list \<Rightarrow> string" where
  "slash_blocks bs = concat (map (\<lambda>b. CHR ''/'' # b) bs)"

lemma slash_blocks_inj:
  assumes "\<forall>b \<in> set bs. CHR ''/'' \<notin> set b" and "\<forall>c \<in> set cs. CHR ''/'' \<notin> set c"
    and "slash_blocks bs = slash_blocks cs"
  shows "bs = cs"
  using assms
proof (induction bs arbitrary: cs)
  case Nil
  then show ?case by (cases cs) (auto simp: slash_blocks_def)
next
  case (Cons b bs)
  then obtain c cs' where cs: "cs = c # cs'"
    by (cases cs) (auto simp: slash_blocks_def)
  have free: "CHR ''/'' \<notin> set b" "CHR ''/'' \<notin> set c"
    using Cons.prems cs by auto
  have eq: "b @ slash_blocks bs = c @ slash_blocks cs'"
    using Cons.prems(3) by (simp add: cs slash_blocks_def)
  have head: "takeWhile (\<lambda>x. x \<noteq> CHR ''/'') (d @ slash_blocks ds) = d"
    if "CHR ''/'' \<notin> set d" for d ds
  proof -
    have "takeWhile (\<lambda>x. x \<noteq> CHR ''/'') (d @ slash_blocks ds) =
        d @ takeWhile (\<lambda>x. x \<noteq> CHR ''/'') (slash_blocks ds)"
      using that by (intro takeWhile_append2) auto
    also have "takeWhile (\<lambda>x. x \<noteq> CHR ''/'') (slash_blocks ds) = []"
      by (cases ds) (auto simp: slash_blocks_def)
    finally show ?thesis by simp
  qed
  have "b = c"
    using head [OF free(1), of bs] head [OF free(2), of cs'] eq by simp
  moreover have "slash_blocks bs = slash_blocks cs'"
    using eq \<open>b = c\<close> by simp
  ultimately show ?case
    using Cons.IH [of cs'] Cons.prems cs by auto
qed

lemma write_segments_blocks:
  "ss \<noteq> [] \<Longrightarrow> write_segments ss r = slash_blocks (map (\<lambda>n. escape (as_str n)) ss)"
  by (simp add: write_segments_def slash_blocks_def comp_def)

lemma escaped_segments_inj:
  "map (\<lambda>n. escape (as_str n)) ss = map (\<lambda>n. escape (as_str n)) ts \<Longrightarrow> ss = ts"
proof (rule map_injective)
  show "inj (\<lambda>n. escape (as_str n))"
  proof (rule injI)
    fix x y assume "escape (as_str x) = escape (as_str y)"
    then show "x = y" by (cases x; cases y) (auto dest: escape_inj)
  qed
qed

lemma write_segments_inj:
  assumes "write_segments ss r = write_segments ts r"
  shows "ss = ts"
proof -
  have slash: "hd (write_segments us r) = CHR ''/'' \<and> write_segments us r \<noteq> []" if "us \<noteq> []" for us
    using that by (cases us) (auto simp: write_segments_def)
  have root: "us \<noteq> [] \<Longrightarrow> write_segments us r \<noteq> write_segments [] r" for us
    using slash [of us] by (auto simp: write_segments_def split: if_splits)
  show ?thesis
  proof (cases "ss = [] \<or> ts = []")
    case True
    then show ?thesis using assms root by metis
  next
    case False
    with assms have "slash_blocks (map (\<lambda>n. escape (as_str n)) ss) =
        slash_blocks (map (\<lambda>n. escape (as_str n)) ts)"
      by (simp add: write_segments_blocks)
    then have "map (\<lambda>n. escape (as_str n)) ss = map (\<lambda>n. escape (as_str n)) ts"
      by (rule slash_blocks_inj [rotated 2]) (auto simp: slash_notin_escape)
    then show ?thesis by (rule escaped_segments_inj)
  qed
qed

text \<open>C26: two node paths are displayed alike only when they are the same path, whatever characters
  their identifiers hold: percent-escaping keeps \<open>/\<close> and \<open>%\<close> inside an identifier apart from the
  separators.\<close>

theorem display_node_path_faithful: "display_node_path p = display_node_path q \<longleftrightarrow> p = q"
  by (cases p; cases q) (auto simp: display_node_path_def dest: write_segments_inj)

text \<open>C27: the same for graph paths, the root label included: no namespace is displayed as
  \<open><root>\<close> but the root.\<close>

theorem display_graph_path_faithful: "display_graph_path p = display_graph_path q \<longleftrightarrow> p = q"
  by (cases p; cases q) (auto simp: display_graph_path_def dest: write_segments_inj)

end
