(* ===== verification/Records.thy ===== *)
theory Records
  imports Paths
begin

text \<open>
  Checkpoint data: codec descriptors and encoded values (\<open>checkpoint_codec.rs\<close>), storage
  records and their validation (\<open>checkpoint_record.rs\<close>), typed checkpoints and write requests
  and the conversions between the two (\<open>checkpoint.rs\<close>), and interrupt data
  (\<open>interrupt.rs\<close>). A codec is user code: it is a record of callbacks, and the round trip
  below names what it relies on. A message that formats values is a constructor carrying them.
\<close>

section \<open>Type-erased values and interrupts\<close>

text \<open>\<open>'v\<close> is the universe of dynamically typed values behind \<open>Arc<dyn Any>\<close>.\<close>

type_synonym type_id = nat

datatype 'v typed_value = TypedValue (tv_type: type_id) (tv_type_name: string) (tv_value: 'v)

definition downcast_ref :: "type_id \<Rightarrow> 'v typed_value \<Rightarrow> 'v option" where
  "downcast_ref t v = (if tv_type v = t then Some (tv_value v) else None)"

type_synonym 'v interrupt_payload = "'v typed_value"
type_synonym 'v resume_value = "'v typed_value"

record 'v interrupt_request =
  ir_id :: interrupt_id
  ir_payload :: "'v interrupt_payload"

record 'v checkpoint_interrupt =
  ci_id :: interrupt_id
  ci_node_path :: node_path
  ci_payload :: "'v interrupt_payload"

definition interrupt_into_checkpoint ::
    "'v interrupt_request \<Rightarrow> node_path \<Rightarrow> 'v checkpoint_interrupt" where
  "interrupt_into_checkpoint r path =
     \<lparr>ci_id = ir_id r, ci_node_path = path, ci_payload = ir_payload r\<rparr>"

datatype ('u, 'v) node_outcome = Update 'u | Interrupt "'v interrupt_request"

datatype resume_value_error = Missing string | TypeMismatch string string

section \<open>Codecs\<close>

type_synonym byte = "8 word"

record codec_descriptor =
  schema :: string
  schema_version :: "32 word"
  encoding :: string

record encoded_value =
  descriptor :: codec_descriptor
  bytes :: "byte list"

datatype codec_message =
    CodecMessage string
  | InterruptEncodingDiffers string string
  | InterruptSchemaUnsupported codec_descriptor
  | InvalidRecordMetadata

datatype checkpoint_codec_error =
    UnsupportedInterruptPayload string
  | CodecFailed codec_message

record ('t, 'v) checkpoint_codec =
  snapshot_descriptor :: codec_descriptor
  encode_snapshot :: "'t \<Rightarrow> checkpoint_codec_error + byte list"
  decode_snapshot :: "byte list \<Rightarrow> checkpoint_codec_error + 't"
  encode_interrupt :: "'v interrupt_payload \<Rightarrow> checkpoint_codec_error + encoded_value"
  decode_interrupt :: "encoded_value \<Rightarrow> checkpoint_codec_error + 'v interrupt_payload"

definition default_encode_interrupt ::
    "'v interrupt_payload \<Rightarrow> checkpoint_codec_error + encoded_value" where
  "default_encode_interrupt payload = Inl (UnsupportedInterruptPayload (tv_type_name payload))"

definition default_decode_interrupt ::
    "encoded_value \<Rightarrow> checkpoint_codec_error + 'v interrupt_payload" where
  "default_decode_interrupt v = Inl (CodecFailed (InterruptSchemaUnsupported (descriptor v)))"

datatype checkpoint_encoding_error =
    SnapshotEncodingFailed checkpoint_codec_error
  | InterruptEncodingFailed checkpoint_codec_error

type_synonym format_version = "32 word"

definition CURRENT :: format_version where "CURRENT = 1"

datatype checkpoint_reconstruction_error =
    FormatVersion format_version format_version
  | SnapshotEncoding string string
  | SnapshotSchema codec_descriptor codec_descriptor
  | InterruptEncoding string string
  | CounterOutOfRange string "64 word"
  | SnapshotDecoding checkpoint_codec_error
  | InterruptDecoding checkpoint_codec_error

section \<open>Storage records\<close>

record record_interrupt =
  ri_id :: interrupt_id
  ri_node_path :: node_path
  ri_payload :: encoded_value

text \<open>
  \<open>CheckpointRecordParts\<close> and \<open>CheckpointRecord\<close> have the same fields; the second is the
  first after validation.
\<close>

record checkpoint_record =
  r_format_version :: format_version
  r_id :: checkpoint_id
  r_thread_id :: thread_id
  r_run_id :: run_id
  r_parent_id :: "checkpoint_id option"
  r_graph_version :: "graph_version option"
  r_superstep :: "64 word"
  r_step :: "64 word"
  r_snapshot :: encoded_value
  r_next_frontier :: "node_path list"
  r_completed :: bool
  r_interrupt :: "record_interrupt option"

type_synonym checkpoint_record_parts = checkpoint_record

datatype checkpoint_record_error =
    CompletedWithFrontier
  | IncompleteWithoutFrontier
  | CompletedInterrupt
  | InvalidInterruptFrontier node_path

definition try_from_parts ::
    "checkpoint_record_parts \<Rightarrow> checkpoint_record_error + checkpoint_record" where
  "try_from_parts parts =
     (if r_completed parts \<and> r_next_frontier parts \<noteq> [] then Inl CompletedWithFrontier
      else if \<not> r_completed parts \<and> r_next_frontier parts = [] then Inl IncompleteWithoutFrontier
      else if r_completed parts \<and> r_interrupt parts \<noteq> None then Inl CompletedInterrupt
      else case r_interrupt parts of
        Some i \<Rightarrow>
          (if length (r_next_frontier parts) \<noteq> 1
              \<or> (case r_next_frontier parts of [] \<Rightarrow> True | p # _ \<Rightarrow> p \<noteq> ri_node_path i)
           then Inl (InvalidInterruptFrontier (ri_node_path i))
           else Inr parts)
      | None \<Rightarrow> Inr parts)"

text \<open>What a validated record promises.\<close>

definition record_wf :: "checkpoint_record \<Rightarrow> bool" where
  "record_wf r \<longleftrightarrow>
     (r_completed r \<longleftrightarrow> r_next_frontier r = [])
     \<and> (\<forall>i. r_interrupt r = Some i \<longrightarrow> r_next_frontier r = [ri_node_path i])"

lemma try_from_parts_iff: "try_from_parts parts = Inr r \<longleftrightarrow> r = parts \<and> record_wf parts"
proof (cases "r_interrupt parts")
  case None
  then show ?thesis by (auto simp: try_from_parts_def record_wf_def)
next
  case (Some i)
  then show ?thesis
    by (cases "r_next_frontier parts") (auto simp: try_from_parts_def record_wf_def)
qed

section \<open>Typed checkpoints and requests\<close>

record ('t, 'v) checkpoint =
  c_id :: checkpoint_id
  c_thread_id :: thread_id
  c_run_id :: run_id
  c_parent_id :: "checkpoint_id option"
  c_graph_version :: "graph_version option"
  c_superstep :: nat
  c_step :: nat
  c_snapshot :: 't
  c_next_frontier :: "node_path list"
  c_completed :: bool
  c_interrupt :: "'v checkpoint_interrupt option"

record checkpoint_lineage =
  l_checkpoint_id :: checkpoint_id
  l_expected_parent :: "checkpoint_id option"
  l_graph_version :: "graph_version option"
  l_thread_id :: thread_id
  l_run_id :: run_id

record ('t, 'v) checkpoint_request =
  q_checkpoint_id :: checkpoint_id
  q_expected_parent :: "checkpoint_id option"
  q_graph_version :: "graph_version option"
  q_thread_id :: thread_id
  q_run_id :: run_id
  q_superstep :: nat
  q_step :: nat
  q_snapshot :: 't
  q_next_frontier :: "node_path list"
  q_completed :: bool
  q_interrupt :: "'v checkpoint_interrupt option"

definition request_new ::
    "checkpoint_lineage \<Rightarrow> nat \<Rightarrow> nat \<Rightarrow> 't \<Rightarrow> node_path list \<Rightarrow> bool
      \<Rightarrow> 'v checkpoint_interrupt option \<Rightarrow> ('t, 'v) checkpoint_request" where
  "request_new l superstep step snapshot next_frontier completed interrupt =
     \<lparr>q_checkpoint_id = l_checkpoint_id l, q_expected_parent = l_expected_parent l,
      q_graph_version = l_graph_version l, q_thread_id = l_thread_id l, q_run_id = l_run_id l,
      q_superstep = superstep, q_step = step, q_snapshot = snapshot,
      q_next_frontier = next_frontier, q_completed = completed, q_interrupt = interrupt\<rparr>"

definition into_checkpoint :: "('t, 'v) checkpoint_request \<Rightarrow> ('t, 'v) checkpoint" where
  "into_checkpoint q =
     \<lparr>c_id = q_checkpoint_id q, c_thread_id = q_thread_id q, c_run_id = q_run_id q,
      c_parent_id = q_expected_parent q, c_graph_version = q_graph_version q,
      c_superstep = q_superstep q, c_step = q_step q, c_snapshot = q_snapshot q,
      c_next_frontier = q_next_frontier q, c_completed = q_completed q,
      c_interrupt = q_interrupt q\<rparr>"

definition u64_try_from :: "nat \<Rightarrow> 64 word option" where
  "u64_try_from n = (if n < 2 ^ 64 then Some (of_nat n) else None)"

definition usize_try_from :: "64 word \<Rightarrow> nat option" where
  "usize_try_from w = (if unat w < usize_bound then Some (unat w) else None)"

lemma usize_try_from_total [simp]: "usize_try_from w = Some (unat w)"
  using unsigned_less [where ?'a = nat, of w] by (simp add: usize_try_from_def usize_bound_def)

lemma u64_try_from_exact [simp]: "n < usize_bound \<Longrightarrow> u64_try_from n = Some (of_nat n)"
  by (simp add: u64_try_from_def usize_bound_def)

lemma u64_try_from_SomeD: "u64_try_from n = Some w \<Longrightarrow> unat w = n"
  by (auto simp: u64_try_from_def unat_of_nat split: if_splits)

lemma unat_u64_of_nat [simp]: "n < usize_bound \<Longrightarrow> unat (of_nat n :: 64 word) = n"
  by (simp add: usize_bound_def unat_of_nat)

text \<open>The interrupt part of \<open>to_record\<close>: encode, then check the encoding identity.\<close>

definition encode_record_interrupt ::
    "('t, 'v) checkpoint_codec \<Rightarrow> 'v checkpoint_interrupt
      \<Rightarrow> checkpoint_encoding_error + record_interrupt" where
  "encode_record_interrupt codec i =
     (case encode_interrupt codec (ci_payload i) of
        Inl e \<Rightarrow> Inl (InterruptEncodingFailed e)
      | Inr payload \<Rightarrow>
          (if encoding (descriptor payload) = encoding (snapshot_descriptor codec)
           then Inr \<lparr>ri_id = ci_id i, ri_node_path = ci_node_path i, ri_payload = payload\<rparr>
           else Inl (InterruptEncodingFailed (CodecFailed
                  (InterruptEncodingDiffers (encoding (descriptor payload))
                     (encoding (snapshot_descriptor codec)))))))"

definition to_record ::
    "('t, 'v) checkpoint_request \<Rightarrow> ('t, 'v) checkpoint_codec
      \<Rightarrow> checkpoint_encoding_error + checkpoint_record" where
  "to_record q codec =
     (case encode_snapshot codec (q_snapshot q) of
        Inl e \<Rightarrow> Inl (SnapshotEncodingFailed e)
      | Inr bs \<Rightarrow>
      (case (case q_interrupt q of
               None \<Rightarrow> Inr None
             | Some i \<Rightarrow> (case encode_record_interrupt codec i of
                 Inl e \<Rightarrow> Inl e | Inr ri \<Rightarrow> Inr (Some ri))) of
        Inl e \<Rightarrow> Inl e
      | Inr ri \<Rightarrow>
      (case u64_try_from (q_superstep q) of
        None \<Rightarrow> Inl (SnapshotEncodingFailed (CodecFailed
                  (CodecMessage ''checkpoint superstep exceeds durable u64 range'')))
      | Some superstep \<Rightarrow>
      (case u64_try_from (q_step q) of
        None \<Rightarrow> Inl (SnapshotEncodingFailed (CodecFailed
                  (CodecMessage ''checkpoint step exceeds durable u64 range'')))
      | Some step \<Rightarrow>
      (case try_from_parts
              \<lparr>r_format_version = CURRENT, r_id = q_checkpoint_id q, r_thread_id = q_thread_id q,
               r_run_id = q_run_id q, r_parent_id = q_expected_parent q,
               r_graph_version = q_graph_version q, r_superstep = superstep, r_step = step,
               r_snapshot = \<lparr>descriptor = snapshot_descriptor codec, bytes = bs\<rparr>,
               r_next_frontier = q_next_frontier q, r_completed = q_completed q,
               r_interrupt = ri\<rparr> of
        Inl e \<Rightarrow> Inl (SnapshotEncodingFailed (CodecFailed InvalidRecordMetadata))
      | Inr r \<Rightarrow> Inr r)))))"

definition decode_record_interrupt ::
    "('t, 'v) checkpoint_codec \<Rightarrow> record_interrupt
      \<Rightarrow> checkpoint_reconstruction_error + 'v checkpoint_interrupt" where
  "decode_record_interrupt codec i =
     (if encoding (descriptor (ri_payload i)) \<noteq> encoding (snapshot_descriptor codec)
      then Inl (InterruptEncoding (encoding (snapshot_descriptor codec))
                  (encoding (descriptor (ri_payload i))))
      else case decode_interrupt codec (ri_payload i) of
        Inl e \<Rightarrow> Inl (InterruptDecoding e)
      | Inr payload \<Rightarrow>
          Inr \<lparr>ci_id = ri_id i, ci_node_path = ri_node_path i, ci_payload = payload\<rparr>)"

definition from_record ::
    "checkpoint_record \<Rightarrow> ('t, 'v) checkpoint_codec
      \<Rightarrow> checkpoint_reconstruction_error + ('t, 'v) checkpoint" where
  "from_record r codec =
     (if r_format_version r \<noteq> CURRENT then Inl (FormatVersion (r_format_version r) CURRENT)
      else let expected = snapshot_descriptor codec; actual = descriptor (r_snapshot r) in
      if encoding actual \<noteq> encoding expected
      then Inl (SnapshotEncoding (encoding expected) (encoding actual))
      else if schema actual \<noteq> schema expected \<or> schema_version actual \<noteq> schema_version expected
      then Inl (SnapshotSchema expected actual)
      else (case decode_snapshot codec (bytes (r_snapshot r)) of
        Inl e \<Rightarrow> Inl (SnapshotDecoding e)
      | Inr snapshot \<Rightarrow>
      (case (case r_interrupt r of
               None \<Rightarrow> Inr None
             | Some i \<Rightarrow> (case decode_record_interrupt codec i of
                 Inl e \<Rightarrow> Inl e | Inr ci \<Rightarrow> Inr (Some ci))) of
        Inl e \<Rightarrow> Inl e
      | Inr ci \<Rightarrow>
      (case usize_try_from (r_superstep r) of
        None \<Rightarrow> Inl (CounterOutOfRange ''superstep'' (r_superstep r))
      | Some superstep \<Rightarrow>
      (case usize_try_from (r_step r) of
        None \<Rightarrow> Inl (CounterOutOfRange ''step'' (r_step r))
      | Some step \<Rightarrow>
          Inr \<lparr>c_id = r_id r, c_thread_id = r_thread_id r, c_run_id = r_run_id r,
               c_parent_id = r_parent_id r, c_graph_version = r_graph_version r,
               c_superstep = superstep, c_step = step, c_snapshot = snapshot,
               c_next_frontier = r_next_frontier r, c_completed = r_completed r,
               c_interrupt = ci\<rparr>)))))"

section \<open>The conversions are inverse for a lawful codec\<close>

text \<open>What a codec documents: decoding its own output gives the value back.\<close>

definition codec_roundtrips :: "('t, 'v) checkpoint_codec \<Rightarrow> bool" where
  "codec_roundtrips codec \<longleftrightarrow>
     (\<forall>t bs. encode_snapshot codec t = Inr bs \<longrightarrow> decode_snapshot codec bs = Inr t)
     \<and> (\<forall>p ev. encode_interrupt codec p = Inr ev \<longrightarrow> decode_interrupt codec ev = Inr p)"

lemma decode_encode_record_interrupt:
  assumes "codec_roundtrips codec" and "encode_record_interrupt codec i = Inr ri"
  shows "decode_record_interrupt codec ri = Inr i"
  using assms
  by (auto simp: encode_record_interrupt_def decode_record_interrupt_def codec_roundtrips_def
      split: sum.splits if_splits)

lemma encode_record_interrupt_fields:
  "encode_record_interrupt codec i = Inr ri \<Longrightarrow> ri_id ri = ci_id i \<and> ri_node_path ri = ci_node_path i"
  by (auto simp: encode_record_interrupt_def split: sum.splits if_splits)

lemma to_record_fields:
  assumes "to_record q codec = Inr r"
  shows "r_format_version r = CURRENT \<and> r_id r = q_checkpoint_id q \<and> r_thread_id r = q_thread_id q
    \<and> r_run_id r = q_run_id q \<and> r_parent_id r = q_expected_parent q
    \<and> r_graph_version r = q_graph_version q
    \<and> r_next_frontier r = q_next_frontier q \<and> r_completed r = q_completed q"
  using assms
  by (auto simp: to_record_def try_from_parts_iff split: sum.splits option.splits)

lemma to_record_wf: "to_record q codec = Inr r \<Longrightarrow> record_wf r"
  by (auto simp: to_record_def try_from_parts_iff split: sum.splits option.splits)

lemma from_record_to_record:
  assumes "codec_roundtrips codec" and "to_record q codec = Inr r"
  shows "from_record r codec = Inr (into_checkpoint q)"
proof -
  obtain bs where bs: "encode_snapshot codec (q_snapshot q) = Inr bs"
    and rsnap: "r_snapshot r = \<lparr>descriptor = snapshot_descriptor codec, bytes = bs\<rparr>"
    and counters: "u64_try_from (q_superstep q) = Some (r_superstep r)"
      "u64_try_from (q_step q) = Some (r_step r)"
    and int: "case q_interrupt q of None \<Rightarrow> r_interrupt r = None
      | Some i \<Rightarrow> \<exists>ri. encode_record_interrupt codec i = Inr ri \<and> r_interrupt r = Some ri"
    using assms(2)
    by (auto simp: to_record_def try_from_parts_iff split: sum.splits option.splits)
  have "decode_snapshot codec bs = Inr (q_snapshot q)"
    using assms(1) bs by (auto simp: codec_roundtrips_def)
  moreover have "unat (r_superstep r) = q_superstep q" "unat (r_step r) = q_step q"
    using counters by (auto dest: u64_try_from_SomeD)
  moreover have "(case r_interrupt r of None \<Rightarrow> Inr None
      | Some i \<Rightarrow> (case decode_record_interrupt codec i of Inl e \<Rightarrow> Inl e | Inr ci \<Rightarrow> Inr (Some ci)))
      = (Inr (q_interrupt q) :: checkpoint_reconstruction_error + _)"
    using int decode_encode_record_interrupt [OF assms(1)] by (auto split: option.splits)
  ultimately show ?thesis
    using to_record_fields [OF assms(2)] rsnap
    by (simp add: from_record_def into_checkpoint_def Let_def)
qed

lemma from_record_fields:
  assumes "from_record r codec = Inr c"
  shows "c_id c = r_id r \<and> c_thread_id c = r_thread_id r \<and> c_run_id c = r_run_id r
    \<and> c_parent_id c = r_parent_id r \<and> c_graph_version c = r_graph_version r
    \<and> c_superstep c = unat (r_superstep r) \<and> c_step c = unat (r_step r)
    \<and> c_next_frontier c = r_next_frontier r \<and> c_completed c = r_completed r"
  using assms by (auto simp: from_record_def Let_def split: if_splits sum.splits option.splits)

section \<open>Properties\<close>

text \<open>C25: with a codec that decodes what it encodes, a checkpoint request that was encoded as a
  durable record is read back as exactly the checkpoint it stands for: identity, lineage,
  counters, snapshot, frontier, completion and interrupt.\<close>

theorem checkpoint_record_roundtrip:
  assumes "codec_roundtrips codec" and "to_record q codec = Inr r"
  shows "from_record r codec = Inr (into_checkpoint q)"
  using assms by (rule from_record_to_record)

text \<open>A codec of raw bytes, whose interrupt payloads are the values of one type.\<close>

definition raw_codec :: "(byte list, byte list) checkpoint_codec" where
  "raw_codec =
     \<lparr>snapshot_descriptor = \<lparr>schema = ''raw'', schema_version = 1, encoding = ''bytes''\<rparr>,
      encode_snapshot = Inr, decode_snapshot = Inr,
      encode_interrupt = (\<lambda>p.
        if p = TypedValue 7 ''Bytes'' (tv_value p)
        then Inr \<lparr>descriptor = \<lparr>schema = ''Bytes'', schema_version = 1, encoding = ''bytes''\<rparr>,
                  bytes = tv_value p\<rparr>
        else default_encode_interrupt p),
      decode_interrupt = (\<lambda>ev.
        if schema (descriptor ev) = ''Bytes'' then Inr (TypedValue 7 ''Bytes'' (bytes ev))
        else default_decode_interrupt ev)\<rparr>"

lemma raw_codec_roundtrips: "codec_roundtrips raw_codec"
  by (auto simp: codec_roundtrips_def raw_codec_def default_encode_interrupt_def split: if_splits)

definition raw_request :: "(byte list, byte list) checkpoint_request" where
  "raw_request =
     request_new
       \<lparr>l_checkpoint_id = CheckpointId 3, l_expected_parent = Some (CheckpointId 2),
        l_graph_version = Some (GraphVersion ''v1''), l_thread_id = ThreadId ''t'',
        l_run_id = RunId 9\<rparr>
       4 6 [1, 2, 3] [node_path_root (NodeId ''review'')] False
       (Some \<lparr>ci_id = InterruptId 5, ci_node_path = node_path_root (NodeId ''review''),
              ci_payload = TypedValue 7 ''Bytes'' [8]\<rparr>)"

definition raw_record :: checkpoint_record where
  "raw_record =
     \<lparr>r_format_version = CURRENT, r_id = CheckpointId 3, r_thread_id = ThreadId ''t'',
      r_run_id = RunId 9, r_parent_id = Some (CheckpointId 2),
      r_graph_version = Some (GraphVersion ''v1''), r_superstep = 4, r_step = 6,
      r_snapshot = \<lparr>descriptor = \<lparr>schema = ''raw'', schema_version = 1, encoding = ''bytes''\<rparr>,
                    bytes = [1, 2, 3]\<rparr>,
      r_next_frontier = [node_path_root (NodeId ''review'')], r_completed = False,
      r_interrupt = Some \<lparr>ri_id = InterruptId 5, ri_node_path = node_path_root (NodeId ''review''),
        ri_payload = \<lparr>descriptor = \<lparr>schema = ''Bytes'', schema_version = 1, encoding = ''bytes''\<rparr>,
                      bytes = [8]\<rparr>\<rparr>\<rparr>"

lemma raw_request_encodes: "to_record raw_request raw_codec = Inr raw_record"
  by (simp add: to_record_def raw_request_def raw_codec_def raw_record_def request_new_def
      encode_record_interrupt_def u64_try_from_def try_from_parts_def)

lemma checkpoint_record_roundtrip_witness:
  "from_record raw_record raw_codec = Inr (into_checkpoint raw_request)"
  by (rule checkpoint_record_roundtrip [OF raw_codec_roundtrips raw_request_encodes])

end
