(* ===== verification/Errors.thy ===== *)
theory Errors
  imports Records
begin

text \<open>
  The error values of the crate (\<open>error.rs\<close>, and the write errors of \<open>checkpoint.rs\<close>).
  Constructors keep the code's names and field order; where two enums share a variant the
  constructor is used with its type's name in front. A boxed source is its message.
\<close>

section \<open>Source errors\<close>

datatype source_error = SourceError (as_message: string) (error_source: "string option")

type_synonym node_error = source_error
type_synonym state_error = source_error
type_synonym route_error = source_error
type_synonym snapshot_error = source_error

definition error_message :: "string \<Rightarrow> source_error" where
  "error_message m = SourceError m None"

definition error_with_source :: "string \<Rightarrow> string \<Rightarrow> source_error" where
  "error_with_source m s = SourceError m (Some s)"

section \<open>Builder and compiler errors\<close>

datatype (plugins only: code size) graph_build_error =
    DuplicateNode node_id
  | ReservedNodeId node_id
  | EmptyConditionalTargets node_id
  | DuplicateConditionalTarget node_id node_id
  | MultipleConditionalRouters node_id
  | EmptyConditionalFanOutTargets node_id
  | DuplicateConditionalFanOutTarget node_id node_id
  | MultipleConditionalFanOutRouters node_id
  | EmptyFanOutTargets node_id
  | DuplicateFanOutTarget node_id node_id
  | MultipleFanOutTransitions node_id
  | DuplicateSubgraphMount node_id

datatype (plugins only: code size) graph_compile_error =
    UnknownNode node_id node_id node_id
  | UnknownConditionalSource node_id
  | UnknownConditionalTarget node_id node_id
  | UnknownConditionalFanOutSource node_id
  | UnknownConditionalFanOutTarget node_id node_id
  | ConditionalFanOutTargetsSubgraph node_id node_id
  | UnknownFanOutSource node_id
  | UnknownFanOutTarget node_id node_id
  | MissingStartEdge
  | StartHasIncoming node_id
  | StartHasConditionalEdge
  | StartHasConditionalFanOut
  | StartHasFanOut
  | EndHasOutgoing node_id
  | EndHasConditionalEdge
  | EndHasConditionalFanOut
  | EndHasFanOut
  | MultipleStartEdges nat
  | MultipleOutgoingEdges node_id nat
  | MixedOutgoingEdgeKinds node_id
  | MissingOutgoingEdge node_id
  | UnreachableNode node_id
  | NoReachableEnd
  | SubgraphInParallelFrontier node_id
  | DuplicateNodePath node_path

section \<open>Checkpoint errors\<close>

datatype (plugins only: code size) checkpoint_incompatibility =
    UnversionedCheckpoint
  | UnversionedGraph
  | GraphVersionMismatch graph_version graph_version
  | ThreadMismatch thread_id
  | CheckpointIdMismatch checkpoint_id checkpoint_id
  | UnknownFrontierNode node_path
  | DuplicateFrontierNode node_path
  | NonCanonicalFrontierOrder node_path node_path
  | MixedFrontierNamespace graph_path graph_path node_path
  | StartInFrontier
  | EndInFrontier
  | CompletedWithFrontier
  | IncompleteWithoutFrontier
  | CompletedInterrupt
  | InvalidInterruptFrontier node_path "node_path list"

text \<open>
  \<open>CheckpointerError\<close> is a message with an optional source; the messages that format an
  identifier or wrap a source are constructors that carry it.
\<close>

datatype (plugins only: code size) checkpoint_write_error =
    Conflict "checkpoint_id option" "checkpoint_id option"
  | IdempotencyConflict checkpoint_id
  | BranchAlreadyExists branch_id
  | BranchNotFound branch_id
  | BranchSourceNotFound branch_id checkpoint_id
  | BranchUnsupported
  | Encoding checkpoint_encoding_error
  | Failed checkpointer_error
and checkpointer_error =
    CheckpointerMessage string
  | ConflictingContent checkpoint_id
  | ReconstructionFailed checkpoint_id checkpoint_reconstruction_error
  | BranchSaveFailed checkpoint_write_error

section \<open>Run errors\<close>

type_synonym duration = nat

datatype (plugins only: code size) graph_run_error =
    Cancelled run_id "node_path option" nat
  | RunTimedOut run_id duration "node_path option" nat
  | NodeTimedOut run_id duration node_path nat
  | MaxStepsExceeded nat node_path nat
  | NodeFailed node_path nat node_error
  | StateUpdateFailed node_path nat state_error
  | StateBatchUpdateFailed "node_path list" nat state_error
  | SnapshotFailed run_id thread_id nat nat snapshot_error
  | CheckpointConflict run_id thread_id nat nat "checkpoint_id option" "checkpoint_id option"
  | CheckpointIdConflict run_id thread_id checkpoint_id nat nat
  | CheckpointEncodeFailed run_id thread_id nat nat checkpoint_encoding_error
  | CheckpointSaveFailed run_id thread_id nat nat checkpointer_error
  | CheckpointLoadFailed run_id thread_id "checkpoint_id option" checkpointer_error
  | CheckpointNotFound run_id thread_id "checkpoint_id option"
  | ResumeConflict run_id thread_id checkpoint_id "checkpoint_id option" nat
  | BranchNotFound run_id thread_id branch_id nat
  | BranchCreationFailed run_id thread_id branch_id checkpoint_id nat checkpoint_write_error
  | BranchCheckpointConflict run_id thread_id branch_id nat nat
      "checkpoint_id option" "checkpoint_id option"
  | CheckpointIncompatible run_id thread_id checkpoint_id nat checkpoint_incompatibility
  | RestoreFailed run_id thread_id checkpoint_id nat nat snapshot_error
  | InterruptRequiresCheckpoint interrupt_id node_path nat
  | UnsupportedParallelInterrupt interrupt_id node_path nat
  | MissingResumeValue run_id thread_id checkpoint_id interrupt_id node_path nat
  | UnexpectedResumeValue run_id thread_id checkpoint_id nat
  | ReplayInterruptUnsupported run_id thread_id checkpoint_id interrupt_id node_path nat
  | RouteFailed node_path nat route_error
  | InvalidRouteTarget node_path node_path nat
  | EmptyRouteTargets node_path nat
  | DuplicateRouteTarget node_path node_path nat

end
