(* ===== verification/Nodes.thy ===== *)
theory Nodes
  imports Errors
begin

text \<open>
  State updates (\<open>state.rs\<close>), node contexts and run limits (\<open>context.rs\<close>) and the two kinds
  of node (\<open>node.rs\<close>). State and nodes are user code. A state is a record of its two
  operations; a node is a function that also reads and changes the world \<open>'w\<close>, which stands
  for everything an asynchronous call can observe or affect.
\<close>

section \<open>State updates\<close>

record 'u node_update =
  nu_node_path :: node_path
  nu_update :: 'u

definition node_update_new :: "node_path \<Rightarrow> 'u \<Rightarrow> 'u node_update" where
  "node_update_new p u = \<lparr>nu_node_path = p, nu_update = u\<rparr>"

record ('s, 'u) state_ops =
  apply_update :: "'s \<Rightarrow> 'u \<Rightarrow> state_error + 's"
  apply_batch :: "'s \<Rightarrow> 'u node_update list \<Rightarrow> state_error + 's"

text \<open>The batch operation a state gets when it does not override it.\<close>

definition default_apply_batch ::
    "('s \<Rightarrow> 'u \<Rightarrow> state_error + 's) \<Rightarrow> 's \<Rightarrow> 'u node_update list \<Rightarrow> state_error + 's" where
  "default_apply_batch app s updates =
     (case updates of
        [up] \<Rightarrow> app s (nu_update up)
      | _ \<Rightarrow> Inl (error_message ''parallel super-step produced several updates, but this state does not define apply_batch''))"

record ('s, 't) checkpoint_state_ops =
  snapshot :: "'s \<Rightarrow> snapshot_error + 't"
  restore :: "'t \<Rightarrow> snapshot_error + 's"

section \<open>Contexts and limits\<close>

type_synonym instant = nat
type_synonym cancellation_token = nat

record 'v node_context =
  ctx_step :: nat
  ctx_node_path :: node_path
  ctx_cancellation_token :: cancellation_token
  ctx_run_deadline :: "instant option"
  ctx_resume_value :: "'v resume_value option"

definition node_context_new ::
    "nat \<Rightarrow> node_path \<Rightarrow> cancellation_token \<Rightarrow> instant option \<Rightarrow> 'v resume_value option
      \<Rightarrow> 'v node_context" where
  "node_context_new step path token deadline v =
     \<lparr>ctx_step = step, ctx_node_path = path, ctx_cancellation_token = token,
      ctx_run_deadline = deadline, ctx_resume_value = v\<rparr>"

definition remaining_run_time :: "'v node_context \<Rightarrow> instant \<Rightarrow> duration option" where
  "remaining_run_time c now = map_option (\<lambda>deadline. deadline - now) (ctx_run_deadline c)"

definition context_resume_value :: "type_id \<Rightarrow> 'v node_context \<Rightarrow> 'v option" where
  "context_resume_value t c =
     (case ctx_resume_value c of None \<Rightarrow> None | Some v \<Rightarrow> downcast_ref t v)"

definition require_resume_value ::
    "type_id \<Rightarrow> string \<Rightarrow> 'v node_context \<Rightarrow> resume_value_error + 'v" where
  "require_resume_value t expected c =
     (case ctx_resume_value c of
        None \<Rightarrow> Inl (Missing expected)
      | Some v \<Rightarrow> (case downcast_ref t v of
          None \<Rightarrow> Inl (TypeMismatch expected (tv_type_name v))
        | Some x \<Rightarrow> Inr x))"

record run_config =
  max_steps :: nat

definition run_config_default :: run_config where
  "run_config_default = \<lparr>max_steps = 1000\<rparr>"

record run_control =
  cancellation_token :: "cancellation_token option"
  run_timeout :: "duration option"
  node_timeout :: "duration option"

definition run_control_new :: run_control where
  "run_control_new = \<lparr>cancellation_token = None, run_timeout = None, node_timeout = None\<rparr>"

section \<open>Nodes\<close>

datatype ('s, 'u, 'v, 'w) node_kind =
    Normal "'s \<Rightarrow> 'v node_context \<Rightarrow> 'w \<Rightarrow> (node_error + 'u) \<times> 'w"
  | Interruptible "'s \<Rightarrow> 'v node_context \<Rightarrow> 'w \<Rightarrow> (node_error + ('u, 'v) node_outcome) \<times> 'w"

text \<open>Running a node; a normal node's update is wrapped.\<close>

primrec run_node ::
    "('s, 'u, 'v, 'w) node_kind \<Rightarrow> 's \<Rightarrow> 'v node_context \<Rightarrow> 'w
      \<Rightarrow> (node_error + ('u, 'v) node_outcome) \<times> 'w" where
  "run_node (Normal f) s c w =
     (case f s c w of (Inl e, w') \<Rightarrow> (Inl e, w') | (Inr u, w') \<Rightarrow> (Inr (Update u), w'))"
| "run_node (Interruptible f) s c w = f s c w"

end
