(* ===== verification/Transitions.thy ===== *)
theory Transitions
  imports Nodes "HOL-Library.Product_Lexorder"
begin

text \<open>
  Compiled transitions (\<open>transition.rs\<close>): resolving the targets of a node after its update
  committed, and renumbering a transition when its graph is placed inside another. A router
  is user code over the state. \<open>path_at\<close> gives the path of a compiled item and may panic.
\<close>

type_synonym 's router = "'s \<Rightarrow> route_error + node_id"
type_synonym 's fan_out_router = "'s \<Rightarrow> route_error + node_id list"
type_synonym allowed = "(node_id \<times> nat option) list"

datatype 's compiled_transition =
    Fixed "nat option"
  | StaticFanOut "nat list"
  | Conditional "'s router" allowed
  | ConditionalFanOut "'s fan_out_router" allowed

datatype route_decision = Single node_path | Multiple "node_path list"

datatype transition_error =
    Router route_error
  | InvalidTarget node_id
  | EmptyTargets
  | DuplicateTarget node_id

section \<open>Resolving targets\<close>

fun option_list :: "'a option \<Rightarrow> 'a list" where
  "option_list None = []"
| "option_list (Some x) = [x]"

lemma set_option_list [simp]: "set (option_list x) = set_option x"
  by (cases x) auto

text \<open>The loop over the selected identifiers: no repetition, every one declared.\<close>

fun select_targets ::
    "allowed \<Rightarrow> node_id list \<Rightarrow> node_id list \<Rightarrow> transition_error + (nat option \<times> node_id) list" where
  "select_targets allowed seen [] = Inr []"
| "select_targets allowed seen (t # ts) =
     (if t \<in> set seen then Inl (DuplicateTarget t)
      else case map_of allowed t of
        None \<Rightarrow> Inl (InvalidTarget t)
      | Some target \<Rightarrow> (case select_targets allowed (t # seen) ts of
          Inl e \<Rightarrow> Inl e | Inr rest \<Rightarrow> Inr ((target, t) # rest)))"

definition target_key :: "nat option \<times> node_id \<Rightarrow> nat \<times> nat" where
  "target_key x = (case fst x of None \<Rightarrow> (1, usize_bound - 1) | Some i \<Rightarrow> (0, i))"

definition target_path ::
    "graph_path \<Rightarrow> (nat \<Rightarrow> node_path option) \<Rightarrow> nat option \<times> node_id \<Rightarrow> node_path option" where
  "target_path gp path_at x =
     (case fst x of None \<Rightarrow> Some (node_path_new gp (snd x)) | Some i \<Rightarrow> path_at i)"

definition resolve_into ::
    "'s compiled_transition \<Rightarrow> 's \<Rightarrow> graph_path \<Rightarrow> nat list \<Rightarrow> (nat \<Rightarrow> node_path option)
      \<Rightarrow> (transition_error, route_decision option \<times> nat list) result" where
  "resolve_into tr state gp targets path_at =
     (case tr of
        Fixed target \<Rightarrow> Ok (None, targets @ option_list target)
      | StaticFanOut idxs \<Rightarrow> Ok (None, targets @ idxs)
      | Conditional router allowed \<Rightarrow>
          (case router state of
             Inl e \<Rightarrow> Err (Router e)
           | Inr target_id \<Rightarrow> (case map_of allowed target_id of
               None \<Rightarrow> Err (InvalidTarget target_id)
             | Some target \<Rightarrow> (case target_path gp path_at (target, target_id) of
                 None \<Rightarrow> Panic
               | Some path \<Rightarrow> Ok (Some (Single path), targets @ option_list target))))
      | ConditionalFanOut router allowed \<Rightarrow>
          (case router state of
             Inl e \<Rightarrow> Err (Router e)
           | Inr selected \<Rightarrow>
               (if selected = [] then Err EmptyTargets
                else case select_targets allowed [] selected of
                  Inl e \<Rightarrow> Err e
                | Inr resolved \<Rightarrow>
                    (let sorted = sort_key target_key resolved in
                     case those (map (target_path gp path_at) sorted) of
                       None \<Rightarrow> Panic
                     | Some paths \<Rightarrow>
                         Ok (Some (Multiple paths),
                             targets @ concat (map (option_list \<circ> fst) sorted))))))"

section \<open>Renumbering\<close>

definition index_at :: "nat list \<Rightarrow> nat \<Rightarrow> nat option" where
  "index_at mapping i = (if i < length mapping then Some (mapping ! i) else None)"

definition remap_target :: "nat list \<Rightarrow> nat option \<Rightarrow> nat option option" where
  "remap_target mapping target =
     (case target of None \<Rightarrow> Some None | Some i \<Rightarrow> map_option Some (index_at mapping i))"

definition remap_allowed :: "nat list \<Rightarrow> allowed \<Rightarrow> allowed option" where
  "remap_allowed mapping allowed =
     those (map (\<lambda>(n, t). map_option (Pair n) (remap_target mapping t)) allowed)"

text \<open>\<open>None\<close> is the panic of an index outside the mapping.\<close>

definition remap :: "nat list \<Rightarrow> 's compiled_transition \<Rightarrow> 's compiled_transition option" where
  "remap mapping tr =
     (case tr of
        Fixed target \<Rightarrow> map_option Fixed (remap_target mapping target)
      | StaticFanOut idxs \<Rightarrow> map_option StaticFanOut (those (map (index_at mapping) idxs))
      | Conditional router allowed \<Rightarrow>
          map_option (Conditional router) (remap_allowed mapping allowed)
      | ConditionalFanOut router allowed \<Rightarrow>
          map_option (ConditionalFanOut router) (remap_allowed mapping allowed))"

section \<open>The possible targets of a transition\<close>

definition allowed_indices :: "allowed \<Rightarrow> nat set" where
  "allowed_indices allowed = {i. \<exists>n. (n, Some i) \<in> set allowed}"

fun transition_indices :: "'s compiled_transition \<Rightarrow> nat set" where
  "transition_indices (Fixed target) = set_option target"
| "transition_indices (StaticFanOut idxs) = set idxs"
| "transition_indices (Conditional router allowed) = allowed_indices allowed"
| "transition_indices (ConditionalFanOut router allowed) = allowed_indices allowed"

lemma map_of_allowed_indices: "map_of allowed n = Some (Some i) \<Longrightarrow> i \<in> allowed_indices allowed"
  by (auto simp: allowed_indices_def dest: map_of_SomeD)

lemma select_targets_lookup:
  "select_targets allowed seen ts = Inr rs \<Longrightarrow>
     map snd rs = ts \<and> (\<forall>(target, n) \<in> set rs. map_of allowed n = Some target)"
  by (induction allowed seen ts arbitrary: rs rule: select_targets.induct)
     (fastforce split: if_splits option.splits sum.splits)+

lemma select_targets_distinct:
  "select_targets allowed seen ts = Inr rs \<Longrightarrow> distinct ts \<and> set ts \<inter> set seen = {}"
  by (induction allowed seen ts arbitrary: rs rule: select_targets.induct)
     (auto split: if_splits option.splits sum.splits)

lemma select_targets_Inl_Duplicate:
  "select_targets allowed seen ts = Inl (DuplicateTarget t) \<Longrightarrow>
     \<not> (distinct ts \<and> set ts \<inter> set seen = {})"
  by (induction allowed seen ts rule: select_targets.induct)
     (auto split: if_splits option.splits sum.splits)

lemma select_targets_indices:
  assumes "select_targets allowed seen ts = Inr rs" and "(Some i, n) \<in> set rs"
  shows "i \<in> allowed_indices allowed"
  using select_targets_lookup [OF assms(1)] assms(2) by (auto intro: map_of_allowed_indices)

text \<open>Resolution only appends possible targets.\<close>

lemma resolve_into_targets:
  assumes "resolve_into tr state gp targets path_at = Ok (d, targets')"
  shows "\<exists>new. targets' = targets @ new \<and> set new \<subseteq> transition_indices tr"
proof (cases tr)
  case (ConditionalFanOut router allowed)
  then obtain selected rs where
    "select_targets allowed [] selected = Inr rs"
    and new: "targets' = targets @ concat (map (option_list \<circ> fst) (sort_key target_key rs))"
    using assms by (auto simp: resolve_into_def Let_def split: sum.splits if_splits option.splits)
  then show ?thesis
    using ConditionalFanOut by (auto dest: select_targets_indices)
qed (use assms in \<open>auto simp: resolve_into_def split: sum.splits option.splits
      intro: map_of_allowed_indices\<close>)

lemma those_eq_Some_iff: "those xs = Some ys \<longleftrightarrow> xs = map Some ys"
proof (induction xs arbitrary: ys)
  case (Cons x xs)
  then show ?case by (cases ys) (auto split: option.splits)
qed auto

lemma those_eq_None_iff: "those xs = None \<longleftrightarrow> None \<in> set xs"
  by (induction xs) (auto split: option.splits)

text \<open>Resolution panics only where \<open>path_at\<close> does.\<close>

lemma resolve_into_no_panic:
  assumes "\<forall>i \<in> transition_indices tr. path_at i \<noteq> None"
  shows "resolve_into tr state gp targets path_at \<noteq> Panic"
proof (cases tr)
  case (ConditionalFanOut router allowed)
  have ok: "those (map (target_path gp path_at) (sort_key target_key rs)) \<noteq> None"
    if "select_targets allowed [] selected = Inr rs" for selected rs
  proof -
    have "target_path gp path_at x \<noteq> None" if x: "x \<in> set rs" for x
    proof (cases x)
      case (Pair t n)
      then have "set_option t \<subseteq> transition_indices tr"
        using x ConditionalFanOut
          select_targets_indices [OF \<open>select_targets allowed [] selected = Inr rs\<close>]
        by (cases t) auto
      then show ?thesis
        using assms Pair by (cases t) (auto simp: target_path_def)
    qed
    then have "None \<notin> target_path gp path_at ` set rs" by (metis imageE)
    then show ?thesis by (simp add: those_eq_None_iff)
  qed
  show ?thesis
  proof
    assume "resolve_into tr state gp targets path_at = Panic"
    then obtain selected rs where "select_targets allowed [] selected = Inr rs"
      and "those (map (target_path gp path_at) (sort_key target_key rs)) = None"
      by (auto simp: ConditionalFanOut resolve_into_def Let_def
          split: sum.splits if_splits option.splits)
    then show False using ok by blast
  qed
next
  case (Conditional router allowed)
  have ok: "path_at i \<noteq> None" if "map_of allowed n = Some (Some i)" for n i
    using map_of_allowed_indices [OF that] assms Conditional by simp
  show ?thesis
    by (auto simp: Conditional resolve_into_def target_path_def split: sum.splits option.splits
        dest: ok)
qed (simp_all add: resolve_into_def)

section \<open>Renumbering by a block of fresh indices\<close>

text \<open>
  The compiler renumbers with a contiguous block: item \<open>i\<close> of the child becomes
  \<open>base + i\<close>. On such a mapping \<open>remap\<close> is total below the block's size.
\<close>

fun shift_transition :: "nat \<Rightarrow> 's compiled_transition \<Rightarrow> 's compiled_transition" where
  "shift_transition b (Fixed target) = Fixed (map_option ((+) b) target)"
| "shift_transition b (StaticFanOut idxs) = StaticFanOut (map ((+) b) idxs)"
| "shift_transition b (Conditional router allowed) =
     Conditional router (map (\<lambda>(n, t). (n, map_option ((+) b) t)) allowed)"
| "shift_transition b (ConditionalFanOut router allowed) =
     ConditionalFanOut router (map (\<lambda>(n, t). (n, map_option ((+) b) t)) allowed)"

lemma index_at_block: "i < n \<Longrightarrow> index_at [b..<b + n] i = Some (b + i)"
  by (simp add: index_at_def)

lemma remap_target_block:
  "set_option t \<subseteq> {..<n} \<Longrightarrow> remap_target [b..<b + n] t = Some (map_option ((+) b) t)"
  by (cases t) (auto simp: remap_target_def index_at_block)

lemma remap_allowed_block:
  "allowed_indices allowed \<subseteq> {..<n} \<Longrightarrow>
     remap_allowed [b..<b + n] allowed = Some (map (\<lambda>(m, t). (m, map_option ((+) b) t)) allowed)"
  unfolding remap_allowed_def those_eq_Some_iff map_map
proof (rule map_cong [OF refl])
  fix x assume "allowed_indices allowed \<subseteq> {..<n}" "x \<in> set allowed"
  then have "set_option (snd x) \<subseteq> {..<n}"
    by (cases x) (auto simp: allowed_indices_def)
  then show "(case x of (m, t) \<Rightarrow> map_option (Pair m) (remap_target [b..<b + n] t)) =
      (Some \<circ> (\<lambda>(m, t). (m, map_option ((+) b) t))) x"
    by (cases x) (simp add: remap_target_block)
qed

lemma remap_block:
  assumes "transition_indices tr \<subseteq> {..<n}"
  shows "remap [b..<b + n] tr = Some (shift_transition b tr)"
proof (cases tr)
  case (StaticFanOut idxs)
  then have "map (index_at [b..<b + n]) idxs = map Some (map ((+) b) idxs)"
    using assms by (auto simp: index_at_block subset_iff)
  then show ?thesis by (simp add: StaticFanOut remap_def those_eq_Some_iff)
qed (use assms in \<open>auto simp: remap_def remap_target_block remap_allowed_block\<close>)

lemma allowed_indices_Cons:
  "allowed_indices ((n, t) # allowed) = set_option t \<union> allowed_indices allowed"
  by (cases t) (auto simp: allowed_indices_def)

lemma allowed_indices_Nil [simp]: "allowed_indices [] = {}"
  by (simp add: allowed_indices_def)

lemma allowed_indices_shift:
  "allowed_indices (map (\<lambda>(n, t). (n, map_option ((+) b) t)) allowed) = (+) b ` allowed_indices allowed"
  by (induction allowed) (auto simp: allowed_indices_Cons option.set_map)

lemma transition_indices_shift [simp]:
  "transition_indices (shift_transition b tr) = (+) b ` transition_indices tr"
  by (cases tr) (auto simp: allowed_indices_shift option.set_map)

end
