(* ===== verification/Builder.thy ===== *)
theory Builder
  imports Transitions
begin

text \<open>
  The graph builder (\<open>StateGraph\<close> of \<open>graph.rs\<close>, with the edge types of \<open>edge.rs\<close>): declared
  items in insertion order, the four kinds of edge declarations, every registration operation
  with its checks in the code's order, and the invariant they keep. The compiled graph type is
  declared here because a declared item may be a compiled subgraph.
\<close>

section \<open>Compiled graphs\<close>

record ('s, 'u, 'v, 'w) compiled_node =
  cn_path :: node_path
  cn_graph_path :: graph_path
  cn_kind :: "('s, 'u, 'v, 'w) node_kind"
  cn_transition :: "'s compiled_transition"

datatype ('s, 'u, 'v, 'w) compiled_item =
    Node "('s, 'u, 'v, 'w) compiled_node"
  | EnterSubgraph graph_path "'s compiled_transition"
  | ExitSubgraph graph_path node_path "'s compiled_transition"

record ('s, 'u, 'v, 'w) compiled_graph =
  cg_items :: "('s, 'u, 'v, 'w) compiled_item list"
  cg_node_paths :: "(node_path \<times> nat) list"
  cg_scope_exits :: "(graph_path \<times> nat) list"
  cg_entry_index :: "nat option"
  cg_version :: "graph_version option"

section \<open>Declarations\<close>

datatype ('s, 'u, 'v, 'w) declared_item =
    DeclaredNode "('s, 'u, 'v, 'w) node_kind"
  | Subgraph "('s, 'u, 'v, 'w) compiled_graph"

primrec is_subgraph :: "('s, 'u, 'v, 'w) declared_item \<Rightarrow> bool" where
  "is_subgraph (DeclaredNode k) = False"
| "is_subgraph (Subgraph g) = True"

record fixed_edge =
  fe_from :: node_id
  fe_to :: node_id

record fan_out_edge =
  fo_source :: node_id
  fo_targets :: "node_id list"

record 's conditional_edge =
  ce_source :: node_id
  ce_allowed_targets :: "node_id list"
  ce_router :: "'s router"

record 's conditional_fan_out_edge =
  cf_source :: node_id
  cf_allowed_targets :: "node_id list"
  cf_router :: "'s fan_out_router"

record ('s, 'u, 'v, 'w) state_graph =
  sg_items :: "(node_id \<times> ('s, 'u, 'v, 'w) declared_item) list"
  sg_fixed_edges :: "fixed_edge list"
  sg_fan_out_edges :: "fan_out_edge list"
  sg_conditional_edges :: "'s conditional_edge list"
  sg_conditional_fan_out_edges :: "'s conditional_fan_out_edge list"
  sg_version :: "graph_version option"

definition state_graph_new :: "('s, 'u, 'v, 'w) state_graph" where
  "state_graph_new =
     \<lparr>sg_items = [], sg_fixed_edges = [], sg_fan_out_edges = [], sg_conditional_edges = [],
      sg_conditional_fan_out_edges = [], sg_version = None\<rparr>"

definition set_version ::
    "('s, 'u, 'v, 'w) state_graph \<Rightarrow> graph_version \<Rightarrow> ('s, 'u, 'v, 'w) state_graph" where
  "set_version g v = g\<lparr>sg_version := Some v\<rparr>"

definition insert_node ::
    "('s, 'u, 'v, 'w) state_graph \<Rightarrow> node_id \<Rightarrow> ('s, 'u, 'v, 'w) node_kind
      \<Rightarrow> graph_build_error + ('s, 'u, 'v, 'w) state_graph" where
  "insert_node g n k =
     (if is_reserved n then Inl (ReservedNodeId n)
      else if im_contains (sg_items g) n then Inl (DuplicateNode n)
      else Inr (g\<lparr>sg_items := im_insert n (DeclaredNode k) (sg_items g)\<rparr>))"

definition add_node where
  "add_node g n f = insert_node g n (Normal f)"

definition add_interruptible_node where
  "add_interruptible_node g n f = insert_node g n (Interruptible f)"

definition add_subgraph ::
    "('s, 'u, 'v, 'w) state_graph \<Rightarrow> node_id \<Rightarrow> ('s, 'u, 'v, 'w) compiled_graph
      \<Rightarrow> graph_build_error + ('s, 'u, 'v, 'w) state_graph" where
  "add_subgraph g n sub =
     (if is_reserved n then Inl (ReservedNodeId n)
      else case map_of (sg_items g) n of
        Some existing \<Rightarrow>
          Inl (if is_subgraph existing then DuplicateSubgraphMount n else DuplicateNode n)
      | None \<Rightarrow> Inr (g\<lparr>sg_items := im_insert n (Subgraph sub) (sg_items g)\<rparr>))"

definition add_edge ::
    "('s, 'u, 'v, 'w) state_graph \<Rightarrow> node_id \<Rightarrow> node_id \<Rightarrow> ('s, 'u, 'v, 'w) state_graph" where
  "add_edge g from to =
     g\<lparr>sg_fixed_edges := sg_fixed_edges g @ [\<lparr>fe_from = from, fe_to = to\<rparr>]\<rparr>"

definition add_fan_out ::
    "('s, 'u, 'v, 'w) state_graph \<Rightarrow> node_id \<Rightarrow> node_id list
      \<Rightarrow> graph_build_error + ('s, 'u, 'v, 'w) state_graph" where
  "add_fan_out g source targets =
     (if \<exists>e \<in> set (sg_fan_out_edges g). fo_source e = source
      then Inl (MultipleFanOutTransitions source)
      else if targets = [] then Inl (EmptyFanOutTargets source)
      else case first_dup [] targets of
        Some t \<Rightarrow> Inl (DuplicateFanOutTarget source t)
      | None \<Rightarrow> Inr (g\<lparr>sg_fan_out_edges := sg_fan_out_edges g
                        @ [\<lparr>fo_source = source, fo_targets = targets\<rparr>]\<rparr>))"

definition add_conditional_edges ::
    "('s, 'u, 'v, 'w) state_graph \<Rightarrow> node_id \<Rightarrow> node_id list \<Rightarrow> 's router
      \<Rightarrow> graph_build_error + ('s, 'u, 'v, 'w) state_graph" where
  "add_conditional_edges g source allowed router =
     (if \<exists>e \<in> set (sg_conditional_edges g). ce_source e = source
      then Inl (MultipleConditionalRouters source)
      else if allowed = [] then Inl (EmptyConditionalTargets source)
      else case first_dup [] allowed of
        Some t \<Rightarrow> Inl (DuplicateConditionalTarget source t)
      | None \<Rightarrow> Inr (g\<lparr>sg_conditional_edges := sg_conditional_edges g
                        @ [\<lparr>ce_source = source, ce_allowed_targets = allowed,
                            ce_router = router\<rparr>]\<rparr>))"

definition add_conditional_fan_out ::
    "('s, 'u, 'v, 'w) state_graph \<Rightarrow> node_id \<Rightarrow> node_id list \<Rightarrow> 's fan_out_router
      \<Rightarrow> graph_build_error + ('s, 'u, 'v, 'w) state_graph" where
  "add_conditional_fan_out g source allowed router =
     (if \<exists>e \<in> set (sg_conditional_fan_out_edges g). cf_source e = source
      then Inl (MultipleConditionalFanOutRouters source)
      else if allowed = [] then Inl (EmptyConditionalFanOutTargets source)
      else case first_dup [] allowed of
        Some t \<Rightarrow> Inl (DuplicateConditionalFanOutTarget source t)
      | None \<Rightarrow> Inr (g\<lparr>sg_conditional_fan_out_edges := sg_conditional_fan_out_edges g
                        @ [\<lparr>cf_source = source, cf_allowed_targets = allowed,
                            cf_router = router\<rparr>]\<rparr>))"

section \<open>The builder invariant\<close>

text \<open>
  Items have distinct, unreserved identifiers; every source has at most one transition of each
  router or fan-out kind, and its targets are distinct and not empty.
\<close>

definition targets_wf :: "node_id list \<Rightarrow> bool" where
  "targets_wf ts \<longleftrightarrow> ts \<noteq> [] \<and> distinct ts"

definition builder_wf :: "('s, 'u, 'v, 'w) state_graph \<Rightarrow> bool" where
  "builder_wf g \<longleftrightarrow>
     distinct (map fst (sg_items g))
     \<and> (\<forall>n \<in> fst ` set (sg_items g). \<not> is_reserved n)
     \<and> distinct (map fo_source (sg_fan_out_edges g))
     \<and> (\<forall>e \<in> set (sg_fan_out_edges g). targets_wf (fo_targets e))
     \<and> distinct (map ce_source (sg_conditional_edges g))
     \<and> (\<forall>e \<in> set (sg_conditional_edges g). targets_wf (ce_allowed_targets e))
     \<and> distinct (map cf_source (sg_conditional_fan_out_edges g))
     \<and> (\<forall>e \<in> set (sg_conditional_fan_out_edges g). targets_wf (cf_allowed_targets e))"

lemmas builder_op_defs =
  insert_node_def add_node_def add_interruptible_node_def add_subgraph_def add_edge_def
  add_fan_out_def add_conditional_edges_def add_conditional_fan_out_def set_version_def

lemma builder_wf_new: "builder_wf state_graph_new"
  by (simp add: builder_wf_def state_graph_new_def)

lemma builder_wf_items:
  assumes "builder_wf g" and "n \<notin> fst ` set (sg_items g)" and "\<not> is_reserved n"
  shows "builder_wf (g\<lparr>sg_items := im_insert n x (sg_items g)\<rparr>)"
  using assms by (auto simp: builder_wf_def im_insert_fresh)

lemma builder_wf_insert_node:
  "builder_wf g \<Longrightarrow> insert_node g n k = Inr g' \<Longrightarrow> builder_wf g'"
  by (auto simp: insert_node_def im_contains_iff builder_wf_items split: if_splits)

lemma builder_wf_add_subgraph:
  "builder_wf g \<Longrightarrow> add_subgraph g n sub = Inr g' \<Longrightarrow> builder_wf g'"
  by (auto simp: add_subgraph_def map_of_eq_None_iff builder_wf_items
      split: if_splits option.splits)

lemma builder_wf_add_edge: "builder_wf g \<Longrightarrow> builder_wf (add_edge g a b)"
  by (simp add: builder_wf_def add_edge_def)

lemma builder_wf_set_version: "builder_wf g \<Longrightarrow> builder_wf (set_version g v)"
  by (simp add: builder_wf_def set_version_def)

lemma builder_wf_add_fan_out:
  "builder_wf g \<Longrightarrow> add_fan_out g s ts = Inr g' \<Longrightarrow> builder_wf g'"
  by (auto simp: add_fan_out_def builder_wf_def targets_wf_def first_dup_None_iff
      split: if_splits option.splits)

lemma builder_wf_add_conditional_edges:
  "builder_wf g \<Longrightarrow> add_conditional_edges g s ts r = Inr g' \<Longrightarrow> builder_wf g'"
  by (auto simp: add_conditional_edges_def builder_wf_def targets_wf_def first_dup_None_iff
      split: if_splits option.splits)

lemma builder_wf_add_conditional_fan_out:
  "builder_wf g \<Longrightarrow> add_conditional_fan_out g s ts r = Inr g' \<Longrightarrow> builder_wf g'"
  by (auto simp: add_conditional_fan_out_def builder_wf_def targets_wf_def first_dup_None_iff
      split: if_splits option.splits)

section \<open>Builder programs\<close>

text \<open>
  A builder program is a sequence of registrations. A call that returns an error leaves the
  builder as it was, so the program may go on after a rejected call.
\<close>

datatype ('s, 'u, 'v, 'w) builder_call =
    CallAddNode node_id "('s, 'u, 'v, 'w) node_kind"
  | CallAddSubgraph node_id "('s, 'u, 'v, 'w) compiled_graph"
  | CallAddEdge node_id node_id
  | CallAddFanOut node_id "node_id list"
  | CallAddConditionalEdges node_id "node_id list" "'s router"
  | CallAddConditionalFanOut node_id "node_id list" "'s fan_out_router"
  | CallSetVersion graph_version

primrec builder_step ::
    "('s, 'u, 'v, 'w) state_graph \<Rightarrow> ('s, 'u, 'v, 'w) builder_call
      \<Rightarrow> graph_build_error + ('s, 'u, 'v, 'w) state_graph" where
  "builder_step g (CallAddNode n k) = insert_node g n k"
| "builder_step g (CallAddSubgraph n sub) = add_subgraph g n sub"
| "builder_step g (CallAddEdge a b) = Inr (add_edge g a b)"
| "builder_step g (CallAddFanOut s ts) = add_fan_out g s ts"
| "builder_step g (CallAddConditionalEdges s ts r) = add_conditional_edges g s ts r"
| "builder_step g (CallAddConditionalFanOut s ts r) = add_conditional_fan_out g s ts r"
| "builder_step g (CallSetVersion v) = Inr (set_version g v)"

fun builder_run ::
    "('s, 'u, 'v, 'w) state_graph \<Rightarrow> ('s, 'u, 'v, 'w) builder_call list
      \<Rightarrow> ('s, 'u, 'v, 'w) state_graph" where
  "builder_run g [] = g"
| "builder_run g (c # cs) =
     (case builder_step g c of Inl e \<Rightarrow> builder_run g cs | Inr g' \<Rightarrow> builder_run g' cs)"

lemma builder_step_wf: "builder_wf g \<Longrightarrow> builder_step g c = Inr g' \<Longrightarrow> builder_wf g'"
  by (cases c)
     (auto dest: builder_wf_insert_node builder_wf_add_subgraph builder_wf_add_fan_out
        builder_wf_add_conditional_edges builder_wf_add_conditional_fan_out
        simp: builder_wf_add_edge builder_wf_set_version)

lemma builder_run_wf: "builder_wf g \<Longrightarrow> builder_wf (builder_run g cs)"
  by (induction cs arbitrary: g) (auto split: sum.split dest: builder_step_wf)

text \<open>
  Subgraphs mounted by a program are the ones the program names; a property of all of them
  therefore holds of every declared subgraph.
\<close>

definition items_all ::
    "(('s, 'u, 'v, 'w) compiled_graph \<Rightarrow> bool) \<Rightarrow> ('s, 'u, 'v, 'w) state_graph \<Rightarrow> bool" where
  "items_all P g \<longleftrightarrow> (\<forall>n sub. (n, Subgraph sub) \<in> set (sg_items g) \<longrightarrow> P sub)"

lemma builder_step_items_all:
  assumes "items_all P g" and "builder_step g c = Inr g'"
    and "\<And>n sub. c = CallAddSubgraph n sub \<Longrightarrow> P sub"
  shows "items_all P g'"
  using assms im_insert_set_subset
  by (cases c)
     (fastforce simp: items_all_def builder_op_defs split: if_splits option.splits)+

section \<open>Properties\<close>

text \<open>C4: whatever a program registers, in whatever order and with whatever rejected calls in
  between, the builder stays well formed: declared identifiers are unique and never reserved, a
  source has at most one fan-out, router or fan-out router, and its targets are distinct and not
  empty.\<close>

theorem builder_programs_well_formed: "builder_wf (builder_run state_graph_new cs)"
  by (rule builder_run_wf [OF builder_wf_new])

end
