(* ===== verification/Edges.thy ===== *)
theory Edges
  imports Builder
begin

text \<open>
  The first half of graph compilation (\<open>aggregate_edges\<close>, \<open>validate_edge_shapes\<close>, the topology
  and \<open>validate_reachability\<close> of \<open>graph.rs\<close>). Depth-first search belongs to \<open>petgraph\<close> and is
  a parameter, as a function from an edge list and a start index to the visited indices. An
  indexing expression that misses its key is a \<open>Panic\<close>.
\<close>

section \<open>Combinators\<close>

fun of_sum :: "'e + 'a \<Rightarrow> ('e, 'a) result" where
  "of_sum (Inl e) = Err e"
| "of_sum (Inr a) = Ok a"

fun of_check :: "'e option \<Rightarrow> ('e, unit) result" where
  "of_check None = Ok ()"
| "of_check (Some e) = Err e"

fun of_index :: "'a option \<Rightarrow> ('e, 'a) result" where
  "of_index None = Panic"
| "of_index (Some a) = Ok a"

fun each_res :: "('a \<Rightarrow> ('e, unit) result) \<Rightarrow> 'a list \<Rightarrow> ('e, unit) result" where
  "each_res f [] = Ok ()"
| "each_res f (x # xs) = result_bind (f x) (\<lambda>_. each_res f xs)"

section \<open>Aggregated edges\<close>

text \<open>Fixed edges keep a count and the first successor, as \<open>FixedOutgoing\<close> does.\<close>

record 's edge_aggregation =
  ea_fixed :: "(node_id \<times> nat \<times> node_id) list"
  ea_fan_out :: "(node_id \<times> fan_out_edge) list"
  ea_conditional :: "(node_id \<times> 's conditional_edge) list"
  ea_conditional_fan_out :: "(node_id \<times> 's conditional_fan_out_edge) list"

type_synonym ('s, 'u, 'v, 'w) declared_items = "(node_id \<times> ('s, 'u, 'v, 'w) declared_item) list"

definition check_fixed_edge ::
    "('s, 'u, 'v, 'w) declared_items \<Rightarrow> fixed_edge \<Rightarrow> graph_compile_error option" where
  "check_fixed_edge items e =
     (case each_ok (\<lambda>endpoint.
              if \<not> is_reserved endpoint \<and> \<not> im_contains items endpoint
              then Some (UnknownNode (fe_from e) (fe_to e) endpoint) else None)
            [fe_from e, fe_to e] of
        Some err \<Rightarrow> Some err
      | None \<Rightarrow>
          (if is_start (fe_to e) then Some (StartHasIncoming (fe_from e))
           else if is_end (fe_from e) then Some (EndHasOutgoing (fe_to e))
           else None))"

definition add_fixed ::
    "fixed_edge \<Rightarrow> (node_id \<times> nat \<times> node_id) list \<Rightarrow> (node_id \<times> nat \<times> node_id) list" where
  "add_fixed e m =
     (case map_of m (fe_from e) of
        Some (count, successor) \<Rightarrow> im_insert (fe_from e) (count + 1, successor) m
      | None \<Rightarrow> im_insert (fe_from e) (1, fe_to e) m)"

fun aggregate_fixed where
  "aggregate_fixed items [] m = Inr m"
| "aggregate_fixed items (e # es) m =
     (case check_fixed_edge items e of
        Some err \<Rightarrow> Inl err
      | None \<Rightarrow> aggregate_fixed items es (add_fixed e m))"

definition check_conditional_edge ::
    "('s, 'u, 'v, 'w) declared_items \<Rightarrow> 's conditional_edge \<Rightarrow> graph_compile_error option" where
  "check_conditional_edge items e =
     (if is_start (ce_source e) then Some StartHasConditionalEdge
      else if is_end (ce_source e) then Some EndHasConditionalEdge
      else if \<not> im_contains items (ce_source e) then Some (UnknownConditionalSource (ce_source e))
      else each_ok (\<lambda>target.
             if is_start target then Some (StartHasIncoming (ce_source e))
             else if \<not> is_end target \<and> \<not> im_contains items target
             then Some (UnknownConditionalTarget (ce_source e) target)
             else None) (ce_allowed_targets e))"

definition check_fan_out_edge ::
    "('s, 'u, 'v, 'w) declared_items \<Rightarrow> fan_out_edge \<Rightarrow> graph_compile_error option" where
  "check_fan_out_edge items e =
     (if is_start (fo_source e) then Some StartHasFanOut
      else if is_end (fo_source e) then Some EndHasFanOut
      else if \<not> im_contains items (fo_source e) then Some (UnknownFanOutSource (fo_source e))
      else each_ok (\<lambda>target.
             if is_start target then Some (StartHasIncoming (fo_source e))
             else if \<not> is_end target \<and> \<not> im_contains items target
             then Some (UnknownFanOutTarget (fo_source e) target)
             else None) (fo_targets e))"

definition check_conditional_fan_out_edge ::
    "('s, 'u, 'v, 'w) declared_items \<Rightarrow> 's conditional_fan_out_edge
      \<Rightarrow> graph_compile_error option" where
  "check_conditional_fan_out_edge items e =
     (if is_start (cf_source e) then Some StartHasConditionalFanOut
      else if is_end (cf_source e) then Some EndHasConditionalFanOut
      else if \<not> im_contains items (cf_source e)
      then Some (UnknownConditionalFanOutSource (cf_source e))
      else each_ok (\<lambda>target.
             if is_start target then Some (StartHasIncoming (cf_source e))
             else if is_end target then None
             else case map_of items target of
               None \<Rightarrow> Some (UnknownConditionalFanOutTarget (cf_source e) target)
             | Some item \<Rightarrow>
                 (if is_subgraph item
                  then Some (ConditionalFanOutTargetsSubgraph (cf_source e) target) else None))
           (cf_allowed_targets e))"

text \<open>The three other loops have one shape: check the edge, then insert it under its source.\<close>

fun aggregate_by ::
    "('e \<Rightarrow> graph_compile_error option) \<Rightarrow> ('e \<Rightarrow> node_id) \<Rightarrow> 'e list \<Rightarrow> (node_id \<times> 'e) list
      \<Rightarrow> graph_compile_error + (node_id \<times> 'e) list" where
  "aggregate_by check src [] m = Inr m"
| "aggregate_by check src (e # es) m =
     (case check e of
        Some err \<Rightarrow> Inl err
      | None \<Rightarrow> aggregate_by check src es (im_insert (src e) e m))"

definition aggregate_edges ::
    "('s, 'u, 'v, 'w) state_graph \<Rightarrow> graph_compile_error + 's edge_aggregation" where
  "aggregate_edges g =
     (let items = sg_items g in
      case aggregate_fixed items (sg_fixed_edges g) [] of Inl e \<Rightarrow> Inl e | Inr fixed \<Rightarrow>
      (case aggregate_by (check_conditional_edge items) ce_source (sg_conditional_edges g) [] of
         Inl e \<Rightarrow> Inl e | Inr cond \<Rightarrow>
      (case aggregate_by (check_fan_out_edge items) fo_source (sg_fan_out_edges g) [] of
         Inl e \<Rightarrow> Inl e | Inr fan \<Rightarrow>
      (case aggregate_by (check_conditional_fan_out_edge items) cf_source
              (sg_conditional_fan_out_edges g) [] of
         Inl e \<Rightarrow> Inl e | Inr cfan \<Rightarrow>
           Inr \<lparr>ea_fixed = fixed, ea_fan_out = fan, ea_conditional = cond,
                ea_conditional_fan_out = cfan\<rparr>))))"

section \<open>Edge shapes\<close>

definition fixed_count :: "'s edge_aggregation \<Rightarrow> node_id \<Rightarrow> nat" where
  "fixed_count ea n = (case map_of (ea_fixed ea) n of None \<Rightarrow> 0 | Some (count, _) \<Rightarrow> count)"

definition kind_count :: "'s edge_aggregation \<Rightarrow> node_id \<Rightarrow> nat" where
  "kind_count ea n =
     of_bool (fixed_count ea n = 1) + of_bool (im_contains (ea_fan_out ea) n)
     + of_bool (im_contains (ea_conditional ea) n)
     + of_bool (im_contains (ea_conditional_fan_out ea) n)"

definition validate_edge_shapes ::
    "('s, 'u, 'v, 'w) state_graph \<Rightarrow> 's edge_aggregation \<Rightarrow> graph_compile_error option" where
  "validate_edge_shapes g ea =
     (let start_count = fixed_count ea node_id_start in
      if start_count = 0 then Some MissingStartEdge
      else if start_count \<noteq> 1 then Some (MultipleStartEdges start_count)
      else each_ok (\<lambda>n.
             if fixed_count ea n > 1 then Some (MultipleOutgoingEdges n (fixed_count ea n))
             else if kind_count ea n > 1 then Some (MixedOutgoingEdgeKinds n)
             else None) (map fst (sg_items g)))"

section \<open>Topology and reachability\<close>

datatype topology_edge = TopoFixed | TopoFanOut | TopoConditional | TopoConditionalFanOut

type_synonym dfs_search = "(nat \<times> nat) list \<Rightarrow> nat \<Rightarrow> nat list"

text \<open>What the visitor documents: it visits exactly the indices reachable from the start.\<close>

definition dfs_correct :: "dfs_search \<Rightarrow> bool" where
  "dfs_correct dfs \<longleftrightarrow> (\<forall>es s. set (dfs es s) = {t. (s, t) \<in> (set es)\<^sup>*})"

definition topology_indices :: "('s, 'u, 'v, 'w) state_graph \<Rightarrow> (node_id \<times> nat) list" where
  "topology_indices g =
     (let ids = node_id_start # map fst (sg_items g) @ [node_id_end]
      in fold (\<lambda>(n, i) m. im_insert n i m) (zip ids [0..<length ids]) [])"

definition declared_edges ::
    "('s, 'u, 'v, 'w) state_graph \<Rightarrow> (node_id \<times> node_id \<times> topology_edge) list" where
  "declared_edges g =
     map (\<lambda>e. (fe_from e, fe_to e, TopoFixed)) (sg_fixed_edges g)
     @ concat (map (\<lambda>e. map (\<lambda>t. (fo_source e, t, TopoFanOut)) (fo_targets e))
         (sg_fan_out_edges g))
     @ concat (map (\<lambda>e. map (\<lambda>t. (ce_source e, t, TopoConditional)) (ce_allowed_targets e))
         (sg_conditional_edges g))
     @ concat (map (\<lambda>e. map (\<lambda>t. (cf_source e, t, TopoConditionalFanOut)) (cf_allowed_targets e))
         (sg_conditional_fan_out_edges g))"

definition topology_edge_at ::
    "(node_id \<times> nat) list \<Rightarrow> node_id \<times> node_id \<times> topology_edge \<Rightarrow> (nat \<times> nat) option" where
  "topology_edge_at indices e =
     (case e of (a, b, _) \<Rightarrow>
        (case map_of indices a of None \<Rightarrow> None
         | Some i \<Rightarrow> (case map_of indices b of None \<Rightarrow> None | Some j \<Rightarrow> Some (i, j))))"

definition topology_edges ::
    "('s, 'u, 'v, 'w) state_graph \<Rightarrow> (nat \<times> nat) list option" where
  "topology_edges g = those (map (topology_edge_at (topology_indices g)) (declared_edges g))"

definition has_outgoing :: "'s edge_aggregation \<Rightarrow> node_id \<Rightarrow> bool" where
  "has_outgoing ea n \<longleftrightarrow>
     im_contains (ea_fixed ea) n \<or> im_contains (ea_fan_out ea) n
     \<or> im_contains (ea_conditional ea) n \<or> im_contains (ea_conditional_fan_out ea) n"

definition validate_reachability ::
    "('s, 'u, 'v, 'w) state_graph \<Rightarrow> 's edge_aggregation \<Rightarrow> (node_id \<times> nat) list \<Rightarrow> nat list
      \<Rightarrow> (graph_compile_error, unit) result" where
  "validate_reachability g ea indices reachable =
     result_bind
       (each_res (\<lambda>n. result_bind (of_index (map_of indices n)) (\<lambda>i.
          if i \<in> set reachable then Ok () else Err (UnreachableNode n))) (map fst (sg_items g)))
       (\<lambda>_. result_bind
         (of_check (each_ok (\<lambda>n. if has_outgoing ea n then None else Some (MissingOutgoingEdge n))
            (map fst (sg_items g))))
         (\<lambda>_. result_bind (of_index (map_of indices node_id_end)) (\<lambda>end_index.
            if end_index \<in> set reachable then Ok () else Err NoReachableEnd)))"

definition validate_topology ::
    "dfs_search \<Rightarrow> ('s, 'u, 'v, 'w) state_graph \<Rightarrow> 's edge_aggregation
      \<Rightarrow> (graph_compile_error, unit) result" where
  "validate_topology dfs g ea =
     (let indices = topology_indices g in
      result_bind (of_index (map_of indices node_id_start)) (\<lambda>start_index.
      result_bind (of_index (topology_edges g)) (\<lambda>edges.
        validate_reachability g ea indices (dfs edges start_index))))"

end
