(* ===== verification/Frontiers.thy ===== *)
theory Frontiers
  imports Edges "HOL-Library.Char_ord" "HOL-Library.List_Lexorder"
begin

text \<open>
  The analysis that keeps subgraph mounts out of parallel frontiers
  (\<open>validate_subgraph_frontiers\<close> of \<open>graph.rs\<close>): a worklist over unordered pairs of nodes that
  may run in the same super-step. The worklist terminates because each pair is queued once;
  its result is characterised by the least set of co-schedulable pairs.
\<close>

section \<open>Parallel frontiers\<close>

type_synonym pair_queue = "(node_id \<times> node_id) list \<times> (node_id \<times> node_id) list"

fun keep_first :: "'a list \<Rightarrow> 'a list \<Rightarrow> 'a list" where
  "keep_first seen [] = []"
| "keep_first seen (x # xs) =
     (if x \<in> set seen then keep_first seen xs else x # keep_first (x # seen) xs)"

definition canonical_pair :: "node_id \<Rightarrow> node_id \<Rightarrow> node_id \<times> node_id" where
  "canonical_pair left right = (if as_str left \<le> as_str right then (left, right) else (right, left))"

definition queue_pair :: "node_id \<times> node_id \<Rightarrow> pair_queue \<Rightarrow> pair_queue" where
  "queue_pair p q = (if p \<in> set (fst q) then q else (p # fst q, snd q @ [p]))"

fun enqueue_right ::
    "(node_id \<Rightarrow> bool) \<Rightarrow> node_id \<Rightarrow> node_id list \<Rightarrow> pair_queue \<Rightarrow> graph_compile_error + pair_queue"
where
  "enqueue_right is_sub left [] q = Inr q"
| "enqueue_right is_sub left (right # rs) q =
     (if is_sub left then Inl (SubgraphInParallelFrontier left)
      else if is_sub right then Inl (SubgraphInParallelFrontier right)
      else enqueue_right is_sub left rs (queue_pair (canonical_pair left right) q))"

fun enqueue_pairs ::
    "(node_id \<Rightarrow> bool) \<Rightarrow> node_id list \<Rightarrow> pair_queue \<Rightarrow> graph_compile_error + pair_queue" where
  "enqueue_pairs is_sub [] q = Inr q"
| "enqueue_pairs is_sub (l # ls) q =
     (case enqueue_right is_sub l ls q of Inl e \<Rightarrow> Inl e | Inr q' \<Rightarrow> enqueue_pairs is_sub ls q')"

definition enqueue_frontier ::
    "(node_id \<Rightarrow> bool) \<Rightarrow> node_id list \<Rightarrow> pair_queue \<Rightarrow> graph_compile_error + pair_queue" where
  "enqueue_frontier is_sub frontier q =
     enqueue_pairs is_sub (keep_first [] (filter (\<lambda>n. \<not> is_end n) frontier)) q"

fun enqueue_all ::
    "(node_id \<Rightarrow> bool) \<Rightarrow> node_id list list \<Rightarrow> pair_queue \<Rightarrow> graph_compile_error + pair_queue" where
  "enqueue_all is_sub [] q = Inr q"
| "enqueue_all is_sub (f # fs) q =
     (case enqueue_frontier is_sub f q of Inl e \<Rightarrow> Inl e | Inr q' \<Rightarrow> enqueue_all is_sub fs q')"

definition executable_target :: "node_id \<Rightarrow> node_id list" where
  "executable_target t = (if is_end t then [] else [t])"

definition transition_alternatives :: "'s edge_aggregation \<Rightarrow> node_id \<Rightarrow> node_id list list" where
  "transition_alternatives ea src =
     (if is_end src then [[]]
      else case map_of (ea_fixed ea) src of
        Some (_, successor) \<Rightarrow> [executable_target successor]
      | None \<Rightarrow> (case map_of (ea_fan_out ea) src of
        Some e \<Rightarrow> [filter (\<lambda>t. \<not> is_end t) (fo_targets e)]
      | None \<Rightarrow> (case map_of (ea_conditional_fan_out ea) src of
        Some e \<Rightarrow> [filter (\<lambda>t. \<not> is_end t) (cf_allowed_targets e)]
      | None \<Rightarrow> (case map_of (ea_conditional ea) src of
        None \<Rightarrow> [[]]
      | Some e \<Rightarrow> map executable_target (ce_allowed_targets e)))))"

text \<open>The frontiers a pair of nodes can produce together, in the order of the two loops.\<close>

definition pair_frontiers ::
    "'s edge_aggregation \<Rightarrow> node_id \<Rightarrow> node_id \<Rightarrow> node_id list list" where
  "pair_frontiers ea left right =
     concat (map (\<lambda>lt. map (\<lambda>rt. keep_first [] (lt @ rt)) (transition_alternatives ea right))
       (transition_alternatives ea left))"

section \<open>What one enqueue does\<close>

text \<open>
  The queue after an enqueue: the new pairs are in front of the seen list and behind the work
  list, they are distinct and were not seen before.
\<close>

definition queue_extends ::
    "(node_id \<times> node_id) set \<Rightarrow> pair_queue \<Rightarrow> pair_queue \<Rightarrow> bool" where
  "queue_extends P q q' \<longleftrightarrow>
     (\<exists>new. distinct new \<and> set new \<inter> set (fst q) = {} \<and> set new \<subseteq> P
        \<and> fst q' = rev new @ fst q \<and> snd q' = snd q @ new)"

lemma queue_extends_refl [simp]: "queue_extends P q q"
  unfolding queue_extends_def by (rule exI [of _ "[]"]) simp

lemma queue_extends_trans:
  assumes "queue_extends P q q'" and "queue_extends P q' q''"
  shows "queue_extends P q q''"
proof -
  obtain a b where "distinct a" "set a \<inter> set (fst q) = {}" "set a \<subseteq> P"
    "fst q' = rev a @ fst q" "snd q' = snd q @ a"
    "distinct b" "set b \<inter> set (fst q') = {}" "set b \<subseteq> P"
    "fst q'' = rev b @ fst q'" "snd q'' = snd q' @ b"
    using assms unfolding queue_extends_def by auto
  then show ?thesis
    unfolding queue_extends_def by (intro exI [of _ "a @ b"]) auto
qed

lemma queue_extends_mono: "queue_extends P q q' \<Longrightarrow> P \<subseteq> R \<Longrightarrow> queue_extends R q q'"
  unfolding queue_extends_def by blast

lemma queue_extends_queue_pair: "p \<in> P \<Longrightarrow> queue_extends P q (queue_pair p q)"
  unfolding queue_extends_def queue_pair_def
  by (cases "p \<in> set (fst q)") (auto intro: exI [of _ "[p]"] exI [of _ "[]"])

lemma queue_extends_seen: "queue_extends P q q' \<Longrightarrow> set (fst q) \<subseteq> set (fst q')"
  unfolding queue_extends_def by auto

lemma queue_pair_seen [simp]: "set (fst (queue_pair p q)) = insert p (set (fst q))"
  by (auto simp: queue_pair_def)

lemma enqueue_right_ok:
  assumes "enqueue_right is_sub l rs q = Inr q'"
  shows "queue_extends {canonical_pair l r |r. r \<in> set rs} q q'
    \<and> (\<forall>r \<in> set rs. canonical_pair l r \<in> set (fst q') \<and> \<not> is_sub l \<and> \<not> is_sub r)"
  using assms
proof (induction rs arbitrary: q)
  case (Cons r rs)
  let ?q = "queue_pair (canonical_pair l r) q"
  have ok: "enqueue_right is_sub l rs ?q = Inr q'" "\<not> is_sub l" "\<not> is_sub r"
    using Cons.prems by (auto split: if_splits)
  note IH = Cons.IH [OF ok(1)]
  have "queue_extends {canonical_pair l r' |r'. r' \<in> set (r # rs)} q ?q"
    by (rule queue_extends_queue_pair) auto
  moreover have "queue_extends {canonical_pair l r' |r'. r' \<in> set (r # rs)} ?q q'"
    using IH by (auto elim!: queue_extends_mono)
  moreover have "canonical_pair l r \<in> set (fst q')"
    using IH queue_extends_seen by fastforce
  ultimately show ?case
    using IH ok by (auto intro: queue_extends_trans)
qed simp

lemma enqueue_right_err:
  "enqueue_right is_sub l rs q = Inl e \<Longrightarrow>
     \<exists>r \<in> set rs. (is_sub l \<and> e = SubgraphInParallelFrontier l)
       \<or> (is_sub r \<and> e = SubgraphInParallelFrontier r)"
  by (induction rs arbitrary: q) (auto split: if_splits)

lemma canonical_pair_commute: "canonical_pair a b = canonical_pair b a"
  by (cases a; cases b) (auto simp: canonical_pair_def)

lemma canonical_pair_cases: "canonical_pair a b = (a, b) \<or> canonical_pair a b = (b, a)"
  by (simp add: canonical_pair_def)

text \<open>The unordered pairs of distinct elements.\<close>

definition pairs_of :: "node_id list \<Rightarrow> (node_id \<times> node_id) set" where
  "pairs_of ns = {canonical_pair a b |a b. a \<in> set ns \<and> b \<in> set ns \<and> a \<noteq> b}"

lemma pairs_of_tail: "pairs_of ns \<subseteq> pairs_of (n # ns)"
  unfolding pairs_of_def by auto

lemma enqueue_pairs_ok:
  assumes "enqueue_pairs is_sub ns q = Inr q'" and "distinct ns"
  shows "queue_extends (pairs_of ns) q q' \<and> pairs_of ns \<subseteq> set (fst q')
    \<and> (\<forall>a \<in> set ns. \<forall>b \<in> set ns. a \<noteq> b \<longrightarrow> \<not> is_sub a)"
  using assms
proof (induction ns arbitrary: q)
  case (Cons n ns)
  obtain q1 where q1: "enqueue_right is_sub n ns q = Inr q1"
    and rest: "enqueue_pairs is_sub ns q1 = Inr q'"
    using Cons.prems by (auto split: sum.splits)
  note step = enqueue_right_ok [OF q1] and IH = Cons.IH [OF rest]
  have d: "distinct ns" "n \<notin> set ns" using Cons.prems by auto
  have "queue_extends (pairs_of (n # ns)) q q1"
    using step d unfolding pairs_of_def by (auto elim!: queue_extends_mono)
  moreover have "queue_extends (pairs_of (n # ns)) q1 q'"
    using IH d pairs_of_tail by (blast intro: queue_extends_mono)
  moreover have "pairs_of (n # ns) \<subseteq> set (fst q')"
  proof
    fix p assume "p \<in> pairs_of (n # ns)"
    then obtain a b where p: "p = canonical_pair a b" and ab: "a \<in> set (n # ns)" "b \<in> set (n # ns)"
      and neq: "a \<noteq> b"
      by (auto simp: pairs_of_def)
    have seen: "set (fst q1) \<subseteq> set (fst q')" using IH d queue_extends_seen by blast
    show "p \<in> set (fst q')"
    proof (cases "a = n \<or> b = n")
      case True
      have "\<exists>r \<in> set ns. p = canonical_pair n r"
      proof (cases "a = n")
        case True
        then show ?thesis using ab neq p by auto
      next
        case False
        with \<open>a = n \<or> b = n\<close> have "b = n" by simp
        then have "a \<in> set ns" using ab neq by auto
        moreover have "p = canonical_pair n a"
          unfolding p \<open>b = n\<close> by (rule canonical_pair_commute)
        ultimately show ?thesis by blast
      qed
      then show ?thesis using step seen by blast
    next
      case False
      then have "p \<in> pairs_of ns" using ab neq p by (auto simp: pairs_of_def)
      then show ?thesis using IH d by blast
    qed
  qed
  moreover have "\<forall>a \<in> set (n # ns). \<forall>b \<in> set (n # ns). a \<noteq> b \<longrightarrow> \<not> is_sub a"
    using step IH d by auto
  ultimately show ?case by (blast intro: queue_extends_trans)
qed (simp add: pairs_of_def)

lemma enqueue_pairs_err:
  assumes "enqueue_pairs is_sub ns q = Inl e" and "distinct ns"
  shows "\<exists>a \<in> set ns. \<exists>b \<in> set ns. a \<noteq> b \<and> is_sub a \<and> e = SubgraphInParallelFrontier a"
  using assms
proof (induction ns arbitrary: q)
  case (Cons n ns)
  show ?case
  proof (cases "enqueue_right is_sub n ns q")
    case (Inl e')
    then obtain r where r: "r \<in> set ns" "(is_sub n \<and> e' = SubgraphInParallelFrontier n)
        \<or> (is_sub r \<and> e' = SubgraphInParallelFrontier r)"
      using enqueue_right_err by blast
    have "n \<noteq> r" "e = e'" using r(1) Cons.prems Inl by auto
    then show ?thesis using r by (auto intro: bexI [of _ n] bexI [of _ r])
  next
    case (Inr q1)
    then have "enqueue_pairs is_sub ns q1 = Inl e" using Cons.prems(1) by simp
    from Cons.IH [OF this] Cons.prems(2) show ?thesis by (meson distinct.simps(2) list.set_intros(2))
  qed
qed simp

lemma keep_first_props: "distinct (keep_first seen xs) \<and> set (keep_first seen xs) = set xs - set seen"
  by (induction seen xs rule: keep_first.induct) auto

lemma set_keep_first [simp]: "set (keep_first [] xs) = set xs"
  and distinct_keep_first [simp]: "distinct (keep_first [] xs)"
  using keep_first_props [of "[]" xs] by auto

lemma keep_first_distinct: "distinct xs \<Longrightarrow> set xs \<inter> set seen = {} \<Longrightarrow> keep_first seen xs = xs"
  by (induction seen xs rule: keep_first.induct) auto

text \<open>A pair without a subgraph mount.\<close>

definition pair_plain :: "(node_id \<Rightarrow> bool) \<Rightarrow> node_id \<times> node_id \<Rightarrow> bool" where
  "pair_plain is_sub p \<longleftrightarrow> \<not> is_sub (fst p) \<and> \<not> is_sub (snd p)"

definition frontier_pairs :: "node_id list \<Rightarrow> (node_id \<times> node_id) set" where
  "frontier_pairs f = pairs_of (filter (\<lambda>n. \<not> is_end n) f)"

lemma frontier_pairs_keep_first:
  "pairs_of (keep_first [] (filter (\<lambda>n. \<not> is_end n) f)) = frontier_pairs f"
  by (simp add: pairs_of_def frontier_pairs_def)

lemma enqueue_frontier_ok:
  assumes "enqueue_frontier is_sub f q = Inr q'"
  shows "queue_extends (frontier_pairs f) q q' \<and> frontier_pairs f \<subseteq> set (fst q')
    \<and> (\<forall>p \<in> frontier_pairs f. pair_plain is_sub p)"
  using enqueue_pairs_ok [OF assms [unfolded enqueue_frontier_def] distinct_keep_first]
  unfolding frontier_pairs_keep_first
  by (auto simp: frontier_pairs_def pairs_of_def canonical_pair_def pair_plain_def split: if_splits)

lemma enqueue_frontier_err:
  assumes "enqueue_frontier is_sub f q = Inl e"
  shows "\<exists>(a, b) \<in> frontier_pairs f. (is_sub a \<and> e = SubgraphInParallelFrontier a)
    \<or> (is_sub b \<and> e = SubgraphInParallelFrontier b)"
proof -
  obtain a b where "a \<in> set f" "b \<in> set f" "a \<noteq> node_id_end" "b \<noteq> node_id_end" "a \<noteq> b"
    "is_sub a" "e = SubgraphInParallelFrontier a"
    using enqueue_pairs_err [OF assms [unfolded enqueue_frontier_def] distinct_keep_first] by auto
  then show ?thesis
    using canonical_pair_cases [of a b]
    by (intro bexI [of _ "canonical_pair a b"]) (auto simp: frontier_pairs_def pairs_of_def)
qed

lemma enqueue_all_ok:
  assumes "enqueue_all is_sub fs q = Inr q'"
  shows "queue_extends (\<Union> (frontier_pairs ` set fs)) q q'
    \<and> \<Union> (frontier_pairs ` set fs) \<subseteq> set (fst q')
    \<and> (\<forall>p \<in> \<Union> (frontier_pairs ` set fs). pair_plain is_sub p)"
  using assms
proof (induction fs arbitrary: q)
  case (Cons f fs)
  obtain q1 where q1: "enqueue_frontier is_sub f q = Inr q1"
    and rest: "enqueue_all is_sub fs q1 = Inr q'"
    using Cons.prems by (auto split: sum.splits)
  note step = enqueue_frontier_ok [OF q1] and IH = Cons.IH [OF rest]
  let ?P = "\<Union> (frontier_pairs ` set (f # fs))"
  have "queue_extends ?P q q1" "queue_extends ?P q1 q'"
    using step IH by (auto elim!: queue_extends_mono)
  then have "queue_extends ?P q q'" by (rule queue_extends_trans)
  moreover have "set (fst q1) \<subseteq> set (fst q')" using IH by (blast dest: queue_extends_seen)
  ultimately show ?case using step IH by auto
qed simp

lemma enqueue_all_err:
  "enqueue_all is_sub fs q = Inl e \<Longrightarrow>
     \<exists>(a, b) \<in> \<Union> (frontier_pairs ` set fs). (is_sub a \<and> e = SubgraphInParallelFrontier a)
       \<or> (is_sub b \<and> e = SubgraphInParallelFrontier b)"
proof (induction fs arbitrary: q)
  case (Cons f fs)
  show ?case
  proof (cases "enqueue_frontier is_sub f q")
    case (Inl e')
    then have "enqueue_frontier is_sub f q = Inl e" using Cons.prems by simp
    from enqueue_frontier_err [OF this] show ?thesis by auto
  next
    case (Inr q1)
    then have "enqueue_all is_sub fs q1 = Inl e" using Cons.prems by simp
    from Cons.IH [OF this] show ?thesis by auto
  qed
qed simp

section \<open>The worklist\<close>

text \<open>Every identifier an alternative can mention is a declared target: a finite set.\<close>

definition edge_targets :: "'s edge_aggregation \<Rightarrow> node_id set" where
  "edge_targets ea =
     (\<lambda>(n, count, t). t) ` set (ea_fixed ea)
     \<union> (\<Union>(n, e) \<in> set (ea_fan_out ea). set (fo_targets e))
     \<union> (\<Union>(n, e) \<in> set (ea_conditional ea). set (ce_allowed_targets e))
     \<union> (\<Union>(n, e) \<in> set (ea_conditional_fan_out ea). set (cf_allowed_targets e))"

lemma finite_edge_targets [simp]: "finite (edge_targets ea)"
  by (auto simp: edge_targets_def)

lemma transition_alternatives_targets:
  assumes "ts \<in> set (transition_alternatives ea n)"
  shows "set ts \<subseteq> edge_targets ea"
proof -
  have fixed: "t \<in> edge_targets ea" if "map_of (ea_fixed ea) n = Some (c, t)" for c t
    using map_of_SomeD [OF that] by (force simp: edge_targets_def)
  have fan: "set (fo_targets e) \<subseteq> edge_targets ea" if "map_of (ea_fan_out ea) n = Some e" for e
    using map_of_SomeD [OF that] by (force simp: edge_targets_def)
  have cond: "set (ce_allowed_targets e) \<subseteq> edge_targets ea"
    if "map_of (ea_conditional ea) n = Some e" for e
    using map_of_SomeD [OF that] by (force simp: edge_targets_def)
  have cfan: "set (cf_allowed_targets e) \<subseteq> edge_targets ea"
    if "map_of (ea_conditional_fan_out ea) n = Some e" for e
    using map_of_SomeD [OF that] by (force simp: edge_targets_def)
  show ?thesis
    using assms fixed fan cond cfan
    by (fastforce simp: transition_alternatives_def executable_target_def
        split: if_splits option.splits prod.splits)
qed

definition pair_successors ::
    "'s edge_aggregation \<Rightarrow> node_id \<Rightarrow> node_id \<Rightarrow> (node_id \<times> node_id) set" where
  "pair_successors ea l r = \<Union> (frontier_pairs ` set (pair_frontiers ea l r))"

lemma pairs_of_subset: "pairs_of ns \<subseteq> set ns \<times> set ns"
  by (auto simp: pairs_of_def canonical_pair_def split: if_splits)

lemma pair_successors_subset: "pair_successors ea l r \<subseteq> edge_targets ea \<times> edge_targets ea"
proof
  fix p assume "p \<in> pair_successors ea l r"
  then obtain lt rt where alt: "lt \<in> set (transition_alternatives ea l)"
    "rt \<in> set (transition_alternatives ea r)" and p: "p \<in> frontier_pairs (keep_first [] (lt @ rt))"
    by (auto simp: pair_successors_def pair_frontiers_def)
  have "p \<in> set (lt @ rt) \<times> set (lt @ rt)"
    using p pairs_of_subset unfolding frontier_pairs_def by fastforce
  then show "p \<in> edge_targets ea \<times> edge_targets ea"
    using transition_alternatives_targets [OF alt(1)] transition_alternatives_targets [OF alt(2)]
    by auto
qed

lemma worklist_measure_decreases:
  assumes "queue_extends P (queued, work) q'" and "P \<subseteq> U" and "finite U"
  shows "2 * card (U - set (fst q')) + length (snd q') < 2 * card (U - set queued) + Suc (length work)"
proof -
  obtain new where new: "distinct new" "set new \<inter> set queued = {}" "set new \<subseteq> P"
    "fst q' = rev new @ queued" "snd q' = work @ new"
    using assms(1) by (auto simp: queue_extends_def)
  have sub: "set new \<subseteq> U - set queued" using new assms(2) by auto
  have "U - set (fst q') = (U - set queued) - set new" using new by auto
  then have "card (U - set (fst q')) = card (U - set queued) - length new"
    using sub assms(3) new(1) by (simp add: card_Diff_subset distinct_card)
  moreover have "length new \<le> card (U - set queued)"
    using card_mono [OF _ sub] assms(3) new(1) by (simp add: distinct_card)
  ultimately show ?thesis using new(5) by simp
qed

function frontier_worklist ::
    "'s edge_aggregation \<Rightarrow> (node_id \<Rightarrow> bool) \<Rightarrow> pair_queue \<Rightarrow> graph_compile_error option" where
  "frontier_worklist ea is_sub (queued, []) = None"
| "frontier_worklist ea is_sub (queued, (left, right) # work) =
     (case enqueue_all is_sub (pair_frontiers ea left right) (queued, work) of
        Inl e \<Rightarrow> Some e
      | Inr q \<Rightarrow> frontier_worklist ea is_sub q)"
  by pat_completeness auto
termination
proof (relation "measure (\<lambda>(ea, is_sub, q).
    2 * card (edge_targets ea \<times> edge_targets ea - set (fst q)) + length (snd q))")
  fix ea :: "'s edge_aggregation" and is_sub queued left right work q
  assume "enqueue_all is_sub (pair_frontiers ea left right) (queued, work) = Inr q"
  from enqueue_all_ok [OF this]
  have "queue_extends (pair_successors ea left right) (queued, work) q"
    by (simp add: pair_successors_def)
  from worklist_measure_decreases [OF this pair_successors_subset]
  show "((ea, is_sub, q), (ea, is_sub, queued, (left, right) # work)) \<in>
      measure (\<lambda>(ea, is_sub, q).
        2 * card (edge_targets ea \<times> edge_targets ea - set (fst q)) + length (snd q))"
    by simp
qed simp

definition declares_subgraph ::
    "('s, 'u, 'v, 'w) declared_items \<Rightarrow> node_id \<Rightarrow> bool" where
  "declares_subgraph items n = (case map_of items n of None \<Rightarrow> False | Some x \<Rightarrow> is_subgraph x)"

definition initial_frontiers :: "('s, 'u, 'v, 'w) state_graph \<Rightarrow> node_id list list" where
  "initial_frontiers g =
     map fo_targets (sg_fan_out_edges g) @ map cf_allowed_targets (sg_conditional_fan_out_edges g)"

definition validate_subgraph_frontiers ::
    "('s, 'u, 'v, 'w) state_graph \<Rightarrow> 's edge_aggregation \<Rightarrow> graph_compile_error option" where
  "validate_subgraph_frontiers g ea =
     (if \<not> list_ex is_subgraph (map snd (sg_items g))
         \<or> (ea_fan_out ea = [] \<and> ea_conditional_fan_out ea = [])
      then None
      else case enqueue_all (declares_subgraph (sg_items g)) (initial_frontiers g) ([], []) of
        Inl e \<Rightarrow> Some e
      | Inr q \<Rightarrow> frontier_worklist ea (declares_subgraph (sg_items g)) q)"

section \<open>The worklist decides co-schedulability\<close>

text \<open>
  The pairs that a fan-out can start together, and the pairs that two co-scheduled nodes can
  start together next.
\<close>

inductive co_scheduled ::
    "'s edge_aggregation \<Rightarrow> node_id list list \<Rightarrow> node_id \<times> node_id \<Rightarrow> bool"
  for ea inits where
  co_initial: "f \<in> set inits \<Longrightarrow> p \<in> frontier_pairs f \<Longrightarrow> co_scheduled ea inits p"
| co_step: "co_scheduled ea inits (l, r) \<Longrightarrow> p \<in> pair_successors ea l r \<Longrightarrow> co_scheduled ea inits p"

lemma enqueue_all_plain:
  assumes "enqueue_all is_sub fs q = Inr q'"
  shows "\<forall>p \<in> \<Union> (frontier_pairs ` set fs). pair_plain is_sub p \<and> p \<in> set (fst q')"
  using enqueue_all_ok [OF assms] by auto

lemma frontier_worklist_None:
  assumes "frontier_worklist ea is_sub q = None"
    and "\<forall>(l, r) \<in> set (fst q) - set (snd q). pair_successors ea l r \<subseteq> set (fst q) \<inter> {p. pair_plain is_sub p}"
  shows "\<exists>Q. set (fst q) \<subseteq> Q \<and> (\<forall>(l, r) \<in> Q. pair_successors ea l r \<subseteq> Q \<inter> {p. pair_plain is_sub p})"
  using assms
proof (induction ea is_sub q rule: frontier_worklist.induct)
  case (1 ea is_sub queued)
  then show ?case by (intro exI [of _ "set queued"]) auto
next
  case (2 ea is_sub queued left right work)
  obtain q where q: "enqueue_all is_sub (pair_frontiers ea left right) (queued, work) = Inr q"
    and rest: "frontier_worklist ea is_sub q = None"
    using "2.prems"(1) by (auto split: sum.splits)
  obtain new where ext: "fst q = rev new @ queued" "snd q = work @ new"
    using enqueue_all_ok [OF q] by (auto simp: queue_extends_def)
  have succ: "pair_successors ea left right \<subseteq> set (fst q) \<inter> {p. pair_plain is_sub p}"
    using enqueue_all_plain [OF q] by (auto simp: pair_successors_def)
  have "\<forall>(l, r) \<in> set (fst q) - set (snd q).
      pair_successors ea l r \<subseteq> set (fst q) \<inter> {p. pair_plain is_sub p}"
  proof clarify
    fix l r p assume lr: "(l, r) \<in> set (fst q)" "(l, r) \<notin> set (snd q)"
      and p: "p \<in> pair_successors ea l r"
    show "p \<in> set (fst q) \<inter> {p. pair_plain is_sub p}"
    proof (cases "(l, r) = (left, right)")
      case True
      then show ?thesis using succ p by auto
    next
      case False
      then have "(l, r) \<in> set queued - set ((left, right) # work)" using lr ext by auto
      then have "pair_successors ea l r \<subseteq> set queued \<inter> {p. pair_plain is_sub p}"
        using bspec [OF "2.prems"(2), of "(l, r)"] by simp
      then show ?thesis using p ext by auto
    qed
  qed
  from "2.IH" [OF q rest this] show ?case using ext by auto
qed

lemma frontier_worklist_Some:
  assumes "frontier_worklist ea is_sub q = Some e"
    and "\<forall>p \<in> set (snd q). co_scheduled ea inits p"
  shows "\<exists>p n. co_scheduled ea inits p \<and> n \<in> {fst p, snd p} \<and> is_sub n
    \<and> e = SubgraphInParallelFrontier n"
  using assms
proof (induction ea is_sub q rule: frontier_worklist.induct)
  case (2 ea is_sub queued left right work)
  have co: "co_scheduled ea inits (left, right)" using "2.prems"(2) by simp
  show ?case
  proof (cases "enqueue_all is_sub (pair_frontiers ea left right) (queued, work)")
    case (Inl e')
    then obtain a b where "(a, b) \<in> pair_successors ea left right"
      "is_sub a \<and> e' = SubgraphInParallelFrontier a \<or> is_sub b \<and> e' = SubgraphInParallelFrontier b"
      using enqueue_all_err [OF Inl] by (auto simp: pair_successors_def)
    moreover have "e' = e" using "2.prems"(1) Inl by simp
    ultimately show ?thesis using co_step [OF co] by fastforce
  next
    case (Inr q)
    have "queue_extends (pair_successors ea left right) (queued, work) q"
      using enqueue_all_ok [OF Inr] by (simp add: pair_successors_def)
    then have "\<forall>p \<in> set (snd q). co_scheduled ea inits p"
      using "2.prems"(2) co_step [OF co] unfolding queue_extends_def
      by (clarsimp simp: ball_Un) blast
    then show ?thesis using "2.IH" [OF Inr] "2.prems"(1) Inr by simp
  qed
qed simp

lemma declares_subgraph_in: "declares_subgraph items n \<Longrightarrow> list_ex is_subgraph (map snd items)"
  by (force simp: declares_subgraph_def list_ex_iff split: option.splits dest: map_of_SomeD)

lemma validate_subgraph_frontiers_None:
  assumes "validate_subgraph_frontiers g ea = None"
    and "ea_fan_out ea = [] \<Longrightarrow> sg_fan_out_edges g = []"
    and "ea_conditional_fan_out ea = [] \<Longrightarrow> sg_conditional_fan_out_edges g = []"
    and "co_scheduled ea (initial_frontiers g) p"
  shows "pair_plain (declares_subgraph (sg_items g)) p"
proof -
  let ?sub = "declares_subgraph (sg_items g)"
  consider (none) "\<not> list_ex is_subgraph (map snd (sg_items g))"
    | (empty) "initial_frontiers g = []"
    | (run) q where "enqueue_all ?sub (initial_frontiers g) ([], []) = Inr q"
        "frontier_worklist ea ?sub q = None"
    using assms(1-3)
    by (auto simp: validate_subgraph_frontiers_def initial_frontiers_def
        split: if_splits sum.splits)
  then show ?thesis
  proof cases
    case none
    then show ?thesis using declares_subgraph_in by (auto simp: pair_plain_def)
  next
    case empty
    have "\<not> co_scheduled ea [] p'" for p'
    proof
      assume "co_scheduled ea [] p'" then show False by (induction) auto
    qed
    then show ?thesis using assms(4) empty by simp
  next
    case run
    have "set (fst q) = set (snd q)"
      using enqueue_all_ok [OF run(1)] by (auto simp: queue_extends_def)
    then obtain Q where Q: "set (fst q) \<subseteq> Q"
      "\<forall>(l, r) \<in> Q. pair_successors ea l r \<subseteq> Q \<inter> {p. pair_plain ?sub p}"
      using frontier_worklist_None [OF run(2)] by auto
    have "p \<in> Q \<and> pair_plain ?sub p"
      using assms(4)
    proof (induction rule: co_scheduled.induct)
      case (co_initial f p)
      then show ?case using enqueue_all_plain [OF run(1)] Q(1) by auto
    next
      case (co_step l r p)
      then show ?case using Q(2) by blast
    qed
    then show ?thesis by simp
  qed
qed

lemma validate_subgraph_frontiers_Some:
  assumes "validate_subgraph_frontiers g ea = Some e"
  shows "\<exists>p n. co_scheduled ea (initial_frontiers g) p \<and> n \<in> {fst p, snd p}
    \<and> declares_subgraph (sg_items g) n \<and> e = SubgraphInParallelFrontier n"
proof -
  let ?sub = "declares_subgraph (sg_items g)"
  show ?thesis
  proof (cases "enqueue_all ?sub (initial_frontiers g) ([], [])")
    case (Inl e')
    then obtain f a b where "f \<in> set (initial_frontiers g)" "(a, b) \<in> frontier_pairs f"
      "?sub a \<and> e' = SubgraphInParallelFrontier a \<or> ?sub b \<and> e' = SubgraphInParallelFrontier b"
      using enqueue_all_err [OF Inl] by auto
    moreover have "e' = e"
      using assms Inl by (auto simp: validate_subgraph_frontiers_def split: if_splits)
    ultimately show ?thesis using co_initial [of f] by fastforce
  next
    case (Inr q)
    have "\<forall>p \<in> set (snd q). co_scheduled ea (initial_frontiers g) p"
      using enqueue_all_ok [OF Inr] by (auto simp: queue_extends_def intro: co_initial)
    moreover have "frontier_worklist ea ?sub q = Some e"
      using assms Inr by (auto simp: validate_subgraph_frontiers_def split: if_splits)
    ultimately show ?thesis by (rule frontier_worklist_Some [rotated])
  qed
qed

end
