(* ===== verification/Compiler.thy ===== *)
theory Compiler
  imports Frontiers
begin

text \<open>
  The second half of graph compilation: \<open>FlatBuilder\<close>, \<open>compile_transition\<close> and \<open>compile\<close>
  itself (\<open>graph.rs\<close>). The flat builder allocates one slot per node and two per subgraph mount,
  places each item, and copies the items of a mounted graph behind them with renumbered
  transitions and prefixed paths. Filling a slot that does not exist, reading an entry that was
  not recorded and finishing with an empty slot are \<open>Panic\<close>.
\<close>

section \<open>The flat builder\<close>

record ('s, 'u, 'v, 'w) flat_builder =
  fb_items :: "('s, 'u, 'v, 'w) compiled_item option list"
  fb_node_paths :: "(node_path \<times> nat) list"
  fb_scope_exits :: "(graph_path \<times> nat) list"

definition flat_builder_new :: "('s, 'u, 'v, 'w) flat_builder" where
  "flat_builder_new = \<lparr>fb_items = [], fb_node_paths = [], fb_scope_exits = []\<rparr>"

definition fb_allocate ::
    "('s, 'u, 'v, 'w) flat_builder \<Rightarrow> nat \<times> ('s, 'u, 'v, 'w) flat_builder" where
  "fb_allocate fb = (length (fb_items fb), fb\<lparr>fb_items := fb_items fb @ [None]\<rparr>)"

definition fb_set ::
    "nat \<Rightarrow> ('s, 'u, 'v, 'w) compiled_item \<Rightarrow> ('s, 'u, 'v, 'w) flat_builder
      \<Rightarrow> (graph_compile_error, ('s, 'u, 'v, 'w) flat_builder) result" where
  "fb_set i item fb =
     (if i < length (fb_items fb) then Ok (fb\<lparr>fb_items := (fb_items fb)[i := Some item]\<rparr>)
      else Panic)"

definition fb_insert_node ::
    "nat \<Rightarrow> ('s, 'u, 'v, 'w) compiled_node \<Rightarrow> ('s, 'u, 'v, 'w) flat_builder
      \<Rightarrow> (graph_compile_error, ('s, 'u, 'v, 'w) flat_builder) result" where
  "fb_insert_node i node fb =
     (if im_contains (fb_node_paths fb) (cn_path node) then Err (DuplicateNodePath (cn_path node))
      else fb_set i (Node node)
             (fb\<lparr>fb_node_paths := im_insert (cn_path node) i (fb_node_paths fb)\<rparr>))"

fun fb_allocate_many ::
    "nat \<Rightarrow> ('s, 'u, 'v, 'w) flat_builder \<Rightarrow> nat list \<times> ('s, 'u, 'v, 'w) flat_builder" where
  "fb_allocate_many 0 fb = ([], fb)"
| "fb_allocate_many (Suc n) fb =
     (let (i, fb1) = fb_allocate fb; (rest, fb2) = fb_allocate_many n fb1 in (i # rest, fb2))"

text \<open>One item of a child graph, placed under a prefix.\<close>

definition fb_append_item ::
    "nat list \<Rightarrow> graph_path \<Rightarrow> nat \<Rightarrow> ('s, 'u, 'v, 'w) compiled_item
      \<Rightarrow> ('s, 'u, 'v, 'w) flat_builder
      \<Rightarrow> (graph_compile_error, ('s, 'u, 'v, 'w) flat_builder) result" where
  "fb_append_item mapping prefix old_index item fb =
     (case item of
        Node node \<Rightarrow>
          result_bind (of_index (remap mapping (cn_transition node))) (\<lambda>tr.
          result_bind (of_index (index_at mapping old_index)) (\<lambda>i.
            fb_insert_node i
              \<lparr>cn_path = node_path_prefixed (cn_path node) prefix,
               cn_graph_path = graph_path_prefixed (cn_graph_path node) prefix,
               cn_kind = cn_kind node, cn_transition = tr\<rparr> fb))
      | EnterSubgraph gp transition \<Rightarrow>
          result_bind (of_index (remap mapping transition)) (\<lambda>tr.
          result_bind (of_index (index_at mapping old_index)) (\<lambda>i.
            fb_set i (EnterSubgraph (graph_path_prefixed gp prefix) tr) fb))
      | ExitSubgraph gp mount transition \<Rightarrow>
          result_bind (of_index (remap mapping transition)) (\<lambda>tr.
          result_bind (of_index (index_at mapping old_index)) (\<lambda>i.
            fb_set i (ExitSubgraph (graph_path_prefixed gp prefix)
                        (node_path_prefixed mount prefix) tr) fb)))"

fun fb_append_items ::
    "nat list \<Rightarrow> graph_path \<Rightarrow> nat \<Rightarrow> ('s, 'u, 'v, 'w) compiled_item list
      \<Rightarrow> ('s, 'u, 'v, 'w) flat_builder
      \<Rightarrow> (graph_compile_error, ('s, 'u, 'v, 'w) flat_builder) result" where
  "fb_append_items mapping prefix old_index [] fb = Ok fb"
| "fb_append_items mapping prefix old_index (item # items) fb =
     result_bind (fb_append_item mapping prefix old_index item fb)
       (fb_append_items mapping prefix (Suc old_index) items)"

fun fb_append_exits ::
    "nat list \<Rightarrow> graph_path \<Rightarrow> (graph_path \<times> nat) list \<Rightarrow> ('s, 'u, 'v, 'w) flat_builder
      \<Rightarrow> (graph_compile_error, ('s, 'u, 'v, 'w) flat_builder) result" where
  "fb_append_exits mapping prefix [] fb = Ok fb"
| "fb_append_exits mapping prefix ((path, exit) # exits) fb =
     result_bind (of_index (index_at mapping exit)) (\<lambda>i.
       fb_append_exits mapping prefix exits
         (fb\<lparr>fb_scope_exits := im_insert (graph_path_prefixed path prefix) i (fb_scope_exits fb)\<rparr>))"

definition fb_append_graph ::
    "('s, 'u, 'v, 'w) compiled_graph \<Rightarrow> graph_path \<Rightarrow> ('s, 'u, 'v, 'w) flat_builder
      \<Rightarrow> (graph_compile_error, nat option \<times> ('s, 'u, 'v, 'w) flat_builder) result" where
  "fb_append_graph graph prefix fb =
     (let (mapping, fb1) = fb_allocate_many (length (cg_items graph)) fb in
      result_bind (fb_append_items mapping prefix 0 (cg_items graph) fb1) (\<lambda>fb2.
      result_bind (fb_append_exits mapping prefix (cg_scope_exits graph) fb2) (\<lambda>fb3.
        (case cg_entry_index graph of
           None \<Rightarrow> Ok (None, fb3)
         | Some i \<Rightarrow> result_bind (of_index (index_at mapping i)) (\<lambda>j. Ok (Some j, fb3))))))"

definition fb_finish ::
    "('s, 'u, 'v, 'w) flat_builder
      \<Rightarrow> (graph_compile_error, ('s, 'u, 'v, 'w) compiled_item list) result" where
  "fb_finish fb = of_index (those (fb_items fb))"

section \<open>Transitions\<close>

text \<open>The target closure: END has no index, every other target an entry.\<close>

definition target_index :: "(node_id \<times> nat) list \<Rightarrow> node_id \<Rightarrow> nat option option" where
  "target_index entries n = (if is_end n then Some None else map_option Some (map_of entries n))"

definition allowed_of :: "(node_id \<times> nat) list \<Rightarrow> node_id list \<Rightarrow> allowed option" where
  "allowed_of entries ns = those (map (\<lambda>n. map_option (Pair n) (target_index entries n)) ns)"

definition compile_transition ::
    "'s edge_aggregation \<Rightarrow> node_id \<Rightarrow> (node_id \<times> nat) list
      \<Rightarrow> (graph_compile_error, 's compiled_transition) result" where
  "compile_transition ea n entries =
     (case map_of (ea_fixed ea) n of
        Some (_, successor) \<Rightarrow> of_index (map_option Fixed (target_index entries successor))
      | None \<Rightarrow> (case map_of (ea_fan_out ea) n of
        Some e \<Rightarrow> of_index (map_option (\<lambda>ts. StaticFanOut (sort (concat (map option_list ts))))
                    (those (map (target_index entries) (fo_targets e))))
      | None \<Rightarrow> (case map_of (ea_conditional ea) n of
        Some e \<Rightarrow> of_index (map_option (Conditional (ce_router e))
                    (allowed_of entries (ce_allowed_targets e)))
      | None \<Rightarrow> (case map_of (ea_conditional_fan_out ea) n of
        Some e \<Rightarrow> of_index (map_option (ConditionalFanOut (cf_router e))
                    (allowed_of entries (cf_allowed_targets e)))
      | None \<Rightarrow> Err (MissingOutgoingEdge n)))))"

section \<open>Placing the items\<close>

fun allocate_items ::
    "('s, 'u, 'v, 'w) declared_items \<Rightarrow> ('s, 'u, 'v, 'w) flat_builder
      \<Rightarrow> (node_id \<times> nat) list \<Rightarrow> (node_id \<times> nat) list
      \<Rightarrow> ('s, 'u, 'v, 'w) flat_builder \<times> (node_id \<times> nat) list \<times> (node_id \<times> nat) list" where
  "allocate_items [] fb entries exits = (fb, entries, exits)"
| "allocate_items ((n, item) # items) fb entries exits =
     (case item of
        DeclaredNode k \<Rightarrow>
          (let (i, fb1) = fb_allocate fb in allocate_items items fb1 (im_insert n i entries) exits)
      | Subgraph sub \<Rightarrow>
          (let (entry, fb1) = fb_allocate fb; (exit, fb2) = fb_allocate fb1
           in allocate_items items fb2 (im_insert n entry entries) (im_insert n exit exits)))"

definition place_item ::
    "(node_id \<times> nat) list \<Rightarrow> (node_id \<times> nat) list \<Rightarrow> node_id
      \<Rightarrow> ('s, 'u, 'v, 'w) declared_item \<Rightarrow> 's compiled_transition \<Rightarrow> ('s, 'u, 'v, 'w) flat_builder
      \<Rightarrow> (graph_compile_error, ('s, 'u, 'v, 'w) flat_builder) result" where
  "place_item entries exits n item transition fb =
     (case item of
        DeclaredNode kind \<Rightarrow>
          result_bind (of_index (map_of entries n)) (\<lambda>i.
            fb_insert_node i
              \<lparr>cn_path = node_path_new graph_path_root n, cn_graph_path = graph_path_root,
               cn_kind = kind, cn_transition = transition\<rparr> fb)
      | Subgraph child \<Rightarrow>
          (let gp = graph_path_child graph_path_root n in
           result_bind (of_index (map_of exits n)) (\<lambda>exit.
           result_bind (fb_append_graph child gp fb) (\<lambda>(child_entry, fb1).
           result_bind (of_index (map_of entries n)) (\<lambda>entry.
           result_bind (fb_set entry (EnterSubgraph gp
                (Fixed (Some (case child_entry of None \<Rightarrow> exit | Some e \<Rightarrow> e)))) fb1) (\<lambda>fb2.
           result_bind (fb_set exit (ExitSubgraph gp (node_path_new graph_path_root n) transition)
                fb2) (\<lambda>fb3.
             Ok (fb3\<lparr>fb_scope_exits := im_insert gp exit (fb_scope_exits fb3)\<rparr>))))))))"

fun place_items ::
    "'s edge_aggregation \<Rightarrow> (node_id \<times> nat) list \<Rightarrow> (node_id \<times> nat) list
      \<Rightarrow> ('s, 'u, 'v, 'w) declared_items \<Rightarrow> ('s, 'u, 'v, 'w) flat_builder
      \<Rightarrow> (graph_compile_error, ('s, 'u, 'v, 'w) flat_builder) result" where
  "place_items ea entries exits [] fb = Ok fb"
| "place_items ea entries exits ((n, item) # items) fb =
     result_bind (compile_transition ea n entries) (\<lambda>tr.
     result_bind (place_item entries exits n item tr fb)
       (place_items ea entries exits items))"

definition build_graph ::
    "('s, 'u, 'v, 'w) state_graph \<Rightarrow> 's edge_aggregation
      \<Rightarrow> (graph_compile_error, ('s, 'u, 'v, 'w) compiled_graph) result" where
  "build_graph g ea =
     (let (fb, entries, exits) = allocate_items (sg_items g) flat_builder_new [] [] in
      result_bind (place_items ea entries exits (sg_items g) fb) (\<lambda>fb1.
      result_bind (of_index (map_of (ea_fixed ea) node_id_start)) (\<lambda>(_, entry_target).
      result_bind (of_index (target_index entries entry_target)) (\<lambda>entry_index.
      result_bind (fb_finish fb1) (\<lambda>items.
        Ok \<lparr>cg_items = items, cg_node_paths = fb_node_paths fb1,
            cg_scope_exits = fb_scope_exits fb1, cg_entry_index = entry_index,
            cg_version = sg_version g\<rparr>)))))"

section \<open>Compile\<close>

definition compile ::
    "dfs_search \<Rightarrow> ('s, 'u, 'v, 'w) state_graph
      \<Rightarrow> (graph_compile_error, ('s, 'u, 'v, 'w) compiled_graph) result" where
  "compile dfs g =
     result_bind (of_sum (aggregate_edges g)) (\<lambda>ea.
     result_bind (of_check (validate_edge_shapes g ea)) (\<lambda>_.
     result_bind (validate_topology dfs g ea) (\<lambda>_.
     result_bind (of_check (validate_subgraph_frontiers g ea)) (\<lambda>_.
       build_graph g ea))))"

end
