(* ===== verification/Placement.thy ===== *)
theory Placement
  imports Compiler
begin

text \<open>
  What the flat builder produces. A compiled graph is well formed when its transitions, entry
  and scope exits stay inside the item list, its path table is exactly the list of its real
  nodes, every namespace below the root has one exit, and no leaf is a reserved identifier.
  Placing the items of a checked graph keeps this, fills every slot and never meets a duplicate
  path, so the second half of compilation always succeeds.
\<close>

section \<open>Well-formed item tables\<close>

fun item_transition :: "('s, 'u, 'v, 'w) compiled_item \<Rightarrow> 's compiled_transition" where
  "item_transition (Node nd) = cn_transition nd"
| "item_transition (EnterSubgraph gp tr) = tr"
| "item_transition (ExitSubgraph gp mount tr) = tr"

text \<open>The namespace an item belongs to, or opens.\<close>

fun item_scope :: "('s, 'u, 'v, 'w) compiled_item \<Rightarrow> graph_path" where
  "item_scope (Node nd) = cn_graph_path nd"
| "item_scope (EnterSubgraph gp tr) = gp"
| "item_scope (ExitSubgraph gp mount tr) = gp"

definition segments_ok :: "node_id list \<Rightarrow> bool" where
  "segments_ok ss \<longleftrightarrow> (\<forall>n \<in> set ss. \<not> is_reserved n)"

text \<open>The shape of a single item; \<open>item_segments\<close> is its full path.\<close>

fun item_segments :: "('s, 'u, 'v, 'w) compiled_item \<Rightarrow> node_id list" where
  "item_segments (Node nd) = node_segments (cn_path nd)"
| "item_segments (EnterSubgraph gp tr) = graph_segments gp"
| "item_segments (ExitSubgraph gp mount tr) = graph_segments gp"

fun item_shape :: "('s, 'u, 'v, 'w) compiled_item \<Rightarrow> bool" where
  "item_shape (Node nd) \<longleftrightarrow> node_path_graph_path (cn_path nd) = cn_graph_path nd"
| "item_shape (EnterSubgraph gp tr) \<longleftrightarrow> (\<exists>i. tr = Fixed (Some i))"
| "item_shape (ExitSubgraph gp mount tr) \<longleftrightarrow> node_segments mount = graph_segments gp"

definition item_ok :: "nat \<Rightarrow> ('s, 'u, 'v, 'w) compiled_item \<Rightarrow> bool" where
  "item_ok n item \<longleftrightarrow>
     item_segments item \<noteq> [] \<and> segments_ok (item_segments item) \<and> item_shape item
     \<and> transition_indices (item_transition item) \<subseteq> {..<n}"

text \<open>
  A table of slots with its path and exit tables. \<open>D\<close> is the set of root identifiers whose
  items were placed.
\<close>

definition table_ok ::
    "('s, 'u, 'v, 'w) compiled_item option list \<Rightarrow> (node_path \<times> nat) list \<Rightarrow> (graph_path \<times> nat) list
      \<Rightarrow> node_id set \<Rightarrow> bool" where
  "table_ok xs paths exits D \<longleftrightarrow>
     (\<forall>i < length xs. \<forall>item. xs ! i = Some item \<longrightarrow>
        item_ok (length xs) item \<and> hd (item_segments item) \<in> D)
     \<and> (\<forall>p i. map_of paths p = Some i \<longleftrightarrow>
          i < length xs \<and> (\<exists>nd. xs ! i = Some (Node nd) \<and> cn_path nd = p))
     \<and> (\<forall>p i. map_of exits p = Some i \<longleftrightarrow>
          i < length xs \<and> (\<exists>mount tr. xs ! i = Some (ExitSubgraph p mount tr)))
     \<and> distinct (map fst paths) \<and> distinct (map fst exits)"

lemma table_ok_slot:
  assumes "table_ok xs paths exits D" and "i < length xs" and "xs ! i = Some item"
  shows "item_ok (length xs) item" and "hd (item_segments item) \<in> D"
  using assms by (simp_all add: table_ok_def)

lemma table_ok_path:
  "table_ok xs paths exits D \<Longrightarrow> map_of paths p = Some i \<longleftrightarrow>
     i < length xs \<and> (\<exists>nd. xs ! i = Some (Node nd) \<and> cn_path nd = p)"
  by (simp add: table_ok_def)

lemma table_ok_exit:
  "table_ok xs paths exits D \<Longrightarrow> map_of exits p = Some i \<longleftrightarrow>
     i < length xs \<and> (\<exists>mount tr. xs ! i = Some (ExitSubgraph p mount tr))"
  by (simp add: table_ok_def)

text \<open>Every namespace below the root in which an item lives has an exit.\<close>

definition scopes_ok ::
    "('s, 'u, 'v, 'w) compiled_item option list \<Rightarrow> (graph_path \<times> nat) list \<Rightarrow> bool" where
  "scopes_ok xs exits \<longleftrightarrow>
     (\<forall>item. Some item \<in> set xs \<longrightarrow> \<not> graph_path_is_root (item_scope item) \<longrightarrow>
        map_of exits (item_scope item) \<noteq> None)"

definition compiled_wf :: "('s, 'u, 'v, 'w) compiled_graph \<Rightarrow> bool" where
  "compiled_wf g \<longleftrightarrow>
     table_ok (map Some (cg_items g)) (cg_node_paths g) (cg_scope_exits g) UNIV
     \<and> scopes_ok (map Some (cg_items g)) (cg_scope_exits g)
     \<and> set_option (cg_entry_index g) \<subseteq> {..<length (cg_items g)}"

lemma compiled_wf_item:
  "compiled_wf g \<Longrightarrow> i < length (cg_items g) \<Longrightarrow> item_ok (length (cg_items g)) (cg_items g ! i)"
  by (auto simp: compiled_wf_def table_ok_def)

lemma compiled_wf_path:
  "compiled_wf g \<Longrightarrow> map_of (cg_node_paths g) p = Some i \<longleftrightarrow>
     i < length (cg_items g) \<and> (\<exists>nd. cg_items g ! i = Node nd \<and> cn_path nd = p)"
  by (auto simp: compiled_wf_def table_ok_def)

lemma compiled_wf_exit:
  "compiled_wf g \<Longrightarrow> map_of (cg_scope_exits g) p = Some i \<longleftrightarrow>
     i < length (cg_items g) \<and> (\<exists>mount tr. cg_items g ! i = ExitSubgraph p mount tr)"
  by (auto simp: compiled_wf_def table_ok_def)

section \<open>Copying a child graph\<close>

fun shift_item ::
    "nat \<Rightarrow> graph_path \<Rightarrow> ('s, 'u, 'v, 'w) compiled_item \<Rightarrow> ('s, 'u, 'v, 'w) compiled_item" where
  "shift_item b prefix (Node nd) =
     Node \<lparr>cn_path = node_path_prefixed (cn_path nd) prefix,
           cn_graph_path = graph_path_prefixed (cn_graph_path nd) prefix,
           cn_kind = cn_kind nd, cn_transition = shift_transition b (cn_transition nd)\<rparr>"
| "shift_item b prefix (EnterSubgraph gp tr) =
     EnterSubgraph (graph_path_prefixed gp prefix) (shift_transition b tr)"
| "shift_item b prefix (ExitSubgraph gp mount tr) =
     ExitSubgraph (graph_path_prefixed gp prefix) (node_path_prefixed mount prefix)
       (shift_transition b tr)"

lemma shift_item_facts [simp]:
  "item_segments (shift_item b prefix item) = graph_segments prefix @ item_segments item"
  "item_scope (shift_item b prefix item) = graph_path_prefixed (item_scope item) prefix"
  "transition_indices (item_transition (shift_item b prefix item)) =
     (+) b ` transition_indices (item_transition item)"
  by (cases item; simp)+

lemma butlast_append_nonempty: "ys \<noteq> [] \<Longrightarrow> butlast (xs @ ys) = xs @ butlast ys"
  by (simp add: butlast_append)

lemma shift_item_shape:
  assumes "item_shape item" and "item_segments item \<noteq> []"
  shows "item_shape (shift_item b prefix item)"
proof (cases item)
  case (Node nd)
  then show ?thesis
    using assms by (cases "cn_graph_path nd")
      (auto simp: node_path_graph_path_def graph_path_prefixed_def butlast_append_nonempty)
qed (use assms in auto)

lemma shift_item_ok:
  assumes "item_ok n item" and "segments_ok (graph_segments prefix)" and "b + n \<le> m"
  shows "item_ok m (shift_item b prefix item)"
  using assms by (auto simp: item_ok_def shift_item_shape segments_ok_def)

lemma item_ok_mono: "item_ok n item \<Longrightarrow> n \<le> m \<Longrightarrow> item_ok m item"
  by (auto simp: item_ok_def)

fun paths_from :: "nat \<Rightarrow> ('s, 'u, 'v, 'w) compiled_item list \<Rightarrow> (node_path \<times> nat) list" where
  "paths_from k [] = []"
| "paths_from k (Node nd # items) = (cn_path nd, k) # paths_from (Suc k) items"
| "paths_from k (_ # items) = paths_from (Suc k) items"

lemma set_paths_from:
  "(p, i) \<in> set (paths_from k items) \<longleftrightarrow>
     (\<exists>j nd. j < length items \<and> i = k + j \<and> items ! j = Node nd \<and> cn_path nd = p)"
proof (induction k items rule: paths_from.induct)
  case (2 k nd items)
  then show ?case
    by (auto simp: less_Suc_eq_0_disj)
qed (auto simp: less_Suc_eq_0_disj)

lemma fb_allocate_many_eq:
  "fb_allocate_many n fb =
     ([length (fb_items fb)..<length (fb_items fb) + n],
      fb\<lparr>fb_items := fb_items fb @ replicate n None\<rparr>)"
proof (induction n arbitrary: fb)
  case (Suc n)
  then show ?case
    by (simp add: fb_allocate_def upt_conv_Cons replicate_append_same flip: replicate_Suc)
qed simp

text \<open>One item: its slot is filled with the shifted item, a node adds its path.\<close>

lemma fb_append_item_eq:
  assumes "length mapping = n" and "mapping = [b..<b + n]" and "k < n"
    and "b + k < length (fb_items fb)"
    and "transition_indices (item_transition item) \<subseteq> {..<n}"
    and "\<And>nd. item = Node nd \<Longrightarrow>
      map_of (fb_node_paths fb) (node_path_prefixed (cn_path nd) prefix) = None"
  shows "fb_append_item mapping prefix k item fb =
    Ok (fb\<lparr>fb_items := (fb_items fb)[b + k := Some (shift_item b prefix item)],
           fb_node_paths := fb_node_paths fb @ paths_from (b + k) [shift_item b prefix item]\<rparr>)"
proof -
  have fresh: "im_insert p i m = m @ [(p, i)]" if "map_of m p = None" for p i m
    using that by (simp add: im_insert_fresh map_of_eq_None_iff)
  show ?thesis
    using assms by (cases item)
      (auto simp: fb_append_item_def remap_block index_at_block fb_insert_node_def fb_set_def
        im_contains_def fresh)
qed

lemma paths_from_append:
  "paths_from k (xs @ ys) = paths_from k xs @ paths_from (k + length xs) ys"
  by (induction k xs rule: paths_from.induct) auto

lemma fb_append_items_eq:
  assumes "b + n \<le> length (fb_items fb)" and "k + length items = n"
    and "\<forall>item \<in> set items. transition_indices (item_transition item) \<subseteq> {..<n}"
    and "distinct (map fst (fb_node_paths fb @ paths_from (b + k) (map (shift_item b prefix) items)))"
    and "mapping = [b..<b + n]"
  shows "fb_append_items mapping prefix k items fb =
    Ok (fb\<lparr>fb_items := take (b + k) (fb_items fb) @ map (Some \<circ> shift_item b prefix) items
             @ drop (b + n) (fb_items fb),
           fb_node_paths := fb_node_paths fb @ paths_from (b + k) (map (shift_item b prefix) items)\<rparr>)"
  using assms
proof (induction items arbitrary: k fb)
  case Nil
  then show ?case by simp
next
  case (Cons item items)
  let ?fb = "fb\<lparr>fb_items := (fb_items fb)[b + k := Some (shift_item b prefix item)],
    fb_node_paths := fb_node_paths fb @ paths_from (b + k) [shift_item b prefix item]\<rparr>"
  have split: "paths_from (b + k) (map (shift_item b prefix) (item # items)) =
      paths_from (b + k) [shift_item b prefix item]
      @ paths_from (b + Suc k) (map (shift_item b prefix) items)"
    using paths_from_append
      [of "b + k" "[shift_item b prefix item]" "map (shift_item b prefix) items"] by simp
  have fresh: "map_of (fb_node_paths fb) (node_path_prefixed (cn_path nd) prefix) = None"
    if "item = Node nd" for nd
    using Cons.prems(4) that by (auto simp: map_of_eq_None_iff)
  have first: "fb_append_item mapping prefix k item fb = Ok ?fb"
  proof (rule fb_append_item_eq)
    show "mapping = [b..<b + n]" by (rule Cons.prems(5))
    show "length mapping = n" by (simp add: Cons.prems(5))
    show "k < n" "b + k < length (fb_items fb)"
      using Cons.prems(1,2) by simp_all
    show "transition_indices (item_transition item) \<subseteq> {..<n}"
      using Cons.prems(3) by simp
  qed (rule fresh)
  have rest: "fb_append_items mapping prefix (Suc k) items ?fb =
      Ok (?fb\<lparr>fb_items := take (b + Suc k) (fb_items ?fb) @ map (Some \<circ> shift_item b prefix) items
             @ drop (b + n) (fb_items ?fb),
           fb_node_paths := fb_node_paths ?fb
             @ paths_from (b + Suc k) (map (shift_item b prefix) items)\<rparr>)"
  proof (rule Cons.IH)
    show "distinct (map fst (fb_node_paths ?fb
        @ paths_from (b + Suc k) (map (shift_item b prefix) items)))"
      using Cons.prems(4) unfolding split by simp
  qed (use Cons.prems in auto)
  have tk: "take (b + Suc k) ((fb_items fb)[b + k := x]) = take (b + k) (fb_items fb) @ [x]" for x
    using Cons.prems by (simp add: take_Suc_conv_app_nth)
  have dr: "drop (b + n) ((fb_items fb)[b + k := x]) = drop (b + n) (fb_items fb)" for x
    using Cons.prems by simp
  show ?case
    unfolding fb_append_items.simps first result_bind.simps rest
    using tk dr split by simp
qed

lemma fb_append_exits_eq:
  assumes "\<forall>(p, i) \<in> set exits. i < n" and "mapping = [b..<b + n]"
    and "distinct (map fst exits)"
    and "\<forall>(p, i) \<in> set exits. graph_path_prefixed p prefix \<notin> fst ` set (fb_scope_exits fb)"
  shows "fb_append_exits mapping prefix exits fb =
    Ok (fb\<lparr>fb_scope_exits := fb_scope_exits fb
             @ map (\<lambda>(p, i). (graph_path_prefixed p prefix, b + i)) exits\<rparr>)"
  using assms
proof (induction exits arbitrary: fb)
  case (Cons x exits)
  obtain p i where x: "x = (p, i)" by fastforce
  let ?fb = "fb\<lparr>fb_scope_exits := fb_scope_exits fb @ [(graph_path_prefixed p prefix, b + i)]\<rparr>"
  have "fb_append_exits mapping prefix exits ?fb =
    Ok (?fb\<lparr>fb_scope_exits := fb_scope_exits ?fb
             @ map (\<lambda>(p, i). (graph_path_prefixed p prefix, b + i)) exits\<rparr>)"
    using Cons.prems x by (intro Cons.IH) (auto simp: image_iff)
  moreover have "im_insert (graph_path_prefixed p prefix) (b + i) (fb_scope_exits fb) =
      fb_scope_exits fb @ [(graph_path_prefixed p prefix, b + i)]"
    using Cons.prems x by (intro im_insert_fresh) auto
  ultimately show ?case
    using Cons.prems x by (simp add: index_at_block)
qed simp

lemma distinct_paths_from:
  assumes "\<forall>i j nd nd'. i < length items \<and> j < length items \<and> items ! i = Node nd
      \<and> items ! j = Node nd' \<and> cn_path nd = cn_path nd' \<longrightarrow> i = j"
  shows "distinct (map fst (paths_from k items))"
  using assms
proof (induction items arbitrary: k)
  case (Cons item items)
  have tail: "distinct (map fst (paths_from (Suc k) items))"
  proof (rule Cons.IH, intro allI impI)
    fix i j nd nd'
    assume "i < length items \<and> j < length items \<and> items ! i = Node nd
      \<and> items ! j = Node nd' \<and> cn_path nd = cn_path nd'"
    then show "i = j" using Cons.prems by (metis Suc_inject Suc_mono length_Cons nth_Cons_Suc)
  qed
  show ?case
  proof (cases item)
    case (Node nd)
    have "cn_path nd \<notin> fst ` set (paths_from (Suc k) items)"
    proof
      assume "cn_path nd \<in> fst ` set (paths_from (Suc k) items)"
      then obtain j nd' where "j < length items" "items ! j = Node nd'" "cn_path nd' = cn_path nd"
        by (auto simp: set_paths_from)
      then have "(0::nat) = Suc j" using Cons.prems Node by (metis Suc_mono length_Cons nth_Cons_0 nth_Cons_Suc zero_less_Suc)
      then show False by simp
    qed
    then show ?thesis using tail Node by simp
  qed (use tail in auto)
qed simp

lemma compiled_wf_paths_distinct:
  assumes "compiled_wf g"
  shows "distinct (map fst (paths_from b (map (shift_item b prefix) (cg_items g))))"
proof (rule distinct_paths_from, intro allI impI)
  fix i j nd nd'
  assume a: "i < length (map (shift_item b prefix) (cg_items g))
    \<and> j < length (map (shift_item b prefix) (cg_items g))
    \<and> map (shift_item b prefix) (cg_items g) ! i = Node nd
    \<and> map (shift_item b prefix) (cg_items g) ! j = Node nd' \<and> cn_path nd = cn_path nd'"
  obtain m m' where "cg_items g ! i = Node m" "cg_items g ! j = Node m'"
    using a by (cases "cg_items g ! i"; cases "cg_items g ! j") auto
  moreover from this have "cn_path m = cn_path m'" using a by auto
  ultimately have "map_of (cg_node_paths g) (cn_path m) = Some i"
    "map_of (cg_node_paths g) (cn_path m) = Some j"
    using a compiled_wf_path [OF assms] by auto
  then show "i = j" by simp
qed

text \<open>Paths below a mount that the builder has not used yet are new.\<close>

definition unused_prefix ::
    "graph_path \<Rightarrow> ('s, 'u, 'v, 'w) flat_builder \<Rightarrow> bool" where
  "unused_prefix prefix fb \<longleftrightarrow>
     (\<forall>p. node_path_prefixed p prefix \<notin> fst ` set (fb_node_paths fb))
     \<and> (\<forall>p. graph_path_prefixed p prefix \<notin> fst ` set (fb_scope_exits fb))
     \<and> distinct (map fst (fb_node_paths fb))"

lemma paths_from_shift_fst:
  "p \<in> fst ` set (paths_from k (map (shift_item b prefix) items)) \<Longrightarrow>
     \<exists>q. p = node_path_prefixed q prefix"
proof -
  assume "p \<in> fst ` set (paths_from k (map (shift_item b prefix) items))"
  then obtain j nd where "j < length items" "shift_item b prefix (items ! j) = Node nd"
    "cn_path nd = p"
    by (auto simp: set_paths_from)
  then show ?thesis by (cases "items ! j") auto
qed

lemma fb_append_graph_eq:
  assumes "compiled_wf child" and "unused_prefix prefix fb" and b: "b = length (fb_items fb)"
  shows "fb_append_graph child prefix fb =
    Ok (map_option ((+) b) (cg_entry_index child),
        fb\<lparr>fb_items := fb_items fb @ map (Some \<circ> shift_item b prefix) (cg_items child),
           fb_node_paths := fb_node_paths fb
             @ paths_from b (map (shift_item b prefix) (cg_items child)),
           fb_scope_exits := fb_scope_exits fb
             @ map (\<lambda>(p, i). (graph_path_prefixed p prefix, b + i)) (cg_scope_exits child)\<rparr>)"
proof -
  let ?n = "length (cg_items child)" and ?m = "[b..<b + length (cg_items child)]"
  let ?fb1 = "fb\<lparr>fb_items := fb_items fb @ replicate ?n None\<rparr>"
  let ?new = "paths_from b (map (shift_item b prefix) (cg_items child))"
  let ?fb2 = "fb\<lparr>fb_items := fb_items fb @ map (Some \<circ> shift_item b prefix) (cg_items child),
    fb_node_paths := fb_node_paths fb @ ?new\<rparr>"
  have many: "fb_allocate_many ?n fb = (?m, ?fb1)"
    by (simp add: fb_allocate_many_eq b)
  have dist: "distinct (map fst (fb_node_paths fb @ ?new))"
  proof -
    have "fst ` set (fb_node_paths fb) \<inter> fst ` set ?new = {}"
    proof (intro equals0I, elim IntE)
      fix p assume old: "p \<in> fst ` set (fb_node_paths fb)" and new: "p \<in> fst ` set ?new"
      obtain q where "p = node_path_prefixed q prefix"
        using paths_from_shift_fst [OF new] by blast
      then show False using old assms(2) unfolding unused_prefix_def by blast
    qed
    moreover have "distinct (map fst (fb_node_paths fb))"
      using assms(2) unfolding unused_prefix_def by blast
    moreover have "distinct (map fst ?new)"
      by (rule compiled_wf_paths_distinct [OF assms(1)])
    ultimately show ?thesis
      unfolding map_append distinct_append set_map by blast
  qed
  have trans: "\<forall>item \<in> set (cg_items child). transition_indices (item_transition item) \<subseteq> {..<?n}"
  proof
    fix item assume "item \<in> set (cg_items child)"
    then obtain i where "i < ?n" "cg_items child ! i = item" by (auto simp: in_set_conv_nth)
    then show "transition_indices (item_transition item) \<subseteq> {..<?n}"
      using compiled_wf_item [OF assms(1), of i] by (simp add: item_ok_def)
  qed
  have items: "fb_append_items ?m prefix 0 (cg_items child) ?fb1 = Ok ?fb2"
    using fb_append_items_eq [of b ?n ?fb1 0 "cg_items child" prefix ?m] dist trans
    by (simp add: b)
  have exits: "fb_append_exits ?m prefix (cg_scope_exits child) ?fb2 =
    Ok (?fb2\<lparr>fb_scope_exits := fb_scope_exits ?fb2
          @ map (\<lambda>(p, i). (graph_path_prefixed p prefix, b + i)) (cg_scope_exits child)\<rparr>)"
  proof (rule fb_append_exits_eq [where n = ?n])
    have d: "distinct (map fst (cg_scope_exits child))"
      using assms(1) by (simp add: compiled_wf_def table_ok_def)
    then show "distinct (map fst (cg_scope_exits child))" .
    show "\<forall>(p, i) \<in> set (cg_scope_exits child). i < ?n"
      using compiled_wf_exit [OF assms(1)] d by (auto simp: map_of_eq_Some_iff)
  qed (use assms(2) in \<open>auto simp: unused_prefix_def\<close>)
  have "set_option (cg_entry_index child) \<subseteq> {..<?n}"
    using assms(1) by (simp add: compiled_wf_def)
  then show ?thesis
    unfolding fb_append_graph_def many prod.case Let_def items result_bind.simps exits
    by (cases "cg_entry_index child") (simp_all add: index_at_block)
qed

section \<open>Filling one slot\<close>

lemma table_ok_fresh_path:
  assumes "table_ok xs paths exits D" and "hd (node_segments p) \<notin> D"
  shows "map_of paths p = None"
proof (rule ccontr)
  assume "map_of paths p \<noteq> None"
  then obtain i where "map_of paths p = Some i" by blast
  then obtain nd where nd: "i < length xs" "xs ! i = Some (Node nd)" "cn_path nd = p"
    using table_ok_path [OF assms(1), of p i] by blast
  then show False using table_ok_slot(2) [OF assms(1) nd(1,2)] assms(2) by simp
qed

lemma table_ok_fresh_exit:
  assumes "table_ok xs paths exits D" and "hd (graph_segments p) \<notin> D"
  shows "map_of exits p = None"
proof (rule ccontr)
  assume "map_of exits p \<noteq> None"
  then obtain i where "map_of exits p = Some i" by blast
  then obtain mount tr where at: "i < length xs" "xs ! i = Some (ExitSubgraph p mount tr)"
    using table_ok_exit [OF assms(1), of p i] by blast
  then show False using table_ok_slot(2) [OF assms(1) at] assms(2) by simp
qed

text \<open>The tables after a slot that was empty is filled.\<close>

fun path_entry :: "nat \<Rightarrow> ('s, 'u, 'v, 'w) compiled_item \<Rightarrow> (node_path \<times> nat) list" where
  "path_entry i (Node nd) = [(cn_path nd, i)]"
| "path_entry i _ = []"

fun exit_entry :: "nat \<Rightarrow> ('s, 'u, 'v, 'w) compiled_item \<Rightarrow> (graph_path \<times> nat) list" where
  "exit_entry i (ExitSubgraph gp mount tr) = [(gp, i)]"
| "exit_entry i _ = []"

lemma table_ok_fill:
  assumes ok: "table_ok xs paths exits D" and i: "i < length xs" "xs ! i = None"
    and item: "item_ok (length xs) item" "hd (item_segments item) \<in> D'" and "D \<subseteq> D'"
    and fresh: "\<And>nd. item = Node nd \<Longrightarrow> map_of paths (cn_path nd) = None"
      "\<And>gp mount tr. item = ExitSubgraph gp mount tr \<Longrightarrow> map_of exits gp = None"
  shows "table_ok (xs[i := Some item]) (paths @ path_entry i item) (exits @ exit_entry i item) D'"
  unfolding table_ok_def
proof (intro conjI allI impI)
  fix j it assume j: "j < length (xs[i := Some item])" "xs[i := Some item] ! j = Some it"
  have "item_ok (length xs) it \<and> hd (item_segments it) \<in> D'"
  proof (cases "j = i")
    case True
    then show ?thesis using j i item by simp
  next
    case False
    then have "xs ! j = Some it" "j < length xs" using j by simp_all
    then show ?thesis using table_ok_slot [OF ok, of j it] \<open>D \<subseteq> D'\<close> by blast
  qed
  then show "item_ok (length (xs[i := Some item])) it" "hd (item_segments it) \<in> D'"
    by simp_all
next
  fix p j
  have old: "map_of paths p = Some j \<longleftrightarrow> j < length xs \<and> (\<exists>nd. xs ! j = Some (Node nd) \<and> cn_path nd = p)"
    using ok by (simp add: table_ok_def)
  have "map_of (paths @ path_entry i item) p = Some j \<longleftrightarrow>
      map_of paths p = Some j \<or> (j = i \<and> (\<exists>nd. item = Node nd \<and> cn_path nd = p))"
    using fresh(1) by (cases item) (auto simp: map_add_Some_iff split: if_splits)
  then show "map_of (paths @ path_entry i item) p = Some j \<longleftrightarrow> j < length (xs[i := Some item])
      \<and> (\<exists>nd. xs[i := Some item] ! j = Some (Node nd) \<and> cn_path nd = p)"
    using old i by (auto simp: nth_list_update)
next
  fix p j
  have old: "map_of exits p = Some j \<longleftrightarrow>
      j < length xs \<and> (\<exists>mount tr. xs ! j = Some (ExitSubgraph p mount tr))"
    using ok by (simp add: table_ok_def)
  have "map_of (exits @ exit_entry i item) p = Some j \<longleftrightarrow>
      map_of exits p = Some j \<or> (j = i \<and> (\<exists>mount tr. item = ExitSubgraph p mount tr))"
    using fresh(2) by (cases item) (auto simp: map_add_Some_iff split: if_splits)
  then show "map_of (exits @ exit_entry i item) p = Some j \<longleftrightarrow> j < length (xs[i := Some item])
      \<and> (\<exists>mount tr. xs[i := Some item] ! j = Some (ExitSubgraph p mount tr))"
    using old i by (auto simp: nth_list_update)
next
  show "distinct (map fst (paths @ path_entry i item))"
    using ok fresh(1) by (cases item) (auto simp: table_ok_def map_of_eq_None_iff)
  show "distinct (map fst (exits @ exit_entry i item))"
    using ok fresh(2) by (cases item) (auto simp: table_ok_def map_of_eq_None_iff)
qed

end
