(* ===== verification/Validation.thy ===== *)
theory Validation
  imports Compiler
begin

text \<open>
  What the checks of the first half of compilation establish. A successful aggregation means
  that every edge has a known source and known targets, so the topology is built without a
  missing index and every transition of a declared item can be compiled. With a correct
  depth-first search, validation succeeds exactly when every item and END are reachable from
  START and every item has a transition.
\<close>

section \<open>Known endpoints\<close>

definition known_target :: "('s, 'u, 'v, 'w) declared_items \<Rightarrow> node_id \<Rightarrow> bool" where
  "known_target items t \<longleftrightarrow> is_end t \<or> im_contains items t"

definition known_source :: "('s, 'u, 'v, 'w) declared_items \<Rightarrow> node_id \<Rightarrow> bool" where
  "known_source items n \<longleftrightarrow> is_start n \<or> im_contains items n"

lemma check_fixed_edge_None_iff:
  assumes "\<forall>n \<in> fst ` set items. \<not> is_reserved n"
  shows "check_fixed_edge items e = None \<longleftrightarrow>
    known_source items (fe_from e) \<and> known_target items (fe_to e)"
proof -
  have "im_contains items n \<Longrightarrow> \<not> is_start n \<and> \<not> is_end n" for n
    using assms by (auto simp: im_contains_iff is_reserved_def)
  moreover have "is_start n \<Longrightarrow> \<not> is_end n" for n
    by (auto simp: is_start_iff is_end_iff)
  ultimately show ?thesis
    by (auto simp: check_fixed_edge_def known_source_def known_target_def is_reserved_def
        split: option.splits if_splits)
qed

lemma check_conditional_edge_None_iff:
  assumes "\<forall>n \<in> fst ` set items. \<not> is_reserved n"
  shows "check_conditional_edge items e = None \<longleftrightarrow>
    im_contains items (ce_source e) \<and> (\<forall>t \<in> set (ce_allowed_targets e). known_target items t)"
proof -
  have "im_contains items n \<Longrightarrow> \<not> is_start n \<and> \<not> is_end n" for n
    using assms by (auto simp: im_contains_iff is_reserved_def)
  moreover have "is_start n \<Longrightarrow> \<not> is_end n" for n
    by (auto simp: is_start_iff is_end_iff)
  ultimately show ?thesis
    by (auto simp: check_conditional_edge_def known_target_def each_ok_None_iff)
qed

lemma check_fan_out_edge_None_iff:
  assumes "\<forall>n \<in> fst ` set items. \<not> is_reserved n"
  shows "check_fan_out_edge items e = None \<longleftrightarrow>
    im_contains items (fo_source e) \<and> (\<forall>t \<in> set (fo_targets e). known_target items t)"
proof -
  have "im_contains items n \<Longrightarrow> \<not> is_start n \<and> \<not> is_end n" for n
    using assms by (auto simp: im_contains_iff is_reserved_def)
  moreover have "is_start n \<Longrightarrow> \<not> is_end n" for n
    by (auto simp: is_start_iff is_end_iff)
  ultimately show ?thesis
    by (auto simp: check_fan_out_edge_def known_target_def each_ok_None_iff)
qed

lemma check_conditional_fan_out_edge_None_iff:
  assumes "\<forall>n \<in> fst ` set items. \<not> is_reserved n"
  shows "check_conditional_fan_out_edge items e = None \<longleftrightarrow>
    im_contains items (cf_source e)
    \<and> (\<forall>t \<in> set (cf_allowed_targets e). known_target items t \<and> \<not> declares_subgraph items t)"
proof -
  have plain: "im_contains items n \<Longrightarrow> \<not> is_start n \<and> \<not> is_end n" for n
    using assms by (auto simp: im_contains_iff is_reserved_def)
  have apart: "is_start n \<Longrightarrow> \<not> is_end n" for n
    by (auto simp: is_start_iff is_end_iff)
  have target: "(if is_start t then Some (StartHasIncoming (cf_source e))
      else if is_end t then None
      else case map_of items t of
        None \<Rightarrow> Some (UnknownConditionalFanOutTarget (cf_source e) t)
      | Some item \<Rightarrow> if is_subgraph item
          then Some (ConditionalFanOutTargetsSubgraph (cf_source e) t) else None) = None
    \<longleftrightarrow> known_target items t \<and> \<not> declares_subgraph items t" for t
    using plain [of t] apart [of t]
    by (auto simp: known_target_def im_contains_def declares_subgraph_def split: option.split)
  show ?thesis
    using plain [of "cf_source e"] apart [of "cf_source e"]
    unfolding check_conditional_fan_out_edge_def
    by (cases "is_start (cf_source e)"; cases "is_end (cf_source e)";
        cases "im_contains items (cf_source e)")
       (simp_all only: each_ok_None_iff target simp_thms if_True if_False option.simps)
qed

section \<open>Aggregation\<close>

definition fixed_from :: "fixed_edge list \<Rightarrow> node_id \<Rightarrow> fixed_edge list" where
  "fixed_from es n = filter (\<lambda>e. fe_from e = n) es"

text \<open>What the fixed map holds after the edges \<open>es\<close>, from what it held before.\<close>

definition fixed_entry :: "(nat \<times> node_id) option \<Rightarrow> fixed_edge list \<Rightarrow> (nat \<times> node_id) option" where
  "fixed_entry old es =
     (case old of
        Some (c, t) \<Rightarrow> Some (c + length es, t)
      | None \<Rightarrow> (case es of [] \<Rightarrow> None | e # _ \<Rightarrow> Some (length es, fe_to e)))"

lemma fixed_entry_Nil [simp]: "fixed_entry old [] = old"
  by (auto simp: fixed_entry_def split: option.split)

lemma map_of_add_fixed:
  "map_of (add_fixed e m) n = fixed_entry (map_of m n) (fixed_from [e] n)"
  by (auto simp: add_fixed_def fixed_entry_def fixed_from_def map_of_im_insert
      split: option.splits)

lemma fixed_entry_Cons:
  "fixed_entry (fixed_entry old (fixed_from [e] n)) (fixed_from es n) =
    fixed_entry old (fixed_from (e # es) n)"
  by (cases old) (auto simp: fixed_entry_def fixed_from_def split: list.split option.split)

lemma aggregate_fixed_lookup:
  "aggregate_fixed items es m = Inr m' \<Longrightarrow>
     map_of m' n = fixed_entry (map_of m n) (fixed_from es n)"
proof (induction es arbitrary: m)
  case Nil
  then show ?case by (simp add: fixed_from_def)
next
  case (Cons e es)
  then have "map_of m' n = fixed_entry (map_of (add_fixed e m) n) (fixed_from es n)"
    by (simp split: option.splits)
  then show ?case by (simp add: map_of_add_fixed fixed_entry_Cons)
qed

lemma aggregate_fixed_ok_iff:
  "(\<exists>m'. aggregate_fixed items es m = Inr m') \<longleftrightarrow> (\<forall>e \<in> set es. check_fixed_edge items e = None)"
  by (induction es arbitrary: m) (auto split: option.splits)

lemma aggregate_by_ok_iff:
  "(\<exists>m'. aggregate_by check src es m = Inr m') \<longleftrightarrow> (\<forall>e \<in> set es. check e = None)"
  by (induction es arbitrary: m) (auto split: option.splits)

lemma aggregate_by_lookup:
  assumes "aggregate_by check src es m = Inr m'" and "distinct (map src es)"
  shows "map_of m' n = Some e \<longleftrightarrow>
    (e \<in> set es \<and> src e = n) \<or> (n \<notin> src ` set es \<and> map_of m n = Some e)"
  using assms
proof (induction es arbitrary: m)
  case (Cons x es)
  then have "map_of m' n = Some e \<longleftrightarrow> (e \<in> set es \<and> src e = n)
      \<or> (n \<notin> src ` set es \<and> map_of (im_insert (src x) x m) n = Some e)"
    by (simp split: option.splits)
  then show ?case using Cons.prems(2) by (auto simp: map_of_im_insert)
qed simp

lemma aggregate_by_Nil:
  assumes "aggregate_by check src es [] = Inr m'" and "distinct (map src es)"
  shows "map_of m' n = Some e \<longleftrightarrow> e \<in> set es \<and> src e = n"
    and "im_contains m' n \<longleftrightarrow> n \<in> src ` set es" and "m' = [] \<longleftrightarrow> es = []"
proof -
  show look: "map_of m' n = Some e \<longleftrightarrow> e \<in> set es \<and> src e = n" for n e
    using aggregate_by_lookup [OF assms] by simp
  show "im_contains m' n \<longleftrightarrow> n \<in> src ` set es" for n
    using look by (auto simp: im_contains_def)
  show "m' = [] \<longleftrightarrow> es = []"
  proof
    assume "m' = []"
    then have "e \<notin> set es" for e using look [of "src e" e] by simp
    then show "es = []" by (cases es) auto
  next
    assume "es = []"
    then show "m' = []" using assms(1) by simp
  qed
qed

text \<open>The declared edges of a graph that aggregation accepts.\<close>

definition edges_known :: "('s, 'u, 'v, 'w) state_graph \<Rightarrow> bool" where
  "edges_known g \<longleftrightarrow>
     (let items = sg_items g in
      (\<forall>e \<in> set (sg_fixed_edges g). known_source items (fe_from e) \<and> known_target items (fe_to e))
      \<and> (\<forall>e \<in> set (sg_conditional_edges g).
           im_contains items (ce_source e) \<and> (\<forall>t \<in> set (ce_allowed_targets e). known_target items t))
      \<and> (\<forall>e \<in> set (sg_fan_out_edges g).
           im_contains items (fo_source e) \<and> (\<forall>t \<in> set (fo_targets e). known_target items t))
      \<and> (\<forall>e \<in> set (sg_conditional_fan_out_edges g).
           im_contains items (cf_source e)
           \<and> (\<forall>t \<in> set (cf_allowed_targets e).
                known_target items t \<and> \<not> declares_subgraph items t)))"

lemma aggregate_edges_ok_iff:
  assumes "builder_wf g"
  shows "(\<exists>ea. aggregate_edges g = Inr ea) \<longleftrightarrow> edges_known g"
proof -
  have res: "\<forall>n \<in> fst ` set (sg_items g). \<not> is_reserved n"
    using assms by (simp add: builder_wf_def)
  have "(\<exists>ea. aggregate_edges g = Inr ea) \<longleftrightarrow>
      (\<exists>m. aggregate_fixed (sg_items g) (sg_fixed_edges g) [] = Inr m)
      \<and> (\<exists>m. aggregate_by (check_conditional_edge (sg_items g)) ce_source (sg_conditional_edges g) [] = Inr m)
      \<and> (\<exists>m. aggregate_by (check_fan_out_edge (sg_items g)) fo_source (sg_fan_out_edges g) [] = Inr m)
      \<and> (\<exists>m. aggregate_by (check_conditional_fan_out_edge (sg_items g)) cf_source
            (sg_conditional_fan_out_edges g) [] = Inr m)"
    by (simp add: aggregate_edges_def Let_def split: sum.split)
  then show ?thesis
    by (simp add: aggregate_fixed_ok_iff aggregate_by_ok_iff check_fixed_edge_None_iff [OF res]
        check_conditional_edge_None_iff [OF res] check_fan_out_edge_None_iff [OF res]
        check_conditional_fan_out_edge_None_iff [OF res] edges_known_def Let_def)
qed

text \<open>What the aggregation of a graph holds.\<close>

definition aggregates :: "('s, 'u, 'v, 'w) state_graph \<Rightarrow> 's edge_aggregation \<Rightarrow> bool" where
  "aggregates g ea \<longleftrightarrow>
     (\<forall>n. map_of (ea_fixed ea) n = fixed_entry None (fixed_from (sg_fixed_edges g) n))
     \<and> (\<forall>n e. map_of (ea_fan_out ea) n = Some e \<longleftrightarrow> e \<in> set (sg_fan_out_edges g) \<and> fo_source e = n)
     \<and> (\<forall>n e. map_of (ea_conditional ea) n = Some e \<longleftrightarrow>
          e \<in> set (sg_conditional_edges g) \<and> ce_source e = n)
     \<and> (\<forall>n e. map_of (ea_conditional_fan_out ea) n = Some e \<longleftrightarrow>
          e \<in> set (sg_conditional_fan_out_edges g) \<and> cf_source e = n)
     \<and> (ea_fan_out ea = [] \<longrightarrow> sg_fan_out_edges g = [])
     \<and> (ea_conditional_fan_out ea = [] \<longrightarrow> sg_conditional_fan_out_edges g = [])"

lemma aggregate_edges_aggregates:
  assumes "builder_wf g" and "aggregate_edges g = Inr ea"
  shows "aggregates g ea"
proof -
  have fixed: "aggregate_fixed (sg_items g) (sg_fixed_edges g) [] = Inr (ea_fixed ea)"
    and cond: "aggregate_by (check_conditional_edge (sg_items g)) ce_source
      (sg_conditional_edges g) [] = Inr (ea_conditional ea)"
    and fan: "aggregate_by (check_fan_out_edge (sg_items g)) fo_source
      (sg_fan_out_edges g) [] = Inr (ea_fan_out ea)"
    and cfan: "aggregate_by (check_conditional_fan_out_edge (sg_items g)) cf_source
      (sg_conditional_fan_out_edges g) [] = Inr (ea_conditional_fan_out ea)"
    using assms(2) by (auto simp: aggregate_edges_def Let_def split: sum.splits)
  have d: "distinct (map ce_source (sg_conditional_edges g))"
    "distinct (map fo_source (sg_fan_out_edges g))"
    "distinct (map cf_source (sg_conditional_fan_out_edges g))"
    using assms(1) by (simp_all add: builder_wf_def)
  show ?thesis
    unfolding aggregates_def
    using aggregate_fixed_lookup [OF fixed] aggregate_by_Nil [OF cond d(1)]
      aggregate_by_Nil [OF fan d(2)] aggregate_by_Nil [OF cfan d(3)]
    by simp
qed

section \<open>One transition per source\<close>

definition transition_count :: "('s, 'u, 'v, 'w) state_graph \<Rightarrow> node_id \<Rightarrow> nat" where
  "transition_count g n =
     length (fixed_from (sg_fixed_edges g) n)
     + of_bool (n \<in> fo_source ` set (sg_fan_out_edges g))
     + of_bool (n \<in> ce_source ` set (sg_conditional_edges g))
     + of_bool (n \<in> cf_source ` set (sg_conditional_fan_out_edges g))"

lemma contains_source:
  assumes "\<And>e. map_of m n = Some e \<longleftrightarrow> e \<in> S \<and> src e = n"
  shows "im_contains m n \<longleftrightarrow> n \<in> src ` S"
proof (cases "map_of m n")
  case (Some e)
  then show ?thesis using assms [of e] by (auto simp: im_contains_def)
qed (use assms in \<open>auto simp: im_contains_def\<close>)

lemma aggregates_contains:
  assumes "aggregates g ea"
  shows "im_contains (ea_fixed ea) n \<longleftrightarrow> fixed_from (sg_fixed_edges g) n \<noteq> []"
    and "im_contains (ea_fan_out ea) n \<longleftrightarrow> n \<in> fo_source ` set (sg_fan_out_edges g)"
    and "im_contains (ea_conditional ea) n \<longleftrightarrow> n \<in> ce_source ` set (sg_conditional_edges g)"
    and "im_contains (ea_conditional_fan_out ea) n \<longleftrightarrow>
      n \<in> cf_source ` set (sg_conditional_fan_out_edges g)"
proof -
  show "im_contains (ea_fixed ea) n \<longleftrightarrow> fixed_from (sg_fixed_edges g) n \<noteq> []"
    using assms by (simp add: aggregates_def im_contains_def fixed_entry_def split: list.split)
qed (rule contains_source, use assms in \<open>simp add: aggregates_def\<close>)+

lemma aggregates_fixed_count:
  assumes "aggregates g ea"
  shows "fixed_count ea n = length (fixed_from (sg_fixed_edges g) n)"
  using assms by (simp add: aggregates_def fixed_count_def fixed_entry_def split: list.split)

lemma edge_shapes_and_outgoing_iff:
  assumes "aggregates g ea"
  shows "validate_edge_shapes g ea = None \<and> (\<forall>n \<in> fst ` set (sg_items g). has_outgoing ea n) \<longleftrightarrow>
    length (fixed_from (sg_fixed_edges g) node_id_start) = 1
    \<and> (\<forall>n \<in> fst ` set (sg_items g). transition_count g n = 1)"
proof -
  have item: "fixed_count ea n \<le> 1 \<and> kind_count ea n \<le> 1 \<and> has_outgoing ea n \<longleftrightarrow>
      transition_count g n = 1" for n
    unfolding kind_count_def has_outgoing_def transition_count_def
      aggregates_contains [OF assms] aggregates_fixed_count [OF assms]
    by (cases "fixed_from (sg_fixed_edges g) n") (auto simp: of_bool_def)
  have "validate_edge_shapes g ea = None \<longleftrightarrow> fixed_count ea node_id_start = 1
      \<and> (\<forall>n \<in> fst ` set (sg_items g). fixed_count ea n \<le> 1 \<and> kind_count ea n \<le> 1)"
    by (auto simp: validate_edge_shapes_def Let_def each_ok_None_iff not_less split: if_splits)
  then show ?thesis using item by (simp only: aggregates_fixed_count [OF assms]) blast
qed

section \<open>Reachability\<close>

lemma fold_im_insert:
  "distinct (map fst (m @ xs)) \<Longrightarrow> fold (\<lambda>(n, i) m. im_insert n i m) xs m = m @ xs"
proof (induction xs arbitrary: m)
  case (Cons x xs)
  obtain n i where x: "x = (n, i)" by fastforce
  have "im_insert n i m = m @ [(n, i)]"
    using Cons.prems x by (intro im_insert_fresh) auto
  then show ?case using Cons.IH [of "m @ [x]"] Cons.prems x by simp
qed simp

text \<open>The identifiers of the topology: START, the declared items in order, END.\<close>

definition topology_ids :: "('s, 'u, 'v, 'w) state_graph \<Rightarrow> node_id list" where
  "topology_ids g = node_id_start # map fst (sg_items g) @ [node_id_end]"

lemma topology_ids_distinct: "builder_wf g \<Longrightarrow> distinct (topology_ids g)"
  by (auto simp: topology_ids_def builder_wf_def is_reserved_def is_start_iff is_end_iff
      node_id_start_def node_id_end_def START_def END_def)

lemma topology_indices_eq:
  assumes "builder_wf g"
  shows "topology_indices g = zip (topology_ids g) [0..<length (topology_ids g)]"
proof -
  have "distinct (map fst ([] @ zip (topology_ids g) [0..<length (topology_ids g)]))"
    using topology_ids_distinct [OF assms] by simp
  from fold_im_insert [OF this] show ?thesis
    by (simp add: topology_indices_def topology_ids_def Let_def)
qed

lemma topology_index:
  assumes "builder_wf g"
  shows "map_of (topology_indices g) n = Some i \<longleftrightarrow>
    i < length (topology_ids g) \<and> topology_ids g ! i = n"
proof -
  let ?ids = "topology_ids g"
  have "distinct (map fst (zip ?ids [0..<length ?ids]))"
    using topology_ids_distinct [OF assms] by simp
  then show ?thesis
    by (auto simp: topology_indices_eq [OF assms] map_of_eq_Some_iff set_zip)
qed

definition topology_index_of :: "('s, 'u, 'v, 'w) state_graph \<Rightarrow> node_id \<Rightarrow> nat" where
  "topology_index_of g n = (case map_of (topology_indices g) n of Some i \<Rightarrow> i | None \<Rightarrow> 0)"

lemma topology_index_of:
  assumes "builder_wf g" and "n \<in> set (topology_ids g)"
  shows "map_of (topology_indices g) n = Some (topology_index_of g n)"
proof -
  obtain i where "i < length (topology_ids g)" "topology_ids g ! i = n"
    using assms(2) by (auto simp: in_set_conv_nth)
  then have "map_of (topology_indices g) n = Some i" using topology_index [OF assms(1)] by blast
  then show ?thesis by (simp add: topology_index_of_def)
qed

lemma topology_index_of_inj:
  assumes "builder_wf g" shows "inj_on (topology_index_of g) (set (topology_ids g))"
proof (rule inj_onI)
  fix a b assume ab: "a \<in> set (topology_ids g)" "b \<in> set (topology_ids g)"
    "topology_index_of g a = topology_index_of g b"
  then have "map_of (topology_indices g) a = Some (topology_index_of g b)"
    "map_of (topology_indices g) b = Some (topology_index_of g b)"
    using topology_index_of [OF assms ab(1)] topology_index_of [OF assms ab(2)] ab(3)
    by (simp_all only:)
  then show "a = b"
    using topology_index [OF assms, of a "topology_index_of g b"]
      topology_index [OF assms, of b "topology_index_of g b"] by simp
qed

lemma known_in_ids:
  "known_target (sg_items g) t \<Longrightarrow> t \<in> set (topology_ids g)"
  "known_source (sg_items g) t \<Longrightarrow> t \<in> set (topology_ids g)"
  "im_contains (sg_items g) t \<Longrightarrow> t \<in> set (topology_ids g)"
  by (auto simp: known_target_def known_source_def topology_ids_def im_contains_iff is_end_iff
      is_start_iff)

text \<open>The declared edges as a relation on identifiers.\<close>

definition edge_relation :: "('s, 'u, 'v, 'w) state_graph \<Rightarrow> (node_id \<times> node_id) set" where
  "edge_relation g = (\<lambda>(a, b, _). (a, b)) ` set (declared_edges g)"

lemma edge_relation_ids:
  assumes "edges_known g"
  shows "edge_relation g \<subseteq> set (topology_ids g) \<times> set (topology_ids g)"
proof
  fix p assume "p \<in> edge_relation g"
  then obtain a b k where p: "p = (a, b)" and "(a, b, k) \<in> set (declared_edges g)"
    by (auto simp: edge_relation_def)
  then consider
      (fixed) e where "e \<in> set (sg_fixed_edges g)" "a = fe_from e" "b = fe_to e"
    | (fan) e where "e \<in> set (sg_fan_out_edges g)" "a = fo_source e" "b \<in> set (fo_targets e)"
    | (cond) e where "e \<in> set (sg_conditional_edges g)" "a = ce_source e"
        "b \<in> set (ce_allowed_targets e)"
    | (cfan) e where "e \<in> set (sg_conditional_fan_out_edges g)" "a = cf_source e"
        "b \<in> set (cf_allowed_targets e)"
    by (auto simp: declared_edges_def)
  then have "known_source (sg_items g) a \<and> known_target (sg_items g) b"
    using assms by cases (auto simp: edges_known_def Let_def known_source_def)
  then show "p \<in> set (topology_ids g) \<times> set (topology_ids g)"
    using p known_in_ids by blast
qed

lemma topology_edges_eq:
  assumes "builder_wf g" and "edges_known g"
  shows "\<exists>es. topology_edges g = Some es
    \<and> set es = map_prod (topology_index_of g) (topology_index_of g) ` edge_relation g"
proof -
  let ?f = "map_prod (topology_index_of g) (topology_index_of g)"
  have at: "topology_edge_at (topology_indices g) x = Some (?f (fst x, fst (snd x)))"
    if "x \<in> set (declared_edges g)" for x
  proof -
    obtain a b k where x: "x = (a, b, k)" by (cases x)
    then have "(a, b) \<in> edge_relation g" using that by (force simp: edge_relation_def)
    then have "a \<in> set (topology_ids g)" "b \<in> set (topology_ids g)"
      using edge_relation_ids [OF assms(2)] by auto
    then show ?thesis using x by (simp add: topology_edge_at_def topology_index_of [OF assms(1)])
  qed
  have "topology_edges g = Some (map (\<lambda>x. ?f (fst x, fst (snd x))) (declared_edges g))"
    unfolding topology_edges_def those_eq_Some_iff using at by simp
  moreover have "set (map (\<lambda>x. ?f (fst x, fst (snd x))) (declared_edges g)) = ?f ` edge_relation g"
    by (auto simp: edge_relation_def image_image split_beta)
  ultimately show ?thesis by blast
qed

lemma rtrancl_map_prod:
  assumes inj: "inj_on f V" and sub: "R \<subseteq> V \<times> V" and a: "a \<in> V" and b: "b \<in> V"
  shows "(f a, f b) \<in> (map_prod f f ` R)\<^sup>* \<longleftrightarrow> (a, b) \<in> R\<^sup>*"
proof
  have reach: "\<exists>c \<in> V. y = f c \<and> (a, c) \<in> R\<^sup>*" if "(f a, y) \<in> (map_prod f f ` R)\<^sup>*" for y
    using that
  proof (induction rule: rtrancl_induct)
    case base
    then show ?case using a by blast
  next
    case (step y z)
    then obtain c where c: "c \<in> V" "y = f c" "(a, c) \<in> R\<^sup>*" by blast
    obtain c' d where cd: "(c', d) \<in> R" "y = f c'" "z = f d" using step.hyps(2) by auto
    have "c' \<in> V" "d \<in> V" using cd(1) sub by blast+
    then have "c' = c" using inj_onD [OF inj] c cd by metis
    then have "(a, d) \<in> R\<^sup>*" using c(3) cd(1) by (metis rtrancl.rtrancl_into_rtrancl)
    then show ?case using \<open>d \<in> V\<close> cd(3) by blast
  qed
  assume "(f a, f b) \<in> (map_prod f f ` R)\<^sup>*"
  then obtain c where "c \<in> V" "f b = f c" "(a, c) \<in> R\<^sup>*" using reach by blast
  then show "(a, b) \<in> R\<^sup>*" using inj_onD [OF inj] b by metis
next
  assume "(a, b) \<in> R\<^sup>*"
  then show "(f a, f b) \<in> (map_prod f f ` R)\<^sup>*"
    by (induction rule: rtrancl_induct) (auto intro: rtrancl_into_rtrancl)
qed

text \<open>
  What topology validation decides, for a depth-first search that visits exactly the reachable
  indices: every item and END can be reached from START, and every item has a transition.
\<close>

definition all_reachable :: "('s, 'u, 'v, 'w) state_graph \<Rightarrow> bool" where
  "all_reachable g \<longleftrightarrow>
     (\<forall>n \<in> insert node_id_end (fst ` set (sg_items g)).
        (node_id_start, n) \<in> (edge_relation g)\<^sup>*)"

lemma each_res_if:
  "each_res (\<lambda>x. if P x then Ok () else Err (e x)) xs = Ok () \<longleftrightarrow> (\<forall>x \<in> set xs. P x)"
  "each_res (\<lambda>x. if P x then Ok () else Err (e x)) xs \<noteq> Panic"
  by (induction xs) auto

lemma of_check_each_if:
  "of_check (each_ok (\<lambda>x. if P x then None else Some (e x)) xs) = Ok () \<longleftrightarrow> (\<forall>x \<in> set xs. P x)"
  "of_check (each_ok (\<lambda>x. if P x then None else Some (e x)) xs) \<noteq> Panic"
  by (induction xs) auto

lemma each_res_cong:
  "(\<And>x. x \<in> set xs \<Longrightarrow> f x = h x) \<Longrightarrow> each_res f xs = each_res h xs"
  by (induction xs) auto

lemma validate_topology_iff:
  assumes wf: "builder_wf g" and known: "edges_known g" and dfs: "dfs_correct dfs"
  shows "validate_topology dfs g ea = Ok () \<longleftrightarrow>
      all_reachable g \<and> (\<forall>n \<in> fst ` set (sg_items g). has_outgoing ea n)"
    and "validate_topology dfs g ea \<noteq> Panic"
proof -
  let ?ix = "topology_index_of g" and ?ids = "topology_ids g"
  let ?keys = "map fst (sg_items g)"
  obtain es where es: "topology_edges g = Some es"
    "set es = map_prod ?ix ?ix ` edge_relation g"
    using topology_edges_eq [OF wf known] by blast
  have ids: "node_id_start \<in> set ?ids" "node_id_end \<in> set ?ids" "set ?keys \<subseteq> set ?ids"
    by (auto simp: topology_ids_def)
  let ?seen = "\<lambda>n. (node_id_start, n) \<in> (edge_relation g)\<^sup>*"
  have visited: "?ix n \<in> set (dfs es (?ix node_id_start)) \<longleftrightarrow> ?seen n" if "n \<in> set ?ids" for n
    using dfs es(2) that rtrancl_map_prod [OF topology_index_of_inj [OF wf]
        edge_relation_ids [OF known] ids(1) that]
    by (simp add: dfs_correct_def)
  let ?reach = "each_res (\<lambda>n. if ?seen n then Ok () else Err (UnreachableNode n)) ?keys"
  let ?out = "of_check (each_ok (\<lambda>n. if has_outgoing ea n then None
      else Some (MissingOutgoingEdge n)) ?keys)"
  have items: "each_res (\<lambda>n. result_bind (of_index (map_of (topology_indices g) n)) (\<lambda>i.
      if i \<in> set (dfs es (?ix node_id_start)) then Ok () else Err (UnreachableNode n))) ?keys =
      ?reach"
  proof (rule each_res_cong)
    fix n assume "n \<in> set ?keys"
    then have n: "n \<in> set ?ids" using ids by blast
    show "result_bind (of_index (map_of (topology_indices g) n)) (\<lambda>i.
      if i \<in> set (dfs es (?ix node_id_start)) then Ok () else Err (UnreachableNode n)) =
      (if ?seen n then Ok () else Err (UnreachableNode n))"
      by (simp add: topology_index_of [OF wf n] visited [OF n])
  qed
  have eq: "validate_topology dfs g ea =
      result_bind ?reach (\<lambda>_. result_bind ?out (\<lambda>_.
        if ?seen node_id_end then Ok () else Err NoReachableEnd))"
    unfolding validate_topology_def Let_def validate_reachability_def
      topology_index_of [OF wf ids(1)] topology_index_of [OF wf ids(2)] es(1)
      of_index.simps result_bind.simps items visited [OF ids(2)] ..
  note reach = each_res_if [of ?seen UnreachableNode ?keys]
    and out = of_check_each_if [of "has_outgoing ea" MissingOutgoingEdge ?keys]
  show "validate_topology dfs g ea = Ok () \<longleftrightarrow>
      all_reachable g \<and> (\<forall>n \<in> fst ` set (sg_items g). has_outgoing ea n)"
    unfolding eq result_bind_eq_Ok all_reachable_def using reach(1) out(1) by auto
  show "validate_topology dfs g ea \<noteq> Panic"
    unfolding eq result_bind_eq_Panic using reach(2) out(2) by auto
qed

end
