(* ===== verification/Layout.thy ===== *)
theory Layout
  imports Placement Validation
begin

text \<open>
  Laying out a checked graph. The compiler allocates one slot for a node and two for a mount, in
  declaration order; placing an item fills exactly its slots and appends the items of a mounted
  graph. The invariant \<open>placing\<close> says how far placement has come; it makes every step succeed,
  and at the end the compiled graph is well formed and holds exactly the declared nodes and the
  nodes of the mounted graphs under their prefix.
\<close>

section \<open>Slots and entries\<close>

fun item_size :: "('s, 'u, 'v, 'w) declared_item \<Rightarrow> nat" where
  "item_size (DeclaredNode k) = 1"
| "item_size (Subgraph sub) = 2"

definition layout_size :: "('s, 'u, 'v, 'w) declared_items \<Rightarrow> nat" where
  "layout_size items = sum_list (map (item_size \<circ> snd) items)"

lemma layout_size_simps [simp]:
  "layout_size [] = 0"
  "layout_size (x # items) = item_size (snd x) + layout_size items"
  by (simp_all add: layout_size_def)

fun layout_entries :: "nat \<Rightarrow> ('s, 'u, 'v, 'w) declared_items \<Rightarrow> (node_id \<times> nat) list" where
  "layout_entries k [] = []"
| "layout_entries k ((n, item) # items) = (n, k) # layout_entries (k + item_size item) items"

fun layout_exits :: "nat \<Rightarrow> ('s, 'u, 'v, 'w) declared_items \<Rightarrow> (node_id \<times> nat) list" where
  "layout_exits k [] = []"
| "layout_exits k ((n, DeclaredNode kind) # items) = layout_exits (k + 1) items"
| "layout_exits k ((n, Subgraph sub) # items) = (n, k + 1) # layout_exits (k + 2) items"

lemma fst_layout_entries: "map fst (layout_entries k items) = map fst items"
  by (induction k items rule: layout_entries.induct) auto

lemma layout_entries_bound:
  "(n, i) \<in> set (layout_entries k items) \<Longrightarrow> k \<le> i \<and> i < k + layout_size items"
proof (induction k items rule: layout_entries.induct)
  case (2 k m item items)
  then show ?case by (cases item) auto
qed simp

lemma fst_layout_exits: "fst ` set (layout_exits k items) \<subseteq> fst ` set items"
  by (induction k items rule: layout_exits.induct) auto

lemma allocate_items_eq:
  assumes "distinct (map fst items)"
    and "fst ` set items \<inter> fst ` set entries = {}" and "fst ` set items \<inter> fst ` set exits = {}"
  shows "allocate_items items fb entries exits =
    (fb\<lparr>fb_items := fb_items fb @ replicate (layout_size items) None\<rparr>,
     entries @ layout_entries (length (fb_items fb)) items,
     exits @ layout_exits (length (fb_items fb)) items)"
  using assms
proof (induction items arbitrary: fb entries exits)
  case (Cons x items)
  obtain n item where x: "x = (n, item)" by fastforce
  have entry: "im_insert n i entries = entries @ [(n, i)]" for i
    using Cons.prems(2) x by (intro im_insert_fresh) auto
  have exit: "im_insert n i exits = exits @ [(n, i)]" for i
    using Cons.prems(3) x by (intro im_insert_fresh) auto
  have fresh: "distinct (map fst items)" "fst ` set items \<inter> fst ` set (entries @ [(n, i)]) = {}"
    "fst ` set items \<inter> fst ` set exits = {}" "fst ` set items \<inter> fst ` set (exits @ [(n, i)]) = {}" for i
    using Cons.prems x by auto
  show ?case
  proof (cases item)
    case (DeclaredNode kind)
    let ?fb = "fb\<lparr>fb_items := fb_items fb @ [None]\<rparr>"
    show ?thesis
      using Cons.IH [OF fresh(1) fresh(2) fresh(3), of ?fb "length (fb_items fb)"]
      by (simp add: x DeclaredNode fb_allocate_def entry)
  next
    case (Subgraph sub)
    let ?fb = "fb\<lparr>fb_items := fb_items fb @ [None, None]\<rparr>"
    show ?thesis
      using Cons.IH [OF fresh(1) fresh(2) fresh(4), of ?fb "length (fb_items fb)"
          "Suc (length (fb_items fb))"]
      by (simp add: x Subgraph fb_allocate_def entry exit)
  qed
qed simp

section \<open>Compiled transitions\<close>

lemma those_map_total:
  assumes "\<And>x. x \<in> set xs \<Longrightarrow> f x = Some (g x)"
  shows "those (map f xs) = Some (map g xs)"
  using assms by (simp add: those_eq_Some_iff)

text \<open>Every target of the source is END or has an entry.\<close>

definition targets_placed :: "(node_id \<times> nat) list \<Rightarrow> 's edge_aggregation \<Rightarrow> node_id \<Rightarrow> bool" where
  "targets_placed entries ea n \<longleftrightarrow>
     (\<forall>c t. map_of (ea_fixed ea) n = Some (c, t) \<longrightarrow> target_index entries t \<noteq> None)
     \<and> (\<forall>e. map_of (ea_fan_out ea) n = Some e \<longrightarrow>
          (\<forall>t \<in> set (fo_targets e). target_index entries t \<noteq> None))
     \<and> (\<forall>e. map_of (ea_conditional ea) n = Some e \<longrightarrow>
          (\<forall>t \<in> set (ce_allowed_targets e). target_index entries t \<noteq> None))
     \<and> (\<forall>e. map_of (ea_conditional_fan_out ea) n = Some e \<longrightarrow>
          (\<forall>t \<in> set (cf_allowed_targets e). target_index entries t \<noteq> None))"

lemma target_index_bound:
  assumes "snd ` set entries \<subseteq> {..<m}" and "target_index entries t = Some i"
  shows "set_option i \<subseteq> {..<m}"
proof (cases i)
  case (Some x)
  then have "(t, x) \<in> set entries"
    using assms(2) by (auto simp: target_index_def split: if_splits dest: map_of_SomeD)
  then have "x \<in> snd ` set entries" by force
  then show ?thesis using assms(1) Some by auto
qed simp

lemma target_indices:
  assumes "snd ` set entries \<subseteq> {..<m}" and "\<forall>t \<in> set ts. target_index entries t \<noteq> None"
  obtains idxs where "those (map (target_index entries) ts) = Some idxs"
    and "\<forall>i \<in> set idxs. set_option i \<subseteq> {..<m}"
proof -
  let ?g = "\<lambda>t. the (target_index entries t)"
  have at: "target_index entries t = Some (?g t)" if "t \<in> set ts" for t using assms(2) that by auto
  show thesis
  proof (rule that)
    show "those (map (target_index entries) ts) = Some (map ?g ts)"
      by (rule those_map_total) (rule at)
    show "\<forall>i \<in> set (map ?g ts). set_option i \<subseteq> {..<m}"
    proof
      fix i assume "i \<in> set (map ?g ts)"
      then obtain t where t: "t \<in> set ts" and i: "i = ?g t" by auto
      show "set_option i \<subseteq> {..<m}"
        unfolding i by (rule target_index_bound [OF assms(1) at [OF t]])
    qed
  qed
qed

lemma allowed_of_indices:
  assumes "snd ` set entries \<subseteq> {..<m}" and "\<forall>t \<in> set ts. target_index entries t \<noteq> None"
  obtains allowed where "allowed_of entries ts = Some allowed"
    and "allowed_indices allowed \<subseteq> {..<m}"
proof -
  let ?g = "\<lambda>t. the (target_index entries t)"
  have at: "target_index entries t = Some (?g t)" if "t \<in> set ts" for t using assms(2) that by auto
  show thesis
  proof (rule that)
    show "allowed_of entries ts = Some (map (\<lambda>t. (t, ?g t)) ts)"
      unfolding allowed_of_def
    proof (rule those_map_total)
      fix t assume "t \<in> set ts"
      then show "map_option (Pair t) (target_index entries t) = Some (t, ?g t)"
        by (subst at) simp_all
    qed
    show "allowed_indices (map (\<lambda>t. (t, ?g t)) ts) \<subseteq> {..<m}"
    proof
      fix i assume "i \<in> allowed_indices (map (\<lambda>t. (t, ?g t)) ts)"
      then obtain t where t: "t \<in> set ts" and i: "?g t = Some i"
        unfolding allowed_indices_def by auto
      have "set_option (?g t) \<subseteq> {..<m}" by (rule target_index_bound [OF assms(1) at [OF t]])
      then show "i \<in> {..<m}" unfolding i by simp
    qed
  qed
qed

lemma compile_transition_ok:
  assumes bound: "snd ` set entries \<subseteq> {..<m}" and out: "has_outgoing ea n"
    and placed: "targets_placed entries ea n"
  obtains tr where "compile_transition ea n entries = Ok tr" and "transition_indices tr \<subseteq> {..<m}"
proof -
  consider (fixed) c t where "map_of (ea_fixed ea) n = Some (c, t)"
    | (fan) e where "map_of (ea_fixed ea) n = None" "map_of (ea_fan_out ea) n = Some e"
    | (cond) e where "map_of (ea_fixed ea) n = None" "map_of (ea_fan_out ea) n = None"
        "map_of (ea_conditional ea) n = Some e"
    | (cfan) e where "map_of (ea_fixed ea) n = None" "map_of (ea_fan_out ea) n = None"
        "map_of (ea_conditional ea) n = None" "map_of (ea_conditional_fan_out ea) n = Some e"
    using out unfolding has_outgoing_def im_contains_def by (metis not_None_eq surj_pair)
  then show thesis
  proof cases
    case fixed
    then obtain i where i: "target_index entries t = Some i"
      using placed unfolding targets_placed_def by blast
    show thesis
    proof (rule that)
      show "compile_transition ea n entries = Ok (Fixed i)"
        by (simp add: compile_transition_def fixed i)
      show "transition_indices (Fixed i) \<subseteq> {..<m}"
        using target_index_bound [OF bound i] by simp
    qed
  next
    case fan
    then have "\<forall>t \<in> set (fo_targets e). target_index entries t \<noteq> None"
      using placed unfolding targets_placed_def by blast
    then obtain idxs where idxs: "those (map (target_index entries) (fo_targets e)) = Some idxs"
      "\<forall>i \<in> set idxs. set_option i \<subseteq> {..<m}"
      by (rule target_indices [OF bound])
    show thesis
    proof (rule that)
      show "compile_transition ea n entries = Ok (StaticFanOut (sort (concat (map option_list idxs))))"
        by (simp add: compile_transition_def fan idxs(1))
      show "transition_indices (StaticFanOut (sort (concat (map option_list idxs)))) \<subseteq> {..<m}"
        using idxs(2) by auto
    qed
  next
    case cond
    then have "\<forall>t \<in> set (ce_allowed_targets e). target_index entries t \<noteq> None"
      using placed unfolding targets_placed_def by blast
    then obtain al where "allowed_of entries (ce_allowed_targets e) = Some al"
      "allowed_indices al \<subseteq> {..<m}"
      by (rule allowed_of_indices [OF bound])
    then show thesis
      by (intro that [of "Conditional (ce_router e) al"]) (simp_all add: compile_transition_def cond)
  next
    case cfan
    then have "\<forall>t \<in> set (cf_allowed_targets e). target_index entries t \<noteq> None"
      using placed unfolding targets_placed_def by blast
    then obtain al where "allowed_of entries (cf_allowed_targets e) = Some al"
      "allowed_indices al \<subseteq> {..<m}"
      by (rule allowed_of_indices [OF bound])
    then show thesis
      by (intro that [of "ConditionalFanOut (cf_router e) al"])
         (simp_all add: compile_transition_def cfan)
  qed
qed

section \<open>Appending a mounted graph\<close>

lemma table_ok_map_of:
  assumes "table_ok xs paths exits D"
  shows "(p, i) \<in> set paths \<longleftrightarrow> i < length xs \<and> (\<exists>nd. xs ! i = Some (Node nd) \<and> cn_path nd = p)"
    and "(q, i) \<in> set exits \<longleftrightarrow> i < length xs \<and> (\<exists>mount tr. xs ! i = Some (ExitSubgraph q mount tr))"
proof -
  have "distinct (map fst paths)" "distinct (map fst exits)"
    using assms by (simp_all add: table_ok_def)
  then show "(p, i) \<in> set paths \<longleftrightarrow> i < length xs \<and> (\<exists>nd. xs ! i = Some (Node nd) \<and> cn_path nd = p)"
    "(q, i) \<in> set exits \<longleftrightarrow> i < length xs \<and> (\<exists>mount tr. xs ! i = Some (ExitSubgraph q mount tr))"
    by (simp_all only: map_of_eq_Some_iff [symmetric] table_ok_path [OF assms]
        table_ok_exit [OF assms])
qed

lemma table_ok_intro:
  assumes "\<And>i item. i < length xs \<Longrightarrow> xs ! i = Some item \<Longrightarrow>
      item_ok (length xs) item \<and> hd (item_segments item) \<in> D"
    and "distinct (map fst paths)" and "distinct (map fst exits)"
    and "\<And>p i. (p, i) \<in> set paths \<longleftrightarrow>
      i < length xs \<and> (\<exists>nd. xs ! i = Some (Node nd) \<and> cn_path nd = p)"
    and "\<And>p i. (p, i) \<in> set exits \<longleftrightarrow>
      i < length xs \<and> (\<exists>mount tr. xs ! i = Some (ExitSubgraph p mount tr))"
  shows "table_ok xs paths exits D"
  unfolding table_ok_def map_of_eq_Some_iff [OF assms(2)] map_of_eq_Some_iff [OF assms(3)]
  using assms(1,2,3) assms(4) assms(5) by blast

lemma shift_item_exit_iff:
  "shift_item b prefix item = ExitSubgraph p mount tr \<longleftrightarrow>
     (\<exists>p' mount' tr'. item = ExitSubgraph p' mount' tr' \<and> p = graph_path_prefixed p' prefix
        \<and> mount = node_path_prefixed mount' prefix \<and> tr = shift_transition b tr')"
  by (cases item) auto

lemma shifted_exits:
  assumes "compiled_wf child"
  shows "(p, i) \<in> set (map (\<lambda>(p, i). (graph_path_prefixed p prefix, b + i)) (cg_scope_exits child)) \<longleftrightarrow>
    (\<exists>j mount tr. j < length (cg_items child) \<and> i = b + j
      \<and> shift_item b prefix (cg_items child ! j) = ExitSubgraph p mount tr)"
proof -
  have "(q, j) \<in> set (cg_scope_exits child) \<longleftrightarrow> j < length (cg_items child)
      \<and> (\<exists>mount tr. cg_items child ! j = ExitSubgraph q mount tr)" for q j
    using table_ok_map_of(2) [of "map Some (cg_items child)" "cg_node_paths child"
        "cg_scope_exits child" UNIV q j] assms
    by (auto simp: compiled_wf_def)
  then show ?thesis by (auto simp: shift_item_exit_iff)
qed

lemma table_ok_append:
  fixes child :: "('s, 'u, 'v, 'w) compiled_graph"
  assumes ok: "table_ok xs paths exits D" and child: "compiled_wf child" and n: "n \<notin> D"
    and plain: "\<not> is_reserved n" and prefix: "graph_segments prefix = [n]"
  shows "table_ok (xs @ map (Some \<circ> shift_item (length xs) prefix) (cg_items child))
    (paths @ paths_from (length xs) (map (shift_item (length xs) prefix) (cg_items child)))
    (exits @ map (\<lambda>(p, i). (graph_path_prefixed p prefix, length xs + i)) (cg_scope_exits child))
    (insert n D)"
proof (rule table_ok_intro)
  let ?b = "length xs"
  let ?shift = "shift_item (length xs) prefix"
  let ?xs = "xs @ map (Some \<circ> ?shift) (cg_items child)"
  fix i item assume i: "i < length ?xs" "?xs ! i = Some item"
  show "item_ok (length ?xs) item \<and> hd (item_segments item) \<in> insert n D"
  proof (cases "i < length xs")
    case True
    then have "xs ! i = Some item" using i by (simp add: nth_append)
    then show ?thesis
      using table_ok_slot [OF ok True] item_ok_mono [of ?b item "length ?xs"] by simp
  next
    case False
    let ?j = "i - ?b"
    have j: "?j < length (cg_items child)" and item: "item = ?shift (cg_items child ! ?j)"
      using i False by (simp_all add: nth_append)
    have "item_ok (length ?xs) item"
      unfolding item
      by (rule shift_item_ok [OF compiled_wf_item [OF child j]])
         (simp_all add: prefix segments_ok_def plain)
    then show ?thesis by (simp add: item prefix)
  qed
next
  let ?new = "paths_from (length xs) (map (shift_item (length xs) prefix) (cg_items child))"
  have "p \<notin> fst ` set paths" if "p \<in> fst ` set ?new" for p
  proof -
    have "\<exists>q. p = node_path_prefixed q prefix" by (rule paths_from_shift_fst [OF that])
    then have "hd (node_segments p) = n" by (auto simp: prefix)
    then show ?thesis using table_ok_fresh_path [OF ok, of p] n by (simp add: map_of_eq_None_iff)
  qed
  then show "distinct (map fst (paths @ ?new))"
    using ok compiled_wf_paths_distinct [OF child] by (auto simp: table_ok_def)
next
  let ?new = "map (\<lambda>(p, i). (graph_path_prefixed p prefix, length xs + i)) (cg_scope_exits child)"
  have old: "p \<notin> fst ` set exits" if "p \<in> fst ` set ?new" for p
  proof -
    have "hd (graph_segments p) = n" using that by (auto simp: prefix)
    then show ?thesis using table_ok_fresh_exit [OF ok, of p] n by (simp add: map_of_eq_None_iff)
  qed
  have disjoint: "fst ` set exits \<inter> fst ` set ?new = {}" using old by blast
  have "distinct (map fst (cg_scope_exits child))"
    using child by (simp add: compiled_wf_def table_ok_def)
  moreover have "inj_on (\<lambda>p. graph_path_prefixed p prefix) A" for A
    by (rule inj_onI) simp
  ultimately have "distinct (map (\<lambda>p. graph_path_prefixed p prefix) (map fst (cg_scope_exits child)))"
    by (simp only: distinct_map [of _ "map fst (cg_scope_exits child)"])
  moreover have "map fst ?new = map (\<lambda>p. graph_path_prefixed p prefix) (map fst (cg_scope_exits child))"
    by (simp add: split_beta)
  ultimately have "distinct (map fst ?new)" by (simp only:)
  moreover have "distinct (map fst exits)" using ok by (simp add: table_ok_def)
  ultimately show "distinct (map fst (exits @ ?new))"
    unfolding map_append distinct_append using disjoint by (simp only: set_map)
next
  let ?xs = "xs @ map (Some \<circ> shift_item (length xs) prefix) (cg_items child)"
  fix p i
  show "(p, i) \<in> set (paths @ paths_from (length xs) (map (shift_item (length xs) prefix) (cg_items child)))
    \<longleftrightarrow> i < length ?xs \<and> (\<exists>nd. ?xs ! i = Some (Node nd) \<and> cn_path nd = p)"
  proof (cases "i < length xs")
    case True
    then show ?thesis by (auto simp: table_ok_map_of [OF ok] set_paths_from nth_append)
  next
    case False
    then show ?thesis
      by (auto simp: table_ok_map_of [OF ok] set_paths_from nth_append intro: exI [of _ "i - length xs"])
  qed
next
  let ?xs = "xs @ map (Some \<circ> shift_item (length xs) prefix) (cg_items child)"
  fix p i
  show "(p, i) \<in> set (exits @ map (\<lambda>(p, i). (graph_path_prefixed p prefix, length xs + i)) (cg_scope_exits child))
    \<longleftrightarrow> i < length ?xs \<and> (\<exists>mount tr. ?xs ! i = Some (ExitSubgraph p mount tr))"
    unfolding set_append Un_iff table_ok_map_of [OF ok] shifted_exits [OF child]
    by (cases "i < length xs") (auto simp: nth_append intro: exI [of _ "i - length xs"])
qed

section \<open>The placement invariant\<close>

fun item_node ::
    "('s, 'u, 'v, 'w) compiled_item \<Rightarrow> (node_path \<times> ('s, 'u, 'v, 'w) node_kind) set" where
  "item_node (Node nd) = {(cn_path nd, cn_kind nd)}"
| "item_node _ = {}"

definition slot_nodes ::
    "('s, 'u, 'v, 'w) compiled_item option list \<Rightarrow> (node_path \<times> ('s, 'u, 'v, 'w) node_kind) set" where
  "slot_nodes xs = (\<Union>x \<in> set xs. case x of None \<Rightarrow> {} | Some item \<Rightarrow> item_node item)"

text \<open>The executable nodes of a compiled graph.\<close>

definition graph_nodes ::
    "('s, 'u, 'v, 'w) compiled_graph \<Rightarrow> (node_path \<times> ('s, 'u, 'v, 'w) node_kind) set" where
  "graph_nodes g = (\<Union>item \<in> set (cg_items g). item_node item)"

text \<open>The nodes a declaration stands for: itself, or those of the mounted graph below it.\<close>

fun declaration_nodes ::
    "node_id \<times> ('s, 'u, 'v, 'w) declared_item \<Rightarrow> (node_path \<times> ('s, 'u, 'v, 'w) node_kind) set" where
  "declaration_nodes (n, DeclaredNode kind) = {(node_path_root n, kind)}"
| "declaration_nodes (n, Subgraph sub) =
     (\<lambda>(p, kind). (node_path_prefixed p (graph_path_child graph_path_root n), kind)) ` graph_nodes sub"

definition declared_nodes ::
    "('s, 'u, 'v, 'w) declared_items \<Rightarrow> (node_path \<times> ('s, 'u, 'v, 'w) node_kind) set" where
  "declared_nodes items = (\<Union>x \<in> set items. declaration_nodes x)"

definition placing ::
    "nat \<Rightarrow> nat \<Rightarrow> ('s, 'u, 'v, 'w) declared_items \<Rightarrow> ('s, 'u, 'v, 'w) flat_builder \<Rightarrow> bool" where
  "placing k slots placed fb \<longleftrightarrow>
     table_ok (fb_items fb) (fb_node_paths fb) (fb_scope_exits fb) (fst ` set placed)
     \<and> scopes_ok (fb_items fb) (fb_scope_exits fb)
     \<and> slots \<le> length (fb_items fb)
     \<and> (\<forall>i < length (fb_items fb). fb_items fb ! i = None \<longleftrightarrow> k \<le> i \<and> i < slots)
     \<and> slot_nodes (fb_items fb) = declared_nodes placed"

lemma set_fill:
  assumes "i < length xs" and "xs ! i = None"
  shows "Some it \<in> set (xs[i := Some item]) \<longleftrightarrow> it = item \<or> Some it \<in> set xs"
proof
  assume "Some it \<in> set (xs[i := Some item])"
  then show "it = item \<or> Some it \<in> set xs"
    using set_update_subset_insert [of xs i "Some item"] by auto
next
  assume "it = item \<or> Some it \<in> set xs"
  then show "Some it \<in> set (xs[i := Some item])"
  proof
    assume "it = item"
    then show ?thesis using assms(1) set_update_memI by fast
  next
    assume "Some it \<in> set xs"
    then obtain j where j: "j < length xs" "xs ! j = Some it" by (auto simp: in_set_conv_nth)
    then have "j \<noteq> i" using assms(2) by auto
    then have "xs[i := Some item] ! j = Some it" using j by simp
    then show ?thesis using j(1) by (metis length_list_update nth_mem)
  qed
qed

lemma slot_nodes_iff: "x \<in> slot_nodes xs \<longleftrightarrow> (\<exists>item. Some item \<in> set xs \<and> x \<in> item_node item)"
  by (auto simp: slot_nodes_def split: option.splits)

lemma slot_nodes_fill:
  assumes "i < length xs" and "xs ! i = None"
  shows "slot_nodes (xs[i := Some item]) = slot_nodes xs \<union> item_node item"
  unfolding set_eq_iff Un_iff slot_nodes_iff set_fill [OF assms] by blast

lemma slot_nodes_append: "slot_nodes (xs @ ys) = slot_nodes xs \<union> slot_nodes ys"
  by (simp add: slot_nodes_def)

lemma item_node_shift:
  "item_node (shift_item b prefix item) =
     (\<lambda>(p, kind). (node_path_prefixed p prefix, kind)) ` item_node item"
  by (cases item) simp_all

lemma slot_nodes_shift:
  "slot_nodes (map (Some \<circ> shift_item b prefix) (cg_items g)) =
     (\<lambda>(p, kind). (node_path_prefixed p prefix, kind)) ` graph_nodes g"
  by (simp add: slot_nodes_def graph_nodes_def item_node_shift image_UN)

lemma declared_nodes_snoc:
  "declared_nodes (placed @ [x]) = declared_nodes placed \<union> declaration_nodes x"
  by (simp add: declared_nodes_def Un_commute)

lemma scopes_ok_fill:
  assumes "scopes_ok xs exits" and "i < length xs" "xs ! i = None"
    and "\<not> graph_path_is_root (item_scope item) \<Longrightarrow> map_of exits (item_scope item) \<noteq> None"
  shows "scopes_ok (xs[i := Some item]) exits"
  using assms unfolding scopes_ok_def set_fill [OF assms(2,3)] by blast

section \<open>Placing one item\<close>

lemma fb_insert_node_eq:
  assumes "map_of (fb_node_paths fb) (cn_path nd) = None" and "i < length (fb_items fb)"
  shows "fb_insert_node i nd fb = Ok (fb\<lparr>fb_items := (fb_items fb)[i := Some (Node nd)],
    fb_node_paths := fb_node_paths fb @ [(cn_path nd, i)]\<rparr>)"
  using assms
  by (simp add: fb_insert_node_def fb_set_def im_contains_def im_insert_fresh map_of_eq_None_iff)

lemma placing_fill_none:
  assumes "\<forall>j < length xs. xs ! j = None \<longleftrightarrow> k \<le> j \<and> j < slots" and "i < length xs"
    and "i = k"
  shows "\<forall>j < length (xs[i := Some item]).
    xs[i := Some item] ! j = None \<longleftrightarrow> Suc k \<le> j \<and> j < slots"
proof (intro allI impI)
  fix j assume "j < length (xs[i := Some item])"
  then show "xs[i := Some item] ! j = None \<longleftrightarrow> Suc k \<le> j \<and> j < slots"
    using assms by (cases "j = i") auto
qed

lemma place_node:
  assumes inv: "placing k slots placed fb" and k: "k < slots" and n: "n \<notin> fst ` set placed"
    and plain: "\<not> is_reserved n" and entry: "map_of entries n = Some k"
    and tr: "transition_indices tr \<subseteq> {..<slots}"
  obtains fb' where "place_item entries exits n (DeclaredNode kind) tr fb = Ok fb'"
    and "placing (k + 1) slots (placed @ [(n, DeclaredNode kind)]) fb'"
proof -
  define nd where "nd = \<lparr>cn_path = node_path_new graph_path_root n, cn_graph_path = graph_path_root,
    cn_kind = kind, cn_transition = tr\<rparr>"
  let ?fb = "fb\<lparr>fb_items := (fb_items fb)[k := Some (Node nd)],
    fb_node_paths := fb_node_paths fb @ [(cn_path nd, k)]\<rparr>"
  have ok: "table_ok (fb_items fb) (fb_node_paths fb) (fb_scope_exits fb) (fst ` set placed)"
    and scopes: "scopes_ok (fb_items fb) (fb_scope_exits fb)"
    and len: "slots \<le> length (fb_items fb)"
    and none: "\<forall>i < length (fb_items fb). fb_items fb ! i = None \<longleftrightarrow> k \<le> i \<and> i < slots"
    and nodes: "slot_nodes (fb_items fb) = declared_nodes placed"
    using inv by (simp_all add: placing_def)
  have klen: "k < length (fb_items fb)" and knone: "fb_items fb ! k = None"
    using k len none by simp_all
  have segs: "graph_segments graph_path_root = []" by (simp add: graph_path_root_def)
  have fresh: "map_of (fb_node_paths fb) (cn_path nd) = None"
    using table_ok_fresh_path [OF ok, of "cn_path nd"] n by (simp add: nd_def segs)
  have item: "item_ok (length (fb_items fb)) (Node nd)"
    using tr len plain
    by (auto simp: item_ok_def nd_def segments_ok_def segs node_path_graph_path_def
        graph_path_root_def)
  have "table_ok (fb_items ?fb) (fb_node_paths ?fb) (fb_scope_exits ?fb)
      (insert n (fst ` set placed))"
    using table_ok_fill [OF ok klen knone item, of "insert n (fst ` set placed)"] fresh
    by (auto simp: nd_def segs)
  moreover have "scopes_ok (fb_items ?fb) (fb_scope_exits ?fb)"
    using scopes_ok_fill [OF scopes klen knone, of "Node nd"]
    by (simp add: nd_def graph_path_is_root_def segs)
  moreover have "slot_nodes (fb_items ?fb) = declared_nodes (placed @ [(n, DeclaredNode kind)])"
    using nodes slot_nodes_fill [OF klen knone, of "Node nd"]
    by (simp add: declared_nodes_snoc nd_def node_path_root_def node_path_new_def segs)
  moreover have "\<forall>j < length (fb_items ?fb). fb_items ?fb ! j = None \<longleftrightarrow> Suc k \<le> j \<and> j < slots"
    using placing_fill_none [OF none klen refl] by simp
  ultimately have "placing (k + 1) slots (placed @ [(n, DeclaredNode kind)]) ?fb"
    using len by (simp add: placing_def)
  moreover have "place_item entries exits n (DeclaredNode kind) tr fb = Ok ?fb"
    using fb_insert_node_eq [OF fresh klen] entry by (simp add: place_item_def nd_def)
  ultimately show thesis using that by blast
qed

lemma scopes_ok_iff:
  "scopes_ok xs exits \<longleftrightarrow>
     (\<forall>item. Some item \<in> set xs \<longrightarrow> \<not> graph_path_is_root (item_scope item) \<longrightarrow>
        item_scope item \<in> fst ` set exits)"
  by (simp add: scopes_ok_def map_of_eq_None_iff)

lemma scopes_ok_append:
  assumes "scopes_ok xs exits" and child: "compiled_wf child"
  shows "scopes_ok (xs @ map (Some \<circ> shift_item b prefix) (cg_items child))
    (exits @ map (\<lambda>(p, i). (graph_path_prefixed p prefix, b + i)) (cg_scope_exits child)
      @ [(prefix, e)])"
  unfolding scopes_ok_iff
proof (intro allI impI)
  fix item assume "Some item \<in> set (xs @ map (Some \<circ> shift_item b prefix) (cg_items child))"
    and "\<not> graph_path_is_root (item_scope item)"
  then consider (old) "item_scope item \<in> fst ` set exits"
    | (new) it where "it \<in> set (cg_items child)" "item = shift_item b prefix it"
    using assms(1) by (auto simp: scopes_ok_iff)
  then show "item_scope item \<in> fst ` set (exits
      @ map (\<lambda>(p, i). (graph_path_prefixed p prefix, b + i)) (cg_scope_exits child) @ [(prefix, e)])"
  proof cases
    case new
    show ?thesis
    proof (cases "graph_path_is_root (item_scope it)")
      case True
      then have "item_scope it = graph_path_root"
        by (cases "item_scope it") (simp add: graph_path_is_root_def graph_path_root_def)
      then show ?thesis using new(2) by simp
    next
      case False
      then have "item_scope it \<in> fst ` set (cg_scope_exits child)"
        using child new(1) by (auto simp: compiled_wf_def scopes_ok_iff)
      then show ?thesis using new(2) by (force simp: image_iff)
    qed
  qed auto
qed

lemma placing_unused_prefix:
  assumes "placing k slots placed fb" and "n \<notin> fst ` set placed"
  shows "unused_prefix (graph_path_child graph_path_root n) fb"
proof -
  let ?gp = "graph_path_child graph_path_root n"
  have ok: "table_ok (fb_items fb) (fb_node_paths fb) (fb_scope_exits fb) (fst ` set placed)"
    using assms(1) by (simp add: placing_def)
  have segs: "graph_segments graph_path_root = []" "graph_segments ?gp = [n]"
    by (simp_all add: graph_path_root_def graph_path_child_def)
  show ?thesis
    unfolding unused_prefix_def
  proof (intro conjI allI)
    fix p
    show "node_path_prefixed p ?gp \<notin> fst ` set (fb_node_paths fb)"
      using table_ok_fresh_path [OF ok, of "node_path_prefixed p ?gp"] assms(2)
      by (simp add: segs map_of_eq_None_iff)
    fix q
    show "graph_path_prefixed q ?gp \<notin> fst ` set (fb_scope_exits fb)"
      using table_ok_fresh_exit [OF ok, of "graph_path_prefixed q ?gp"] assms(2)
      by (simp add: segs map_of_eq_None_iff)
  qed (use ok in \<open>simp add: table_ok_def\<close>)
qed

lemma place_subgraph:
  fixes sub :: "('s, 'u, 'v, 'w) compiled_graph"
  assumes inv: "placing k slots placed fb" and k: "k + 2 \<le> slots" and n: "n \<notin> fst ` set placed"
    and plain: "\<not> is_reserved n" and entry: "map_of entries n = Some k"
    and exit: "map_of exits n = Some (k + 1)" and child: "compiled_wf sub"
    and tr: "transition_indices tr \<subseteq> {..<slots}"
  obtains fb' where "place_item entries exits n (Subgraph sub) tr fb = Ok fb'"
    and "placing (k + 2) slots (placed @ [(n, Subgraph sub)]) fb'"
proof -
  let ?gp = "graph_path_child graph_path_root n" and ?b = "length (fb_items fb)"
  let ?D = "insert n (fst ` set placed)"
  define e where "e = (case cg_entry_index sub of None \<Rightarrow> k + 1 | Some i \<Rightarrow> ?b + i)"
  define enter :: "('s, 'u, 'v, 'w) compiled_item"
    where "enter = EnterSubgraph ?gp (Fixed (Some e))"
  define leave :: "('s, 'u, 'v, 'w) compiled_item"
    where "leave = ExitSubgraph ?gp (node_path_new graph_path_root n) tr"
  let ?copy = "map (Some \<circ> shift_item ?b ?gp) (cg_items sub)"
  let ?paths = "fb_node_paths fb @ paths_from ?b (map (shift_item ?b ?gp) (cg_items sub))"
  let ?exits = "fb_scope_exits fb
    @ map (\<lambda>(p, i). (graph_path_prefixed p ?gp, ?b + i)) (cg_scope_exits sub)"
  let ?fb1 = "fb\<lparr>fb_items := fb_items fb @ ?copy, fb_node_paths := ?paths,
    fb_scope_exits := ?exits\<rparr>"
  let ?xs2 = "(fb_items fb @ ?copy)[k := Some enter]"
  let ?xs3 = "?xs2[k + 1 := Some leave]"
  have ok: "table_ok (fb_items fb) (fb_node_paths fb) (fb_scope_exits fb) (fst ` set placed)"
    and scopes: "scopes_ok (fb_items fb) (fb_scope_exits fb)"
    and len: "slots \<le> ?b"
    and none: "\<forall>i < ?b. fb_items fb ! i = None \<longleftrightarrow> k \<le> i \<and> i < slots"
    and nodes: "slot_nodes (fb_items fb) = declared_nodes placed"
    using inv by (simp_all add: placing_def)
  have segs: "graph_segments graph_path_root = []" "graph_segments ?gp = [n]"
    by (simp_all add: graph_path_root_def graph_path_child_def)
  have unused: "unused_prefix ?gp fb" by (rule placing_unused_prefix [OF inv n])
  have ok1: "table_ok (fb_items fb @ ?copy) ?paths ?exits ?D"
    by (rule table_ok_append [OF ok child n plain segs(2)])
  have gap: "k < length (fb_items fb @ ?copy)" "(fb_items fb @ ?copy) ! k = None"
    "k + 1 < length ?xs2" "?xs2 ! (k + 1) = None"
    using k len none by (simp_all add: nth_append)
  have "set_option (cg_entry_index sub) \<subseteq> {..<length (cg_items sub)}"
    using child by (simp add: compiled_wf_def)
  then have "e < length (fb_items fb @ ?copy)"
    using k len by (auto simp: e_def split: option.split)
  then have enter_ok: "item_ok (length (fb_items fb @ ?copy)) enter"
    and enter_hd: "hd (item_segments enter) \<in> ?D"
    using plain by (simp_all add: enter_def item_ok_def segs segments_ok_def)
  have leave_ok: "item_ok (length ?xs2) leave" and leave_hd: "hd (item_segments leave) \<in> ?D"
    using plain tr len by (auto simp: leave_def item_ok_def segs segments_ok_def)
  have ok2: "table_ok ?xs2 ?paths ?exits ?D"
    using table_ok_fill [OF ok1 gap(1,2) enter_ok enter_hd] by (simp add: enter_def)
  have gp_fresh: "?gp \<notin> fst ` set ?exits"
  proof -
    have "graph_path_root \<notin> fst ` set (cg_scope_exits sub)"
    proof
      assume "graph_path_root \<in> fst ` set (cg_scope_exits sub)"
      then obtain i where "map_of (cg_scope_exits sub) graph_path_root = Some i"
        by (metis map_of_eq_None_iff not_None_eq)
      then obtain mount tr where at: "i < length (cg_items sub)"
        "cg_items sub ! i = ExitSubgraph graph_path_root mount tr"
        using compiled_wf_exit [OF child] by blast
      show False using compiled_wf_item [OF child at(1)] by (simp add: at(2) item_ok_def segs)
    qed
    then have inner: "?gp \<notin> (\<lambda>p. graph_path_prefixed p ?gp) ` fst ` set (cg_scope_exits sub)"
    proof (rule contrapos_nn)
      assume "?gp \<in> (\<lambda>p. graph_path_prefixed p ?gp) ` fst ` set (cg_scope_exits sub)"
      then obtain p where p: "?gp = graph_path_prefixed p ?gp" "p \<in> fst ` set (cg_scope_exits sub)"
        by (rule imageE)
      have "graph_path_prefixed p ?gp = graph_path_prefixed graph_path_root ?gp"
        using p(1) by simp
      then show "graph_path_root \<in> fst ` set (cg_scope_exits sub)"
        using p(2) unfolding graph_path_prefixed_inj by simp
    qed
    have outer: "?gp \<notin> fst ` set (fb_scope_exits fb)"
      using table_ok_fresh_exit [OF ok, of ?gp] n by (simp add: segs map_of_eq_None_iff)
    have "fst ` set ?exits = fst ` set (fb_scope_exits fb)
        \<union> (\<lambda>p. graph_path_prefixed p ?gp) ` fst ` set (cg_scope_exits sub)"
      by (simp only: set_append set_map image_Un image_image split_beta fst_conv)
    then show ?thesis using inner outer by (simp only: Un_iff simp_thms)
  qed
  have leave_fresh: "map_of ?exits q = None" if "leave = ExitSubgraph q mount t" for q mount t
    using gp_fresh that by (simp only: leave_def map_of_eq_None_iff compiled_item.inject simp_thms)
  have "table_ok ?xs3 (?paths @ path_entry (k + 1) leave) (?exits @ exit_entry (k + 1) leave) ?D"
    by (rule table_ok_fill [OF ok2 gap(3,4) leave_ok leave_hd subset_refl _ leave_fresh])
       (simp_all add: leave_def)
  then have ok3: "table_ok ?xs3 ?paths (?exits @ [(?gp, k + 1)]) ?D"
    by (simp add: leave_def)
  have scopes3: "scopes_ok ?xs3 (?exits @ [(?gp, k + 1)])"
  proof -
    have base: "scopes_ok (fb_items fb @ ?copy) (?exits @ [(?gp, k + 1)])"
      using scopes_ok_append [OF scopes child, of ?b ?gp "k + 1"] by simp
    have "scopes_ok ?xs2 (?exits @ [(?gp, k + 1)])"
      by (rule scopes_ok_fill [OF base gap(1,2)]) (simp add: enter_def map_of_eq_None_iff)
    then show ?thesis
      by (rule scopes_ok_fill [OF _ gap(3,4)]) (simp add: leave_def map_of_eq_None_iff)
  qed
  have nodes3: "slot_nodes ?xs3 = declared_nodes (placed @ [(n, Subgraph sub)])"
    unfolding slot_nodes_fill [OF gap(3,4)] slot_nodes_fill [OF gap(1,2)] slot_nodes_append nodes
      slot_nodes_shift declared_nodes_snoc
    by (simp add: enter_def leave_def)
  have none1: "\<forall>i < length (fb_items fb @ ?copy).
      (fb_items fb @ ?copy) ! i = None \<longleftrightarrow> k \<le> i \<and> i < slots"
    using none len by (auto simp: nth_append)
  have none2: "\<forall>i < length ?xs2. ?xs2 ! i = None \<longleftrightarrow> Suc k \<le> i \<and> i < slots"
    by (rule placing_fill_none [OF none1 gap(1) refl])
  have none3: "\<forall>i < length ?xs3. ?xs3 ! i = None \<longleftrightarrow> Suc (Suc k) \<le> i \<and> i < slots"
    by (rule placing_fill_none [OF none2 gap(3)]) simp
  define fb' where "fb' = fb\<lparr>fb_items := ?xs3, fb_node_paths := ?paths,
    fb_scope_exits := ?exits @ [(?gp, k + 1)]\<rparr>"
  have placed: "placing (k + 2) slots (placed @ [(n, Subgraph sub)]) fb'"
    using ok3 scopes3 nodes3 none3 len unfolding placing_def fb'_def by simp
  have "place_item entries exits n (Subgraph sub) tr fb = Ok fb'"
    using gap(1,3) entry exit im_insert_fresh [OF gp_fresh, of "k + 1"]
      fb_append_graph_eq [OF child unused refl]
    by (cases "cg_entry_index sub")
       (simp_all add: place_item_def Let_def fb_set_def enter_def leave_def e_def fb'_def)
  then show thesis using placed that by blast
qed

section \<open>Placing all items\<close>

lemma place_items_ok:
  assumes step: "\<And>k placed fb n item tr fb'. placing k slots placed fb \<Longrightarrow> Q placed fb \<Longrightarrow>
      n \<notin> fst ` set placed \<Longrightarrow> map_of entries n = Some k \<Longrightarrow>
      (\<forall>sub. item = Subgraph sub \<longrightarrow> compiled_wf sub \<and> map_of exits n = Some (k + 1)) \<Longrightarrow>
      k + item_size item \<le> slots \<Longrightarrow> compile_transition ea n entries = Ok tr \<Longrightarrow>
      place_item entries exits n item tr fb = Ok fb' \<Longrightarrow> Q (placed @ [(n, item)]) fb'"
    and "placing k slots placed fb" and "Q placed fb" and "k + layout_size items = slots"
    and "distinct (map fst (placed @ items))"
    and "\<forall>n \<in> fst ` set items. \<not> is_reserved n \<and> has_outgoing ea n \<and> targets_placed entries ea n"
    and "\<forall>sub n. (n, Subgraph sub) \<in> set items \<longrightarrow> compiled_wf sub"
    and "snd ` set entries \<subseteq> {..<slots}"
    and "\<forall>(n, i) \<in> set (layout_entries k items). map_of entries n = Some i"
    and "\<forall>(n, i) \<in> set (layout_exits k items). map_of exits n = Some i"
  shows "\<exists>fb'. place_items ea entries exits items fb = Ok fb' \<and> placing slots slots (placed @ items) fb'
    \<and> Q (placed @ items) fb'"
  using assms(2-)
proof (induction items arbitrary: k placed fb)
  case Nil
  then show ?case by simp
next
  case (Cons x items)
  obtain n item where x: "x = (n, item)" by fastforce
  have n: "n \<notin> fst ` set placed" and plain: "\<not> is_reserved n" and out: "has_outgoing ea n"
    and targets: "targets_placed entries ea n"
    using Cons.prems(4,5) x by auto
  have entry: "map_of entries n = Some k" using Cons.prems(8) x by simp
  obtain tr where tr: "compile_transition ea n entries = Ok tr" "transition_indices tr \<subseteq> {..<slots}"
    by (rule compile_transition_ok [OF Cons.prems(7) out targets])
  obtain fb' where fb': "place_item entries exits n item tr fb = Ok fb'"
    "placing (k + item_size item) slots (placed @ [x]) fb'"
  proof (cases item)
    case (DeclaredNode kind)
    have k: "k < slots" using Cons.prems(3) x DeclaredNode by simp
    obtain fb' where "place_item entries exits n (DeclaredNode kind) tr fb = Ok fb'"
      "placing (k + 1) slots (placed @ [(n, DeclaredNode kind)]) fb'"
      by (rule place_node [OF Cons.prems(1) k n plain entry tr(2)])
    then show thesis using DeclaredNode x that by simp
  next
    case (Subgraph sub)
    have k: "k + 2 \<le> slots" using Cons.prems(3) x Subgraph by simp
    have exit: "map_of exits n = Some (k + 1)" using Cons.prems(9) x Subgraph by simp
    have child: "compiled_wf sub" using Cons.prems(6) x Subgraph by auto
    obtain fb' where "place_item entries exits n (Subgraph sub) tr fb = Ok fb'"
      "placing (k + 2) slots (placed @ [(n, Subgraph sub)]) fb'"
      by (rule place_subgraph [OF Cons.prems(1) k n plain entry exit child tr(2)])
    then show thesis using Subgraph x that by simp
  qed
  have subs: "\<forall>sub. item = Subgraph sub \<longrightarrow> compiled_wf sub \<and> map_of exits n = Some (k + 1)"
    using Cons.prems(6,9) x by auto
  have "k + item_size item \<le> slots" using Cons.prems(3) x by simp
  then have Q: "Q (placed @ [x]) fb'"
    unfolding x by (rule step [OF Cons.prems(1,2) n entry subs _ tr(1) fb'(1)])
  have "\<exists>fb''. place_items ea entries exits items fb' = Ok fb''
      \<and> placing slots slots ((placed @ [x]) @ items) fb'' \<and> Q ((placed @ [x]) @ items) fb''"
  proof (rule Cons.IH [OF fb'(2) Q])
    show "k + item_size item + layout_size items = slots" using Cons.prems(3) x by simp
    show "\<forall>(n, i) \<in> set (layout_entries (k + item_size item) items). map_of entries n = Some i"
      using Cons.prems(8) x by simp
    show "\<forall>(n, i) \<in> set (layout_exits (k + item_size item) items). map_of exits n = Some i"
      using Cons.prems(9) x by (cases item) simp_all
    show "distinct (map fst ((placed @ [x]) @ items))" using Cons.prems(4) by simp
  qed (use Cons.prems in auto)
  then show ?case using tr(1) fb'(1) x by simp
qed

end
