(* ===== verification/Scheduling.thy ===== *)
theory Scheduling
  imports Layout
begin

text \<open>
  Which items of a compiled graph can be in one frontier. Two items are \<open>together\<close> when a fan-out
  selects both, or when each is a target of one of two items that are together. The frontier check
  of the compiler works on declared identifiers; here its result is carried over to the compiled
  items, through the placement of every declaration and the copies of mounted graphs: items that
  are together are nodes of one namespace.
\<close>

section \<open>Joint frontiers of a compiled graph\<close>

fun fan_targets :: "'s compiled_transition \<Rightarrow> nat set" where
  "fan_targets (StaticFanOut idxs) = set idxs"
| "fan_targets (ConditionalFanOut router allowed) = allowed_indices allowed"
| "fan_targets _ = {}"

inductive together :: "('s, 'u, 'v, 'w) compiled_graph \<Rightarrow> nat \<Rightarrow> nat \<Rightarrow> bool" for g where
  together_fan: "k < length (cg_items g) \<Longrightarrow> i \<in> fan_targets (item_transition (cg_items g ! k)) \<Longrightarrow>
    j \<in> fan_targets (item_transition (cg_items g ! k)) \<Longrightarrow> i \<noteq> j \<Longrightarrow> together g i j"
| together_step: "together g a b \<Longrightarrow> a < length (cg_items g) \<Longrightarrow> b < length (cg_items g) \<Longrightarrow>
    i \<in> transition_indices (item_transition (cg_items g ! a)) \<Longrightarrow>
    j \<in> transition_indices (item_transition (cg_items g ! b)) \<Longrightarrow> i \<noteq> j \<Longrightarrow> together g i j"

definition frontiers_plain :: "('s, 'u, 'v, 'w) compiled_graph \<Rightarrow> bool" where
  "frontiers_plain g \<longleftrightarrow>
     (\<forall>i j. together g i j \<longrightarrow> i < length (cg_items g) \<and> j < length (cg_items g)
        \<and> (\<exists>a b. cg_items g ! i = Node a \<and> cg_items g ! j = Node b
             \<and> cn_graph_path a = cn_graph_path b))"

lemma fan_targets_subset: "fan_targets tr \<subseteq> transition_indices tr"
  by (cases tr) auto

lemma fan_targets_shift: "fan_targets (shift_transition b tr) = (+) b ` fan_targets tr"
  by (cases tr) (simp_all add: allowed_indices_shift)

lemma item_transition_shift:
  "item_transition (shift_item b prefix item) = shift_transition b (item_transition item)"
  by (cases item) simp_all

section \<open>Where the items of a compiled graph come from\<close>

definition copied ::
    "('s, 'u, 'v, 'w) declared_items \<Rightarrow> ('s, 'u, 'v, 'w) compiled_item option list \<Rightarrow> nat \<Rightarrow> node_id
      \<Rightarrow> ('s, 'u, 'v, 'w) compiled_graph \<Rightarrow> bool" where
  "copied placed xs b n sub \<longleftrightarrow>
     (n, Subgraph sub) \<in> set placed \<and> b + length (cg_items sub) \<le> length xs
     \<and> (\<forall>j < length (cg_items sub). xs ! (b + j) =
          Some (shift_item b (graph_path_child graph_path_root n) (cg_items sub ! j)))"

text \<open>
  The entry boundary of a mounted graph leads to the entry of its copy, or to the exit boundary
  when the mounted graph is empty.
\<close>

definition enters ::
    "('s, 'u, 'v, 'w) declared_items \<Rightarrow> ('s, 'u, 'v, 'w) compiled_item option list \<Rightarrow> node_id
      \<Rightarrow> ('s, 'u, 'v, 'w) compiled_item \<Rightarrow> bool" where
  "enters placed xs n item \<longleftrightarrow>
     (\<exists>e. item = EnterSubgraph (graph_path_child graph_path_root n) (Fixed (Some e))
        \<and> ((\<exists>mount tr. e < length xs
               \<and> xs ! e = Some (ExitSubgraph (graph_path_child graph_path_root n) mount tr))
           \<or> (\<exists>b sub e'. copied placed xs b n sub \<and> cg_entry_index sub = Some e' \<and> e = b + e')))"

definition has_origin ::
    "'s edge_aggregation \<Rightarrow> (node_id \<times> nat) list \<Rightarrow> ('s, 'u, 'v, 'w) declared_items
      \<Rightarrow> ('s, 'u, 'v, 'w) compiled_item option list \<Rightarrow> nat \<Rightarrow> ('s, 'u, 'v, 'w) compiled_item \<Rightarrow> bool" where
  "has_origin ea entries placed xs i item \<longleftrightarrow>
     (\<exists>n. compile_transition ea n entries = Ok (item_transition item)
        \<and> (\<forall>gp tr. item \<noteq> EnterSubgraph gp tr))
     \<or> (\<exists>n. enters placed xs n item)
     \<or> (\<exists>b n sub. copied placed xs b n sub \<and> b \<le> i \<and> i < b + length (cg_items sub))"

definition is_placed ::
    "'s edge_aggregation \<Rightarrow> (node_id \<times> nat) list \<Rightarrow> ('s, 'u, 'v, 'w) compiled_item option list
      \<Rightarrow> node_id \<Rightarrow> bool" where
  "is_placed ea entries xs n \<longleftrightarrow>
     (\<exists>i nd. map_of entries n = Some i \<and> i < length xs \<and> xs ! i = Some (Node nd)
        \<and> cn_graph_path nd = graph_path_root
        \<and> compile_transition ea n entries = Ok (cn_transition nd))"

definition is_mounted ::
    "(node_id \<times> nat) list \<Rightarrow> ('s, 'u, 'v, 'w) declared_items
      \<Rightarrow> ('s, 'u, 'v, 'w) compiled_item option list \<Rightarrow> node_id \<Rightarrow> bool" where
  "is_mounted entries placed xs n \<longleftrightarrow>
     (\<exists>i item. map_of entries n = Some i \<and> i < length xs \<and> xs ! i = Some item
        \<and> enters placed xs n item)"

definition described ::
    "'s edge_aggregation \<Rightarrow> (node_id \<times> nat) list \<Rightarrow> ('s, 'u, 'v, 'w) declared_items
      \<Rightarrow> ('s, 'u, 'v, 'w) flat_builder \<Rightarrow> bool" where
  "described ea entries placed fb \<longleftrightarrow>
     (\<forall>i < length (fb_items fb). \<forall>item. fb_items fb ! i = Some item \<longrightarrow>
        has_origin ea entries placed (fb_items fb) i item)
     \<and> (\<forall>n kind. (n, DeclaredNode kind) \<in> set placed \<longrightarrow> is_placed ea entries (fb_items fb) n)
     \<and> (\<forall>n sub. (n, Subgraph sub) \<in> set placed \<longrightarrow> is_mounted entries placed (fb_items fb) n)"

text \<open>Slots are filled once and never change.\<close>

definition slots_kept :: "'a option list \<Rightarrow> 'a option list \<Rightarrow> bool" where
  "slots_kept xs ys \<longleftrightarrow>
     length xs \<le> length ys \<and> (\<forall>i < length xs. \<forall>x. xs ! i = Some x \<longrightarrow> ys ! i = Some x)"

lemma slots_kept_fill: "xs ! i = None \<Longrightarrow> slots_kept xs (xs[i := Some x])"
  unfolding slots_kept_def by (metis length_list_update nth_list_update_neq option.distinct(1) order_refl)

lemma slots_kept_append: "slots_kept xs (xs @ ys)"
  by (auto simp: slots_kept_def nth_append)

lemma slots_kept_trans: "slots_kept xs ys \<Longrightarrow> slots_kept ys zs \<Longrightarrow> slots_kept xs zs"
  by (auto simp: slots_kept_def)

lemma copied_mono:
  assumes "copied placed xs b n sub" and "slots_kept xs ys" and "set placed \<subseteq> set placed'"
  shows "copied placed' ys b n sub"
  using assms by (auto simp: copied_def slots_kept_def)

lemma slots_keptD: "slots_kept xs ys \<Longrightarrow> i < length xs \<Longrightarrow> xs ! i = Some x \<Longrightarrow>
    i < length ys \<and> ys ! i = Some x"
  by (simp add: slots_kept_def)

lemma enters_mono:
  assumes "enters placed xs n item" and "slots_kept xs ys" and "set placed \<subseteq> set placed'"
  shows "enters placed' ys n item"
proof -
  obtain e where e: "item = EnterSubgraph (graph_path_child graph_path_root n) (Fixed (Some e))"
    and "(\<exists>mount tr. e < length xs
        \<and> xs ! e = Some (ExitSubgraph (graph_path_child graph_path_root n) mount tr))
      \<or> (\<exists>b sub e'. copied placed xs b n sub \<and> cg_entry_index sub = Some e' \<and> e = b + e')"
    using assms(1) unfolding enters_def by blast
  then have "(\<exists>mount tr. e < length ys
        \<and> ys ! e = Some (ExitSubgraph (graph_path_child graph_path_root n) mount tr))
      \<or> (\<exists>b sub e'. copied placed' ys b n sub \<and> cg_entry_index sub = Some e' \<and> e = b + e')"
    using slots_keptD [OF assms(2)] copied_mono [OF _ assms(2,3)] by blast
  then show ?thesis using e unfolding enters_def by blast
qed

lemma is_mounted_mono:
  assumes "is_mounted entries placed xs n" and "slots_kept xs ys" and "set placed \<subseteq> set placed'"
  shows "is_mounted entries placed' ys n"
  using assms(1) slots_keptD [OF assms(2)] enters_mono [OF _ assms(2,3)]
  unfolding is_mounted_def by blast

lemma has_origin_mono:
  assumes "has_origin ea entries placed xs i item" and "slots_kept xs ys"
    and "set placed \<subseteq> set placed'"
  shows "has_origin ea entries placed' ys i item"
proof -
  consider "\<exists>n. compile_transition ea n entries = Ok (item_transition item)
        \<and> (\<forall>gp tr. item \<noteq> EnterSubgraph gp tr)"
    | n where "enters placed xs n item"
    | b n sub where "copied placed xs b n sub" "b \<le> i" "i < b + length (cg_items sub)"
    using assms(1) unfolding has_origin_def by metis
  then show ?thesis
  proof cases
    case 2
    from enters_mono [OF this assms(2,3)] show ?thesis unfolding has_origin_def by blast
  next
    case 3
    from copied_mono [OF 3(1) assms(2,3)] 3(2,3) show ?thesis unfolding has_origin_def by blast
  qed (simp add: has_origin_def)
qed

lemma is_placed_mono: "is_placed ea entries xs n \<Longrightarrow> slots_kept xs ys \<Longrightarrow> is_placed ea entries ys n"
  unfolding is_placed_def slots_kept_def by (meson order_less_le_trans)

text \<open>Extending a description: only the new slots and the new declaration have to be explained.\<close>

lemma described_extend:
  assumes "described ea entries placed fb" and kept: "slots_kept (fb_items fb) (fb_items fb')"
    and new: "\<And>i item. i < length (fb_items fb') \<Longrightarrow> fb_items fb' ! i = Some item \<Longrightarrow>
      i < length (fb_items fb) \<Longrightarrow> fb_items fb ! i = None \<Longrightarrow>
      has_origin ea entries (placed @ [x]) (fb_items fb') i item"
    and app: "\<And>i item. i < length (fb_items fb') \<Longrightarrow> fb_items fb' ! i = Some item \<Longrightarrow>
      length (fb_items fb) \<le> i \<Longrightarrow> has_origin ea entries (placed @ [x]) (fb_items fb') i item"
    and node: "\<And>n kind. x = (n, DeclaredNode kind) \<Longrightarrow> is_placed ea entries (fb_items fb') n"
    and mount: "\<And>n sub. x = (n, Subgraph sub) \<Longrightarrow> is_mounted entries (placed @ [x]) (fb_items fb') n"
  shows "described ea entries (placed @ [x]) fb'"
  unfolding described_def
proof (intro conjI allI impI)
  fix i item assume i: "i < length (fb_items fb')" "fb_items fb' ! i = Some item"
  show "has_origin ea entries (placed @ [x]) (fb_items fb') i item"
  proof (cases "i < length (fb_items fb)")
    case True
    show ?thesis
    proof (cases "fb_items fb ! i")
      case (Some y)
      then have "y = item" using kept True i by (simp add: slots_kept_def)
      then have "has_origin ea entries placed (fb_items fb) i item"
        using assms(1) True Some by (simp add: described_def)
      then show ?thesis by (rule has_origin_mono [OF _ kept]) auto
    qed (use new i True in blast)
  qed (use app i in \<open>simp add: not_less\<close>)
next
  fix n kind assume "(n, DeclaredNode kind) \<in> set (placed @ [x])"
  then consider "(n, DeclaredNode kind) \<in> set placed" | "x = (n, DeclaredNode kind)" by auto
  then show "is_placed ea entries (fb_items fb') n"
  proof cases
    case 1
    then show ?thesis using assms(1) is_placed_mono [OF _ kept] by (auto simp: described_def)
  qed (rule node)
next
  fix n sub assume "(n, Subgraph sub) \<in> set (placed @ [x])"
  then consider "(n, Subgraph sub) \<in> set placed" | "x = (n, Subgraph sub)" by auto
  then show "is_mounted entries (placed @ [x]) (fb_items fb') n"
  proof cases
    case 1
    then have "is_mounted entries placed (fb_items fb) n" using assms(1) unfolding described_def by blast
    then show ?thesis by (rule is_mounted_mono [OF _ kept]) auto
  qed (rule mount)
qed

lemma place_node_described:
  assumes inv: "placing k slots placed fb" and desc: "described ea entries placed fb"
    and k: "k + 1 \<le> slots" and entry: "map_of entries n = Some k"
    and tr: "compile_transition ea n entries = Ok tr"
    and place: "place_item entries exits n (DeclaredNode kind) tr fb = Ok fb'"
  shows "described ea entries (placed @ [(n, DeclaredNode kind)]) fb'"
proof -
  define nd where "nd = \<lparr>cn_path = node_path_new graph_path_root n, cn_graph_path = graph_path_root,
    cn_kind = kind, cn_transition = tr\<rparr>"
  have gap: "k < length (fb_items fb)" "fb_items fb ! k = None"
    using inv k by (auto simp: placing_def)
  have items: "fb_items fb' = (fb_items fb)[k := Some (Node nd)]"
    using place entry gap(1)
    by (auto simp: place_item_def fb_insert_node_def fb_set_def nd_def split: if_splits)
  show ?thesis
  proof (rule described_extend [OF desc])
    show "slots_kept (fb_items fb) (fb_items fb')"
      unfolding items by (rule slots_kept_fill [OF gap(2)])
    show "has_origin ea entries (placed @ [(n, DeclaredNode kind)]) (fb_items fb') i item"
      if "i < length (fb_items fb')" "fb_items fb' ! i = Some item" "i < length (fb_items fb)"
        "fb_items fb ! i = None" for i item
    proof -
      have "i = k" using that items by (cases "i = k") auto
      then have "item = Node nd" using that(2) gap(1) items by simp
      then show ?thesis using tr unfolding has_origin_def by (auto simp: nd_def)
    qed
    show "is_placed ea entries (fb_items fb') m"
      if "(n, DeclaredNode kind) = (m, DeclaredNode kind')" for m kind'
      using that gap(1) entry tr by (auto simp: is_placed_def items nd_def)
  qed (simp_all add: items)
qed

lemma place_subgraph_described:
  assumes inv: "placing k slots placed fb" and desc: "described ea entries placed fb"
    and n: "n \<notin> fst ` set placed" and child: "compiled_wf sub"
    and k: "k + 2 \<le> slots" and entry: "map_of entries n = Some k"
    and exit: "map_of exits n = Some (k + 1)"
    and tr: "compile_transition ea n entries = Ok tr"
    and place: "place_item entries exits n (Subgraph sub) tr fb = Ok fb'"
  shows "described ea entries (placed @ [(n, Subgraph sub)]) fb'"
proof -
  let ?gp = "graph_path_child graph_path_root n" and ?b = "length (fb_items fb)"
  let ?copy = "map (Some \<circ> shift_item ?b ?gp) (cg_items sub)"
  let ?placed = "placed @ [(n, Subgraph sub)]"
  have gap: "k + 1 < ?b" "fb_items fb ! k = None" "fb_items fb ! (k + 1) = None"
    using inv k by (auto simp: placing_def)
  define e where "e = (case cg_entry_index sub of None \<Rightarrow> k + 1 | Some i \<Rightarrow> ?b + i)"
  have items: "fb_items fb' = (fb_items fb @ ?copy)
      [k := Some (EnterSubgraph ?gp (Fixed (Some e))),
       k + 1 := Some (ExitSubgraph ?gp (node_path_new graph_path_root n) tr)]"
    using place entry exit fb_append_graph_eq [OF child placing_unused_prefix [OF inv n] refl]
    by (cases "cg_entry_index sub")
      (auto simp: place_item_def Let_def fb_set_def e_def split: if_splits)
  have kept: "slots_kept (fb_items fb) (fb_items fb')"
    unfolding items using gap
    by (intro slots_kept_trans [OF slots_kept_append slots_kept_trans [OF slots_kept_fill slots_kept_fill]])
      (simp_all add: nth_append)
  have copied: "copied ?placed (fb_items fb') ?b n sub"
    using gap by (auto simp: copied_def items nth_append nth_list_update)
  have enters: "enters ?placed (fb_items fb') n (EnterSubgraph ?gp (Fixed (Some e)))"
  proof (cases "cg_entry_index sub")
    case None
    then show ?thesis using gap(1) by (auto simp: enters_def e_def items)
  next
    case (Some e')
    then have "\<exists>b sub' e''. copied ?placed (fb_items fb') b n sub' \<and> cg_entry_index sub' = Some e''
        \<and> e = b + e''"
      using copied by (intro exI [of _ ?b] exI [of _ sub] exI [of _ e']) (simp add: e_def)
    then show ?thesis unfolding enters_def by blast
  qed
  show ?thesis
  proof (rule described_extend [OF desc kept])
    show "has_origin ea entries ?placed (fb_items fb') i item"
      if "i < length (fb_items fb')" "fb_items fb' ! i = Some item" "i < ?b" "fb_items fb ! i = None"
      for i item
    proof -
      have "i = k \<or> i = k + 1"
      proof (rule ccontr)
        assume "\<not> ?thesis"
        then have "fb_items fb' ! i = fb_items fb ! i" using that(3) by (simp add: items nth_append)
        then show False using that(2,4) by simp
      qed
      then have "item = ExitSubgraph ?gp (node_path_new graph_path_root n) tr
          \<or> item = EnterSubgraph ?gp (Fixed (Some e))"
        using that(2) gap(1) by (auto simp: items)
      then show ?thesis using tr enters unfolding has_origin_def by auto
    qed
    show "is_mounted entries ?placed (fb_items fb') m" if "(n, Subgraph sub) = (m, Subgraph sub')" for m sub'
      using that entry gap(1) enters by (auto simp: is_mounted_def items)
    show "has_origin ea entries ?placed (fb_items fb') i item"
      if "i < length (fb_items fb')" "fb_items fb' ! i = Some item" "?b \<le> i" for i item
    proof -
      have "i < ?b + length (cg_items sub)" using that(1) by (simp add: items)
      then show ?thesis using copied that(3) unfolding has_origin_def by blast
    qed
  qed simp
qed

lemma place_item_described:
  assumes "placing k slots placed fb" and "described ea entries placed fb"
    and "n \<notin> fst ` set placed" and "map_of entries n = Some k"
    and "\<forall>sub. item = Subgraph sub \<longrightarrow> compiled_wf sub \<and> map_of exits n = Some (k + 1)"
    and "k + item_size item \<le> slots" and "compile_transition ea n entries = Ok tr"
    and "place_item entries exits n item tr fb = Ok fb'"
  shows "described ea entries (placed @ [(n, item)]) fb'"
proof (cases item)
  case (DeclaredNode kind)
  then show ?thesis using place_node_described [OF assms(1,2)] assms(4,6-8) by simp
next
  case (Subgraph sub)
  show ?thesis
    using place_subgraph_described [OF assms(1-3) _ _ assms(4) _ assms(7), of sub exits fb']
      assms(5,6,8) Subgraph by simp
qed

section \<open>Targets of a compiled transition\<close>

lemma of_index_eq_Ok: "of_index x = Ok a \<longleftrightarrow> x = Some a"
  by (cases x) auto

lemma target_index_some:
  "target_index entries t = Some (Some i) \<Longrightarrow> t \<noteq> node_id_end \<and> map_of entries t = Some i"
  by (auto simp: target_index_def split: if_splits)

lemma fan_out_indices:
  assumes "those (map (target_index entries) ts) = Some xs"
    and "i \<in> set (sort (concat (map option_list xs)))"
  shows "\<exists>t \<in> set ts. t \<noteq> node_id_end \<and> map_of entries t = Some i"
proof -
  have "map (target_index entries) ts = map Some xs" using assms(1) by (simp add: those_eq_Some_iff)
  moreover have "Some i \<in> set xs" using assms(2) by auto
  ultimately have "Some (Some i) \<in> target_index entries ` set ts" by (metis image_eqI list.set_map)
  then obtain t where "t \<in> set ts" "target_index entries t = Some (Some i)" by (metis imageE)
  then show ?thesis using target_index_some by blast
qed

lemma allowed_of_some:
  assumes "allowed_of entries ts = Some allowed" and "i \<in> allowed_indices allowed"
  shows "\<exists>t \<in> set ts. t \<noteq> node_id_end \<and> map_of entries t = Some i"
proof -
  obtain m where "(m, Some i) \<in> set allowed" using assms(2) by (auto simp: allowed_indices_def)
  moreover have "map (\<lambda>t. map_option (Pair t) (target_index entries t)) ts = map Some allowed"
    using assms(1) by (simp add: allowed_of_def those_eq_Some_iff)
  ultimately have "Some (m, Some i) \<in> (\<lambda>t. map_option (Pair t) (target_index entries t)) ` set ts"
    by (metis image_eqI list.set_map)
  then obtain t where "t \<in> set ts" "target_index entries t = Some (Some i)"
    by (auto dest!: sym [of "Some _"])
  then show ?thesis using target_index_some by blast
qed

lemma fan_targets_declared:
  assumes ag: "aggregates g ea" and tr: "compile_transition ea n entries = Ok tr"
    and i: "i \<in> fan_targets tr" and j: "j \<in> fan_targets tr" and "i \<noteq> j"
  shows "\<exists>l r. map_of entries l = Some i \<and> map_of entries r = Some j
    \<and> co_scheduled ea (initial_frontiers g) (canonical_pair l r)"
proof -
  have "\<exists>ts \<in> set (initial_frontiers g). \<forall>k \<in> fan_targets tr.
      \<exists>t \<in> set ts. t \<noteq> node_id_end \<and> map_of entries t = Some k"
  proof (cases "map_of (ea_fixed ea) n")
    case None
    show ?thesis
    proof (cases "map_of (ea_fan_out ea) n")
      case (Some e)
      then have "fo_targets e \<in> set (initial_frontiers g)"
        using ag by (auto simp: aggregates_def initial_frontiers_def)
      moreover obtain xs where "those (map (target_index entries) (fo_targets e)) = Some xs"
        "tr = StaticFanOut (sort (concat (map option_list xs)))"
        using tr None Some by (auto simp: compile_transition_def of_index_eq_Ok)
      ultimately show ?thesis using fan_out_indices by fastforce
    next
      case fan: None
      show ?thesis
      proof (cases "map_of (ea_conditional ea) n")
        case (Some e)
        then show ?thesis using tr None fan i by (auto simp: compile_transition_def of_index_eq_Ok)
      next
        case cond: None
        then obtain e where e: "map_of (ea_conditional_fan_out ea) n = Some e"
          using tr None fan by (auto simp: compile_transition_def split: option.splits)
        then have "cf_allowed_targets e \<in> set (initial_frontiers g)"
          using ag by (auto simp: aggregates_def initial_frontiers_def)
        moreover obtain allowed where "allowed_of entries (cf_allowed_targets e) = Some allowed"
          "tr = ConditionalFanOut (cf_router e) allowed"
          using tr None fan cond e by (auto simp: compile_transition_def of_index_eq_Ok)
        ultimately show ?thesis using allowed_of_some by fastforce
      qed
    qed
  next
    case (Some x)
    then show ?thesis using tr i by (auto simp: compile_transition_def of_index_eq_Ok split: prod.splits)
  qed
  then obtain ts l r where ts: "ts \<in> set (initial_frontiers g)"
    and l: "l \<in> set ts" "l \<noteq> node_id_end" "map_of entries l = Some i"
    and r: "r \<in> set ts" "r \<noteq> node_id_end" "map_of entries r = Some j"
    using i j by metis
  then have "l \<noteq> r" using \<open>i \<noteq> j\<close> by auto
  then have "canonical_pair l r \<in> frontier_pairs ts"
    using l r unfolding frontier_pairs_def pairs_of_def by auto
  then show ?thesis using co_initial [OF ts] l r by blast
qed

lemma target_alternative:
  assumes ag: "aggregates g ea" and one: "transition_count g n = 1" and "n \<noteq> node_id_end"
    and tr: "compile_transition ea n entries = Ok tr" and i: "i \<in> transition_indices tr"
  shows "\<exists>f t. f \<in> set (transition_alternatives ea n) \<and> t \<in> set f \<and> t \<noteq> node_id_end
    \<and> map_of entries t = Some i"
proof (cases "map_of (ea_fixed ea) n")
  case None
  show ?thesis
  proof (cases "map_of (ea_fan_out ea) n")
    case (Some e)
    obtain xs where "those (map (target_index entries) (fo_targets e)) = Some xs"
      "tr = StaticFanOut (sort (concat (map option_list xs)))"
      using tr None Some by (auto simp: compile_transition_def of_index_eq_Ok)
    then show ?thesis
      using fan_out_indices i None Some \<open>n \<noteq> node_id_end\<close>
      by (fastforce simp: transition_alternatives_def)
  next
    case fan: None
    have excl: "map_of (ea_conditional ea) n = None \<or> map_of (ea_conditional_fan_out ea) n = None"
    proof (rule ccontr)
      assume "\<not> ?thesis"
      then obtain e e' where "map_of (ea_conditional ea) n = Some e"
        "map_of (ea_conditional_fan_out ea) n = Some e'" by (meson not_Some_eq)
      then have "e \<in> set (sg_conditional_edges g) \<and> ce_source e = n"
        "e' \<in> set (sg_conditional_fan_out_edges g) \<and> cf_source e' = n"
        using ag unfolding aggregates_def by blast+
      then have "n \<in> ce_source ` set (sg_conditional_edges g)"
        "n \<in> cf_source ` set (sg_conditional_fan_out_edges g)" by (metis imageI)+
      then show False using one by (simp add: transition_count_def)
    qed
    show ?thesis
    proof (cases "map_of (ea_conditional ea) n")
      case (Some e)
      obtain allowed where "allowed_of entries (ce_allowed_targets e) = Some allowed"
        "tr = Conditional (ce_router e) allowed"
        using tr None fan Some by (auto simp: compile_transition_def of_index_eq_Ok)
      then obtain t where t: "t \<in> set (ce_allowed_targets e)" "t \<noteq> node_id_end"
        "map_of entries t = Some i" using allowed_of_some i by fastforce
      then have "executable_target t \<in> set (transition_alternatives ea n)"
        using excl None fan Some \<open>n \<noteq> node_id_end\<close> by (auto simp: transition_alternatives_def)
      then show ?thesis using t by (intro exI [of _ "executable_target t"] exI [of _ t])
        (simp add: executable_target_def)
    next
      case cond: None
      then obtain e where e: "map_of (ea_conditional_fan_out ea) n = Some e"
        using tr None fan by (auto simp: compile_transition_def split: option.splits)
      obtain allowed where "allowed_of entries (cf_allowed_targets e) = Some allowed"
        "tr = ConditionalFanOut (cf_router e) allowed"
        using tr None fan cond e by (auto simp: compile_transition_def of_index_eq_Ok)
      then show ?thesis
        using allowed_of_some i None fan e \<open>n \<noteq> node_id_end\<close>
        by (fastforce simp: transition_alternatives_def)
    qed
  qed
next
  case (Some x)
  then obtain c t where x: "x = (c, t)" "target_index entries t = Some (Some i)"
    using tr i by (cases x) (auto simp: compile_transition_def of_index_eq_Ok)
  then show ?thesis
    using target_index_some [OF x(2)] Some \<open>n \<noteq> node_id_end\<close>
    by (intro exI [of _ "executable_target t"] exI [of _ t])
       (auto simp: transition_alternatives_def executable_target_def)
qed

lemma co_scheduled_successors:
  assumes co: "co_scheduled ea inits (canonical_pair l r)"
    and "f \<in> set (transition_alternatives ea l)" "s \<in> set f" "s \<noteq> node_id_end"
    and "h \<in> set (transition_alternatives ea r)" "t \<in> set h" "t \<noteq> node_id_end" and "s \<noteq> t"
  shows "co_scheduled ea inits (canonical_pair s t)"
proof -
  have succ: "canonical_pair s t \<in> pair_successors ea a b"
    if "x \<in> set (transition_alternatives ea a)" "y \<in> set (transition_alternatives ea b)"
      "{s, t} \<subseteq> set x \<union> set y" for a b x y
  proof -
    have "keep_first [] (x @ y) \<in> set (pair_frontiers ea a b)"
      using that(1,2) by (auto simp: pair_frontiers_def)
    moreover have "canonical_pair s t \<in> frontier_pairs (keep_first [] (x @ y))"
      using that(3) assms(4,7,8) by (auto simp: frontier_pairs_def pairs_of_def)
    ultimately show ?thesis unfolding pair_successors_def by blast
  qed
  show ?thesis
    using canonical_pair_cases [of l r] co succ [of f l h r] succ [of h r f l] assms(2,3,5,6)
    by (auto intro: co_step)
qed

section \<open>The frontier check is sound for the compiled graph\<close>

lemma described_frontiers_plain:
  assumes ag: "aggregates g ea" and desc: "described ea entries (sg_items g) fb"
    and items: "fb_items fb = map Some (cg_items g')"
    and entries: "fst ` set entries \<subseteq> fst ` set (sg_items g)"
    and dist: "distinct (map fst (sg_items g))" and reserved: "\<forall>n \<in> fst ` set (sg_items g). \<not> is_reserved n"
    and one: "\<forall>n \<in> fst ` set (sg_items g). transition_count g n = 1"
    and plain: "\<forall>p. co_scheduled ea (initial_frontiers g) p \<longrightarrow>
      pair_plain (declares_subgraph (sg_items g)) p"
    and subs: "\<forall>n sub. (n, Subgraph sub) \<in> set (sg_items g) \<longrightarrow> frontiers_plain sub \<and> compiled_wf sub"
  shows "frontiers_plain g'"
proof -
  let ?xs = "map Some (cg_items g')"
  let ?co = "\<lambda>l r. co_scheduled ea (initial_frontiers g) (canonical_pair l r)"
  define root where "root i j \<longleftrightarrow> (\<exists>l r. map_of entries l = Some i \<and> map_of entries r = Some j \<and> ?co l r)"
    for i j
  define block where "block i j \<longleftrightarrow> (\<exists>b n sub a c. copied (sg_items g) ?xs b n sub
      \<and> i = b + a \<and> j = b + c \<and> together sub a c)" for i j
  have node: "\<exists>i nd. map_of entries n = Some i \<and> i < length (cg_items g') \<and> cg_items g' ! i = Node nd
      \<and> cn_graph_path nd = graph_path_root \<and> compile_transition ea n entries = Ok (cn_transition nd)
      \<and> n \<in> fst ` set (sg_items g)"
    if co: "?co l r" and n: "n = l \<or> n = r" and entry: "map_of entries n \<noteq> None" for l r n
  proof -
    have "\<not> declares_subgraph (sg_items g) n"
      using plain co n canonical_pair_cases [of l r] by (auto simp: pair_plain_def)
    moreover have mem: "n \<in> fst ` set (sg_items g)"
      using entry entries by (auto simp: map_of_eq_None_iff)
    ultimately obtain kind where "(n, DeclaredNode kind) \<in> set (sg_items g)"
      using dist by (auto simp: declares_subgraph_def split: option.splits)
        (metis declared_item.exhaust is_subgraph.simps(2) map_of_SomeD weak_map_of_SomeI)
    then have "is_placed ea entries ?xs n" using desc unfolding described_def items by blast
    then obtain i nd where "map_of entries n = Some i" "i < length (cg_items g')"
      "?xs ! i = Some (Node nd)" "cn_graph_path nd = graph_path_root"
      "compile_transition ea n entries = Ok (cn_transition nd)"
      unfolding is_placed_def by auto
    then show ?thesis using mem by auto
  qed
  have item: "has_origin ea entries (sg_items g) ?xs i (cg_items g' ! i)"
    if "i < length (cg_items g')" for i
    using desc that items by (simp add: described_def)
  have shifted: "b + a < length (cg_items g') \<and> cg_items g' ! (b + a) =
      shift_item b (graph_path_child graph_path_root n) (cg_items sub ! a)"
    if "copied (sg_items g) ?xs b n sub" "a < length (cg_items sub)" for b n sub a
  proof -
    have len: "b + a < length (cg_items g')"
      and "?xs ! (b + a) = Some (shift_item b (graph_path_child graph_path_root n) (cg_items sub ! a))"
      using that unfolding copied_def by auto
    then show ?thesis unfolding nth_map [OF len] by blast
  qed
  have sub: "frontiers_plain sub" if "copied (sg_items g) ?xs b n sub" for b n sub
    using that subs by (auto simp: copied_def)
  have pair: "root i j \<or> block i j" if "together g' i j" for i j
    using that
  proof (induction rule: together.induct)
    case (together_fan k i j)
    consider (decl) n where "compile_transition ea n entries = Ok (item_transition (cg_items g' ! k))"
      | (copy) b n sub where "copied (sg_items g) ?xs b n sub" "b \<le> k" "k < b + length (cg_items sub)"
      using item [OF together_fan(1)] together_fan(2) by (auto simp: has_origin_def enters_def)
    then show ?case
    proof cases
      case decl
      then show ?thesis using fan_targets_declared [OF ag decl together_fan(2-4)] by (simp add: root_def)
    next
      case copy
      define a where "a = k - b"
      have a: "a < length (cg_items sub)" "k = b + a" using copy by (auto simp: a_def)
      have "item_transition (cg_items g' ! k) = shift_transition b (item_transition (cg_items sub ! a))"
        using shifted [OF copy(1) a(1)] a(2) by (simp add: item_transition_shift)
      then obtain i' j' where "i = b + i'" "j = b + j'"
        "i' \<in> fan_targets (item_transition (cg_items sub ! a))"
        "j' \<in> fan_targets (item_transition (cg_items sub ! a))"
        using together_fan(2,3) by (auto simp: fan_targets_shift)
      then have "together sub i' j'" using together_fan(4) together.together_fan [OF a(1)] by auto
      then show ?thesis using copy(1) \<open>i = b + i'\<close> \<open>j = b + j'\<close> by (auto simp: block_def)
    qed
  next
    case (together_step a b i j)
    from together_step.IH show ?case
    proof
      assume "root a b"
      then obtain l r where lr: "map_of entries l = Some a" "map_of entries r = Some b" "?co l r"
        by (auto simp: root_def)
      obtain nl where nl: "cg_items g' ! a = Node nl" "l \<in> fst ` set (sg_items g)"
        "compile_transition ea l entries = Ok (cn_transition nl)"
        using node [OF lr(3), of l] lr(1) by auto
      obtain nr where nr: "cg_items g' ! b = Node nr" "r \<in> fst ` set (sg_items g)"
        "compile_transition ea r entries = Ok (cn_transition nr)"
        using node [OF lr(3), of r] lr(2) by auto
      have ne: "l \<noteq> node_id_end" "r \<noteq> node_id_end"
        using reserved nl(2) nr(2) by (auto simp: is_reserved_def)
      have count: "transition_count g l = 1" "transition_count g r = 1"
        using one nl(2) nr(2) by blast+
      have ij: "i \<in> transition_indices (cn_transition nl)" "j \<in> transition_indices (cn_transition nr)"
        using together_step.hyps(4,5) nl(1) nr(1) by simp_all
      obtain f s where s: "f \<in> set (transition_alternatives ea l)" "s \<in> set f" "s \<noteq> node_id_end"
        "map_of entries s = Some i"
        using target_alternative [OF ag count(1) ne(1) nl(3) ij(1)] by blast
      obtain h t where t: "h \<in> set (transition_alternatives ea r)" "t \<in> set h" "t \<noteq> node_id_end"
        "map_of entries t = Some j"
        using target_alternative [OF ag count(2) ne(2) nr(3) ij(2)] by blast
      have "s \<noteq> t" using s(4) t(4) together_step.hyps(6) by auto
      then have "?co s t" by (rule co_scheduled_successors [OF lr(3) s(1-3) t(1-3)])
      then show ?thesis using s(4) t(4) by (auto simp: root_def)
    next
      assume "block a b"
      then obtain base n sub x y where c: "copied (sg_items g) ?xs base n sub" "a = base + x" "b = base + y"
        "together sub x y" by (auto simp: block_def)
      have len: "x < length (cg_items sub)" "y < length (cg_items sub)"
        using sub [OF c(1)] c(4) by (auto simp: frontiers_plain_def)
      obtain i' j' where "i = base + i'" "j = base + j'"
        "i' \<in> transition_indices (item_transition (cg_items sub ! x))"
        "j' \<in> transition_indices (item_transition (cg_items sub ! y))"
        using together_step.hyps(4,5) shifted [OF c(1)] len c(2,3) by auto
      then have "together sub i' j'"
        using together.together_step [OF c(4) len] together_step.hyps(6) by auto
      then show ?thesis using c(1) \<open>i = base + i'\<close> \<open>j = base + j'\<close> by (auto simp: block_def)
    qed
  qed
  show ?thesis
    unfolding frontiers_plain_def
  proof (intro allI impI)
    fix i j assume "together g' i j"
    then consider (root) "root i j" | (block) "block i j" using pair by blast
    then show "i < length (cg_items g') \<and> j < length (cg_items g')
      \<and> (\<exists>a b. cg_items g' ! i = Node a \<and> cg_items g' ! j = Node b \<and> cn_graph_path a = cn_graph_path b)"
    proof cases
      case root
      then obtain l r where "map_of entries l = Some i" "map_of entries r = Some j" "?co l r"
        by (auto simp: root_def)
      then show ?thesis using node [of l r l] node [of l r r] by auto
    next
      case block
      then obtain b n sub x y where c: "copied (sg_items g) ?xs b n sub" "i = b + x" "j = b + y"
        "together sub x y" by (auto simp: block_def)
      then obtain nx ny where "x < length (cg_items sub)" "y < length (cg_items sub)"
        "cg_items sub ! x = Node nx" "cg_items sub ! y = Node ny" "cn_graph_path nx = cn_graph_path ny"
        using sub [OF c(1)] unfolding frontiers_plain_def by blast
      then show ?thesis using shifted [OF c(1)] c(2,3) by auto
    qed
  qed
qed

section \<open>The shape of boundary chains\<close>

text \<open>
  Transitions of nodes and exits lead to nodes and entries, and an entry leads into the mounted
  graph: to a node or to a deeper entry, unless the mounted graph is empty.
\<close>

definition is_exit :: "('s, 'u, 'v, 'w) compiled_item \<Rightarrow> bool" where
  "is_exit item \<longleftrightarrow> (\<exists>gp mount tr. item = ExitSubgraph gp mount tr)"

definition is_enter :: "('s, 'u, 'v, 'w) compiled_item \<Rightarrow> bool" where
  "is_enter item \<longleftrightarrow> (\<exists>gp tr. item = EnterSubgraph gp tr)"

definition deeper :: "('s, 'u, 'v, 'w) compiled_item \<Rightarrow> ('s, 'u, 'v, 'w) compiled_item \<Rightarrow> bool" where
  "deeper item item' \<longleftrightarrow> \<not> is_exit item'
     \<and> (is_enter item' \<longrightarrow> length (item_segments item) < length (item_segments item'))"

definition chains_ok :: "('s, 'u, 'v, 'w) compiled_graph \<Rightarrow> bool" where
  "chains_ok g \<longleftrightarrow>
     (\<forall>i < length (cg_items g). \<forall>j \<in> transition_indices (item_transition (cg_items g ! i)).
        if is_enter (cg_items g ! i)
        then is_exit (cg_items g ! j) \<or> deeper (cg_items g ! i) (cg_items g ! j)
        else \<not> is_exit (cg_items g ! j))
     \<and> (\<forall>i \<in> set_option (cg_entry_index g). \<not> is_exit (cg_items g ! i))"

lemma shift_item_kinds [simp]:
  "is_exit (shift_item b prefix item) = is_exit item"
  "is_enter (shift_item b prefix item) = is_enter item"
  by (cases item; simp add: is_exit_def is_enter_def)+

lemma deeper_shift [simp]:
  "deeper (shift_item b prefix item) (shift_item b prefix item') = deeper item item'"
  by (cases item; cases item'; simp add: deeper_def is_exit_def is_enter_def)

lemma compile_transition_targets:
  assumes "compile_transition ea n entries = Ok tr" and "i \<in> transition_indices tr"
  shows "\<exists>t. map_of entries t = Some i"
proof (cases "map_of (ea_fixed ea) n")
  case (Some x)
  then show ?thesis
    using assms target_index_some
    by (cases x) (fastforce simp: compile_transition_def of_index_eq_Ok)
next
  case fixed: None
  show ?thesis
  proof (cases "map_of (ea_fan_out ea) n")
    case (Some e)
    then show ?thesis
      using assms fixed fan_out_indices by (fastforce simp: compile_transition_def of_index_eq_Ok)
  next
    case fan: None
    show ?thesis
      using assms fixed fan allowed_of_some
      by (fastforce simp: compile_transition_def of_index_eq_Ok split: option.splits)
  qed
qed

lemma described_chains_ok:
  assumes desc: "described ea entries (sg_items g) fb" and items: "fb_items fb = map Some (cg_items g')"
    and entries: "fst ` set entries \<subseteq> fst ` set (sg_items g)"
    and entry: "target_index entries t = Some (cg_entry_index g')"
    and subs: "\<forall>n sub. (n, Subgraph sub) \<in> set (sg_items g) \<longrightarrow> chains_ok sub \<and> compiled_wf sub"
    and bound: "\<forall>i < length (cg_items g').
      transition_indices (item_transition (cg_items g' ! i)) \<subseteq> {..<length (cg_items g')}"
  shows "chains_ok g'"
proof -
  let ?xs = "map Some (cg_items g')"
  have target: "\<not> is_exit (cg_items g' ! i)" if "map_of entries t = Some i" for t i
  proof -
    have "t \<in> fst ` set entries" using that by (metis map_of_eq_None_iff option.distinct(1))
    then obtain item where item: "(t, item) \<in> set (sg_items g)" using entries by auto
    show ?thesis
    proof (cases item)
      case (DeclaredNode kind)
      then have "is_placed ea entries ?xs t" using desc item unfolding described_def items by blast
      then show ?thesis using that by (auto simp: is_placed_def is_exit_def)
    next
      case (Subgraph sub)
      then have "is_mounted entries (sg_items g) ?xs t"
        using desc item unfolding described_def items by blast
      then show ?thesis using that by (auto simp: is_mounted_def enters_def is_exit_def)
    qed
  qed
  have shifted: "b + a < length (cg_items g') \<and> cg_items g' ! (b + a) =
      shift_item b (graph_path_child graph_path_root n) (cg_items sub ! a)"
    if "copied (sg_items g) ?xs b n sub" "a < length (cg_items sub)" for b n sub a
  proof -
    have len: "b + a < length (cg_items g')"
      and "?xs ! (b + a) = Some (shift_item b (graph_path_child graph_path_root n) (cg_items sub ! a))"
      using that unfolding copied_def by auto
    then show ?thesis unfolding nth_map [OF len] by blast
  qed
  have sub: "chains_ok sub \<and> compiled_wf sub" if "copied (sg_items g) ?xs b n sub" for b n sub
    using that subs by (auto simp: copied_def)
  have chain: "if is_enter (cg_items g' ! i)
      then is_exit (cg_items g' ! j) \<or> deeper (cg_items g' ! i) (cg_items g' ! j)
      else \<not> is_exit (cg_items g' ! j)"
    if i: "i < length (cg_items g')" and j: "j \<in> transition_indices (item_transition (cg_items g' ! i))"
    for i j
  proof -
    have "has_origin ea entries (sg_items g) ?xs i (cg_items g' ! i)"
      using desc i items by (simp add: described_def)
    then consider (plain) n where "compile_transition ea n entries = Ok (item_transition (cg_items g' ! i))"
        "\<not> is_enter (cg_items g' ! i)"
      | (enter) n where "enters (sg_items g) ?xs n (cg_items g' ! i)"
      | (copy) b n sub where "copied (sg_items g) ?xs b n sub" "b \<le> i" "i < b + length (cg_items sub)"
      unfolding has_origin_def is_enter_def by metis
    then show ?thesis
    proof cases
      case plain
      then show ?thesis using compile_transition_targets [OF plain(1) j] target by auto
    next
      case enter
      then obtain e where item: "cg_items g' ! i =
          EnterSubgraph (graph_path_child graph_path_root n) (Fixed (Some e))"
        and e: "(\<exists>mount tr. e < length ?xs
            \<and> ?xs ! e = Some (ExitSubgraph (graph_path_child graph_path_root n) mount tr))
          \<or> (\<exists>b sub e'. copied (sg_items g) ?xs b n sub \<and> cg_entry_index sub = Some e' \<and> e = b + e')"
        unfolding enters_def by blast
      have "j = e" using j item by simp
      from e show ?thesis
      proof (elim disjE exE conjE)
        fix mount tr assume "e < length ?xs"
          "?xs ! e = Some (ExitSubgraph (graph_path_child graph_path_root n) mount tr)"
        then show ?thesis using \<open>j = e\<close> item by (simp add: is_exit_def is_enter_def)
      next
        fix b sub e' assume c: "copied (sg_items g) ?xs b n sub" "cg_entry_index sub = Some e'"
          "e = b + e'"
        have wf: "compiled_wf sub" and ch: "\<not> is_exit (cg_items sub ! e')"
          using sub [OF c(1)] c(2) by (simp_all add: chains_ok_def)
        have e': "e' < length (cg_items sub)" using wf c(2) by (simp add: compiled_wf_def)
        have "item_segments (cg_items sub ! e') \<noteq> []"
          using compiled_wf_item [OF wf e'] by (simp add: item_ok_def)
        then show ?thesis
          using shifted [OF c(1) e'] \<open>j = e\<close> c(3) item ch
          by (simp add: deeper_def graph_path_root_def graph_path_child_def)
      qed
    next
      case copy
      define a where "a = i - b"
      have a: "a < length (cg_items sub)" "i = b + a" using copy by (auto simp: a_def)
      obtain j' where j': "j = b + j'" "j' \<in> transition_indices (item_transition (cg_items sub ! a))"
        using j shifted [OF copy(1) a(1)]
          a(2) by auto
      have "j' < length (cg_items sub)"
        using compiled_wf_item [of sub a] sub [OF copy(1)] a(1) j'(2) by (auto simp: item_ok_def)
      then show ?thesis
        using sub [OF copy(1)] a j' shifted [OF copy(1)]
        unfolding chains_ok_def by force
    qed
  qed
  have "\<not> is_exit (cg_items g' ! i)" if "i \<in> set_option (cg_entry_index g')" for i
    using that entry target target_index_some by fastforce
  then show ?thesis using chain unfolding chains_ok_def by blast
qed

end
