(* ===== verification/Compilation.thy ===== *)
theory Compilation
  imports Scheduling
begin

text \<open>
  Compilation as a whole. \<open>graph_valid\<close> is the specification of an acceptable graph, stated on
  the declarations; \<open>compile\<close> succeeds exactly on valid graphs, never panics and never reports a
  duplicate path, and what it returns is well formed and holds exactly the declared nodes and
  the nodes of the mounted graphs. Graphs built by programs from graphs built by programs are
  therefore all well formed.
\<close>

section \<open>The specification\<close>

definition parallel_pairs_plain :: "('s, 'u, 'v, 'w) state_graph \<Rightarrow> bool" where
  "parallel_pairs_plain g \<longleftrightarrow>
     (\<forall>ea p. aggregate_edges g = Inr ea \<longrightarrow> co_scheduled ea (initial_frontiers g) p \<longrightarrow>
        pair_plain (declares_subgraph (sg_items g)) p)"

definition graph_valid :: "('s, 'u, 'v, 'w) state_graph \<Rightarrow> bool" where
  "graph_valid g \<longleftrightarrow>
     edges_known g
     \<and> length (fixed_from (sg_fixed_edges g) node_id_start) = 1
     \<and> (\<forall>n \<in> fst ` set (sg_items g). transition_count g n = 1)
     \<and> all_reachable g
     \<and> parallel_pairs_plain g"

section \<open>Building the checked graph\<close>

lemma fixed_from_entry:
  assumes "fixed_entry None (fixed_from es n) = Some (c, t)"
  shows "\<exists>e \<in> set es. fe_from e = n \<and> fe_to e = t \<and> c = length (fixed_from es n)"
proof (cases "fixed_from es n")
  case (Cons e rest)
  then have "e \<in> set (fixed_from es n)" by simp
  then show ?thesis using assms Cons by (auto simp: fixed_entry_def fixed_from_def)
qed (use assms in \<open>simp add: fixed_entry_def\<close>)

lemma known_targets_placed:
  assumes ag: "aggregates g ea" and known: "edges_known g"
    and entries: "fst ` set entries = fst ` set (sg_items g)"
  shows "targets_placed entries ea n"
proof -
  have target: "target_index entries t \<noteq> None" if "known_target (sg_items g) t" for t
  proof (cases "is_end t")
    case False
    then have "t \<in> fst ` set entries"
      using that entries by (simp add: known_target_def im_contains_iff)
    then have "map_of entries t \<noteq> None" by (simp add: map_of_eq_None_iff)
    then show ?thesis by (auto simp: target_index_def)
  qed (simp add: target_index_def)
  have "known_target (sg_items g) t" if "map_of (ea_fixed ea) n = Some (c, t)" for c t
  proof -
    have "fixed_entry None (fixed_from (sg_fixed_edges g) n) = Some (c, t)"
      using ag that by (simp add: aggregates_def)
    then obtain e where "e \<in> set (sg_fixed_edges g)" "fe_to e = t"
      using fixed_from_entry by blast
    then show ?thesis using known by (auto simp: edges_known_def Let_def)
  qed
  moreover have "\<forall>t \<in> set (fo_targets e). known_target (sg_items g) t"
    if "map_of (ea_fan_out ea) n = Some e" for e
    using that ag known unfolding aggregates_def edges_known_def Let_def by blast
  moreover have "\<forall>t \<in> set (ce_allowed_targets e). known_target (sg_items g) t"
    if "map_of (ea_conditional ea) n = Some e" for e
    using that ag known unfolding aggregates_def edges_known_def Let_def by blast
  moreover have "\<forall>t \<in> set (cf_allowed_targets e). known_target (sg_items g) t"
    if "map_of (ea_conditional_fan_out ea) n = Some e" for e
    using that ag known unfolding aggregates_def edges_known_def Let_def by blast
  ultimately show ?thesis using target unfolding targets_placed_def by blast
qed

lemma placing_done:
  assumes "placing slots slots placed fb"
  obtains items where "those (fb_items fb) = Some items" and "fb_items fb = map Some items"
proof -
  have full: "\<forall>i < length (fb_items fb). fb_items fb ! i \<noteq> None"
    using assms by (auto simp: placing_def)
  have "None \<notin> set (fb_items fb)"
  proof
    assume "None \<in> set (fb_items fb)"
    then obtain i where "i < length (fb_items fb)" "fb_items fb ! i = None"
      by (auto simp: in_set_conv_nth)
    then show False using full by blast
  qed
  then obtain items where "those (fb_items fb) = Some items"
    using those_eq_None_iff [of "fb_items fb"] by blast
  then show thesis using that by (simp add: those_eq_Some_iff)
qed

lemma table_ok_mono: "table_ok xs paths exits D \<Longrightarrow> D \<subseteq> D' \<Longrightarrow> table_ok xs paths exits D'"
  unfolding table_ok_def by blast

lemma build_graph_ok:
  fixes g :: "('s, 'u, 'v, 'w) state_graph"
  assumes wf: "builder_wf g" and subs: "items_all compiled_wf g" and known: "edges_known g"
    and ag: "aggregates g ea"
    and start: "length (fixed_from (sg_fixed_edges g) node_id_start) = 1"
    and out: "\<forall>n \<in> fst ` set (sg_items g). has_outgoing ea n"
  obtains g' fb where "build_graph g ea = Ok g'" and "compiled_wf g'"
    and "graph_nodes g' = declared_nodes (sg_items g)" and "cg_version g' = sg_version g"
    and "described ea (layout_entries 0 (sg_items g)) (sg_items g) fb"
    and "fb_items fb = map Some (cg_items g')"
    and "\<exists>t. target_index (layout_entries 0 (sg_items g)) t = Some (cg_entry_index g')"
proof -
  let ?items = "sg_items g"
  let ?slots = "layout_size ?items"
  let ?entries = "layout_entries 0 ?items" and ?exits = "layout_exits 0 ?items"
  define fb0 :: "('s, 'u, 'v, 'w) flat_builder"
    where "fb0 = flat_builder_new\<lparr>fb_items := replicate ?slots None\<rparr>"
  have dist: "distinct (map fst ?items)" and plain: "\<forall>n \<in> fst ` set ?items. \<not> is_reserved n"
    using wf by (simp_all add: builder_wf_def)
  have alloc: "allocate_items ?items flat_builder_new [] [] = (fb0, ?entries, ?exits)"
    using allocate_items_eq [of ?items "[]" "[]" flat_builder_new] dist
    by (simp add: fb0_def flat_builder_new_def)
  have entries: "fst ` set ?entries = fst ` set ?items"
    by (metis fst_layout_entries set_map)
  have bound: "snd ` set ?entries \<subseteq> {..<?slots}"
    using layout_entries_bound [of _ _ 0 ?items] by auto
  have lookup: "\<forall>(n, i) \<in> set ?entries. map_of ?entries n = Some i"
    using dist by (auto simp: fst_layout_entries map_of_eq_Some_iff)
  have "distinct (map fst (layout_exits k is))" if "distinct (map fst is)"
    for k and "is" :: "('s, 'u, 'v, 'w) declared_items"
    using that fst_layout_exits by (induction k "is" rule: layout_exits.induct) fastforce+
  then have exit_lookup: "\<forall>(n, i) \<in> set ?exits. map_of ?exits n = Some i"
    using dist by (auto simp: map_of_eq_Some_iff)
  have "placing 0 ?slots [] fb0"
    by (auto simp: placing_def fb0_def flat_builder_new_def table_ok_def scopes_ok_def
        slot_nodes_def declared_nodes_def)
  then have "\<exists>fb. place_items ea ?entries ?exits ?items fb0 = Ok fb
      \<and> placing ?slots ?slots ([] @ ?items) fb \<and> described ea ?entries ([] @ ?items) fb"
  proof (rule place_items_ok [rotated 1])
    show "described ea ?entries [] fb0"
      by (simp add: described_def fb0_def flat_builder_new_def)
    show "described ea ?entries (placed @ [(n, item)]) fb'"
      if "placing k ?slots placed fb" "described ea ?entries placed fb" "n \<notin> fst ` set placed"
        "map_of ?entries n = Some k"
        "\<forall>sub. item = Subgraph sub \<longrightarrow> compiled_wf sub \<and> map_of ?exits n = Some (k + 1)"
        "k + item_size item \<le> ?slots" "compile_transition ea n ?entries = Ok tr"
        "place_item ?entries ?exits n item tr fb = Ok fb'"
      for k placed fb n item tr fb'
      by (rule place_item_described [OF that])
    show "\<forall>n \<in> fst ` set ?items. \<not> is_reserved n \<and> has_outgoing ea n \<and> targets_placed ?entries ea n"
      using plain out known_targets_placed [OF ag known entries] by blast
    show "\<forall>sub n. (n, Subgraph sub) \<in> set ?items \<longrightarrow> compiled_wf sub"
      using subs unfolding items_all_def by blast
  qed (use dist bound lookup exit_lookup in simp_all)
  then obtain fb where fb: "place_items ea ?entries ?exits ?items fb0 = Ok fb"
    "placing ?slots ?slots ?items fb" "described ea ?entries ?items fb" by auto
  obtain items where items: "those (fb_items fb) = Some items" "fb_items fb = map Some items"
    by (rule placing_done [OF fb(2)])
  obtain t where t: "map_of (ea_fixed ea) node_id_start = Some (1, t)"
    using ag start
    by (cases "fixed_from (sg_fixed_edges g) node_id_start") (auto simp: aggregates_def fixed_entry_def)
  then have "target_index ?entries t \<noteq> None"
    using known_targets_placed [OF ag known entries, of node_id_start]
    unfolding targets_placed_def by blast
  then obtain i where i: "target_index ?entries t = Some i" by blast
  define g' where "g' = \<lparr>cg_items = items, cg_node_paths = fb_node_paths fb,
    cg_scope_exits = fb_scope_exits fb, cg_entry_index = i, cg_version = sg_version g\<rparr>"
  have "build_graph g ea = Ok g'"
    by (simp add: build_graph_def alloc fb(1) t i fb_finish_def items(1) g'_def)
  moreover have "compiled_wf g'"
    unfolding compiled_wf_def
  proof (intro conjI)
    have "length items = length (fb_items fb)" by (simp add: items(2))
    then have "?slots \<le> length items" using fb(2) by (simp add: placing_def)
    then show "set_option (cg_entry_index g') \<subseteq> {..<length (cg_items g')}"
      using target_index_bound [OF bound i] by (auto simp: g'_def)
    show "table_ok (map Some (cg_items g')) (cg_node_paths g') (cg_scope_exits g') UNIV"
      using fb(2) items(2) table_ok_mono [OF _ subset_UNIV] by (auto simp: placing_def g'_def)
    show "scopes_ok (map Some (cg_items g')) (cg_scope_exits g')"
      using fb(2) items(2) by (simp add: placing_def g'_def)
  qed
  moreover have "graph_nodes g' = declared_nodes ?items"
    using fb(2) items(2) by (simp add: placing_def graph_nodes_def slot_nodes_def g'_def)
  moreover have "fb_items fb = map Some (cg_items g')" by (simp add: items(2) g'_def)
  moreover have "\<exists>t. target_index ?entries t = Some (cg_entry_index g')"
    using i by (auto simp: g'_def)
  ultimately show thesis using that fb(3) by (simp add: g'_def)
qed

section \<open>Compile\<close>

lemma validate_edge_shapes_not_ok:
  "validate_edge_shapes g ea = Some e \<Longrightarrow> e \<noteq> DuplicateNodePath p"
  by (auto simp: validate_edge_shapes_def Let_def split: if_splits dest!: each_ok_SomeD)

lemma check_no_duplicate_path:
  "check_fixed_edge items e = Some err \<Longrightarrow> err \<noteq> DuplicateNodePath p"
  "check_conditional_edge items ce = Some err \<Longrightarrow> err \<noteq> DuplicateNodePath p"
  "check_fan_out_edge items fe = Some err \<Longrightarrow> err \<noteq> DuplicateNodePath p"
  "check_conditional_fan_out_edge items cf = Some err \<Longrightarrow> err \<noteq> DuplicateNodePath p"
  by (auto simp: check_fixed_edge_def check_conditional_edge_def check_fan_out_edge_def
      check_conditional_fan_out_edge_def split: if_splits option.splits dest!: each_ok_SomeD)

lemma of_sum_eq_Ok: "of_sum x = Ok a \<longleftrightarrow> x = Inr a" by (cases x) auto
lemma of_check_eq_Ok: "of_check x = Ok a \<longleftrightarrow> x = None" by (cases x) auto
lemma of_index_not_Err: "of_index x \<noteq> Err e" by (cases x) auto
lemma of_sum_not_Panic: "of_sum x \<noteq> Panic" by (cases x) auto
lemma of_check_not_Panic: "of_check x \<noteq> Panic" by (cases x) auto

lemma frontiers_plain_iff:
  assumes "builder_wf g" and "aggregate_edges g = Inr ea"
  shows "validate_subgraph_frontiers g ea = None \<longleftrightarrow> parallel_pairs_plain g"
proof
  assume none: "validate_subgraph_frontiers g ea = None"
  have ag: "aggregates g ea" by (rule aggregate_edges_aggregates [OF assms])
  have fans: "ea_fan_out ea = [] \<Longrightarrow> sg_fan_out_edges g = []"
    "ea_conditional_fan_out ea = [] \<Longrightarrow> sg_conditional_fan_out_edges g = []"
    using ag unfolding aggregates_def by blast+
  show "parallel_pairs_plain g"
    unfolding parallel_pairs_plain_def
  proof (intro allI impI)
    fix ea' p assume "aggregate_edges g = Inr ea'" "co_scheduled ea' (initial_frontiers g) p"
    then have "co_scheduled ea (initial_frontiers g) p" using assms(2) by simp
    then show "pair_plain (declares_subgraph (sg_items g)) p"
      using validate_subgraph_frontiers_None [OF none] fans by blast
  qed
next
  assume plain: "parallel_pairs_plain g"
  show "validate_subgraph_frontiers g ea = None"
  proof (cases "validate_subgraph_frontiers g ea")
    case (Some e)
    then obtain p n where p: "co_scheduled ea (initial_frontiers g) p" "n \<in> {fst p, snd p}"
      "declares_subgraph (sg_items g) n"
      using validate_subgraph_frontiers_Some by blast
    then have "pair_plain (declares_subgraph (sg_items g)) p"
      using plain assms(2) unfolding parallel_pairs_plain_def by blast
    then show ?thesis using p(2,3) by (auto simp: pair_plain_def)
  qed
qed

text \<open>The checks that come before building, taken together.\<close>

lemma checks_iff_valid:
  assumes wf: "builder_wf g" and dfs: "dfs_correct dfs"
  shows "(\<exists>ea. aggregate_edges g = Inr ea \<and> validate_edge_shapes g ea = None
      \<and> validate_topology dfs g ea = Ok () \<and> validate_subgraph_frontiers g ea = None)
    \<longleftrightarrow> graph_valid g"
proof (cases "edges_known g")
  case True
  then obtain ea where ea: "aggregate_edges g = Inr ea" using aggregate_edges_ok_iff [OF wf] by blast
  have ag: "aggregates g ea" by (rule aggregate_edges_aggregates [OF wf ea])
  have "validate_edge_shapes g ea = None \<and> validate_topology dfs g ea = Ok ()
      \<and> validate_subgraph_frontiers g ea = None \<longleftrightarrow> graph_valid g"
    unfolding validate_topology_iff(1) [OF wf True dfs] frontiers_plain_iff [OF wf ea] graph_valid_def
    using edge_shapes_and_outgoing_iff [OF ag] True by blast
  then show ?thesis using ea by auto
next
  case False
  then show ?thesis using aggregate_edges_ok_iff [OF wf] by (auto simp: graph_valid_def)
qed

lemma compile_valid:
  assumes wf: "builder_wf g" and subs: "items_all compiled_wf g" and dfs: "dfs_correct dfs"
    and valid: "graph_valid g"
  obtains g' where "compile dfs g = Ok g'" and "compiled_wf g'"
    and "graph_nodes g' = declared_nodes (sg_items g)" and "cg_version g' = sg_version g"
    and "items_all frontiers_plain g \<longrightarrow> frontiers_plain g'"
    and "items_all chains_ok g \<longrightarrow> chains_ok g'"
proof -
  obtain ea where ea: "aggregate_edges g = Inr ea" "validate_edge_shapes g ea = None"
    "validate_topology dfs g ea = Ok ()" "validate_subgraph_frontiers g ea = None"
    using valid checks_iff_valid [OF wf dfs] by blast
  have known: "edges_known g" and start: "length (fixed_from (sg_fixed_edges g) node_id_start) = 1"
    using valid by (simp_all add: graph_valid_def)
  have out: "\<forall>n \<in> fst ` set (sg_items g). has_outgoing ea n"
    using ea(3) validate_topology_iff(1) [OF wf known dfs] by blast
  have ag: "aggregates g ea" by (rule aggregate_edges_aggregates [OF wf ea(1)])
  obtain g' fb where g': "build_graph g ea = Ok g'" "compiled_wf g'"
    "graph_nodes g' = declared_nodes (sg_items g)" "cg_version g' = sg_version g"
    and desc: "described ea (layout_entries 0 (sg_items g)) (sg_items g) fb"
      "fb_items fb = map Some (cg_items g')"
    and entry: "\<exists>t. target_index (layout_entries 0 (sg_items g)) t = Some (cg_entry_index g')"
    by (rule build_graph_ok [OF wf subs known ag start out])
  have entries: "fst ` set (layout_entries 0 (sg_items g)) \<subseteq> fst ` set (sg_items g)"
    by (metis fst_layout_entries set_map order_refl)
  have "frontiers_plain g'" if "items_all frontiers_plain g"
  proof (rule described_frontiers_plain [OF ag desc entries])
    show "distinct (map fst (sg_items g))" "\<forall>n \<in> fst ` set (sg_items g). \<not> is_reserved n"
      using wf by (simp_all add: builder_wf_def)
    show "\<forall>n \<in> fst ` set (sg_items g). transition_count g n = 1"
      using valid by (simp add: graph_valid_def)
    show "\<forall>p. co_scheduled ea (initial_frontiers g) p \<longrightarrow>
        pair_plain (declares_subgraph (sg_items g)) p"
      using valid ea(1) by (simp add: graph_valid_def parallel_pairs_plain_def)
    show "\<forall>n sub. (n, Subgraph sub) \<in> set (sg_items g) \<longrightarrow> frontiers_plain sub \<and> compiled_wf sub"
      using that subs by (auto simp: items_all_def)
  qed
  moreover have "chains_ok g'" if "items_all chains_ok g"
  proof -
    obtain t where t: "target_index (layout_entries 0 (sg_items g)) t = Some (cg_entry_index g')"
      using entry by blast
    show ?thesis
    proof (rule described_chains_ok [OF desc entries t])
      show "\<forall>n sub. (n, Subgraph sub) \<in> set (sg_items g) \<longrightarrow> chains_ok sub \<and> compiled_wf sub"
        using that subs by (auto simp: items_all_def)
      show "\<forall>i < length (cg_items g').
          transition_indices (item_transition (cg_items g' ! i)) \<subseteq> {..<length (cg_items g')}"
        using compiled_wf_item [OF g'(2)] by (simp add: item_ok_def)
    qed
  qed
  ultimately show thesis using that ea g' by (simp add: compile_def)
qed

lemma compile_okD:
  assumes "builder_wf g" and "dfs_correct dfs" and "compile dfs g = Ok g'"
  shows "graph_valid g"
proof -
  obtain ea where "aggregate_edges g = Inr ea" "validate_edge_shapes g ea = None"
    "validate_topology dfs g ea = Ok ()" "validate_subgraph_frontiers g ea = None"
    using assms(3) by (auto simp: compile_def of_sum_eq_Ok of_check_eq_Ok)
  then show ?thesis using checks_iff_valid [OF assms(1,2)] by blast
qed

text \<open>No check reports a duplicate path, and none of them panics.\<close>

lemma aggregate_no_duplicate_path: "aggregate_edges g \<noteq> Inl (DuplicateNodePath p)"
proof -
  have fixed: "aggregate_fixed (sg_items g) es m \<noteq> Inl (DuplicateNodePath p)" for es m
    by (induction es arbitrary: m) (auto split: option.splits dest: check_no_duplicate_path)
  have others: "aggregate_by check src es m \<noteq> Inl (DuplicateNodePath p)"
    if "\<And>e. check e \<noteq> Some (DuplicateNodePath p)" for check src es m
    using that by (induction es arbitrary: m) (auto split: option.splits)
  have cond: "aggregate_by (check_conditional_edge (sg_items g)) src es m \<noteq> Inl (DuplicateNodePath p)"
    for src es m by (rule others) (auto dest: check_no_duplicate_path(2))
  have fan: "aggregate_by (check_fan_out_edge (sg_items g)) src es m \<noteq> Inl (DuplicateNodePath p)"
    for src es m by (rule others) (auto dest: check_no_duplicate_path(3))
  have cfan: "aggregate_by (check_conditional_fan_out_edge (sg_items g)) src es m
      \<noteq> Inl (DuplicateNodePath p)"
    for src es m by (rule others) (auto dest: check_no_duplicate_path(4))
  show ?thesis
    using fixed cond fan cfan by (auto simp: aggregate_edges_def Let_def split: sum.splits)
qed

lemma topology_no_duplicate_path: "validate_topology dfs g ea \<noteq> Err (DuplicateNodePath p)"
proof -
  have reach: "each_res (\<lambda>n. result_bind (of_index (map_of indices n)) (\<lambda>i.
      if i \<in> set seen then Ok () else Err (UnreachableNode n))) ns \<noteq> Err (DuplicateNodePath p)"
    for indices seen ns
  proof (induction ns)
    case (Cons n ns)
    then show ?case by (cases "map_of indices n") simp_all
  qed simp
  have out: "of_check (each_ok (\<lambda>n. if has_outgoing ea n then None else Some (MissingOutgoingEdge n)) ns)
      \<noteq> Err (DuplicateNodePath p)" for ns
    by (induction ns) auto
  have last: "result_bind (of_index x) (\<lambda>i. if i \<in> S then Ok () else Err NoReachableEnd)
      \<noteq> Err (DuplicateNodePath p)" for x :: "nat option" and S
    by (cases x) auto
  have bind: "result_bind m f \<noteq> Err e" if "m \<noteq> Err e" "\<And>a. f a \<noteq> Err e" for m f and e :: 'e
    using that by (cases m) auto
  show ?thesis
    unfolding validate_topology_def Let_def validate_reachability_def
    by (intro bind reach out last) (simp_all split: option.split add: of_index_not_Err)
qed

lemma frontiers_no_duplicate_path:
  "validate_subgraph_frontiers g ea \<noteq> Some (DuplicateNodePath p)"
  using validate_subgraph_frontiers_Some [of g ea "DuplicateNodePath p"] by auto

lemma compile_total:
  assumes wf: "builder_wf g" and subs: "items_all compiled_wf g" and dfs: "dfs_correct dfs"
  shows "compile dfs g \<noteq> Panic" and "compile dfs g \<noteq> Err (DuplicateNodePath p)"
proof -
  have "compile dfs g \<noteq> Panic \<and> compile dfs g \<noteq> Err (DuplicateNodePath p)"
  proof (cases "aggregate_edges g")
    case (Inl e)
    then show ?thesis using aggregate_no_duplicate_path by (auto simp: compile_def)
  next
    case (Inr ea)
    have known: "edges_known g" using aggregate_edges_ok_iff [OF wf] Inr by blast
    show ?thesis
    proof (cases "validate_edge_shapes g ea")
      case (Some e)
      then show ?thesis using Inr validate_edge_shapes_not_ok by (auto simp: compile_def)
    next
      case None
      note shapes = None
      show ?thesis
      proof (cases "validate_topology dfs g ea")
        case (Ok u)
        note topo = Ok
        show ?thesis
        proof (cases "validate_subgraph_frontiers g ea")
          case None
          then have "graph_valid g"
            using Inr shapes topo checks_iff_valid [OF wf dfs] by auto
          then obtain g' where "compile dfs g = Ok g'" by (rule compile_valid [OF wf subs dfs])
          then show ?thesis by simp
        next
          case (Some e)
          then show ?thesis
            using Inr shapes topo frontiers_no_duplicate_path by (auto simp: compile_def)
        qed
      next
        case (Err e)
        then show ?thesis
          using Inr shapes topology_no_duplicate_path by (auto simp: compile_def)
      next
        case Panic
        then show ?thesis using validate_topology_iff(2) [OF wf known dfs] by blast
      qed
    qed
  qed
  then show "compile dfs g \<noteq> Panic" "compile dfs g \<noteq> Err (DuplicateNodePath p)" by simp_all
qed

section \<open>Graphs that programs build\<close>

text \<open>
  A built graph is compiled from a builder program whose mounted subgraphs are built graphs.
\<close>

inductive built :: "dfs_search \<Rightarrow> ('s, 'u, 'v, 'w) compiled_graph \<Rightarrow> bool" for dfs where
  built: "(\<And>n sub. CallAddSubgraph n sub \<in> set cs \<Longrightarrow> built dfs sub) \<Longrightarrow>
    compile dfs (builder_run state_graph_new cs) = Ok g \<Longrightarrow> built dfs g"

lemma builder_run_items_all:
  assumes "items_all P g" and "\<And>n sub. CallAddSubgraph n sub \<in> set cs \<Longrightarrow> P sub"
  shows "items_all P (builder_run g cs)"
  using assms
proof (induction cs arbitrary: g)
  case (Cons c cs)
  show ?case
  proof (cases "builder_step g c")
    case (Inl e)
    have "items_all P (builder_run g cs)"
      by (rule Cons.IH [OF Cons.prems(1)]) (meson Cons.prems(2) list.set_intros(2))
    then show ?thesis using Inl by simp
  next
    case (Inr g')
    have "items_all P g'"
      by (rule builder_step_items_all [OF Cons.prems(1) Inr]) (metis Cons.prems(2) list.set_intros(1))
    then have "items_all P (builder_run g' cs)"
      by (rule Cons.IH) (meson Cons.prems(2) list.set_intros(2))
    then show ?thesis using Inr by simp
  qed
qed simp

lemma program_items_all:
  assumes "\<And>n sub. CallAddSubgraph n sub \<in> set cs \<Longrightarrow> P sub"
  shows "items_all P (builder_run state_graph_new cs)"
  by (rule builder_run_items_all) (use assms in \<open>simp_all add: items_all_def state_graph_new_def\<close>)

lemma program_wf: "builder_wf (builder_run state_graph_new cs)"
  by (rule builder_run_wf [OF builder_wf_new])

lemma compile_result:
  assumes "builder_wf g" and "items_all compiled_wf g" and "dfs_correct dfs" and "compile dfs g = Ok g'"
  shows "compiled_wf g' \<and> graph_nodes g' = declared_nodes (sg_items g) \<and> cg_version g' = sg_version g"
  using compile_valid [OF assms(1-3) compile_okD [OF assms(1,3,4)]] assms(4) by auto

lemma built_wf: "built dfs g \<Longrightarrow> dfs_correct dfs \<Longrightarrow> compiled_wf g"
proof (induction rule: built.induct)
  case (built cs g)
  then have "items_all compiled_wf (builder_run state_graph_new cs)"
    by (intro program_items_all) blast
  then show ?case using compile_result [OF program_wf _ built.prems built.hyps(2)] by blast
qed

lemma built_scheduling: "built dfs g \<Longrightarrow> dfs_correct dfs \<Longrightarrow> frontiers_plain g \<and> chains_ok g"
proof (induction rule: built.induct)
  case (built cs g)
  let ?p = "builder_run state_graph_new cs"
  have "items_all frontiers_plain ?p" "items_all chains_ok ?p"
    using built.IH built.prems by (intro program_items_all; blast)+
  moreover have wf: "items_all compiled_wf ?p"
    using built_wf built.hyps(1) built.prems by (intro program_items_all) blast
  ultimately show ?case
    using compile_valid [OF program_wf wf built.prems
        compile_okD [OF program_wf built.prems built.hyps(2)]] built.hyps(2) by auto
qed

section \<open>A depth-first search\<close>

text \<open>
  The search of the graph library is a parameter. This one, which closes a visited list as often
  as there are edges, visits what a depth-first search visits; it makes the examples run.
\<close>

definition reach_step :: "(nat \<times> nat) list \<Rightarrow> nat list \<Rightarrow> nat list" where
  "reach_step es seen =
     remdups (seen @ concat (map (\<lambda>(a, b). if a \<in> set seen then [b] else []) es))"

definition reach_search :: dfs_search where
  "reach_search es s = (reach_step es ^^ length es) [s]"

lemma set_reach_step: "set (reach_step es seen) = set seen \<union> set es `` set seen"
  by (auto simp: reach_step_def Image_def split: if_splits)

lemma set_reach_steps: "set ((reach_step es ^^ n) [s]) = {t. \<exists>k \<le> n. (s, t) \<in> set es ^^ k}"
proof (induction n)
  case (Suc n)
  show ?case
  proof (rule set_eqI)
    fix t
    have "t \<in> set ((reach_step es ^^ Suc n) [s]) \<longleftrightarrow>
        (\<exists>k \<le> n. (s, t) \<in> set es ^^ k) \<or> (\<exists>k \<le> n. (s, t) \<in> set es ^^ Suc k)"
      by (auto simp: set_reach_step Suc)
    also have "\<dots> \<longleftrightarrow> (\<exists>k \<le> Suc n. (s, t) \<in> set es ^^ k)"
    proof
      assume "(\<exists>k \<le> n. (s, t) \<in> set es ^^ k) \<or> (\<exists>k \<le> n. (s, t) \<in> set es ^^ Suc k)"
      then show "\<exists>k \<le> Suc n. (s, t) \<in> set es ^^ k"
        by (meson Suc_le_mono le_SucI)
    next
      assume "\<exists>k \<le> Suc n. (s, t) \<in> set es ^^ k"
      then obtain k where k: "k \<le> Suc n" "(s, t) \<in> set es ^^ k" by blast
      then show "(\<exists>k \<le> n. (s, t) \<in> set es ^^ k) \<or> (\<exists>k \<le> n. (s, t) \<in> set es ^^ Suc k)"
        by (cases k) auto
    qed
    finally show "t \<in> set ((reach_step es ^^ Suc n) [s]) \<longleftrightarrow>
        t \<in> {t. \<exists>k \<le> Suc n. (s, t) \<in> set es ^^ k}" by simp
  qed
qed auto

lemma reach_search_correct: "dfs_correct reach_search"
  unfolding dfs_correct_def
proof (intro allI set_eqI)
  fix es :: "(nat \<times> nat) list" and s t :: nat
  have fin: "(set es)\<^sup>* = (\<Union>n \<in> {n. n \<le> card (set es)}. set es ^^ n)"
    by (rule rtrancl_finite_eq_relpow) simp
  have "(\<exists>k \<le> length es. (s, t) \<in> set es ^^ k) \<longleftrightarrow> (s, t) \<in> (set es)\<^sup>*"
  proof
    assume "(s, t) \<in> (set es)\<^sup>*"
    then show "\<exists>k \<le> length es. (s, t) \<in> set es ^^ k"
      unfolding fin using card_length [of es] by (auto intro: le_trans)
  qed (auto intro: relpow_imp_rtrancl)
  then show "t \<in> set (reach_search es s) \<longleftrightarrow> t \<in> {t. (s, t) \<in> (set es)\<^sup>*}"
    by (simp add: reach_search_def set_reach_steps)
qed

section \<open>Examples\<close>

text \<open>A child graph with one node, and a parent that runs a node and then the child.\<close>

definition demo_node :: "string \<Rightarrow> (nat, nat, unit, unit) builder_call" where
  "demo_node n = CallAddNode (NodeId n) (Normal (\<lambda>s cx w. (Inr 1, w)))"

definition demo_child :: "(nat, nat, unit, unit) builder_call list" where
  "demo_child = [demo_node ''work'', CallAddEdge node_id_start (NodeId ''work''),
     CallAddEdge (NodeId ''work'') node_id_end]"

definition compiled_of ::
    "('s, 'u, 'v, 'w) builder_call list \<Rightarrow> ('s, 'u, 'v, 'w) compiled_graph" where
  "compiled_of cs =
     (case compile reach_search (builder_run state_graph_new cs) of
        Ok g \<Rightarrow> g
      | _ \<Rightarrow> \<lparr>cg_items = [], cg_node_paths = [], cg_scope_exits = [], cg_entry_index = None,
             cg_version = None\<rparr>)"

definition compiles :: "('s, 'u, 'v, 'w) builder_call list \<Rightarrow> bool" where
  "compiles cs =
     (case compile reach_search (builder_run state_graph_new cs) of Ok g \<Rightarrow> True | _ \<Rightarrow> False)"

definition demo_parent :: "(nat, nat, unit, unit) builder_call list" where
  "demo_parent = [demo_node ''a'', CallAddSubgraph (NodeId ''sub'') (compiled_of demo_child),
     CallAddEdge node_id_start (NodeId ''a''),
     CallAddConditionalEdges (NodeId ''a'') [NodeId ''sub'', node_id_end]
       (\<lambda>s. Inr (NodeId ''sub'')),
     CallAddEdge (NodeId ''sub'') node_id_end]"

lemma demo_child_compiles: "compiles demo_child" by code_simp

lemma demo_parent_compiles: "compiles demo_parent" by code_simp

lemma compiles_compiled_of: "compiles cs \<Longrightarrow>
    compile reach_search (builder_run state_graph_new cs) = Ok (compiled_of cs)"
  by (auto simp: compiles_def compiled_of_def split: result.splits)

lemma demo_child_built: "built reach_search (compiled_of demo_child)"
  by (rule built.built [OF _ compiles_compiled_of [OF demo_child_compiles]])
     (auto simp: demo_child_def demo_node_def)

lemma demo_parent_subgraphs:
  "CallAddSubgraph n sub \<in> set demo_parent \<Longrightarrow> built reach_search sub"
  using demo_child_built by (auto simp: demo_parent_def demo_node_def)

section \<open>Properties\<close>

text \<open>C1: compilation accepts exactly the valid graphs. For a program that mounts built graphs,
  and a depth-first search that visits the reachable indices, \<open>compile\<close> succeeds if and only if
  every edge has known ends, START has one successor, every item exactly one kind of transition,
  every item and END are reachable, and no subgraph can share a parallel frontier with another
  item.\<close>

theorem compile_accepts_exactly_valid:
  assumes "dfs_correct dfs" and "\<And>n sub. CallAddSubgraph n sub \<in> set cs \<Longrightarrow> built dfs sub"
  shows "(\<exists>g'. compile dfs (builder_run state_graph_new cs) = Ok g') \<longleftrightarrow>
    graph_valid (builder_run state_graph_new cs)"
proof
  have subs: "items_all compiled_wf (builder_run state_graph_new cs)"
    by (rule program_items_all) (rule built_wf [OF assms(2) assms(1)])
  assume "graph_valid (builder_run state_graph_new cs)"
  then show "\<exists>g'. compile dfs (builder_run state_graph_new cs) = Ok g'"
    using compile_valid [OF program_wf subs assms(1)] by blast
qed (use compile_okD [OF program_wf assms(1)] in blast)

lemma compile_accepts_exactly_valid_witness:
  "graph_valid (builder_run state_graph_new demo_parent)"
  using compile_accepts_exactly_valid [of reach_search demo_parent, OF reach_search_correct]
    demo_parent_subgraphs compiles_compiled_of [OF demo_parent_compiles] by blast

text \<open>C2: what compilation returns is a well-formed flat graph: every transition, entry and exit
  index is in range, the path table is exactly the list of its nodes, no node is reserved, every
  namespace has an exit; and its executable nodes are exactly the declared ones together with
  those of the mounted graphs under their mount.\<close>

theorem compile_result_faithful:
  assumes "dfs_correct dfs" and "\<And>n sub. CallAddSubgraph n sub \<in> set cs \<Longrightarrow> built dfs sub"
    and "compile dfs (builder_run state_graph_new cs) = Ok g'"
  shows "compiled_wf g' \<and> graph_nodes g' = declared_nodes (sg_items (builder_run state_graph_new cs))"
proof -
  have "items_all compiled_wf (builder_run state_graph_new cs)"
    by (rule program_items_all) (rule built_wf [OF assms(2) assms(1)])
  then show ?thesis using compile_result [OF program_wf _ assms(1,3)] by blast
qed

lemma compile_result_faithful_witness:
  "compiled_wf (compiled_of demo_parent)
   \<and> graph_nodes (compiled_of demo_parent) = declared_nodes (sg_items (builder_run state_graph_new demo_parent))"
  by (rule compile_result_faithful [OF reach_search_correct demo_parent_subgraphs
      compiles_compiled_of [OF demo_parent_compiles]])

text \<open>C3: compiling a program's graph never panics: no topology index, entry or item slot is
  missing; and it never reports a duplicate node path, since mount prefixes keep paths apart.\<close>

theorem compile_never_panics:
  assumes "dfs_correct dfs" and "\<And>n sub. CallAddSubgraph n sub \<in> set cs \<Longrightarrow> built dfs sub"
  shows "compile dfs (builder_run state_graph_new cs) \<notin> {Panic, Err (DuplicateNodePath p)}"
proof -
  have "items_all compiled_wf (builder_run state_graph_new cs)"
    by (rule program_items_all) (rule built_wf [OF assms(2) assms(1)])
  then show ?thesis using compile_total [OF program_wf _ assms(1)] by blast
qed

lemma compile_never_panics_witness:
  "compile reach_search (builder_run state_graph_new (CallAddEdge node_id_end node_id_end # demo_parent))
    \<notin> {Panic, Err (DuplicateNodePath (node_path_root (NodeId ''a'')))}"
  by (rule compile_never_panics [OF reach_search_correct])
     (use demo_parent_subgraphs in auto)

end
