(* ===== verification/Store.thy ===== *)
theory Store
  imports Records Errors
begin

text \<open>
  The checkpoint store port and its in-memory adapter (\<open>checkpoint_store.rs\<close>). A store keeps a
  linear history per thread and one per branch; a save is idempotent in the checkpoint identifier
  and compares the parent with the current head before it appends. The port is a record of
  operations on the surrounding world, the adapter's operations work on \<open>InMemoryRecordState\<close>
  with its hash maps as partial maps; the mutex is the flag that says whether it is poisoned.
\<close>

section \<open>The port\<close>

record branch_head =
  bh_branch_id :: branch_id
  bh_thread_id :: thread_id
  bh_source_checkpoint_id :: checkpoint_id
  bh_checkpoint_id :: checkpoint_id

record 'w checkpoint_store =
  cs_save :: "checkpoint_record \<Rightarrow> 'w \<Rightarrow> (checkpoint_write_error + checkpoint_record) \<times> 'w"
  cs_latest :: "thread_id \<Rightarrow> 'w \<Rightarrow> (checkpointer_error + checkpoint_record option) \<times> 'w"
  cs_get :: "thread_id \<Rightarrow> checkpoint_id \<Rightarrow> 'w \<Rightarrow> (checkpointer_error + checkpoint_record option) \<times> 'w"
  cs_history :: "thread_id \<Rightarrow> 'w \<Rightarrow> (checkpointer_error + checkpoint_record list) \<times> 'w"
  cs_create_branch :: "thread_id \<Rightarrow> branch_id \<Rightarrow> checkpoint_id \<Rightarrow> 'w
      \<Rightarrow> (checkpoint_write_error + branch_head) \<times> 'w"
  cs_save_branch :: "branch_id \<Rightarrow> checkpoint_record \<Rightarrow> 'w
      \<Rightarrow> (checkpoint_write_error + checkpoint_record) \<times> 'w"
  cs_branch_head :: "thread_id \<Rightarrow> branch_id \<Rightarrow> 'w
      \<Rightarrow> (checkpointer_error + checkpoint_record option) \<times> 'w"
  cs_branch_history :: "thread_id \<Rightarrow> branch_id \<Rightarrow> 'w
      \<Rightarrow> (checkpointer_error + checkpoint_record list) \<times> 'w"

section \<open>The in-memory adapter\<close>

record memory_branch =
  mb_thread_id :: thread_id
  mb_history :: "checkpoint_record list"

record memory_state =
  ms_histories :: "thread_id \<rightharpoonup> checkpoint_record list"
  ms_by_id :: "checkpoint_id \<rightharpoonup> checkpoint_record"
  ms_record_branches :: "checkpoint_id \<rightharpoonup> branch_id"
  ms_branches :: "branch_id \<rightharpoonup> memory_branch"
  ms_poisoned :: bool

definition memory_new :: memory_state where
  "memory_new = \<lparr>ms_histories = Map.empty, ms_by_id = Map.empty, ms_record_branches = Map.empty,
     ms_branches = Map.empty, ms_poisoned = False\<rparr>"

fun last_option :: "'a list \<Rightarrow> 'a option" where
  "last_option [] = None"
| "last_option (x # xs) = Some (last (x # xs))"

definition memory_lock :: "memory_state \<Rightarrow> checkpointer_error option" where
  "memory_lock s =
     (if ms_poisoned s then Some (CheckpointerMessage ''in-memory checkpoint lock was poisoned'')
      else None)"

definition thread_history :: "memory_state \<Rightarrow> thread_id \<Rightarrow> checkpoint_record list" where
  "thread_history s t = (case ms_histories s t of None \<Rightarrow> [] | Some h \<Rightarrow> h)"

definition thread_head :: "memory_state \<Rightarrow> thread_id \<Rightarrow> checkpoint_id option" where
  "thread_head s t =
     (case ms_histories s t of None \<Rightarrow> None | Some h \<Rightarrow> map_option r_id (last_option h))"

definition memory_insert ::
    "checkpoint_record \<Rightarrow> memory_state
      \<Rightarrow> (checkpoint_write_error + checkpoint_record) \<times> memory_state" where
  "memory_insert r s =
     (case memory_lock s of Some e \<Rightarrow> (Inl (Failed e), s) | None \<Rightarrow>
      (case ms_by_id s (r_id r) of
         Some existing \<Rightarrow>
           (if existing = r then (Inr existing, s) else (Inl (IdempotencyConflict (r_id r)), s))
       | None \<Rightarrow>
           (let actual_parent = thread_head s (r_thread_id r)
            in if actual_parent \<noteq> r_parent_id r
               then (Inl (Conflict (r_parent_id r) actual_parent), s)
               else (Inr r, s\<lparr>ms_histories := (ms_histories s)(r_thread_id r \<mapsto>
                                  thread_history s (r_thread_id r) @ [r]),
                               ms_by_id := (ms_by_id s)(r_id r \<mapsto> r)\<rparr>))))"

definition memory_insert_branch ::
    "branch_id \<Rightarrow> checkpoint_record \<Rightarrow> memory_state
      \<Rightarrow> (checkpoint_write_error + checkpoint_record) \<times> memory_state" where
  "memory_insert_branch b r s =
     (case memory_lock s of Some e \<Rightarrow> (Inl (Failed e), s) | None \<Rightarrow>
      (case ms_by_id s (r_id r) of
         Some existing \<Rightarrow>
           (if existing = r \<and> ms_record_branches s (r_id r) = Some b then (Inr existing, s)
            else (Inl (IdempotencyConflict (r_id r)), s))
       | None \<Rightarrow>
           (case ms_branches s b of
              None \<Rightarrow> (Inl (checkpoint_write_error.BranchNotFound b), s)
            | Some branch \<Rightarrow>
                (if mb_thread_id branch \<noteq> r_thread_id r then (Inl (checkpoint_write_error.BranchNotFound b), s)
                 else let actual_parent = map_option r_id (last_option (mb_history branch))
                      in if actual_parent \<noteq> r_parent_id r
                         then (Inl (Conflict (r_parent_id r) actual_parent), s)
                         else (Inr r, s\<lparr>ms_branches := (ms_branches s)(b \<mapsto>
                                  branch\<lparr>mb_history := mb_history branch @ [r]\<rparr>),
                                ms_record_branches := (ms_record_branches s)(r_id r \<mapsto> b),
                                ms_by_id := (ms_by_id s)(r_id r \<mapsto> r)\<rparr>)))))"

definition memory_latest ::
    "thread_id \<Rightarrow> memory_state \<Rightarrow> (checkpointer_error + checkpoint_record option) \<times> memory_state" where
  "memory_latest t s =
     (case memory_lock s of Some e \<Rightarrow> (Inl e, s) | None \<Rightarrow>
        (Inr (case ms_histories s t of None \<Rightarrow> None | Some h \<Rightarrow> last_option h), s))"

definition memory_get ::
    "thread_id \<Rightarrow> checkpoint_id \<Rightarrow> memory_state
      \<Rightarrow> (checkpointer_error + checkpoint_record option) \<times> memory_state" where
  "memory_get t c s =
     (case memory_lock s of Some e \<Rightarrow> (Inl e, s) | None \<Rightarrow>
        (Inr (case ms_by_id s c of None \<Rightarrow> None
              | Some r \<Rightarrow> if r_thread_id r = t then Some r else None), s))"

definition memory_history ::
    "thread_id \<Rightarrow> memory_state \<Rightarrow> (checkpointer_error + checkpoint_record list) \<times> memory_state" where
  "memory_history t s =
     (case memory_lock s of Some e \<Rightarrow> (Inl e, s) | None \<Rightarrow> (Inr (thread_history s t), s))"

definition memory_create_branch ::
    "thread_id \<Rightarrow> branch_id \<Rightarrow> checkpoint_id \<Rightarrow> memory_state
      \<Rightarrow> (checkpoint_write_error + branch_head) \<times> memory_state" where
  "memory_create_branch t b source_id s =
     (case memory_lock s of Some e \<Rightarrow> (Inl (Failed e), s) | None \<Rightarrow>
      (if ms_branches s b \<noteq> None then (Inl (BranchAlreadyExists b), s)
       else case (case ms_by_id s source_id of None \<Rightarrow> None
                  | Some r \<Rightarrow> if r_thread_id r = t then Some r else None) of
         None \<Rightarrow> (Inl (BranchSourceNotFound b source_id), s)
       | Some src \<Rightarrow>
           (Inr \<lparr>bh_branch_id = b, bh_thread_id = t, bh_source_checkpoint_id = source_id,
                 bh_checkpoint_id = source_id\<rparr>,
            s\<lparr>ms_branches := (ms_branches s)(b \<mapsto> \<lparr>mb_thread_id = t, mb_history = [src]\<rparr>)\<rparr>)))"

definition memory_branch_of :: "memory_state \<Rightarrow> thread_id \<Rightarrow> branch_id \<Rightarrow> checkpoint_record list" where
  "memory_branch_of s t b =
     (case ms_branches s b of None \<Rightarrow> []
      | Some branch \<Rightarrow> if mb_thread_id branch = t then mb_history branch else [])"

definition memory_branch_head ::
    "thread_id \<Rightarrow> branch_id \<Rightarrow> memory_state
      \<Rightarrow> (checkpointer_error + checkpoint_record option) \<times> memory_state" where
  "memory_branch_head t b s =
     (case memory_lock s of Some e \<Rightarrow> (Inl e, s) | None \<Rightarrow>
        (Inr (last_option (memory_branch_of s t b)), s))"

definition memory_branch_history ::
    "thread_id \<Rightarrow> branch_id \<Rightarrow> memory_state
      \<Rightarrow> (checkpointer_error + checkpoint_record list) \<times> memory_state" where
  "memory_branch_history t b s =
     (case memory_lock s of Some e \<Rightarrow> (Inl e, s) | None \<Rightarrow> (Inr (memory_branch_of s t b), s))"

text \<open>The import of a list of records, oldest first.\<close>

fun import_records ::
    "checkpoint_record list \<Rightarrow> memory_state \<Rightarrow> checkpoint_write_error + memory_state" where
  "import_records [] s = Inr s"
| "import_records (r # rs) s =
     (case memory_insert r s of (Inl e, s') \<Rightarrow> Inl e | (Inr _, s') \<Rightarrow> import_records rs s')"

definition try_from_records :: "checkpoint_record list \<Rightarrow> checkpoint_write_error + memory_state" where
  "try_from_records rs = import_records rs memory_new"

definition memory_store :: "memory_state checkpoint_store" where
  "memory_store =
     \<lparr>cs_save = memory_insert, cs_latest = memory_latest, cs_get = memory_get,
      cs_history = memory_history, cs_create_branch = memory_create_branch,
      cs_save_branch = memory_insert_branch, cs_branch_head = memory_branch_head,
      cs_branch_history = memory_branch_history\<rparr>"

section \<open>What the state holds\<close>

lemma last_option_snoc [simp]: "last_option (xs @ [x]) = Some x"
  by (cases xs) auto

lemma last_option_eq_None [simp]: "last_option xs = None \<longleftrightarrow> xs = []"
  by (cases xs) auto

lemma last_option_SomeD: "last_option xs = Some x \<Longrightarrow> \<exists>ys. xs = ys @ [x]"
  by (cases xs rule: rev_cases) auto

text \<open>A lineage: every record names the one before it as its parent.\<close>

fun linked :: "checkpoint_id option \<Rightarrow> checkpoint_record list \<Rightarrow> bool" where
  "linked p [] \<longleftrightarrow> True"
| "linked p (r # rs) \<longleftrightarrow> r_parent_id r = p \<and> linked (Some (r_id r)) rs"

definition head_id :: "checkpoint_id option \<Rightarrow> checkpoint_record list \<Rightarrow> checkpoint_id option" where
  "head_id p rs = (case last_option rs of None \<Rightarrow> p | Some r \<Rightarrow> Some (r_id r))"

lemma linked_snoc: "linked p (rs @ [r]) \<longleftrightarrow> linked p rs \<and> r_parent_id r = head_id p rs"
proof (induction rs arbitrary: p)
  case (Cons x rs)
  then show ?case by (cases rs) (auto simp: head_id_def)
qed (auto simp: head_id_def)

lemma linked_appendD: "linked p (xs @ ys) \<Longrightarrow> linked p xs"
  by (induction xs arbitrary: p) auto

definition branch_wf :: "memory_state \<Rightarrow> branch_id \<Rightarrow> memory_branch \<Rightarrow> bool" where
  "branch_wf s b br \<longleftrightarrow>
     (\<exists>src rest. mb_history br = src # rest \<and> linked (Some (r_id src)) rest
        \<and> (\<forall>r \<in> set rest. ms_record_branches s (r_id r) = Some b))
     \<and> (\<forall>r \<in> set (mb_history br). r_thread_id r = mb_thread_id br \<and> ms_by_id s (r_id r) = Some r)
     \<and> distinct (map r_id (mb_history br))"

definition history_wf :: "memory_state \<Rightarrow> thread_id \<Rightarrow> checkpoint_record list \<Rightarrow> bool" where
  "history_wf s t h \<longleftrightarrow>
     linked None h \<and> distinct (map r_id h)
     \<and> (\<forall>r \<in> set h. r_thread_id r = t \<and> ms_by_id s (r_id r) = Some r
          \<and> ms_record_branches s (r_id r) = None)"

definition memory_wf :: "memory_state \<Rightarrow> bool" where
  "memory_wf s \<longleftrightarrow>
     \<not> ms_poisoned s
     \<and> (\<forall>t. history_wf s t (thread_history s t))
     \<and> (\<forall>b br. ms_branches s b = Some br \<longrightarrow> branch_wf s b br)
     \<and> (\<forall>c r. ms_by_id s c = Some r \<longrightarrow> r_id r = c)
     \<and> (\<forall>c. ms_by_id s c = None \<longrightarrow> ms_record_branches s c = None)"

lemma memory_new_wf: "memory_wf memory_new"
  by (simp add: memory_wf_def memory_new_def history_wf_def thread_history_def)

lemma memory_insert_cases:
  assumes "\<not> ms_poisoned s"
  obtains (replay) "ms_by_id s (r_id r) = Some r" "memory_insert r s = (Inr r, s)"
  | (reuse) r' where "ms_by_id s (r_id r) = Some r'" "r' \<noteq> r"
      "memory_insert r s = (Inl (IdempotencyConflict (r_id r)), s)"
  | (conflict) "ms_by_id s (r_id r) = None"
      "head_id None (thread_history s (r_thread_id r)) \<noteq> r_parent_id r"
      "memory_insert r s = (Inl (Conflict (r_parent_id r)
         (head_id None (thread_history s (r_thread_id r)))), s)"
  | (append) "ms_by_id s (r_id r) = None"
      "head_id None (thread_history s (r_thread_id r)) = r_parent_id r"
      "memory_insert r s = (Inr r, s\<lparr>ms_histories := (ms_histories s)(r_thread_id r \<mapsto>
         thread_history s (r_thread_id r) @ [r]), ms_by_id := (ms_by_id s)(r_id r \<mapsto> r)\<rparr>)"
proof -
  have head: "thread_head s (r_thread_id r) = head_id None (thread_history s (r_thread_id r))"
    by (auto simp: head_id_def thread_history_def thread_head_def split: option.split)
  have ins: "memory_insert r s =
      (case ms_by_id s (r_id r) of
         Some existing \<Rightarrow>
           (if existing = r then (Inr existing, s) else (Inl (IdempotencyConflict (r_id r)), s))
       | None \<Rightarrow>
           (if head_id None (thread_history s (r_thread_id r)) \<noteq> r_parent_id r
            then (Inl (Conflict (r_parent_id r)
              (head_id None (thread_history s (r_thread_id r)))), s)
            else (Inr r, s\<lparr>ms_histories := (ms_histories s)(r_thread_id r \<mapsto>
              thread_history s (r_thread_id r) @ [r]), ms_by_id := (ms_by_id s)(r_id r \<mapsto> r)\<rparr>)))"
    using assms
    by (simp add: memory_insert_def memory_lock_def head Let_def split: option.split)
  show thesis
  proof (cases "ms_by_id s (r_id r)")
    case None
    then show thesis using conflict append ins by (auto split: if_splits)
  next
    case (Some r')
    then show thesis using replay reuse ins by (cases "r' = r") auto
  qed
qed

section \<open>Every operation keeps the lineages\<close>

lemma history_wf_fresh:
  assumes "history_wf s t h" and "ms_by_id s c = None"
  shows "\<forall>q \<in> set h. r_id q \<noteq> c"
  using assms by (auto simp: history_wf_def)

lemma branch_wf_fresh:
  assumes "branch_wf s b br" and "ms_by_id s c = None"
  shows "\<forall>q \<in> set (mb_history br). r_id q \<noteq> c"
  using assms by (auto simp: branch_wf_def)

lemma distinct_id_snoc:
  "distinct (map r_id h) \<Longrightarrow> \<forall>q \<in> set h. r_id q \<noteq> r_id r \<Longrightarrow> distinct (map r_id (h @ [r]))"
  by auto

lemma history_wf_transfer:
  assumes "history_wf s t h"
    and "\<And>q. q \<in> set h \<Longrightarrow> ms_by_id s' (r_id q) = ms_by_id s (r_id q)
      \<and> ms_record_branches s' (r_id q) = ms_record_branches s (r_id q)"
  shows "history_wf s' t h"
  using assms unfolding history_wf_def by simp

lemma branch_wf_transfer:
  assumes "branch_wf s b br"
    and "\<And>q. q \<in> set (mb_history br) \<Longrightarrow> ms_by_id s' (r_id q) = ms_by_id s (r_id q)
      \<and> ms_record_branches s' (r_id q) = ms_record_branches s (r_id q)"
  shows "branch_wf s' b br"
  using assms unfolding branch_wf_def by (metis list.set_intros(2))

lemma memory_insert_wf:
  assumes wf: "memory_wf s" and step: "memory_insert r s = (x, s')"
  shows "memory_wf s'"
proof -
  have np: "\<not> ms_poisoned s" using wf by (simp add: memory_wf_def)
  from np show ?thesis
  proof (cases rule: memory_insert_cases [where r = r])
    case append
    let ?t = "r_thread_id r" and ?h = "thread_history s (r_thread_id r)"
    have s': "s' = s\<lparr>ms_histories := (ms_histories s)(?t \<mapsto> ?h @ [r]),
        ms_by_id := (ms_by_id s)(r_id r \<mapsto> r)\<rparr>"
      using append(3) step by simp
    have hist: "thread_history s' t = (if t = ?t then ?h @ [r] else thread_history s t)" for t
      by (simp add: s' thread_history_def)
    have rb: "ms_record_branches s (r_id r) = None"
      using wf append(1) by (simp add: memory_wf_def)
    have old: "history_wf s t (thread_history s t)" for t using wf by (simp add: memory_wf_def)
    have keep: "history_wf s' t (thread_history s t)" for t
      by (rule history_wf_transfer [OF old])
         (use history_wf_fresh [OF old append(1), of t] in \<open>auto simp: s'\<close>)
    have new: "history_wf s' ?t (?h @ [r])"
      using keep [of ?t] distinct_id_snoc [OF _ history_wf_fresh [OF old append(1), of ?t]]
        append(2) rb
      by (simp add: history_wf_def linked_snoc s')
    have br: "branch_wf s' b br" if "ms_branches s b = Some br" for b br
    proof -
      have b: "branch_wf s b br" using wf that by (simp add: memory_wf_def)
      show ?thesis
        by (rule branch_wf_transfer [OF b])
           (use branch_wf_fresh [OF b append(1)] in \<open>auto simp: s'\<close>)
    qed
    have "\<forall>t. history_wf s' t (thread_history s' t)" using keep new hist by simp
    moreover have "\<forall>b br. ms_branches s' b = Some br \<longrightarrow> branch_wf s' b br"
      using br by (simp add: s')
    moreover have "\<forall>c q. ms_by_id s' c = Some q \<longrightarrow> r_id q = c"
      "\<forall>c. ms_by_id s' c = None \<longrightarrow> ms_record_branches s' c = None"
      using wf by (auto simp: memory_wf_def s')
    moreover have "\<not> ms_poisoned s'" using np by (simp add: s')
    ultimately show ?thesis unfolding memory_wf_def by blast
  qed (use wf step in auto)
qed

lemma memory_insert_branch_cases:
  assumes "\<not> ms_poisoned s"
  obtains (same) e where "memory_insert_branch b r s = (Inl e, s)"
  | (replay) "ms_by_id s (r_id r) = Some r" "ms_record_branches s (r_id r) = Some b"
      "memory_insert_branch b r s = (Inr r, s)"
  | (append) br where "ms_by_id s (r_id r) = None" "ms_branches s b = Some br"
      "mb_thread_id br = r_thread_id r"
      "map_option r_id (last_option (mb_history br)) = r_parent_id r"
      "memory_insert_branch b r s = (Inr r, s\<lparr>ms_branches := (ms_branches s)(b \<mapsto>
          br\<lparr>mb_history := mb_history br @ [r]\<rparr>),
        ms_record_branches := (ms_record_branches s)(r_id r \<mapsto> b),
        ms_by_id := (ms_by_id s)(r_id r \<mapsto> r)\<rparr>)"
proof (cases "ms_by_id s (r_id r)")
  case (Some r')
  then show thesis
    using same replay assms
    by (cases "r' = r \<and> ms_record_branches s (r_id r) = Some b")
       (auto simp: memory_insert_branch_def memory_lock_def)
next
  case None
  then show thesis
  proof (cases "ms_branches s b")
    case (Some br)
    consider "mb_thread_id br \<noteq> r_thread_id r"
      | "mb_thread_id br = r_thread_id r" "map_option r_id (last_option (mb_history br)) \<noteq> r_parent_id r"
      | "mb_thread_id br = r_thread_id r" "map_option r_id (last_option (mb_history br)) = r_parent_id r"
      by blast
    then show thesis
    proof cases
      case 1
      then have "memory_insert_branch b r s = (Inl (checkpoint_write_error.BranchNotFound b), s)"
        using None Some assms by (simp add: memory_insert_branch_def memory_lock_def)
      then show thesis by (rule same)
    next
      case 2
      then have "memory_insert_branch b r s = (Inl (Conflict (r_parent_id r)
          (map_option r_id (last_option (mb_history br)))), s)"
        using None Some assms by (simp add: memory_insert_branch_def memory_lock_def Let_def)
      then show thesis by (rule same)
    next
      case 3
      then show thesis
        using None Some assms
        by (intro append) (simp_all add: memory_insert_branch_def memory_lock_def Let_def)
    qed
  qed (use None same assms in \<open>auto simp: memory_insert_branch_def memory_lock_def\<close>)
qed

lemma memory_insert_branch_wf:
  assumes wf: "memory_wf s" and step: "memory_insert_branch b r s = (x, s')"
  shows "memory_wf s'"
proof -
  have np: "\<not> ms_poisoned s" using wf by (simp add: memory_wf_def)
  from np show ?thesis
  proof (cases rule: memory_insert_branch_cases [where b = b and r = r])
    case (append br)
    have s': "s' = s\<lparr>ms_branches := (ms_branches s)(b \<mapsto> br\<lparr>mb_history := mb_history br @ [r]\<rparr>),
        ms_record_branches := (ms_record_branches s)(r_id r \<mapsto> b),
        ms_by_id := (ms_by_id s)(r_id r \<mapsto> r)\<rparr>"
      using append(5) step by simp
    have old: "history_wf s t (thread_history s t)" for t using wf by (simp add: memory_wf_def)
    have "history_wf s' t (thread_history s t)" for t
      by (rule history_wf_transfer [OF old])
         (use history_wf_fresh [OF old append(1), of t] in \<open>auto simp: s'\<close>)
    then have hist: "history_wf s' t (thread_history s' t)" for t
      by (simp add: thread_history_def s')
    have keep: "branch_wf s' c cb" if "ms_branches s c = Some cb" for c cb
    proof -
      have c: "branch_wf s c cb" using wf that by (simp add: memory_wf_def)
      show ?thesis
        by (rule branch_wf_transfer [OF c])
           (use branch_wf_fresh [OF c append(1)] in \<open>auto simp: s'\<close>)
    qed
    have new: "branch_wf s' b (br\<lparr>mb_history := mb_history br @ [r]\<rparr>)"
    proof -
      have kb: "branch_wf s' b br" by (rule keep [OF append(2)])
      then obtain src rest where h: "mb_history br = src # rest" "linked (Some (r_id src)) rest"
        "\<forall>q \<in> set rest. ms_record_branches s' (r_id q) = Some b"
        unfolding branch_wf_def by blast
      have parent: "r_parent_id r = head_id (Some (r_id src)) rest"
        using append(4) h(1) by (cases rest) (auto simp: head_id_def)
      have "branch_wf s b br" using wf append(2) by (simp add: memory_wf_def)
      from branch_wf_fresh [OF this append(1)]
      have fresh: "\<forall>q \<in> set (mb_history br). r_id q \<noteq> r_id r" .
      have "linked (Some (r_id src)) (rest @ [r])" using h(2) parent by (simp add: linked_snoc)
      then show ?thesis
        using kb h append(3) distinct_id_snoc [OF _ fresh] unfolding branch_wf_def
        by (simp add: s')
    qed
    have "\<forall>c cb. ms_branches s' c = Some cb \<longrightarrow> branch_wf s' c cb"
      using keep new by (auto simp: s' split: if_splits)
    moreover have "\<forall>c q. ms_by_id s' c = Some q \<longrightarrow> r_id q = c"
      "\<forall>c. ms_by_id s' c = None \<longrightarrow> ms_record_branches s' c = None"
      using wf by (auto simp: memory_wf_def s')
    moreover have "\<not> ms_poisoned s'" using np by (simp add: s')
    ultimately show ?thesis using hist unfolding memory_wf_def by blast
  qed (use wf step in auto)
qed

lemma memory_create_branch_wf:
  assumes wf: "memory_wf s" and step: "memory_create_branch t b c s = (x, s')"
  shows "memory_wf s'"
proof (cases "s' = s")
  case False
  then obtain src where src: "ms_by_id s c = Some src" "r_thread_id src = t" "ms_branches s b = None"
    and s': "s' = s\<lparr>ms_branches := (ms_branches s)(b \<mapsto> \<lparr>mb_thread_id = t, mb_history = [src]\<rparr>)\<rparr>"
    using step by (auto simp: memory_create_branch_def split: option.splits if_splits)
  have "ms_by_id s (r_id src) = Some src" using wf src(1) by (auto simp: memory_wf_def)
  then have "branch_wf s' b \<lparr>mb_thread_id = t, mb_history = [src]\<rparr>"
    using src(2) by (simp add: branch_wf_def s')
  moreover have "branch_wf s' d db" if "ms_branches s d = Some db" for d db
    using wf that by (auto simp: memory_wf_def branch_wf_def s')
  moreover have "history_wf s' u (thread_history s' u)" for u
    using wf by (simp add: memory_wf_def history_wf_def thread_history_def s')
  ultimately show ?thesis using wf by (auto simp: memory_wf_def s' split: if_splits)
qed (use wf in simp)

section \<open>Sequences of calls\<close>

datatype store_call =
    SaveCall checkpoint_record
  | SaveBranchCall branch_id checkpoint_record
  | CreateBranchCall thread_id branch_id checkpoint_id

fun store_step :: "store_call \<Rightarrow> memory_state \<Rightarrow> memory_state" where
  "store_step (SaveCall r) s = snd (memory_insert r s)"
| "store_step (SaveBranchCall b r) s = snd (memory_insert_branch b r s)"
| "store_step (CreateBranchCall t b c) s = snd (memory_create_branch t b c s)"

definition store_run :: "store_call list \<Rightarrow> memory_state \<Rightarrow> memory_state" where
  "store_run calls s = fold store_step calls s"

lemma store_step_wf: "memory_wf s \<Longrightarrow> memory_wf (store_step c s)"
  by (cases c) (auto intro: memory_insert_wf memory_insert_branch_wf memory_create_branch_wf
      simp: prod_eq_iff)

lemma store_run_wf: "memory_wf s \<Longrightarrow> memory_wf (store_run calls s)"
  unfolding store_run_def by (induction calls arbitrary: s) (auto intro: store_step_wf)

text \<open>Nothing that was stored is ever changed or lost, and histories only grow at the end.\<close>

lemma memory_insert_keeps:
  assumes "memory_wf s" and "ms_by_id s c = Some r"
  shows "ms_by_id (snd (memory_insert q s)) c = Some r"
proof -
  have np: "\<not> ms_poisoned s" using assms(1) by (simp add: memory_wf_def)
  then show ?thesis
    by (cases rule: memory_insert_cases [where r = q]) (use assms(2) in auto)
qed

lemma memory_insert_branch_keeps:
  assumes "memory_wf s" and "ms_by_id s c = Some r"
  shows "ms_by_id (snd (memory_insert_branch b q s)) c = Some r"
proof -
  have np: "\<not> ms_poisoned s" using assms(1) by (simp add: memory_wf_def)
  then show ?thesis
    by (cases rule: memory_insert_branch_cases [where b = b and r = q]) (use assms(2) in auto)
qed

lemma memory_create_branch_keeps: "ms_by_id (snd (memory_create_branch t b c s)) = ms_by_id s"
  by (auto simp: memory_create_branch_def split: option.split if_split)

lemma store_run_keeps:
  "memory_wf s \<Longrightarrow> ms_by_id s c = Some r \<Longrightarrow> ms_by_id (store_run calls s) c = Some r"
proof (induction calls arbitrary: s)
  case (Cons call calls)
  have "ms_by_id (store_step call s) c = Some r"
    using Cons.prems
    by (cases call) (simp_all add: memory_insert_keeps memory_insert_branch_keeps
        memory_create_branch_keeps)
  then show ?case
    using Cons.IH [OF store_step_wf [OF Cons.prems(1)]] by (simp add: store_run_def)
qed (simp add: store_run_def)

section \<open>The contract of a store\<close>

text \<open>
  What a client of a store relies on: an abstract view (\<open>hist\<close>, the linear history of a thread,
  and \<open>stored\<close>, the record under an identifier), and how each operation reads or changes it.
\<close>

locale record_store =
  fixes save :: "checkpoint_record \<Rightarrow> 'w \<Rightarrow> (checkpoint_write_error + checkpoint_record) \<times> 'w"
    and latest :: "thread_id \<Rightarrow> 'w \<Rightarrow> (checkpointer_error + checkpoint_record option) \<times> 'w"
    and get :: "thread_id \<Rightarrow> checkpoint_id \<Rightarrow> 'w \<Rightarrow> (checkpointer_error + checkpoint_record option) \<times> 'w"
    and history :: "thread_id \<Rightarrow> 'w \<Rightarrow> (checkpointer_error + checkpoint_record list) \<times> 'w"
    and hist :: "'w \<Rightarrow> thread_id \<Rightarrow> checkpoint_record list"
    and stored :: "'w \<Rightarrow> checkpoint_id \<Rightarrow> checkpoint_record option"
    and ok :: "'w \<Rightarrow> bool"
  assumes save_ok: "ok w \<Longrightarrow> save r w = (x, w') \<Longrightarrow> ok w'"
    and save_replay: "ok w \<Longrightarrow> stored w (r_id r) = Some r \<Longrightarrow> save r w = (Inr r, w)"
    and save_reuse: "ok w \<Longrightarrow> stored w (r_id r) = Some q \<Longrightarrow> q \<noteq> r \<Longrightarrow>
      save r w = (Inl (IdempotencyConflict (r_id r)), w)"
    and save_conflict: "ok w \<Longrightarrow> stored w (r_id r) = None \<Longrightarrow>
      head_id None (hist w (r_thread_id r)) \<noteq> r_parent_id r \<Longrightarrow>
      save r w = (Inl (Conflict (r_parent_id r) (head_id None (hist w (r_thread_id r)))), w)"
    and save_append: "ok w \<Longrightarrow> stored w (r_id r) = None \<Longrightarrow>
      head_id None (hist w (r_thread_id r)) = r_parent_id r \<Longrightarrow>
      \<exists>w'. save r w = (Inr r, w') \<and> stored w' = (stored w)(r_id r \<mapsto> r)
        \<and> hist w' = (hist w)(r_thread_id r := hist w (r_thread_id r) @ [r])"
    and latest_reads: "ok w \<Longrightarrow> latest t w = (Inr (last_option (hist w t)), w)"
    and get_reads: "ok w \<Longrightarrow> get t c w =
      (Inr (case stored w c of None \<Rightarrow> None | Some r \<Rightarrow> if r_thread_id r = t then Some r else None), w)"
    and history_reads: "ok w \<Longrightarrow> history t w = (Inr (hist w t), w)"
begin

lemma save_cases:
  assumes "ok w"
  obtains (replay) "stored w (r_id r) = Some r" "save r w = (Inr r, w)"
  | (refuse) e where "save r w = (Inl e, w)"
  | (append) w' where "stored w (r_id r) = None" "save r w = (Inr r, w')"
      "stored w' = (stored w)(r_id r \<mapsto> r)"
      "hist w' = (hist w)(r_thread_id r := hist w (r_thread_id r) @ [r])"
proof (cases "stored w (r_id r)")
  case None
  show thesis
  proof (cases "head_id None (hist w (r_thread_id r)) = r_parent_id r")
    case True
    then show thesis using save_append [OF assms None True] append None by blast
  next
    case False
    then show thesis using save_conflict [OF assms None False] refuse by blast
  qed
next
  case (Some q)
  show thesis
  proof (cases "q = r")
    case True
    then show thesis using replay Some save_replay [OF assms] by blast
  next
    case False
    then show thesis using refuse save_reuse [OF assms Some False] by blast
  qed
qed

text \<open>An acknowledged save is visible at once and replays without effect.\<close>

lemma acknowledged_stored:
  assumes "ok w" and "save r w = (Inr q, w')"
  shows "q = r \<and> stored w' (r_id r) = Some r"
  using assms(1) by (cases rule: save_cases [where r = r]) (use assms(2) in auto)

lemma acknowledged_get:
  assumes "ok w" and "save r w = (Inr q, w')"
  shows "get (r_thread_id r) (r_id r) w' = (Inr (Some r), w')"
  using acknowledged_stored [OF assms] get_reads [OF save_ok [OF assms]] by simp

lemma acknowledged_replay:
  assumes "ok w" and "save r w = (Inr q, w')"
  shows "save r w' = (Inr r, w')"
  using save_replay [OF save_ok [OF assms]] acknowledged_stored [OF assms] by blast

text \<open>Of two writers that start from the same head, the second gets the conflict.\<close>

lemma one_writer_wins:
  assumes "ok w" and "save r1 w = (Inr q, w')" and "stored w (r_id r1) = None"
    and "stored w (r_id r2) = None" and "r_id r2 \<noteq> r_id r1"
    and "r_thread_id r2 = r_thread_id r1" and "r_parent_id r2 = r_parent_id r1"
    and "r_parent_id r1 \<noteq> Some (r_id r1)"
  shows "save r2 w' = (Inl (Conflict (r_parent_id r1) (Some (r_id r1))), w')"
proof -
  have st: "stored w' = (stored w)(r_id r1 \<mapsto> r1)"
    and hist: "hist w' = (hist w)(r_thread_id r1 := hist w (r_thread_id r1) @ [r1])"
    using assms(1) by (cases rule: save_cases [where r = r1]; use assms(2,3) in simp)+
  have head: "head_id None (hist w' (r_thread_id r2)) = Some (r_id r1)"
    by (simp add: hist assms(6) head_id_def)
  have "stored w' (r_id r2) = None" using st assms(4,5) by simp
  from save_conflict [OF save_ok [OF assms(1,2)] this] head assms(7,8)
  show ?thesis by simp
qed

text \<open>Only a save to a thread moves that thread's history, and it moves it forward.\<close>

lemma save_other_thread:
  assumes "ok w" and "save r w = (x, w')" and "t \<noteq> r_thread_id r"
  shows "hist w' t = hist w t"
  using assms(1) by (cases rule: save_cases [where r = r]) (use assms(2,3) in auto)

lemma save_grows:
  assumes "ok w" and "save r w = (x, w')"
  shows "\<exists>new. hist w' t = hist w t @ new"
  using assms(1) by (cases rule: save_cases [where r = r]) (use assms(2) in auto)

end

lemma memory_wf_lock [simp]: "memory_wf s \<Longrightarrow> memory_lock s = None"
  unfolding memory_wf_def memory_lock_def by simp

lemma memory_insert_replay:
  assumes "memory_wf s" and "ms_by_id s (r_id r) = Some r"
  shows "memory_insert r s = (Inr r, s)"
  using assms by (simp add: memory_insert_def)

lemma memory_insert_reuse:
  assumes "memory_wf s" and "ms_by_id s (r_id r) = Some q" and "q \<noteq> r"
  shows "memory_insert r s = (Inl (IdempotencyConflict (r_id r)), s)"
  using assms by (simp add: memory_insert_def)

lemma memory_insert_conflict:
  assumes "memory_wf s" and "ms_by_id s (r_id r) = None"
    and "head_id None (thread_history s (r_thread_id r)) \<noteq> r_parent_id r"
  shows "memory_insert r s =
    (Inl (Conflict (r_parent_id r) (head_id None (thread_history s (r_thread_id r)))), s)"
proof -
  have "\<not> ms_poisoned s" using assms(1) by (simp add: memory_wf_def)
  then show ?thesis by (cases rule: memory_insert_cases [where r = r]) (use assms(2,3) in auto)
qed

lemma memory_insert_append:
  assumes "memory_wf s" and "ms_by_id s (r_id r) = None"
    and "head_id None (thread_history s (r_thread_id r)) = r_parent_id r"
  shows "\<exists>s'. memory_insert r s = (Inr r, s') \<and> ms_by_id s' = (ms_by_id s)(r_id r \<mapsto> r)
    \<and> thread_history s' = (thread_history s)(r_thread_id r := thread_history s (r_thread_id r) @ [r])"
proof -
  have "\<not> ms_poisoned s" using assms(1) by (simp add: memory_wf_def)
  then show ?thesis
    by (cases rule: memory_insert_cases [where r = r])
       (use assms(2,3) in \<open>auto simp: thread_history_def\<close>)
qed

lemma memory_reads:
  assumes "memory_wf s"
  shows "memory_latest t s = (Inr (last_option (thread_history s t)), s)"
    and "memory_get t c s =
      (Inr (case ms_by_id s c of None \<Rightarrow> None | Some r \<Rightarrow> if r_thread_id r = t then Some r else None), s)"
    and "memory_history t s = (Inr (thread_history s t), s)"
  using assms
  by (simp_all add: memory_latest_def memory_get_def memory_history_def thread_history_def
      split: option.split)

lemmas memory_store_laws =
  memory_insert_wf memory_insert_replay memory_insert_reuse memory_insert_conflict
  memory_insert_append memory_reads

interpretation memory: record_store memory_insert memory_latest memory_get memory_history
  thread_history ms_by_id memory_wf
  by unfold_locales (assumption | rule memory_store_laws)+

section \<open>Properties\<close>

text \<open>C5: after any sequence of saves, branch saves and branch creations, accepted or refused, the
  history of every thread is one lineage that starts without a parent, and that of every branch is
  one lineage that starts at its source; identifiers never repeat within a history, and every
  record in one is the record stored under its identifier.\<close>

theorem memory_store_lineages:
  "linked None (thread_history (store_run calls memory_new) t)
   \<and> distinct (map r_id (thread_history (store_run calls memory_new) t))
   \<and> (\<forall>b. case ms_branches (store_run calls memory_new) b of
         None \<Rightarrow> True | Some br \<Rightarrow> branch_wf (store_run calls memory_new) b br)"
proof -
  have "memory_wf (store_run calls memory_new)" by (rule store_run_wf [OF memory_new_wf])
  then show ?thesis by (simp add: memory_wf_def history_wf_def split: option.split)
qed

text \<open>C6: a save that the store acknowledged is durable: after any further calls the record is still
  what a lookup of its identifier returns, and submitting it again succeeds without changing
  anything.\<close>

theorem memory_save_durable:
  assumes "memory_insert r (store_run before memory_new) = (Inr q, s)"
  shows "memory_get (r_thread_id r) (r_id r) (store_run after s) = (Inr (Some r), store_run after s)
    \<and> memory_insert r (store_run after s) = (Inr r, store_run after s)"
proof -
  have wf: "memory_wf (store_run before memory_new)" by (rule store_run_wf [OF memory_new_wf])
  have wf': "memory_wf (store_run after s)"
    by (rule store_run_wf [OF memory.save_ok [OF wf assms]])
  have "ms_by_id s (r_id r) = Some r" using memory.acknowledged_stored [OF wf assms] by blast
  then have "ms_by_id (store_run after s) (r_id r) = Some r"
    by (rule store_run_keeps [OF memory.save_ok [OF wf assms]])
  then show ?thesis using memory.get_reads [OF wf'] memory.save_replay [OF wf'] by simp
qed

definition root_record :: "uuid \<Rightarrow> checkpoint_record" where
  "root_record c = raw_record\<lparr>r_id := CheckpointId c, r_parent_id := None\<rparr>"

definition child_record :: "uuid \<Rightarrow> uuid \<Rightarrow> checkpoint_record" where
  "child_record p c = raw_record\<lparr>r_id := CheckpointId c, r_parent_id := Some (CheckpointId p)\<rparr>"

lemmas example_records = root_record_def child_record_def raw_record_def

lemma root_record_saved:
  "memory_insert (root_record 1) (store_run [] memory_new) =
    (Inr (root_record 1), snd (memory_insert (root_record 1) memory_new))"
  by (simp add: memory_insert_def memory_lock_def memory_new_def thread_head_def store_run_def
      example_records)

lemma memory_save_durable_witness:
  "memory_get (ThreadId ''t'') (CheckpointId 1)
     (store_run [SaveCall (child_record 1 2)] (snd (memory_insert (root_record 1) memory_new))) =
   (Inr (Some (root_record 1)),
     store_run [SaveCall (child_record 1 2)] (snd (memory_insert (root_record 1) memory_new)))"
  using memory_save_durable [OF root_record_saved, of "[SaveCall (child_record 1 2)]"]
  by (simp add: root_record_def raw_record_def)

text \<open>C7: optimistic concurrency. If two writers submit new records with the same parent to the same
  thread and the first is acknowledged, the second is refused with the conflict that names the
  first record as the actual head, and the store does not change.\<close>

theorem memory_one_writer_wins:
  assumes "memory_insert r1 (store_run calls memory_new) = (Inr q, s)"
    and "ms_by_id (store_run calls memory_new) (r_id r1) = None"
    and "ms_by_id (store_run calls memory_new) (r_id r2) = None" and "r_id r2 \<noteq> r_id r1"
    and "r_thread_id r2 = r_thread_id r1" and "r_parent_id r2 = r_parent_id r1"
    and "r_parent_id r1 \<noteq> Some (r_id r1)"
  shows "memory_insert r2 s = (Inl (Conflict (r_parent_id r1) (Some (r_id r1))), s)"
  using memory.one_writer_wins [OF store_run_wf [OF memory_new_wf] assms] .

lemma memory_one_writer_wins_witness:
  "memory_insert (root_record 2) (snd (memory_insert (root_record 1) memory_new)) =
    (Inl (Conflict None (Some (CheckpointId 1))), snd (memory_insert (root_record 1) memory_new))"
  using memory_one_writer_wins [OF root_record_saved, of "root_record 2"]
  by (simp add: example_records store_run_def memory_new_def)

text \<open>C8: branches are isolated. A branch save or a branch creation never changes any thread's
  history, a main-line save never changes a branch, and a branch save changes no other branch.\<close>

theorem memory_branches_isolated:
  "thread_history (snd (memory_insert_branch b r s)) = thread_history s
   \<and> thread_history (snd (memory_create_branch t b c s)) = thread_history s
   \<and> ms_branches (snd (memory_insert r s)) = ms_branches s
   \<and> ms_branches (snd (memory_insert_branch b r s)) |` (- {b}) = ms_branches s |` (- {b})
   \<and> ms_branches (snd (memory_create_branch t b c s)) |` (- {b}) = ms_branches s |` (- {b})"
proof (intro conjI ext)
  show "thread_history (snd (memory_insert_branch b r s)) u = thread_history s u" for u
    by (auto simp: memory_insert_branch_def thread_history_def Let_def split: option.splits if_splits)
  show "thread_history (snd (memory_create_branch t b c s)) u = thread_history s u" for u
    by (auto simp: memory_create_branch_def thread_history_def split: option.splits if_splits)
  show "ms_branches (snd (memory_insert r s)) d = ms_branches s d" for d
    by (simp add: memory_insert_def Let_def split: option.split)
  show "(ms_branches (snd (memory_insert_branch b r s)) |` (- {b})) d = (ms_branches s |` (- {b})) d" for d
    by (simp add: memory_insert_branch_def Let_def restrict_map_def split: option.split)
  show "(ms_branches (snd (memory_create_branch t b c s)) |` (- {b})) d = (ms_branches s |` (- {b})) d" for d
    by (simp add: memory_create_branch_def restrict_map_def split: option.split)
qed

lemma import_linked:
  assumes "memory_wf s" and "thread_history s = (\<lambda>_. [])(t := past)"
    and "\<forall>c. ms_by_id s c \<noteq> None \<longrightarrow> c \<in> r_id ` set past"
    and "linked None (past @ rs)" and "distinct (map r_id (past @ rs))"
    and "\<forall>r \<in> set rs. r_thread_id r = t"
  shows "\<exists>s'. import_records rs s = Inr s' \<and> thread_history s' = (\<lambda>_. [])(t := past @ rs)"
  using assms
proof (induction rs arbitrary: s "past")
  case (Cons r rs)
  have t: "r_thread_id r = t" using Cons.prems(6) by simp
  have "r_id r \<notin> r_id ` set past" using Cons.prems(5) by auto
  then have new: "ms_by_id s (r_id r) = None" using Cons.prems(3) by blast
  have "linked None ((past @ [r]) @ rs)" using Cons.prems(4) by simp
  then have "linked None (past @ [r])" by (rule linked_appendD)
  then have "head_id None (thread_history s (r_thread_id r)) = r_parent_id r"
    using Cons.prems(2) t by (simp add: linked_snoc)
  from memory.save_append [OF Cons.prems(1) new this] obtain s1 where
    s1: "memory_insert r s = (Inr r, s1)" "ms_by_id s1 = (ms_by_id s)(r_id r \<mapsto> r)"
      "thread_history s1 = (thread_history s)(t := thread_history s t @ [r])"
    unfolding t by blast
  have "\<exists>s'. import_records rs s1 = Inr s' \<and> thread_history s' = (\<lambda>_. [])(t := (past @ [r]) @ rs)"
  proof (rule Cons.IH)
    show "memory_wf s1" by (rule memory.save_ok [OF Cons.prems(1) s1(1)])
    show "thread_history s1 = (\<lambda>_. [])(t := past @ [r])" using s1(3) Cons.prems(2) by (simp add: fun_eq_iff)
    show "\<forall>c. ms_by_id s1 c \<noteq> None \<longrightarrow> c \<in> r_id ` set (past @ [r])"
      using Cons.prems(3) s1(2) by auto
  qed (use Cons.prems(4-6) in auto)
  moreover have "import_records (r # rs) s = import_records rs s1" using s1(1) by simp
  ultimately show ?case by (simp only: append_assoc append.simps)
qed auto

text \<open>C9: exporting and importing is the identity on a thread. The history of a thread, read oldest
  first from any reachable store, is accepted by \<open>try_from_records\<close>, and the new store holds
  exactly that history and nothing else.\<close>

theorem memory_import_roundtrip:
  "\<exists>s'. try_from_records (thread_history (store_run calls memory_new) t) = Inr s'
    \<and> thread_history s' = (\<lambda>_. [])(t := thread_history (store_run calls memory_new) t)"
proof -
  have "memory_wf (store_run calls memory_new)" by (rule store_run_wf [OF memory_new_wf])
  then have h: "history_wf (store_run calls memory_new) t (thread_history (store_run calls memory_new) t)"
    by (simp add: memory_wf_def)
  have "thread_history memory_new = (\<lambda>_. [])(t := [])"
    by (simp add: fun_eq_iff thread_history_def memory_new_def)
  then show ?thesis
    using import_linked [OF memory_new_wf, of t "[]" "thread_history (store_run calls memory_new) t"] h
    by (simp add: try_from_records_def history_wf_def memory_new_def)
qed

end
