(* ===== verification/Checkpointer.thy ===== *)
theory Checkpointer
  imports Store
begin

text \<open>
  The typed persistence boundary: the \<open>Checkpointer\<close> port and \<open>RecordCheckpointer\<close>, which encodes
  requests for a record store, decodes what the store returns and keeps decoded checkpoints in a
  weak cache (\<open>checkpoint.rs\<close>). A weak handle may expire whenever no caller holds it, so the
  state carries an arbitrary liveness oracle, read through a clock. The main result is that
  neither the cache nor the oracle can be observed.
\<close>

section \<open>The port\<close>

record ('t, 'v, 'w) checkpointer =
  ck_save :: "('t, 'v) checkpoint_request \<Rightarrow> 'w \<Rightarrow> (checkpoint_write_error + ('t, 'v) checkpoint) \<times> 'w"
  ck_latest :: "thread_id \<Rightarrow> 'w \<Rightarrow> (checkpointer_error + ('t, 'v) checkpoint option) \<times> 'w"
  ck_get :: "thread_id \<Rightarrow> checkpoint_id \<Rightarrow> 'w \<Rightarrow> (checkpointer_error + ('t, 'v) checkpoint option) \<times> 'w"
  ck_history :: "thread_id \<Rightarrow> 'w \<Rightarrow> (checkpointer_error + ('t, 'v) checkpoint list) \<times> 'w"
  ck_create_branch :: "thread_id \<Rightarrow> branch_id \<Rightarrow> checkpoint_id \<Rightarrow> 'w
      \<Rightarrow> (checkpoint_write_error + branch_head) \<times> 'w"
  ck_save_branch :: "branch_id \<Rightarrow> ('t, 'v) checkpoint_request \<Rightarrow> 'w
      \<Rightarrow> (checkpoint_write_error + ('t, 'v) checkpoint) \<times> 'w"
  ck_branch_head :: "thread_id \<Rightarrow> branch_id \<Rightarrow> 'w
      \<Rightarrow> (checkpointer_error + ('t, 'v) checkpoint option) \<times> 'w"
  ck_branch_history :: "thread_id \<Rightarrow> branch_id \<Rightarrow> 'w
      \<Rightarrow> (checkpointer_error + ('t, 'v) checkpoint list) \<times> 'w"

text \<open>The default bodies of the trait.\<close>

definition default_get ::
    "(thread_id \<Rightarrow> 'w \<Rightarrow> (checkpointer_error + ('t, 'v) checkpoint list) \<times> 'w)
      \<Rightarrow> thread_id \<Rightarrow> checkpoint_id \<Rightarrow> 'w \<Rightarrow> (checkpointer_error + ('t, 'v) checkpoint option) \<times> 'w" where
  "default_get history t c w =
     (case history t w of
        (Inl e, w') \<Rightarrow> (Inl e, w')
      | (Inr cs, w') \<Rightarrow> (Inr (find (\<lambda>cp. c_id cp = c) cs), w'))"

definition default_create_branch ::
    "thread_id \<Rightarrow> branch_id \<Rightarrow> checkpoint_id \<Rightarrow> 'w \<Rightarrow> (checkpoint_write_error + branch_head) \<times> 'w" where
  "default_create_branch t b c w = (Inl BranchUnsupported, w)"

definition default_save_branch ::
    "branch_id \<Rightarrow> ('t, 'v) checkpoint_request \<Rightarrow> 'w
      \<Rightarrow> (checkpoint_write_error + ('t, 'v) checkpoint) \<times> 'w" where
  "default_save_branch b q w = (Inl BranchUnsupported, w)"

definition default_branch_head ::
    "thread_id \<Rightarrow> branch_id \<Rightarrow> 'w \<Rightarrow> (checkpointer_error + ('t, 'v) checkpoint option) \<times> 'w" where
  "default_branch_head t b w =
     (Inl (CheckpointerMessage ''checkpoint branch operations are not supported''), w)"

definition default_branch_history ::
    "thread_id \<Rightarrow> branch_id \<Rightarrow> 'w \<Rightarrow> (checkpointer_error + ('t, 'v) checkpoint list) \<times> 'w" where
  "default_branch_history t b w =
     (Inl (CheckpointerMessage ''checkpoint branch operations are not supported''), w)"

section \<open>The record checkpointer\<close>

text \<open>
  \<open>rc_live k c\<close> says whether the weak handle cached for \<open>c\<close> can still be upgraded when it is
  consulted for the \<open>k\<close>-th time. The cleanup also shrinks the table's capacity, which no
  operation observes.
\<close>

record ('t, 'v, 'w) record_checkpointer =
  rc_world :: 'w
  rc_entries :: "(checkpoint_id \<times> checkpoint_record \<times> ('t, 'v) checkpoint) list"
  rc_insertions_until_cleanup :: nat
  rc_poisoned :: bool
  rc_live :: "nat \<Rightarrow> checkpoint_id \<Rightarrow> bool"
  rc_clock :: nat

definition record_checkpointer_new ::
    "(nat \<Rightarrow> checkpoint_id \<Rightarrow> bool) \<Rightarrow> 'w \<Rightarrow> ('t, 'v, 'w) record_checkpointer" where
  "record_checkpointer_new live w =
     \<lparr>rc_world = w, rc_entries = [], rc_insertions_until_cleanup = 64, rc_poisoned = False,
      rc_live = live, rc_clock = 0\<rparr>"

definition rc_upgrade ::
    "checkpoint_id \<Rightarrow> ('t, 'v, 'w) record_checkpointer \<Rightarrow> bool \<times> ('t, 'v, 'w) record_checkpointer" where
  "rc_upgrade c s = (rc_live s (rc_clock s) c, s\<lparr>rc_clock := Suc (rc_clock s)\<rparr>)"

definition rc_remove_expired ::
    "('t, 'v, 'w) record_checkpointer \<Rightarrow> ('t, 'v, 'w) record_checkpointer" where
  "rc_remove_expired s =
     (let n = rc_insertions_until_cleanup s - 1 in
      if n > 0 then s\<lparr>rc_insertions_until_cleanup := n\<rparr>
      else let kept = filter (\<lambda>(c, _). rc_live s (rc_clock s) c) (rc_entries s)
           in s\<lparr>rc_entries := kept, rc_clock := Suc (rc_clock s),
                rc_insertions_until_cleanup := max (length kept) 64\<rparr>)"

definition rc_cached ::
    "checkpoint_record \<Rightarrow> ('t, 'v, 'w) record_checkpointer
      \<Rightarrow> (checkpointer_error + ('t, 'v) checkpoint option) \<times> ('t, 'v, 'w) record_checkpointer" where
  "rc_cached r s =
     (if rc_poisoned s then (Inl (CheckpointerMessage ''decoded checkpoint cache was poisoned''), s)
      else case map_of (rc_entries s) (r_id r) of
        Some (cached_record, cp) \<Rightarrow>
          (if cached_record = r
           then (case rc_upgrade (r_id r) s of (alive, s') \<Rightarrow> (Inr (if alive then Some cp else None), s'))
           else (Inl (ConflictingContent (r_id r)), s))
      | None \<Rightarrow> (Inr None, s))"

definition rc_cache ::
    "checkpoint_record \<Rightarrow> ('t, 'v) checkpoint \<Rightarrow> ('t, 'v, 'w) record_checkpointer
      \<Rightarrow> (checkpointer_error + ('t, 'v) checkpoint) \<times> ('t, 'v, 'w) record_checkpointer" where
  "rc_cache r cp s =
     (if rc_poisoned s then (Inl (CheckpointerMessage ''decoded checkpoint cache was poisoned''), s)
      else let s1 = rc_remove_expired s;
               insert = (\<lambda>s. s\<lparr>rc_entries := im_insert (c_id cp) (r, cp) (rc_entries s)\<rparr>)
      in case map_of (rc_entries s1) (c_id cp) of
        None \<Rightarrow> (Inr cp, insert s1)
      | Some (cached_record, existing) \<Rightarrow>
          (if cached_record = r
           then (case rc_upgrade (c_id cp) s1 of (alive, s2) \<Rightarrow>
                  (if alive then (Inr existing, s2) else (Inr cp, insert s2)))
           else (Inl (ConflictingContent (c_id cp)), s1)))"

definition rc_decode ::
    "('t, 'v) checkpoint_codec \<Rightarrow> checkpoint_record \<Rightarrow> ('t, 'v, 'w) record_checkpointer
      \<Rightarrow> (checkpointer_error + ('t, 'v) checkpoint) \<times> ('t, 'v, 'w) record_checkpointer" where
  "rc_decode codec r s =
     (case rc_cached r s of
        (Inl e, s1) \<Rightarrow> (Inl e, s1)
      | (Inr (Some cp), s1) \<Rightarrow> (Inr cp, s1)
      | (Inr None, s1) \<Rightarrow>
          (case from_record r codec of
             Inl e \<Rightarrow> (Inl (ReconstructionFailed (r_id r) e), s1)
           | Inr cp \<Rightarrow> rc_cache r cp s1))"

fun rc_decode_all ::
    "('t, 'v) checkpoint_codec \<Rightarrow> checkpoint_record list \<Rightarrow> ('t, 'v, 'w) record_checkpointer
      \<Rightarrow> (checkpointer_error + ('t, 'v) checkpoint list) \<times> ('t, 'v, 'w) record_checkpointer" where
  "rc_decode_all codec [] s = (Inr [], s)"
| "rc_decode_all codec (r # rs) s =
     (case rc_decode codec r s of
        (Inl e, s1) \<Rightarrow> (Inl e, s1)
      | (Inr cp, s1) \<Rightarrow> (case rc_decode_all codec rs s1 of
          (Inl e, s2) \<Rightarrow> (Inl e, s2) | (Inr cps, s2) \<Rightarrow> (Inr (cp # cps), s2)))"

text \<open>A store operation, run on the world inside the checkpointer.\<close>

definition rc_call ::
    "('w \<Rightarrow> 'a \<times> 'w) \<Rightarrow> ('t, 'v, 'w) record_checkpointer \<Rightarrow> 'a \<times> ('t, 'v, 'w) record_checkpointer" where
  "rc_call f s = (case f (rc_world s) of (a, w) \<Rightarrow> (a, s\<lparr>rc_world := w\<rparr>))"

text \<open>\<open>save\<close> and \<open>save_branch\<close>; they differ in the store call and in one message.\<close>

definition rc_save_with ::
    "('t, 'v) checkpoint_codec
      \<Rightarrow> (checkpoint_record \<Rightarrow> 'w \<Rightarrow> (checkpoint_write_error + checkpoint_record) \<times> 'w) \<Rightarrow> string
      \<Rightarrow> ('t, 'v) checkpoint_request \<Rightarrow> ('t, 'v, 'w) record_checkpointer
      \<Rightarrow> (checkpoint_write_error + ('t, 'v) checkpoint) \<times> ('t, 'v, 'w) record_checkpointer" where
  "rc_save_with codec save msg q s =
     (case to_record q codec of
        Inl e \<Rightarrow> (Inl (Encoding e), s)
      | Inr r \<Rightarrow>
          (case rc_call (save r) s of
             (Inl e, s1) \<Rightarrow> (Inl e, s1)
           | (Inr stored, s1) \<Rightarrow>
               (if stored \<noteq> r then (Inl (Failed (CheckpointerMessage msg)), s1)
                else case rc_cached r s1 of
                  (Inl e, s2) \<Rightarrow> (Inl (Failed e), s2)
                | (Inr (Some cp), s2) \<Rightarrow> (Inr cp, s2)
                | (Inr None, s2) \<Rightarrow> (case rc_cache r (into_checkpoint q) s2 of
                    (Inl e, s3) \<Rightarrow> (Inl (Failed e), s3) | (Inr cp, s3) \<Rightarrow> (Inr cp, s3)))))"

definition rc_load ::
    "('t, 'v) checkpoint_codec \<Rightarrow> ('w \<Rightarrow> (checkpointer_error + checkpoint_record option) \<times> 'w)
      \<Rightarrow> ('t, 'v, 'w) record_checkpointer
      \<Rightarrow> (checkpointer_error + ('t, 'v) checkpoint option) \<times> ('t, 'v, 'w) record_checkpointer" where
  "rc_load codec f s =
     (case rc_call f s of
        (Inl e, s1) \<Rightarrow> (Inl e, s1)
      | (Inr None, s1) \<Rightarrow> (Inr None, s1)
      | (Inr (Some r), s1) \<Rightarrow> (case rc_decode codec r s1 of
          (Inl e, s2) \<Rightarrow> (Inl e, s2) | (Inr cp, s2) \<Rightarrow> (Inr (Some cp), s2)))"

definition rc_load_all ::
    "('t, 'v) checkpoint_codec \<Rightarrow> ('w \<Rightarrow> (checkpointer_error + checkpoint_record list) \<times> 'w)
      \<Rightarrow> ('t, 'v, 'w) record_checkpointer
      \<Rightarrow> (checkpointer_error + ('t, 'v) checkpoint list) \<times> ('t, 'v, 'w) record_checkpointer" where
  "rc_load_all codec f s =
     (case rc_call f s of
        (Inl e, s1) \<Rightarrow> (Inl e, s1)
      | (Inr rs, s1) \<Rightarrow> rc_decode_all codec rs s1)"

definition record_adapter ::
    "'w checkpoint_store \<Rightarrow> ('t, 'v) checkpoint_codec
      \<Rightarrow> ('t, 'v, ('t, 'v, 'w) record_checkpointer) checkpointer" where
  "record_adapter store codec =
     \<lparr>ck_save = rc_save_with codec (cs_save store)
        ''checkpoint store returned content different from the submitted record'',
      ck_latest = (\<lambda>t. rc_load codec (cs_latest store t)),
      ck_get = (\<lambda>t c. rc_load codec (cs_get store t c)),
      ck_history = (\<lambda>t. rc_load_all codec (cs_history store t)),
      ck_create_branch = (\<lambda>t b c. rc_call (cs_create_branch store t b c)),
      ck_save_branch = (\<lambda>b. rc_save_with codec (cs_save_branch store b)
        ''checkpoint store returned content different from the submitted branch record''),
      ck_branch_head = (\<lambda>t b. rc_load codec (cs_branch_head store t b)),
      ck_branch_history = (\<lambda>t b. rc_load_all codec (cs_branch_history store t b))\<rparr>"

text \<open>\<open>InMemoryCheckpointer\<close> delegates every operation to the adapter over its own store.\<close>

definition memory_checkpointer ::
    "('t, 'v) checkpoint_codec
      \<Rightarrow> ('t, 'v, ('t, 'v, memory_state) record_checkpointer) checkpointer" where
  "memory_checkpointer codec = record_adapter memory_store codec"

definition memory_checkpointer_new ::
    "(nat \<Rightarrow> checkpoint_id \<Rightarrow> bool) \<Rightarrow> ('t, 'v, memory_state) record_checkpointer" where
  "memory_checkpointer_new live = record_checkpointer_new live memory_new"

section \<open>The cache cannot be observed\<close>

text \<open>
  \<open>known\<close> is what the store holds under an identifier. Every cached checkpoint is the decoding of
  the record cached with it, and that record is the stored one.
\<close>

definition rc_inv ::
    "('t, 'v) checkpoint_codec \<Rightarrow> ('w \<Rightarrow> checkpoint_id \<Rightarrow> checkpoint_record option)
      \<Rightarrow> ('t, 'v, 'w) record_checkpointer \<Rightarrow> bool" where
  "rc_inv codec known s \<longleftrightarrow>
     \<not> rc_poisoned s \<and> rc_insertions_until_cleanup s \<ge> 1
     \<and> (\<forall>(c, r, cp) \<in> set (rc_entries s).
          c = r_id r \<and> from_record r codec = Inr cp \<and> known (rc_world s) c = Some r)"

lemma rc_inv_new: "rc_inv codec known (record_checkpointer_new live w)"
  by (simp add: rc_inv_def record_checkpointer_new_def)

lemma rc_inv_clock [simp]: "rc_inv codec known (s\<lparr>rc_clock := n\<rparr>) \<longleftrightarrow> rc_inv codec known s"
  by (simp add: rc_inv_def)

lemma rc_inv_remove_expired:
  assumes "rc_inv codec known s"
  shows "rc_inv codec known (rc_remove_expired s)"
    and "rc_world (rc_remove_expired s) = rc_world s"
    and "set (rc_entries (rc_remove_expired s)) \<subseteq> set (rc_entries s)"
  using assms by (auto simp: rc_inv_def rc_remove_expired_def Let_def)

lemma rc_inv_entry:
  assumes "rc_inv codec known s" and "map_of (rc_entries s) c = Some (r, cp)"
  shows "c = r_id r \<and> from_record r codec = Inr cp \<and> known (rc_world s) c = Some r"
  using assms map_of_SomeD [OF assms(2)] by (auto simp: rc_inv_def)

lemma rc_inv_insert:
  assumes "rc_inv codec known s" and "from_record r codec = Inr cp"
    and "known (rc_world s) (r_id r) = Some r"
  shows "rc_inv codec known (s\<lparr>rc_entries := im_insert (r_id r) (r, cp) (rc_entries s)\<rparr>)"
  using assms im_insert_set_subset [of "r_id r" "(r, cp)" "rc_entries s"]
  by (auto simp: rc_inv_def)

text \<open>What an operation may do to the checkpointer besides its store call.\<close>

definition rc_same ::
    "('t, 'v) checkpoint_codec \<Rightarrow> ('w \<Rightarrow> checkpoint_id \<Rightarrow> checkpoint_record option)
      \<Rightarrow> ('t, 'v, 'w) record_checkpointer \<Rightarrow> ('t, 'v, 'w) record_checkpointer \<Rightarrow> bool" where
  "rc_same codec known s s' \<longleftrightarrow> rc_inv codec known s' \<and> rc_world s' = rc_world s"

lemma rc_cached_result:
  assumes inv: "rc_inv codec known s" and stored: "known (rc_world s) (r_id r) = Some r"
  obtains (miss) s' where "rc_cached r s = (Inr None, s')" "rc_same codec known s s'"
  | (hit) cp s' where "rc_cached r s = (Inr (Some cp), s')" "rc_same codec known s s'"
      "from_record r codec = Inr cp"
proof (cases "map_of (rc_entries s) (r_id r)")
  case None
  then have "rc_cached r s = (Inr None, s)" using inv by (simp add: rc_cached_def rc_inv_def)
  then show thesis using miss inv by (simp add: rc_same_def)
next
  case (Some x)
  obtain r' cp where x: "x = (r', cp)" by fastforce
  have e: "known (rc_world s) (r_id r) = Some r'" "from_record r' codec = Inr cp"
    using rc_inv_entry [OF inv Some [unfolded x]] by blast+
  then have r': "r' = r" using stored by simp
  have "rc_cached r s = (Inr (if rc_live s (rc_clock s) (r_id r) then Some cp else None),
      s\<lparr>rc_clock := Suc (rc_clock s)\<rparr>)"
    using inv Some x r' by (simp add: rc_cached_def rc_inv_def rc_upgrade_def)
  moreover have "rc_same codec known s (s\<lparr>rc_clock := Suc (rc_clock s)\<rparr>)"
    using inv by (simp add: rc_same_def)
  ultimately show thesis using miss hit e(2) r' by (auto split: if_splits)
qed

lemma rc_cache_result:
  assumes inv: "rc_inv codec known s" and stored: "known (rc_world s) (r_id r) = Some r"
    and cp: "from_record r codec = Inr cp"
  obtains s' where "rc_cache r cp s = (Inr cp, s')" and "rc_same codec known s s'"
proof -
  let ?s1 = "rc_remove_expired s"
  have np: "\<not> rc_poisoned s" using inv by (simp add: rc_inv_def)
  have inv1: "rc_inv codec known ?s1" and w1: "rc_world ?s1 = rc_world s"
    using rc_inv_remove_expired [OF inv] by blast+
  have id: "c_id cp = r_id r" using from_record_fields [OF cp] by simp
  let ?ins = "\<lambda>s. s\<lparr>rc_entries := im_insert (r_id r) (r, cp) (rc_entries s)\<rparr>"
  have ins: "rc_same codec known s (?ins s2)" if "rc_inv codec known s2" "rc_world s2 = rc_world s" for s2
    using rc_inv_insert [OF that(1) cp] that(2) stored by (simp add: rc_same_def)
  show thesis
  proof (cases "map_of (rc_entries ?s1) (r_id r)")
    case None
    then have "rc_cache r cp s = (Inr cp, ?ins ?s1)"
      using np id by (simp add: rc_cache_def Let_def)
    then show thesis using that ins [OF inv1 w1] by blast
  next
    case (Some x)
    obtain r' old where x: "x = (r', old)" by fastforce
    have e: "known (rc_world s) (r_id r) = Some r'" "from_record r' codec = Inr old"
      using rc_inv_entry [OF inv1 Some [unfolded x], unfolded w1] by blast+
    then have same: "r' = r" "old = cp" using stored cp by auto
    let ?s2 = "?s1\<lparr>rc_clock := Suc (rc_clock ?s1)\<rparr>"
    have "rc_cache r cp s = (if rc_live ?s1 (rc_clock ?s1) (r_id r) then (Inr cp, ?s2)
        else (Inr cp, ?ins ?s2))"
      using np id Some x same by (simp add: rc_cache_def Let_def rc_upgrade_def)
    moreover have "rc_same codec known s ?s2" using inv1 w1 by (simp add: rc_same_def)
    moreover have "rc_same codec known s (?ins ?s2)" using ins [of ?s2] inv1 w1 by simp
    ultimately show thesis using that by (auto split: if_splits)
  qed
qed

text \<open>Decoding, with whatever the cache holds, is decoding the record.\<close>

lemma rc_decode_result:
  assumes inv: "rc_inv codec known s" and stored: "known (rc_world s) (r_id r) = Some r"
  obtains s' where "rc_decode codec r s =
      (map_sum (ReconstructionFailed (r_id r)) id (from_record r codec), s')"
    and "rc_same codec known s s'"
proof (cases rule: rc_cached_result [OF inv stored])
  case (1 s1)
  then have inv1: "rc_inv codec known s1" and w1: "rc_world s1 = rc_world s"
    by (simp_all add: rc_same_def)
  show thesis
  proof (cases "from_record r codec")
    case (Inl e)
    then show thesis using that 1 by (simp add: rc_decode_def)
  next
    case (Inr cp)
    have "known (rc_world s1) (r_id r) = Some r" using stored w1 by simp
    then obtain s2 where "rc_cache r cp s1 = (Inr cp, s2)" "rc_same codec known s1 s2"
      using rc_cache_result [OF inv1 _ Inr] by blast
    then show thesis using that 1 Inr w1 by (simp add: rc_decode_def rc_same_def)
  qed
next
  case (2 cp s1)
  then show thesis using that by (simp add: rc_decode_def)
qed

fun decode_list ::
    "('t, 'v) checkpoint_codec \<Rightarrow> checkpoint_record list \<Rightarrow> checkpointer_error + ('t, 'v) checkpoint list" where
  "decode_list codec [] = Inr []"
| "decode_list codec (r # rs) =
     (case from_record r codec of
        Inl e \<Rightarrow> Inl (ReconstructionFailed (r_id r) e)
      | Inr cp \<Rightarrow> (case decode_list codec rs of Inl e \<Rightarrow> Inl e | Inr cps \<Rightarrow> Inr (cp # cps)))"

lemma rc_decode_all_result:
  assumes "rc_inv codec known s" and "\<forall>r \<in> set rs. known (rc_world s) (r_id r) = Some r"
  shows "\<exists>s'. rc_decode_all codec rs s = (decode_list codec rs, s') \<and> rc_same codec known s s'"
  using assms
proof (induction rs arbitrary: s)
  case Nil
  then show ?case by (simp add: rc_same_def)
next
  case (Cons r rs)
  have "known (rc_world s) (r_id r) = Some r" using Cons.prems(2) by simp
  then obtain s1 where s1: "rc_decode codec r s =
      (map_sum (ReconstructionFailed (r_id r)) id (from_record r codec), s1)" "rc_same codec known s s1"
    using rc_decode_result [OF Cons.prems(1)] by blast
  then have inv1: "rc_inv codec known s1" and w1: "rc_world s1 = rc_world s"
    by (simp_all add: rc_same_def)
  obtain s2 where "rc_decode_all codec rs s1 = (decode_list codec rs, s2)" "rc_same codec known s1 s2"
    using Cons.IH [OF inv1] Cons.prems(2) w1 by auto
  then show ?case
    using s1 w1
    by (cases "from_record r codec"; cases "decode_list codec rs") (auto simp: rc_same_def)
qed

text \<open>
  A typed save over a store call that keeps what is stored and stores what it acknowledges is that
  store call; its result is the request itself.
\<close>

lemma rc_save_result:
  assumes lawful: "codec_roundtrips codec" and inv: "rc_inv codec known s"
    and r: "to_record q codec = Inr r" and save: "save r (rc_world s) = (x, w')"
    and keeps: "\<And>c p. known (rc_world s) c = Some p \<Longrightarrow> known w' c = Some p"
    and ack: "\<And>y. x = Inr y \<Longrightarrow> y = r \<and> known w' (r_id r) = Some r"
  obtains s' where "rc_save_with codec save msg q s = (map_sum id (\<lambda>_. into_checkpoint q) x, s')"
    and "rc_world s' = w'" and "rc_inv codec known s'"
proof -
  let ?s1 = "s\<lparr>rc_world := w'\<rparr>"
  have inv1: "rc_inv codec known ?s1" using inv keeps by (fastforce simp: rc_inv_def)
  show thesis
  proof (cases x)
    case (Inl e)
    have "rc_save_with codec save msg q s = (Inl e, ?s1)"
      using r save Inl by (simp add: rc_save_with_def rc_call_def)
    then show thesis using that [of ?s1] Inl inv1 by simp
  next
    case (Inr y)
    have y: "y = r" and stored: "known w' (r_id r) = Some r" using ack [OF Inr] by blast+
    have st1: "known (rc_world ?s1) (r_id r) = Some r" using stored by simp
    have cp: "from_record r codec = Inr (into_checkpoint q)"
      by (rule from_record_to_record [OF lawful r])
    have call: "rc_call (save r) s = (Inr r, ?s1)" using save Inr y by (simp add: rc_call_def)
    show thesis
    proof (cases rule: rc_cached_result [OF inv1 st1])
      case (1 s2)
      then have inv2: "rc_inv codec known s2" and st2: "known (rc_world s2) (r_id r) = Some r"
        and w2: "rc_world s2 = w'" using st1 by (simp_all add: rc_same_def)
      obtain s3 where "rc_cache r (into_checkpoint q) s2 = (Inr (into_checkpoint q), s3)"
        "rc_same codec known s2 s3"
        by (rule rc_cache_result [OF inv2 st2 cp])
      then show thesis
        using that [of s3] 1(1) Inr r call w2 by (simp add: rc_save_with_def rc_same_def)
    next
      case (2 cp' s2)
      then have "cp' = into_checkpoint q" using cp by simp
      then show thesis
        using that [of s2] 2 Inr r call by (simp add: rc_save_with_def rc_same_def)
    qed
  qed
qed

lemma rc_load_result:
  assumes inv: "rc_inv codec known s" and reads: "f (rc_world s) = (Inr x, rc_world s)"
    and stored: "\<And>r. x = Some r \<Longrightarrow> known (rc_world s) (r_id r) = Some r"
  obtains s' where "rc_load codec f s =
      (case x of None \<Rightarrow> Inr None
       | Some r \<Rightarrow> map_sum (ReconstructionFailed (r_id r)) Some (from_record r codec), s')"
    and "rc_same codec known s s'"
proof (cases x)
  case None
  then show thesis
    using that [of s] inv reads by (simp add: rc_load_def rc_call_def rc_same_def)
next
  case (Some r)
  obtain s' where "rc_decode codec r s =
      (map_sum (ReconstructionFailed (r_id r)) id (from_record r codec), s')" "rc_same codec known s s'"
    by (rule rc_decode_result [OF inv stored [OF Some]])
  then show thesis
    using that [of s'] reads Some
    by (cases "from_record r codec") (simp_all add: rc_load_def rc_call_def)
qed

lemma rc_load_all_result:
  assumes inv: "rc_inv codec known s" and reads: "f (rc_world s) = (Inr rs, rc_world s)"
    and stored: "\<forall>r \<in> set rs. known (rc_world s) (r_id r) = Some r"
  shows "\<exists>s'. rc_load_all codec f s = (decode_list codec rs, s') \<and> rc_same codec known s s'"
  using rc_decode_all_result [OF inv stored] reads by (auto simp: rc_load_all_def rc_call_def)

section \<open>A typed checkpointer over any lawful store\<close>

locale typed_store =
  record_store "cs_save store" "cs_latest store" "cs_get store" "cs_history store" hist stored ok
  for store :: "'w checkpoint_store" and hist stored ok +
  assumes hist_stored: "ok w \<Longrightarrow> r \<in> set (hist w t) \<Longrightarrow> stored w (r_id r) = Some r"
    and stored_id: "ok w \<Longrightarrow> stored w c = Some r \<Longrightarrow> r_id r = c"
begin

lemma typed_save:
  assumes lawful: "codec_roundtrips codec" and inv: "rc_inv codec stored s" and ok: "ok (rc_world s)"
    and r: "to_record q codec = Inr r" and save: "cs_save store r (rc_world s) = (x, w')"
  obtains s' where "rc_save_with codec (cs_save store) msg q s =
      (map_sum id (\<lambda>_. into_checkpoint q) x, s')"
    and "rc_world s' = w'" and "rc_inv codec stored s'"
proof (rule rc_save_result [where save = "cs_save store", OF lawful inv r save])
  show "stored w' c = Some p" if "stored (rc_world s) c = Some p" for c p
    using ok by (cases rule: save_cases [where r = r]) (use save that in auto)
  show "y = r \<and> stored w' (r_id r) = Some r" if "x = Inr y" for y
    using acknowledged_stored [OF ok save [unfolded that]] .
qed (rule that)

lemma typed_latest:
  assumes inv: "rc_inv codec stored s" and ok: "ok (rc_world s)"
  obtains s' where "rc_load codec (cs_latest store t) s =
      (case last_option (hist (rc_world s) t) of None \<Rightarrow> Inr None
       | Some r \<Rightarrow> map_sum (ReconstructionFailed (r_id r)) Some (from_record r codec), s')"
    and "rc_same codec stored s s'"
proof (rule rc_load_result [where f = "cs_latest store t", OF inv latest_reads [OF ok]])
  fix r assume "last_option (hist (rc_world s) t) = Some r"
  then have "\<exists>ys. hist (rc_world s) t = ys @ [r]" by (rule last_option_SomeD)
  then have "r \<in> set (hist (rc_world s) t)" by auto
  then show "stored (rc_world s) (r_id r) = Some r" by (rule hist_stored [OF ok])
qed (rule that)

lemma typed_get:
  assumes inv: "rc_inv codec stored s" and ok: "ok (rc_world s)"
  obtains s' where "rc_load codec (cs_get store t c) s =
      (case (case stored (rc_world s) c of None \<Rightarrow> None
             | Some r \<Rightarrow> if r_thread_id r = t then Some r else None) of None \<Rightarrow> Inr None
       | Some r \<Rightarrow> map_sum (ReconstructionFailed (r_id r)) Some (from_record r codec), s')"
    and "rc_same codec stored s s'"
proof (rule rc_load_result [where f = "cs_get store t c", OF inv get_reads [OF ok]])
  fix r assume "(case stored (rc_world s) c of None \<Rightarrow> None
      | Some r \<Rightarrow> if r_thread_id r = t then Some r else None) = Some r"
  then have "stored (rc_world s) c = Some r" by (simp split: option.splits if_splits)
  then show "stored (rc_world s) (r_id r) = Some r" using stored_id [OF ok] by simp
qed (rule that)

lemma typed_history:
  assumes inv: "rc_inv codec stored s" and ok: "ok (rc_world s)"
  shows "\<exists>s'. rc_load_all codec (cs_history store t) s =
      (decode_list codec (hist (rc_world s) t), s') \<and> rc_same codec stored s s'"
  by (rule rc_load_all_result [where f = "cs_history store t", OF inv history_reads [OF ok]]) (use hist_stored [OF ok] in blast)

text \<open>Read your writes: what a save acknowledged as new is what \<open>latest\<close> and \<open>get\<close> return next.\<close>

lemma typed_save_then_latest:
  assumes lawful: "codec_roundtrips codec" and inv: "rc_inv codec stored s" and ok: "ok (rc_world s)"
    and saved: "rc_save_with codec (cs_save store) msg q s = (Inr cp, s')"
    and new: "stored (rc_world s) (q_checkpoint_id q) = None"
  shows "cp = into_checkpoint q
    \<and> (\<exists>s''. rc_load codec (cs_latest store (q_thread_id q)) s' = (Inr (Some cp), s''))"
proof -
  obtain r where r: "to_record q codec = Inr r"
    using saved by (cases "to_record q codec") (simp_all add: rc_save_with_def)
  have fields: "r_id r = q_checkpoint_id q" "r_thread_id r = q_thread_id q"
    using to_record_fields [OF r] by simp_all
  obtain x w' where save: "cs_save store r (rc_world s) = (x, w')" by fastforce
  obtain s1 where s1: "rc_save_with codec (cs_save store) msg q s =
      (map_sum id (\<lambda>_. into_checkpoint q) x, s1)" "rc_world s1 = w'" "rc_inv codec stored s1"
    by (rule typed_save [OF lawful inv ok r save])
  then obtain y where x: "x = Inr y" and cp: "cp = into_checkpoint q" and s': "s1 = s'"
    using saved by (cases x) auto
  have "hist w' = (hist (rc_world s))(r_thread_id r := hist (rc_world s) (r_thread_id r) @ [r])"
    using ok by (cases rule: save_cases [where r = r]) (use save x new fields in auto)
  then have last: "last_option (hist (rc_world s') (q_thread_id q)) = Some r"
    using s1(2) s' fields by simp
  have ok': "ok (rc_world s')" using save_ok [OF ok save] s1(2) s' by simp
  have inv': "rc_inv codec stored s'" using s1(3) s' by simp
  obtain s'' where "rc_load codec (cs_latest store (q_thread_id q)) s' =
      (case last_option (hist (rc_world s') (q_thread_id q)) of None \<Rightarrow> Inr None
       | Some r \<Rightarrow> map_sum (ReconstructionFailed (r_id r)) Some (from_record r codec), s'')"
    by (rule typed_latest [OF inv' ok'])
  then show ?thesis using last cp from_record_to_record [OF lawful r] by simp
qed

end

interpretation typed_memory: typed_store memory_store thread_history ms_by_id memory_wf
proof -
  have "record_store (cs_save memory_store) (cs_latest memory_store) (cs_get memory_store)
      (cs_history memory_store) thread_history ms_by_id memory_wf"
    using memory.record_store_axioms by (simp add: memory_store_def)
  moreover have "ms_by_id w (r_id r) = Some r" if "memory_wf w" "r \<in> set (thread_history w t)" for w r t
  proof -
    have "history_wf w t (thread_history w t)" using that(1) unfolding memory_wf_def by blast
    then show ?thesis using that(2) unfolding history_wf_def by blast
  qed
  moreover have "r_id r = c" if "memory_wf w" "ms_by_id w c = Some r" for w c r
    using that unfolding memory_wf_def by blast
  ultimately show "typed_store memory_store thread_history ms_by_id memory_wf"
    by (simp add: typed_store_def typed_store_axioms_def)
qed

section \<open>Sequences of typed calls\<close>

datatype ('t, 'v) typed_call =
    TypedSave "('t, 'v) checkpoint_request"
  | TypedLatest thread_id
  | TypedGet thread_id checkpoint_id
  | TypedHistory thread_id
  | TypedCreateBranch thread_id branch_id checkpoint_id
  | TypedSaveBranch branch_id "('t, 'v) checkpoint_request"
  | TypedBranchHead thread_id branch_id
  | TypedBranchHistory thread_id branch_id

fun typed_step :: "('t, 'v, 'w) checkpointer \<Rightarrow> ('t, 'v) typed_call \<Rightarrow> 'w \<Rightarrow> 'w" where
  "typed_step ck (TypedSave q) w = snd (ck_save ck q w)"
| "typed_step ck (TypedLatest t) w = snd (ck_latest ck t w)"
| "typed_step ck (TypedGet t c) w = snd (ck_get ck t c w)"
| "typed_step ck (TypedHistory t) w = snd (ck_history ck t w)"
| "typed_step ck (TypedCreateBranch t b c) w = snd (ck_create_branch ck t b c w)"
| "typed_step ck (TypedSaveBranch b q) w = snd (ck_save_branch ck b q w)"
| "typed_step ck (TypedBranchHead t b) w = snd (ck_branch_head ck t b w)"
| "typed_step ck (TypedBranchHistory t b) w = snd (ck_branch_history ck t b w)"

definition typed_run :: "('t, 'v, 'w) checkpointer \<Rightarrow> ('t, 'v) typed_call list \<Rightarrow> 'w \<Rightarrow> 'w" where
  "typed_run ck calls w = fold (typed_step ck) calls w"

definition memory_ready ::
    "('t, 'v) checkpoint_codec \<Rightarrow> ('t, 'v, memory_state) record_checkpointer \<Rightarrow> bool" where
  "memory_ready codec s \<longleftrightarrow> rc_inv codec ms_by_id s \<and> memory_wf (rc_world s)"

lemma memory_ready_same:
  "memory_ready codec s \<Longrightarrow> rc_same codec ms_by_id s s' \<Longrightarrow> memory_ready codec s'"
  by (simp add: memory_ready_def rc_same_def)

lemma memory_branch_stored:
  assumes "memory_wf w" and "r \<in> set (memory_branch_of w t b)"
  shows "ms_by_id w (r_id r) = Some r"
proof -
  obtain br where br: "ms_branches w b = Some br" "r \<in> set (mb_history br)"
    using assms(2) by (cases "ms_branches w b") (auto simp: memory_branch_of_def split: if_splits)
  then have "branch_wf w b br" using assms(1) unfolding memory_wf_def by blast
  then show ?thesis using br(2) unfolding branch_wf_def by blast
qed

lemma memory_branch_reads:
  assumes "memory_wf w"
  shows "cs_branch_head memory_store t b w = (Inr (last_option (memory_branch_of w t b)), w)"
    and "cs_branch_history memory_store t b w = (Inr (memory_branch_of w t b), w)"
  using assms by (simp_all add: memory_store_def memory_branch_head_def memory_branch_history_def)

lemma memory_insert_branch_ack:
  assumes "memory_wf w" and "memory_insert_branch b r w = (Inr y, w')"
  shows "y = r \<and> ms_by_id w' (r_id r) = Some r"
proof -
  have np: "\<not> ms_poisoned w" using assms(1) by (simp add: memory_wf_def)
  then show ?thesis
    by (cases rule: memory_insert_branch_cases [where b = b and r = r]) (use assms(2) in auto)
qed

lemma memory_ready_world:
  assumes "memory_ready codec s" and "memory_wf w'"
    and "\<And>c p. ms_by_id (rc_world s) c = Some p \<Longrightarrow> ms_by_id w' c = Some p"
  shows "memory_ready codec (s\<lparr>rc_world := w'\<rparr>)"
  using assms by (fastforce simp: memory_ready_def rc_inv_def)

lemma memory_ready_save:
  assumes lawful: "codec_roundtrips codec" and ready: "memory_ready codec s"
    and wf: "\<And>r x w'. save r (rc_world s) = (x, w') \<Longrightarrow> memory_wf w'"
    and keeps: "\<And>r x w' c p. save r (rc_world s) = (x, w') \<Longrightarrow> ms_by_id (rc_world s) c = Some p \<Longrightarrow>
      ms_by_id w' c = Some p"
    and ack: "\<And>r y w'. save r (rc_world s) = (Inr y, w') \<Longrightarrow> y = r \<and> ms_by_id w' (r_id r) = Some r"
  shows "memory_ready codec (snd (rc_save_with codec save msg q s))"
proof (cases "to_record q codec")
  case (Inl e)
  then show ?thesis using ready by (simp add: rc_save_with_def)
next
  case (Inr r)
  have inv: "rc_inv codec ms_by_id s" using ready by (simp add: memory_ready_def)
  obtain x w' where save: "save r (rc_world s) = (x, w')" by fastforce
  obtain s' where "rc_save_with codec save msg q s = (map_sum id (\<lambda>_. into_checkpoint q) x, s')"
    "rc_world s' = w'" "rc_inv codec ms_by_id s'"
  proof (rule rc_save_result [where save = save, OF lawful inv Inr save])
    show "ms_by_id w' c = Some p" if "ms_by_id (rc_world s) c = Some p" for c p
      by (rule keeps [OF save that])
    show "y = r \<and> ms_by_id w' (r_id r) = Some r" if "x = Inr y" for y
      by (rule ack [OF save [unfolded that]])
  qed
  then show ?thesis using wf [OF save] by (simp add: memory_ready_def)
qed

lemma memory_ready_load:
  assumes "memory_ready codec s" and "f (rc_world s) = (Inr x, rc_world s)"
    and "\<And>r. x = Some r \<Longrightarrow> ms_by_id (rc_world s) (r_id r) = Some r"
  shows "fst (rc_load codec f s) =
      (case x of None \<Rightarrow> Inr None
       | Some r \<Rightarrow> map_sum (ReconstructionFailed (r_id r)) Some (from_record r codec))"
    and "memory_ready codec (snd (rc_load codec f s))"
proof -
  have inv: "rc_inv codec ms_by_id s" using assms(1) by (simp add: memory_ready_def)
  obtain s' where "rc_load codec f s =
      (case x of None \<Rightarrow> Inr None
       | Some r \<Rightarrow> map_sum (ReconstructionFailed (r_id r)) Some (from_record r codec), s')"
    "rc_same codec ms_by_id s s'"
    by (rule rc_load_result [where f = f, OF inv assms(2,3)])
  then show "fst (rc_load codec f s) =
      (case x of None \<Rightarrow> Inr None
       | Some r \<Rightarrow> map_sum (ReconstructionFailed (r_id r)) Some (from_record r codec))"
    "memory_ready codec (snd (rc_load codec f s))"
    using memory_ready_same [OF assms(1)] by simp_all
qed

lemma memory_ready_load_all:
  assumes "memory_ready codec s" and "f (rc_world s) = (Inr rs, rc_world s)"
    and "\<forall>r \<in> set rs. ms_by_id (rc_world s) (r_id r) = Some r"
  shows "fst (rc_load_all codec f s) = decode_list codec rs"
    and "memory_ready codec (snd (rc_load_all codec f s))"
proof -
  have inv: "rc_inv codec ms_by_id s" using assms(1) by (simp add: memory_ready_def)
  obtain s' where "rc_load_all codec f s = (decode_list codec rs, s')" "rc_same codec ms_by_id s s'"
    using rc_load_all_result [where f = f, OF inv assms(2,3)] by blast
  then show "fst (rc_load_all codec f s) = decode_list codec rs"
    "memory_ready codec (snd (rc_load_all codec f s))"
    using memory_ready_same [OF assms(1)] by simp_all
qed

text \<open>What each read of the store returns, and that it is stored.\<close>

lemma memory_store_reads:
  assumes "memory_wf w"
  shows "cs_latest memory_store t w = (Inr (last_option (thread_history w t)), w)"
    and "cs_get memory_store t c w =
      (Inr (case ms_by_id w c of None \<Rightarrow> None | Some r \<Rightarrow> if r_thread_id r = t then Some r else None), w)"
    and "cs_history memory_store t w = (Inr (thread_history w t), w)"
  using typed_memory.latest_reads [OF assms] typed_memory.get_reads [OF assms]
    typed_memory.history_reads [OF assms] by simp_all

lemma last_option_stored:
  assumes "memory_wf w" and "last_option (thread_history w t) = Some r"
  shows "ms_by_id w (r_id r) = Some r"
proof -
  have "\<exists>ys. thread_history w t = ys @ [r]" by (rule last_option_SomeD [OF assms(2)])
  then have "r \<in> set (thread_history w t)" by auto
  then show ?thesis by (rule typed_memory.hist_stored [OF assms(1)])
qed

lemma last_branch_stored:
  assumes "memory_wf w" and "last_option (memory_branch_of w t b) = Some r"
  shows "ms_by_id w (r_id r) = Some r"
proof -
  have "\<exists>ys. memory_branch_of w t b = ys @ [r]" by (rule last_option_SomeD [OF assms(2)])
  then have "r \<in> set (memory_branch_of w t b)" by auto
  then show ?thesis by (rule memory_branch_stored [OF assms(1)])
qed

lemma get_stored:
  assumes "memory_wf w" and "(case ms_by_id w c of None \<Rightarrow> None
    | Some r \<Rightarrow> if r_thread_id r = t then Some r else None) = Some r"
  shows "ms_by_id w (r_id r) = Some r"
proof -
  have "ms_by_id w c = Some r" using assms(2) by (simp split: option.splits if_splits)
  then show ?thesis using typed_memory.stored_id [OF assms(1)] by simp
qed

lemmas checkpointer_ops = memory_checkpointer_def record_adapter_def

lemma typed_latest_reads:
  assumes "memory_ready codec s"
  shows "fst (ck_latest (memory_checkpointer codec) t s) =
      (case last_option (thread_history (rc_world s) t) of None \<Rightarrow> Inr None
       | Some r \<Rightarrow> map_sum (ReconstructionFailed (r_id r)) Some (from_record r codec))"
    and "memory_ready codec (snd (ck_latest (memory_checkpointer codec) t s))"
proof -
  have wf: "memory_wf (rc_world s)" using assms by (simp add: memory_ready_def)
  note load = memory_ready_load [where f = "cs_latest memory_store t", OF assms memory_store_reads(1) [OF wf] last_option_stored [OF wf]]
  show "fst (ck_latest (memory_checkpointer codec) t s) =
      (case last_option (thread_history (rc_world s) t) of None \<Rightarrow> Inr None
       | Some r \<Rightarrow> map_sum (ReconstructionFailed (r_id r)) Some (from_record r codec))"
    using load(1) by (simp add: checkpointer_ops)
  show "memory_ready codec (snd (ck_latest (memory_checkpointer codec) t s))"
    using load(2) by (simp add: checkpointer_ops)
qed

lemma typed_get_reads:
  assumes "memory_ready codec s"
  shows "fst (ck_get (memory_checkpointer codec) t c s) =
      (case (case ms_by_id (rc_world s) c of None \<Rightarrow> None
               | Some r \<Rightarrow> if r_thread_id r = t then Some r else None) of None \<Rightarrow> Inr None
       | Some r \<Rightarrow> map_sum (ReconstructionFailed (r_id r)) Some (from_record r codec))"
    and "memory_ready codec (snd (ck_get (memory_checkpointer codec) t c s))"
proof -
  have wf: "memory_wf (rc_world s)" using assms by (simp add: memory_ready_def)
  note load = memory_ready_load [where f = "cs_get memory_store t c", OF assms memory_store_reads(2) [OF wf] get_stored [OF wf]]
  show "fst (ck_get (memory_checkpointer codec) t c s) =
      (case (case ms_by_id (rc_world s) c of None \<Rightarrow> None
               | Some r \<Rightarrow> if r_thread_id r = t then Some r else None) of None \<Rightarrow> Inr None
       | Some r \<Rightarrow> map_sum (ReconstructionFailed (r_id r)) Some (from_record r codec))"
    using load(1) by (simp add: checkpointer_ops)
  show "memory_ready codec (snd (ck_get (memory_checkpointer codec) t c s))"
    using load(2) by (simp add: checkpointer_ops)
qed

lemma typed_branch_head_reads:
  assumes "memory_ready codec s"
  shows "fst (ck_branch_head (memory_checkpointer codec) t b s) =
      (case last_option (memory_branch_of (rc_world s) t b) of None \<Rightarrow> Inr None
       | Some r \<Rightarrow> map_sum (ReconstructionFailed (r_id r)) Some (from_record r codec))"
    and "memory_ready codec (snd (ck_branch_head (memory_checkpointer codec) t b s))"
proof -
  have wf: "memory_wf (rc_world s)" using assms by (simp add: memory_ready_def)
  note load = memory_ready_load [where f = "cs_branch_head memory_store t b", OF assms memory_branch_reads(1) [OF wf] last_branch_stored [OF wf]]
  show "fst (ck_branch_head (memory_checkpointer codec) t b s) =
      (case last_option (memory_branch_of (rc_world s) t b) of None \<Rightarrow> Inr None
       | Some r \<Rightarrow> map_sum (ReconstructionFailed (r_id r)) Some (from_record r codec))"
    using load(1) by (simp add: checkpointer_ops)
  show "memory_ready codec (snd (ck_branch_head (memory_checkpointer codec) t b s))"
    using load(2) by (simp add: checkpointer_ops)
qed

lemma typed_history_reads:
  assumes "memory_ready codec s"
  shows "fst (ck_history (memory_checkpointer codec) t s) = decode_list codec (thread_history (rc_world s) t)"
    and "memory_ready codec (snd (ck_history (memory_checkpointer codec) t s))"
proof -
  have wf: "memory_wf (rc_world s)" using assms by (simp add: memory_ready_def)
  have stored: "\<forall>r \<in> set (thread_history (rc_world s) t). ms_by_id (rc_world s) (r_id r) = Some r"
    using typed_memory.hist_stored [OF wf] by blast
  note load = memory_ready_load_all [where f = "cs_history memory_store t", OF assms memory_store_reads(3) [OF wf] stored]
  show "fst (ck_history (memory_checkpointer codec) t s) = decode_list codec (thread_history (rc_world s) t)"
    using load(1) by (simp add: checkpointer_ops)
  show "memory_ready codec (snd (ck_history (memory_checkpointer codec) t s))"
    using load(2) by (simp add: checkpointer_ops)
qed

lemma typed_branch_history_reads:
  assumes "memory_ready codec s"
  shows "fst (ck_branch_history (memory_checkpointer codec) t b s) = decode_list codec (memory_branch_of (rc_world s) t b)"
    and "memory_ready codec (snd (ck_branch_history (memory_checkpointer codec) t b s))"
proof -
  have wf: "memory_wf (rc_world s)" using assms by (simp add: memory_ready_def)
  have stored: "\<forall>r \<in> set (memory_branch_of (rc_world s) t b). ms_by_id (rc_world s) (r_id r) = Some r"
    using memory_branch_stored [OF wf] by blast
  note load = memory_ready_load_all [where f = "cs_branch_history memory_store t b", OF assms memory_branch_reads(2) [OF wf] stored]
  show "fst (ck_branch_history (memory_checkpointer codec) t b s) = decode_list codec (memory_branch_of (rc_world s) t b)"
    using load(1) by (simp add: checkpointer_ops)
  show "memory_ready codec (snd (ck_branch_history (memory_checkpointer codec) t b s))"
    using load(2) by (simp add: checkpointer_ops)
qed

lemmas typed_reads_ready =
  typed_latest_reads(2) typed_get_reads(2) typed_history_reads(2) typed_branch_head_reads(2)
  typed_branch_history_reads(2)

lemma typed_step_ready:
  assumes lawful: "codec_roundtrips codec" and ready: "memory_ready codec s"
  shows "memory_ready codec (typed_step (memory_checkpointer codec) call s)"
proof -
  have wf: "memory_wf (rc_world s)" using ready by (simp add: memory_ready_def)
  show ?thesis
  proof (cases call)
    case (TypedSave q)
    have "memory_ready codec (snd (rc_save_with codec memory_insert msg q s))" for msg
    proof (rule memory_ready_save [where save = memory_insert, OF lawful ready])
      show "memory_wf w'" if "memory_insert r (rc_world s) = (x, w')" for r x w'
        by (rule memory_insert_wf [OF wf that])
      show "ms_by_id w' c = Some p"
        if "memory_insert r (rc_world s) = (x, w')" "ms_by_id (rc_world s) c = Some p" for r x w' c p
        using memory_insert_keeps [OF wf that(2), of r] that(1) by simp
      show "y = r \<and> ms_by_id w' (r_id r) = Some r"
        if "memory_insert r (rc_world s) = (Inr y, w')" for r y w'
        by (rule memory.acknowledged_stored [OF wf that])
    qed
    then show ?thesis by (simp add: TypedSave checkpointer_ops memory_store_def)
  next
    case (TypedSaveBranch b q)
    have "memory_ready codec (snd (rc_save_with codec (memory_insert_branch b) msg q s))" for msg
    proof (rule memory_ready_save [where save = "memory_insert_branch b", OF lawful ready])
      show "memory_wf w'" if "memory_insert_branch b r (rc_world s) = (x, w')" for r x w'
        by (rule memory_insert_branch_wf [OF wf that])
      show "ms_by_id w' c = Some p"
        if "memory_insert_branch b r (rc_world s) = (x, w')" "ms_by_id (rc_world s) c = Some p"
        for r x w' c p
        using memory_insert_branch_keeps [OF wf that(2), of b r] that(1) by simp
      show "y = r \<and> ms_by_id w' (r_id r) = Some r"
        if "memory_insert_branch b r (rc_world s) = (Inr y, w')" for r y w'
        by (rule memory_insert_branch_ack [OF wf that])
    qed
    then show ?thesis by (simp add: TypedSaveBranch checkpointer_ops memory_store_def)
  next
    case (TypedCreateBranch t b c)
    obtain x w' where c: "memory_create_branch t b c (rc_world s) = (x, w')" by fastforce
    have "ms_by_id w' = ms_by_id (rc_world s)"
      using memory_create_branch_keeps [of t b c "rc_world s"] c by simp
    then have "memory_ready codec (s\<lparr>rc_world := w'\<rparr>)"
      by (intro memory_ready_world [OF ready memory_create_branch_wf [OF wf c]]) simp
    then show ?thesis
      by (simp add: TypedCreateBranch checkpointer_ops memory_store_def rc_call_def c)
  qed (simp_all add: typed_reads_ready [OF ready])
qed

lemma typed_run_ready:
  assumes "codec_roundtrips codec" and "memory_ready codec s"
  shows "memory_ready codec (typed_run (memory_checkpointer codec) calls s)"
  using assms(2) unfolding typed_run_def
  by (induction calls arbitrary: s) (auto intro: typed_step_ready [OF assms(1)])

lemma memory_ready_new: "memory_ready codec (memory_checkpointer_new live)"
  by (simp add: memory_ready_def memory_checkpointer_new_def rc_inv_new memory_new_wf)
     (simp add: record_checkpointer_new_def memory_new_wf)

section \<open>Properties\<close>

text \<open>C10: the decoded cache cannot be observed. Whatever calls came before, and whenever cached
  handles expire, \<open>latest\<close>, \<open>get\<close> and \<open>history\<close> of the in-memory checkpointer return exactly the
  decoding of what its store holds.\<close>

theorem decoded_cache_transparent:
  fixes codec :: "('t, 'v) checkpoint_codec"
  assumes "codec_roundtrips codec"
    and "s = typed_run (memory_checkpointer codec) calls (memory_checkpointer_new live)"
  shows "fst (ck_latest (memory_checkpointer codec) t s) =
      (case last_option (thread_history (rc_world s) t) of None \<Rightarrow> Inr None
       | Some r \<Rightarrow> map_sum (ReconstructionFailed (r_id r)) Some (from_record r codec))
    \<and> fst (ck_history (memory_checkpointer codec) t s) =
      decode_list codec (thread_history (rc_world s) t)
    \<and> fst (ck_get (memory_checkpointer codec) t c s) =
      (case (case ms_by_id (rc_world s) c of None \<Rightarrow> None
             | Some r \<Rightarrow> if r_thread_id r = t then Some r else None) of None \<Rightarrow> Inr None
       | Some r \<Rightarrow> map_sum (ReconstructionFailed (r_id r)) Some (from_record r codec))"
proof -
  have "memory_ready codec s"
    unfolding assms(2) by (rule typed_run_ready [OF assms(1) memory_ready_new])
  then show ?thesis
    using typed_latest_reads(1) typed_history_reads(1) typed_get_reads(1) by blast
qed

definition raw_root_request :: "(byte list, byte list) checkpoint_request" where
  "raw_root_request = raw_request\<lparr>q_expected_parent := None\<rparr>"

lemma decoded_cache_transparent_witness:
  "fst (ck_latest (memory_checkpointer raw_codec) (ThreadId ''t'')
     (typed_run (memory_checkpointer raw_codec) [TypedSave raw_root_request]
        (memory_checkpointer_new (\<lambda>k c. False)))) = Inr (Some (into_checkpoint raw_root_request))"
proof -
  let ?s = "typed_run (memory_checkpointer raw_codec) [TypedSave raw_root_request]
    (memory_checkpointer_new (\<lambda>k c. False))"
  let ?r = "raw_record\<lparr>r_parent_id := None\<rparr>"
  have r: "to_record raw_root_request raw_codec = Inr ?r"
    by (simp add: to_record_def raw_root_request_def raw_request_def raw_codec_def raw_record_def
        request_new_def encode_record_interrupt_def u64_try_from_def try_from_parts_def)
  have "thread_history (rc_world ?s) (ThreadId ''t'') = [?r]"
    by (simp add: typed_run_def checkpointer_ops memory_store_def rc_save_with_def r rc_call_def
        memory_checkpointer_new_def record_checkpointer_new_def memory_insert_def memory_lock_def
        memory_new_def thread_head_def thread_history_def rc_cached_def rc_cache_def Let_def
        rc_remove_expired_def raw_record_def)
  then show ?thesis
    using decoded_cache_transparent [OF raw_codec_roundtrips refl, of "ThreadId ''t''"
        "[TypedSave raw_root_request]" "\<lambda>k c. False"]
      from_record_to_record [OF raw_codec_roundtrips r] by simp
qed

text \<open>C11: read your writes. A typed save that the in-memory checkpointer acknowledges under a new
  identifier returns the checkpoint of the request, and the next \<open>latest\<close> of its thread returns
  that checkpoint.\<close>

theorem typed_read_your_writes:
  fixes codec :: "('t, 'v) checkpoint_codec"
  assumes "codec_roundtrips codec"
    and "s = typed_run (memory_checkpointer codec) calls (memory_checkpointer_new live)"
    and "ck_save (memory_checkpointer codec) q s = (Inr cp, s')"
    and "ms_by_id (rc_world s) (q_checkpoint_id q) = None"
  shows "cp = into_checkpoint q
    \<and> fst (ck_latest (memory_checkpointer codec) (q_thread_id q) s') = Inr (Some cp)"
proof -
  have ready: "memory_ready codec s"
    unfolding assms(2) by (rule typed_run_ready [OF assms(1) memory_ready_new])
  then show ?thesis
    using typed_memory.typed_save_then_latest [OF assms(1) _ _ _ assms(4)] assms(3)
    by (fastforce simp: memory_ready_def checkpointer_ops)
qed

lemma typed_read_your_writes_witness:
  "\<exists>s'. ck_save (memory_checkpointer raw_codec) raw_root_request (memory_checkpointer_new (\<lambda>k c. False))
      = (Inr (into_checkpoint raw_root_request), s')
    \<and> fst (ck_latest (memory_checkpointer raw_codec) (ThreadId ''t'') s') =
      Inr (Some (into_checkpoint raw_root_request))"
proof -
  let ?s = "memory_checkpointer_new (\<lambda>k c. False) :: (byte list, byte list, memory_state) record_checkpointer"
  have r: "to_record raw_root_request raw_codec = Inr (raw_record\<lparr>r_parent_id := None\<rparr>)"
    by (simp add: to_record_def raw_root_request_def raw_request_def raw_codec_def raw_record_def
        request_new_def encode_record_interrupt_def u64_try_from_def try_from_parts_def)
  obtain s' where s': "ck_save (memory_checkpointer raw_codec) raw_root_request ?s =
      (Inr (into_checkpoint raw_root_request), s')"
    by (simp add: checkpointer_ops memory_store_def rc_save_with_def r rc_call_def
        memory_checkpointer_new_def record_checkpointer_new_def memory_insert_def memory_lock_def
        memory_new_def thread_head_def rc_cached_def rc_cache_def Let_def rc_remove_expired_def
        raw_record_def)
  have run: "?s = typed_run (memory_checkpointer raw_codec) [] (memory_checkpointer_new (\<lambda>k c. False))"
    by (simp add: typed_run_def)
  have "q_thread_id raw_root_request = ThreadId ''t''"
    by (simp add: raw_root_request_def raw_request_def request_new_def)
  then show ?thesis
    using typed_read_your_writes [OF raw_codec_roundtrips run s'] s'
    by (simp add: memory_checkpointer_new_def record_checkpointer_new_def memory_new_def)
qed

end
