(* ===== verification/Events.thy ===== *)
theory Events
  imports Errors
begin

text \<open>
  Lifecycle events (\<open>event.rs\<close>), the payload-free failure carried by \<open>RunFailed\<close> with its
  conversion from a run error, and the event emitter of \<open>runtime.rs\<close>. The sink is user code:
  the emitter records the events it was called with, in order.
\<close>

section \<open>Failures and events\<close>

datatype (plugins only: code size) run_failure =
    Cancelled "node_path option" nat
  | RunTimedOut duration "node_path option" nat
  | NodeTimedOut duration node_path nat
  | MaxStepsExceeded nat node_path nat
  | NodeFailed node_path nat
  | StateUpdateFailed node_path nat
  | StateBatchUpdateFailed "node_path list" nat
  | SnapshotFailed thread_id nat nat
  | CheckpointConflict thread_id nat nat "checkpoint_id option" "checkpoint_id option"
  | CheckpointIdConflict thread_id checkpoint_id nat nat
  | CheckpointEncodeFailed thread_id nat nat
  | CheckpointSaveFailed thread_id nat nat
  | CheckpointLoadFailed thread_id "checkpoint_id option"
  | CheckpointNotFound thread_id "checkpoint_id option"
  | ResumeConflict thread_id checkpoint_id "checkpoint_id option" nat
  | BranchNotFound thread_id branch_id nat
  | BranchCreationFailed thread_id branch_id checkpoint_id nat
  | BranchCheckpointConflict thread_id branch_id nat nat
      "checkpoint_id option" "checkpoint_id option"
  | CheckpointIncompatible thread_id checkpoint_id nat checkpoint_incompatibility
  | RestoreFailed thread_id checkpoint_id nat nat
  | InterruptRequiresCheckpoint interrupt_id node_path nat
  | UnsupportedParallelInterrupt interrupt_id node_path nat
  | MissingResumeValue thread_id checkpoint_id interrupt_id node_path nat
  | UnexpectedResumeValue thread_id checkpoint_id nat
  | ReplayInterruptUnsupported thread_id checkpoint_id interrupt_id node_path nat
  | RouteFailed node_path nat
  | InvalidRouteTarget node_path node_path nat
  | EmptyRouteTargets node_path nat
  | DuplicateRouteTarget node_path node_path nat

primrec run_failure_from :: "graph_run_error \<Rightarrow> run_failure" where
  "run_failure_from (graph_run_error.Cancelled r n s) = Cancelled n s"
| "run_failure_from (graph_run_error.RunTimedOut r t n s) = RunTimedOut t n s"
| "run_failure_from (graph_run_error.NodeTimedOut r t n s) = NodeTimedOut t n s"
| "run_failure_from (graph_run_error.MaxStepsExceeded m n s) = MaxStepsExceeded m n s"
| "run_failure_from (graph_run_error.NodeFailed n s e) = NodeFailed n s"
| "run_failure_from (graph_run_error.StateUpdateFailed n s e) = StateUpdateFailed n s"
| "run_failure_from (graph_run_error.StateBatchUpdateFailed ns s e) = StateBatchUpdateFailed ns s"
| "run_failure_from (graph_run_error.SnapshotFailed r t ss s e) = SnapshotFailed t ss s"
| "run_failure_from (graph_run_error.CheckpointConflict r t ss s ep ap) =
     CheckpointConflict t ss s ep ap"
| "run_failure_from (graph_run_error.CheckpointIdConflict r t c ss s) =
     CheckpointIdConflict t c ss s"
| "run_failure_from (graph_run_error.CheckpointEncodeFailed r t ss s e) =
     CheckpointEncodeFailed t ss s"
| "run_failure_from (graph_run_error.CheckpointSaveFailed r t ss s e) = CheckpointSaveFailed t ss s"
| "run_failure_from (graph_run_error.CheckpointLoadFailed r t c e) = CheckpointLoadFailed t c"
| "run_failure_from (graph_run_error.CheckpointNotFound r t c) = CheckpointNotFound t c"
| "run_failure_from (graph_run_error.ResumeConflict r t c l s) = ResumeConflict t c l s"
| "run_failure_from (graph_run_error.BranchNotFound r t b s) = BranchNotFound t b s"
| "run_failure_from (graph_run_error.BranchCreationFailed r t b c s e) =
     BranchCreationFailed t b c s"
| "run_failure_from (graph_run_error.BranchCheckpointConflict r t b ss s ep ap) =
     BranchCheckpointConflict t b ss s ep ap"
| "run_failure_from (graph_run_error.CheckpointIncompatible r t c s i) =
     CheckpointIncompatible t c s i"
| "run_failure_from (graph_run_error.RestoreFailed r t c ss s e) = RestoreFailed t c ss s"
| "run_failure_from (graph_run_error.InterruptRequiresCheckpoint i n s) =
     InterruptRequiresCheckpoint i n s"
| "run_failure_from (graph_run_error.UnsupportedParallelInterrupt i n s) =
     UnsupportedParallelInterrupt i n s"
| "run_failure_from (graph_run_error.MissingResumeValue r t c i n s) = MissingResumeValue t c i n s"
| "run_failure_from (graph_run_error.UnexpectedResumeValue r t c s) = UnexpectedResumeValue t c s"
| "run_failure_from (graph_run_error.ReplayInterruptUnsupported r t c i n s) =
     ReplayInterruptUnsupported t c i n s"
| "run_failure_from (graph_run_error.RouteFailed n s e) = RouteFailed n s"
| "run_failure_from (graph_run_error.InvalidRouteTarget n t s) = InvalidRouteTarget n t s"
| "run_failure_from (graph_run_error.EmptyRouteTargets n s) = EmptyRouteTargets n s"
| "run_failure_from (graph_run_error.DuplicateRouteTarget n t s) = DuplicateRouteTarget n t s"

datatype (plugins only: code size) graph_event =
    RunStarted run_id nat
  | RunResumed run_id thread_id checkpoint_id nat nat
  | BranchResumed run_id thread_id branch_id checkpoint_id nat nat
  | ReplayStarted run_id thread_id checkpoint_id nat nat
  | ForkStarted run_id thread_id checkpoint_id branch_id nat nat
  | SuperstepStarted run_id nat "node_path list"
  | NodeStarted run_id node_path nat
  | NodeInterrupted run_id interrupt_id node_path nat
  | NodeCompleted run_id node_path nat
  | StateUpdated run_id node_path nat
  | RouteSelected run_id node_path node_path nat
  | RoutesSelected run_id node_path "node_path list" nat
  | SuperstepCompleted run_id nat
  | SubgraphStarted run_id graph_path
  | SubgraphCompleted run_id graph_path
  | CheckpointSaved run_id checkpoint_id thread_id nat nat bool
  | RunInterrupted run_id interrupt_id checkpoint_id thread_id node_path nat nat
  | RunCompleted run_id nat
  | RunFailed run_id run_failure

primrec event_run_id :: "graph_event \<Rightarrow> run_id" where
  "event_run_id (RunStarted r m) = r"
| "event_run_id (RunResumed r t c s ss) = r"
| "event_run_id (BranchResumed r t b c s ss) = r"
| "event_run_id (ReplayStarted r t c s ss) = r"
| "event_run_id (ForkStarted r t c b s ss) = r"
| "event_run_id (SuperstepStarted r ss ns) = r"
| "event_run_id (NodeStarted r n s) = r"
| "event_run_id (NodeInterrupted r i n s) = r"
| "event_run_id (NodeCompleted r n s) = r"
| "event_run_id (StateUpdated r n s) = r"
| "event_run_id (RouteSelected r a b s) = r"
| "event_run_id (RoutesSelected r a bs s) = r"
| "event_run_id (SuperstepCompleted r ss) = r"
| "event_run_id (SubgraphStarted r p) = r"
| "event_run_id (SubgraphCompleted r p) = r"
| "event_run_id (CheckpointSaved r c t ss s d) = r"
| "event_run_id (RunInterrupted r i c t n ss s) = r"
| "event_run_id (RunCompleted r s) = r"
| "event_run_id (RunFailed r f) = r"

section \<open>The emitter\<close>

datatype event_retention = All | NoRetention

record event_config =
  retention :: event_retention
  has_sink :: bool

definition event_config_default :: event_config where
  "event_config_default = \<lparr>retention = All, has_sink = False\<rparr>"

definition event_config_is_enabled :: "event_config \<Rightarrow> bool" where
  "event_config_is_enabled c \<longleftrightarrow> retention c = All \<or> has_sink c"

record event_emitter =
  em_run_id :: run_id
  em_config :: event_config
  em_enabled :: bool
  em_retained :: "graph_event list"
  em_delivered :: "graph_event list"

definition emitter_new :: "run_id \<Rightarrow> event_config \<Rightarrow> event_emitter" where
  "emitter_new r c =
     \<lparr>em_run_id = r, em_config = c, em_enabled = event_config_is_enabled c,
      em_retained = [], em_delivered = []\<rparr>"

definition emit :: "graph_event \<Rightarrow> event_emitter \<Rightarrow> event_emitter" where
  "emit event em =
     (if \<not> em_enabled em then em
      else let em1 = (if has_sink (em_config em)
                      then em\<lparr>em_delivered := em_delivered em @ [event]\<rparr> else em)
           in if retention (em_config em1) = All
              then em1\<lparr>em_retained := em_retained em1 @ [event]\<rparr> else em1)"

definition emit_failed :: "graph_run_error \<Rightarrow> event_emitter \<Rightarrow> event_emitter" where
  "emit_failed error em =
     (if em_enabled em then emit (RunFailed (em_run_id em) (run_failure_from error)) em else em)"

text \<open>
  What an emitter keeps: identity and configuration never change, and the retained and the
  delivered list are both the full sequence of emitted events, or stay empty.
\<close>

definition emitter_wf :: "event_emitter \<Rightarrow> bool" where
  "emitter_wf em \<longleftrightarrow>
     em_enabled em = event_config_is_enabled (em_config em)
     \<and> (retention (em_config em) = NoRetention \<longrightarrow> em_retained em = [])
     \<and> (\<not> has_sink (em_config em) \<longrightarrow> em_delivered em = [])
     \<and> (retention (em_config em) = All \<and> has_sink (em_config em)
          \<longrightarrow> em_retained em = em_delivered em)"

lemma event_retention_neq [simp]: "r \<noteq> All \<longleftrightarrow> r = NoRetention"
  by (cases r) auto

lemma emitter_wf_new [simp]: "emitter_wf (emitter_new r c)"
  by (simp add: emitter_wf_def emitter_new_def)

lemma emit_fields [simp]:
  "em_run_id (emit e em) = em_run_id em"
  "em_config (emit e em) = em_config em"
  "em_enabled (emit e em) = em_enabled em"
  by (simp_all add: emit_def Let_def)

lemma emitter_wf_emit [simp]: "emitter_wf em \<Longrightarrow> emitter_wf (emit e em)"
  by (auto simp: emitter_wf_def emit_def Let_def event_config_is_enabled_def)

lemma emit_delivered:
  assumes "emitter_wf em"
  shows "em_delivered (emit e em) =
    (if has_sink (em_config em) then em_delivered em @ [e] else em_delivered em)"
  using assms by (auto simp: emit_def Let_def emitter_wf_def event_config_is_enabled_def)

lemma emit_retained:
  assumes "emitter_wf em"
  shows "em_retained (emit e em) =
    (if retention (em_config em) = All then em_retained em @ [e] else em_retained em)"
  using assms by (auto simp: emit_def Let_def emitter_wf_def event_config_is_enabled_def)

lemma emit_failed_eq:
  "emitter_wf em \<Longrightarrow>
     emit_failed error em = emit (RunFailed (em_run_id em) (run_failure_from error)) em"
  by (auto simp: emit_failed_def emit_def)

end
