(* ===== verification/Configs.thy ===== *)
theory Configs
  imports Checkpointer Events Builder
begin

text \<open>
  What an invocation is configured with and what it returns: checkpoint policies and the resume,
  replay, fork and checkpoint configurations (\<open>checkpoint.rs\<close>), the reports of \<open>runtime.rs\<close> and
  the execution outcome of \<open>interrupt.rs\<close>. The getters are the record selectors, and the
  \<open>*Parts\<close> structures are the configurations themselves, taken apart.
\<close>

section \<open>Configurations\<close>

datatype checkpoint_policy = EverySuperstep | FinalOnly

datatype resume_target = Latest | Checkpoint checkpoint_id

record ('t, 'v, 'w) resume_config =
  rc_thread_id :: thread_id
  rc_checkpointer :: "('t, 'v, 'w) checkpointer"
  rc_target :: resume_target
  rc_checkpoint_policy :: checkpoint_policy
  rc_run_config :: run_config
  rc_event_config :: event_config
  rc_control :: run_control
  rc_resume_value :: "'v resume_value option"
  rc_branch_id :: "branch_id option"

definition resume_config_new ::
    "thread_id \<Rightarrow> ('t, 'v, 'w) checkpointer \<Rightarrow> ('t, 'v, 'w) resume_config" where
  "resume_config_new t ck =
     \<lparr>rc_thread_id = t, rc_checkpointer = ck, rc_target = Latest,
      rc_checkpoint_policy = EverySuperstep, rc_run_config = run_config_default,
      rc_event_config = event_config_default, rc_control = run_control_new,
      rc_resume_value = None, rc_branch_id = None\<rparr>"

definition resume_with_checkpoint_id ::
    "checkpoint_id \<Rightarrow> ('t, 'v, 'w) resume_config \<Rightarrow> ('t, 'v, 'w) resume_config" where
  "resume_with_checkpoint_id c cfg = cfg\<lparr>rc_target := Checkpoint c\<rparr>"

definition resume_with_branch_id ::
    "branch_id \<Rightarrow> ('t, 'v, 'w) resume_config \<Rightarrow> ('t, 'v, 'w) resume_config" where
  "resume_with_branch_id b cfg = cfg\<lparr>rc_branch_id := Some b\<rparr>"

definition resume_with_resume_value ::
    "'v resume_value \<Rightarrow> ('t, 'v, 'w) resume_config \<Rightarrow> ('t, 'v, 'w) resume_config" where
  "resume_with_resume_value v cfg = cfg\<lparr>rc_resume_value := Some v\<rparr>"

definition resume_with_checkpoint_policy ::
    "checkpoint_policy \<Rightarrow> ('t, 'v, 'w) resume_config \<Rightarrow> ('t, 'v, 'w) resume_config" where
  "resume_with_checkpoint_policy x cfg = cfg\<lparr>rc_checkpoint_policy := x\<rparr>"

definition resume_with_run_config ::
    "run_config \<Rightarrow> ('t, 'v, 'w) resume_config \<Rightarrow> ('t, 'v, 'w) resume_config" where
  "resume_with_run_config x cfg = cfg\<lparr>rc_run_config := x\<rparr>"

definition resume_with_event_config ::
    "event_config \<Rightarrow> ('t, 'v, 'w) resume_config \<Rightarrow> ('t, 'v, 'w) resume_config" where
  "resume_with_event_config x cfg = cfg\<lparr>rc_event_config := x\<rparr>"

definition resume_with_control ::
    "run_control \<Rightarrow> ('t, 'v, 'w) resume_config \<Rightarrow> ('t, 'v, 'w) resume_config" where
  "resume_with_control x cfg = cfg\<lparr>rc_control := x\<rparr>"

definition resume_has_resume_value :: "('t, 'v, 'w) resume_config \<Rightarrow> bool" where
  "resume_has_resume_value cfg = (rc_resume_value cfg \<noteq> None)"

record ('t, 'v, 'w) replay_config =
  rp_thread_id :: thread_id
  rp_checkpoint_id :: checkpoint_id
  rp_checkpointer :: "('t, 'v, 'w) checkpointer"
  rp_run_config :: run_config
  rp_event_config :: event_config
  rp_control :: run_control
  rp_resume_value :: "'v resume_value option"

definition replay_config_new ::
    "thread_id \<Rightarrow> checkpoint_id \<Rightarrow> ('t, 'v, 'w) checkpointer \<Rightarrow> ('t, 'v, 'w) replay_config" where
  "replay_config_new t c ck =
     \<lparr>rp_thread_id = t, rp_checkpoint_id = c, rp_checkpointer = ck,
      rp_run_config = run_config_default, rp_event_config = event_config_default,
      rp_control = run_control_new, rp_resume_value = None\<rparr>"

definition replay_with_run_config ::
    "run_config \<Rightarrow> ('t, 'v, 'w) replay_config \<Rightarrow> ('t, 'v, 'w) replay_config" where
  "replay_with_run_config x cfg = cfg\<lparr>rp_run_config := x\<rparr>"

definition replay_with_event_config ::
    "event_config \<Rightarrow> ('t, 'v, 'w) replay_config \<Rightarrow> ('t, 'v, 'w) replay_config" where
  "replay_with_event_config x cfg = cfg\<lparr>rp_event_config := x\<rparr>"

definition replay_with_control ::
    "run_control \<Rightarrow> ('t, 'v, 'w) replay_config \<Rightarrow> ('t, 'v, 'w) replay_config" where
  "replay_with_control x cfg = cfg\<lparr>rp_control := x\<rparr>"

definition replay_with_resume_value ::
    "'v resume_value \<Rightarrow> ('t, 'v, 'w) replay_config \<Rightarrow> ('t, 'v, 'w) replay_config" where
  "replay_with_resume_value x cfg = cfg\<lparr>rp_resume_value := Some x\<rparr>"

definition replay_has_resume_value :: "('t, 'v, 'w) replay_config \<Rightarrow> bool" where
  "replay_has_resume_value cfg = (rp_resume_value cfg \<noteq> None)"

record ('t, 'v, 'w) fork_config =
  fk_thread_id :: thread_id
  fk_checkpoint_id :: checkpoint_id
  fk_branch_id :: branch_id
  fk_checkpointer :: "('t, 'v, 'w) checkpointer"
  fk_checkpoint_policy :: checkpoint_policy
  fk_run_config :: run_config
  fk_event_config :: event_config
  fk_control :: run_control
  fk_resume_value :: "'v resume_value option"

text \<open>The branch identifier is the one \<open>BranchId::next\<close> generated.\<close>

definition fork_config_new ::
    "thread_id \<Rightarrow> checkpoint_id \<Rightarrow> branch_id \<Rightarrow> ('t, 'v, 'w) checkpointer
      \<Rightarrow> ('t, 'v, 'w) fork_config" where
  "fork_config_new t c b ck =
     \<lparr>fk_thread_id = t, fk_checkpoint_id = c, fk_branch_id = b, fk_checkpointer = ck,
      fk_checkpoint_policy = EverySuperstep, fk_run_config = run_config_default,
      fk_event_config = event_config_default, fk_control = run_control_new,
      fk_resume_value = None\<rparr>"

definition fork_with_checkpoint_policy ::
    "checkpoint_policy \<Rightarrow> ('t, 'v, 'w) fork_config \<Rightarrow> ('t, 'v, 'w) fork_config" where
  "fork_with_checkpoint_policy x cfg = cfg\<lparr>fk_checkpoint_policy := x\<rparr>"

definition fork_with_run_config ::
    "run_config \<Rightarrow> ('t, 'v, 'w) fork_config \<Rightarrow> ('t, 'v, 'w) fork_config" where
  "fork_with_run_config x cfg = cfg\<lparr>fk_run_config := x\<rparr>"

definition fork_with_event_config ::
    "event_config \<Rightarrow> ('t, 'v, 'w) fork_config \<Rightarrow> ('t, 'v, 'w) fork_config" where
  "fork_with_event_config x cfg = cfg\<lparr>fk_event_config := x\<rparr>"

definition fork_with_control ::
    "run_control \<Rightarrow> ('t, 'v, 'w) fork_config \<Rightarrow> ('t, 'v, 'w) fork_config" where
  "fork_with_control x cfg = cfg\<lparr>fk_control := x\<rparr>"

definition fork_with_branch_id ::
    "branch_id \<Rightarrow> ('t, 'v, 'w) fork_config \<Rightarrow> ('t, 'v, 'w) fork_config" where
  "fork_with_branch_id x cfg = cfg\<lparr>fk_branch_id := x\<rparr>"

definition fork_with_resume_value ::
    "'v resume_value \<Rightarrow> ('t, 'v, 'w) fork_config \<Rightarrow> ('t, 'v, 'w) fork_config" where
  "fork_with_resume_value x cfg = cfg\<lparr>fk_resume_value := Some x\<rparr>"

record ('t, 'v, 'w) checkpoint_config =
  cc_thread_id :: thread_id
  cc_checkpointer :: "('t, 'v, 'w) checkpointer"
  cc_policy :: checkpoint_policy
  cc_expected_parent :: "checkpoint_id option"
  cc_branch_id :: "branch_id option"

definition checkpoint_config_new ::
    "thread_id \<Rightarrow> ('t, 'v, 'w) checkpointer \<Rightarrow> checkpoint_policy
      \<Rightarrow> ('t, 'v, 'w) checkpoint_config" where
  "checkpoint_config_new t ck policy =
     \<lparr>cc_thread_id = t, cc_checkpointer = ck, cc_policy = policy, cc_expected_parent = None,
      cc_branch_id = None\<rparr>"

definition with_expected_parent ::
    "checkpoint_id option \<Rightarrow> ('t, 'v, 'w) checkpoint_config \<Rightarrow> ('t, 'v, 'w) checkpoint_config" where
  "with_expected_parent p cfg = cfg\<lparr>cc_expected_parent := p\<rparr>"

definition with_branch_id ::
    "branch_id \<Rightarrow> ('t, 'v, 'w) checkpoint_config \<Rightarrow> ('t, 'v, 'w) checkpoint_config" where
  "with_branch_id b cfg = cfg\<lparr>cc_branch_id := Some b\<rparr>"

section \<open>Reports\<close>

record 's run_report =
  rr_run_id :: run_id
  rr_final_state :: 's
  rr_steps :: nat
  rr_visited_nodes :: "node_path list"
  rr_events :: "graph_event list"

record ('s, 'v) interrupt_report =
  it_run_id :: run_id
  it_state :: 's
  it_steps :: nat
  it_superstep :: nat
  it_visited_nodes :: "node_path list"
  it_events :: "graph_event list"
  it_checkpoint_id :: checkpoint_id
  it_thread_id :: thread_id
  it_interrupt :: "'v checkpoint_interrupt"

datatype ('s, 'v) execution_outcome =
    Completed "'s run_report"
  | Interrupted "('s, 'v) interrupt_report"

primrec outcome_run_id :: "('s, 'v) execution_outcome \<Rightarrow> run_id" where
  "outcome_run_id (Completed report) = rr_run_id report"
| "outcome_run_id (Interrupted report) = it_run_id report"

primrec outcome_state :: "('s, 'v) execution_outcome \<Rightarrow> 's" where
  "outcome_state (Completed report) = rr_final_state report"
| "outcome_state (Interrupted report) = it_state report"

primrec outcome_steps :: "('s, 'v) execution_outcome \<Rightarrow> nat" where
  "outcome_steps (Completed report) = rr_steps report"
| "outcome_steps (Interrupted report) = it_steps report"

primrec outcome_visited_nodes :: "('s, 'v) execution_outcome \<Rightarrow> node_path list" where
  "outcome_visited_nodes (Completed report) = rr_visited_nodes report"
| "outcome_visited_nodes (Interrupted report) = it_visited_nodes report"

primrec outcome_events :: "('s, 'v) execution_outcome \<Rightarrow> graph_event list" where
  "outcome_events (Completed report) = rr_events report"
| "outcome_events (Interrupted report) = it_events report"

primrec as_completed :: "('s, 'v) execution_outcome \<Rightarrow> 's run_report option" where
  "as_completed (Completed report) = Some report"
| "as_completed (Interrupted report) = None"

primrec as_interrupted :: "('s, 'v) execution_outcome \<Rightarrow> ('s, 'v) interrupt_report option" where
  "as_interrupted (Completed report) = None"
| "as_interrupted (Interrupted report) = Some report"

record 's replay_report =
  rpr_source_thread_id :: thread_id
  rpr_source_checkpoint_id :: checkpoint_id
  rpr_source_step :: nat
  rpr_source_superstep :: nat
  rpr_run :: "'s run_report"

record ('s, 'v) fork_report =
  fr_branch_id :: branch_id
  fr_source_thread_id :: thread_id
  fr_source_checkpoint_id :: checkpoint_id
  fr_outcome :: "('s, 'v) execution_outcome"

end
