(* ===== verification/Control.thy ===== *)
theory Control
  imports Configs
begin

text \<open>
  Cancellation and deadlines (\<open>ActiveControl\<close>, \<open>wait_for_deadline\<close>, \<open>await_run_boundary\<close>), the
  identifiers an invocation draws, and the monad the runtime is written in. Everything outside
  the crate is behind the world \<open>'w\<close>: the environment reads the cancellation token and the
  clock, draws identifiers, and decides which branch of a \<open>select!\<close> completes first and which
  pending node of a parallel super-step completes next. A future that loses its \<open>select!\<close> may
  have run in part; what it did is part of what the environment makes of the world.
\<close>

section \<open>The environment\<close>

datatype race = CancelledFirst | DeadlineFirst | FutureFirst

record 'w environment =
  env_cancelled :: "cancellation_token \<Rightarrow> 'w \<Rightarrow> bool \<times> 'w"
  env_fresh_token :: "'w \<Rightarrow> cancellation_token \<times> 'w"
  env_now :: "'w \<Rightarrow> instant \<times> 'w"
  env_uuid :: "'w \<Rightarrow> uuid \<times> 'w"
  env_race :: "cancellation_token \<Rightarrow> instant option \<Rightarrow> 'w \<Rightarrow> race \<times> 'w"
  env_next_ready :: "nat \<Rightarrow> 'w \<Rightarrow> nat \<times> 'w"

text \<open>
  Fallible code over the world. \<open>io_bind\<close> runs the continuation on success only.
\<close>

type_synonym ('w, 'a) io = "'w \<Rightarrow> (graph_run_error, 'a) result \<times> 'w"

definition io_bind :: "('w, 'a) io \<Rightarrow> ('a \<Rightarrow> ('w, 'b) io) \<Rightarrow> ('w, 'b) io" where
  "io_bind m f w =
     (case m w of
        (Ok a, w') \<Rightarrow> f a w'
      | (Err e, w') \<Rightarrow> (Err e, w')
      | (Panic, w') \<Rightarrow> (Panic, w'))"

definition io_return :: "(graph_run_error, 'a) result \<Rightarrow> ('w, 'a) io" where
  "io_return r w = (r, w)"

lemma io_bind_cong [fundef_cong]:
  assumes "m w = m' w'" and "\<And>a w1. m' w' = (Ok a, w1) \<Longrightarrow> f a w1 = f' a w1" and "w = w'"
  shows "io_bind m f w = io_bind m' f' w'"
  using assms by (auto simp: io_bind_def split: prod.splits result.splits)

lemma io_bind_eq_Ok [simp]:
  "io_bind m f w = (Ok b, w') \<longleftrightarrow> (\<exists>a w1. m w = (Ok a, w1) \<and> f a w1 = (Ok b, w'))"
  by (auto simp: io_bind_def split: prod.splits result.splits)

text \<open>Code over the world that never panics.\<close>

named_theorems io_safe "rules for code that never panics"

definition io_safe :: "('w, 'a) io \<Rightarrow> bool" where
  "io_safe m \<longleftrightarrow> (\<forall>w. fst (m w) \<noteq> Panic)"

lemma io_safe_bind [io_safe]:
  "io_safe m \<Longrightarrow> (\<And>a. io_safe (f a)) \<Longrightarrow> io_safe (io_bind m f)"
  unfolding io_safe_def
proof
  fix w assume "\<forall>w. fst (m w) \<noteq> Panic" "\<And>a. \<forall>w. fst (f a w) \<noteq> Panic"
  then show "fst (io_bind m f w) \<noteq> Panic"
    by (cases "m w"; cases "fst (m w)") (auto simp: io_bind_def dest: spec [of _ w])
qed

lemma io_safe_return [io_safe]: "r \<noteq> Panic \<Longrightarrow> io_safe (io_return r)"
  by (simp add: io_safe_def io_return_def)

lemma io_safeD: "io_safe m \<Longrightarrow> m w \<noteq> (Panic, w')"
  by (auto simp: io_safe_def dest: spec [of _ w])

section \<open>Active control\<close>

record active_control =
  ac_cancellation_token :: cancellation_token
  ac_cancellation_enabled :: bool
  ac_run_timeout :: "duration option"
  ac_run_deadline :: "instant option"
  ac_node_timeout :: "duration option"

datatype active_deadline = RunDeadline instant | NodeDeadline instant

primrec deadline_instant :: "active_deadline \<Rightarrow> instant" where
  "deadline_instant (RunDeadline i) = i"
| "deadline_instant (NodeDeadline i) = i"

definition active_control_new ::
    "'w environment \<Rightarrow> run_control \<Rightarrow> instant \<Rightarrow> 'w \<Rightarrow> active_control \<times> 'w" where
  "active_control_new env control invocation_started w =
     (case (case cancellation_token control of
              Some token \<Rightarrow> (token, w) | None \<Rightarrow> env_fresh_token env w) of
        (token, w') \<Rightarrow>
          (\<lparr>ac_cancellation_token = token,
            ac_cancellation_enabled = (cancellation_token control \<noteq> None),
            ac_run_timeout = run_timeout control,
            ac_run_deadline = map_option (\<lambda>t. invocation_started + t) (run_timeout control),
            ac_node_timeout = node_timeout control\<rparr>, w'))"

definition is_disabled :: "active_control \<Rightarrow> bool" where
  "is_disabled ac \<longleftrightarrow>
     \<not> ac_cancellation_enabled ac \<and> ac_run_deadline ac = None \<and> ac_node_timeout ac = None"

definition node_deadline :: "active_control \<Rightarrow> instant \<Rightarrow> instant option" where
  "node_deadline ac node_started = map_option (\<lambda>t. node_started + t) (ac_node_timeout ac)"

definition deadline :: "active_control \<Rightarrow> instant option \<Rightarrow> active_deadline option" where
  "deadline ac node =
     (case (ac_run_deadline ac, node) of
        (Some r, Some n) \<Rightarrow> Some (if r \<le> n then RunDeadline r else NodeDeadline n)
      | (Some r, None) \<Rightarrow> Some (RunDeadline r)
      | (None, Some n) \<Rightarrow> Some (NodeDeadline n)
      | (None, None) \<Rightarrow> None)"

definition cancelled_error :: "run_id \<Rightarrow> node_path option \<Rightarrow> nat \<Rightarrow> graph_run_error" where
  "cancelled_error r node step = graph_run_error.Cancelled r node step"

text \<open>The two \<open>expect\<close>s of the timeout errors are \<open>Panic\<close>.\<close>

definition run_timeout_error ::
    "active_control \<Rightarrow> run_id \<Rightarrow> node_path option \<Rightarrow> nat \<Rightarrow> (graph_run_error, 'a) result" where
  "run_timeout_error ac r node step =
     (case ac_run_timeout ac of
        None \<Rightarrow> Panic | Some t \<Rightarrow> Err (graph_run_error.RunTimedOut r t node step))"

definition node_timeout_error ::
    "active_control \<Rightarrow> run_id \<Rightarrow> node_path \<Rightarrow> nat \<Rightarrow> (graph_run_error, 'a) result" where
  "node_timeout_error ac r node step =
     (case ac_node_timeout ac of
        None \<Rightarrow> Panic | Some t \<Rightarrow> Err (graph_run_error.NodeTimedOut r t node step))"

definition deadline_error ::
    "active_control \<Rightarrow> run_id \<Rightarrow> node_path option \<Rightarrow> nat \<Rightarrow> active_deadline
      \<Rightarrow> (graph_run_error, 'a) result" where
  "deadline_error ac r node step d =
     (case d of
        RunDeadline i \<Rightarrow> run_timeout_error ac r node step
      | NodeDeadline i \<Rightarrow>
          (case node of None \<Rightarrow> Panic | Some n \<Rightarrow> node_timeout_error ac r n step))"

text \<open>\<open>check\<close>: an error is \<open>Err\<close>, no error is \<open>Ok\<close>. The clock is read only under a deadline.\<close>

definition check ::
    "'w environment \<Rightarrow> active_control \<Rightarrow> run_id \<Rightarrow> node_path option \<Rightarrow> nat
      \<Rightarrow> active_deadline option \<Rightarrow> ('w, unit) io" where
  "check env ac r node step d w =
     (case env_cancelled env (ac_cancellation_token ac) w of
        (True, w1) \<Rightarrow> (Err (cancelled_error r node step), w1)
      | (False, w1) \<Rightarrow> (case d of
          None \<Rightarrow> (Ok (), w1)
        | Some d' \<Rightarrow> (case env_now env w1 of
            (now, w2) \<Rightarrow>
              (if now \<ge> deadline_instant d' then (deadline_error ac r node step d', w2)
               else (Ok (), w2)))))"

text \<open>
  The biased \<open>select!\<close> of \<open>execute_node\<close> and \<open>await_run_boundary\<close>. With no deadline the
  deadline branch never completes, so its outcome is that of the future.
\<close>

definition select_future ::
    "'w environment \<Rightarrow> active_control \<Rightarrow> run_id \<Rightarrow> node_path option \<Rightarrow> nat
      \<Rightarrow> active_deadline option \<Rightarrow> ('w, 'a) io \<Rightarrow> ('w, 'a) io" where
  "select_future env ac r node step d future w =
     (case env_race env (ac_cancellation_token ac) (map_option deadline_instant d) w of
        (CancelledFirst, w1) \<Rightarrow> (Err (cancelled_error r node step), w1)
      | (DeadlineFirst, w1) \<Rightarrow>
          (case d of None \<Rightarrow> future w1 | Some d' \<Rightarrow> (deadline_error ac r node step d', w1))
      | (FutureFirst, w1) \<Rightarrow> future w1)"

definition await_run_boundary ::
    "'w environment \<Rightarrow> active_control \<Rightarrow> run_id \<Rightarrow> nat \<Rightarrow> ('w, 'a) io \<Rightarrow> ('w, 'a) io" where
  "await_run_boundary env ac r step future =
     (if is_disabled ac then future
      else select_future env ac r None step (deadline ac None) future)"

text \<open>
  What \<open>active_control_new\<close> establishes: a deadline comes with the timeout it is reported with.
\<close>

definition control_wf :: "active_control \<Rightarrow> bool" where
  "control_wf ac \<longleftrightarrow> (ac_run_deadline ac \<noteq> None \<longrightarrow> ac_run_timeout ac \<noteq> None)"

lemma control_wf_new: "control_wf (fst (active_control_new env control started w))"
  by (auto simp: control_wf_def active_control_new_def split: option.splits prod.splits)

definition node_deadline_ok :: "active_control \<Rightarrow> node_path option \<Rightarrow> instant option \<Rightarrow> bool" where
  "node_deadline_ok ac node nd \<longleftrightarrow> (nd \<noteq> None \<longrightarrow> node \<noteq> None \<and> ac_node_timeout ac \<noteq> None)"

lemma node_deadline_ok_None [simp]: "node_deadline_ok ac node None"
  by (simp add: node_deadline_ok_def)

lemma node_deadline_ok_node [simp]: "node_deadline_ok ac (Some n) (node_deadline ac i)"
  by (auto simp: node_deadline_ok_def node_deadline_def)

lemma deadline_error_no_panic:
  assumes "control_wf ac" and "node_deadline_ok ac node nd" and "deadline ac nd = Some d"
  shows "deadline_error ac r node step d \<noteq> Panic"
  using assms
  by (auto simp: control_wf_def node_deadline_ok_def deadline_def deadline_error_def
      run_timeout_error_def node_timeout_error_def split: option.splits if_splits)

lemma io_safe_check [io_safe]:
  "control_wf ac \<Longrightarrow> node_deadline_ok ac node nd \<Longrightarrow>
     io_safe (check env ac r node step (deadline ac nd))"
  by (cases "deadline ac nd")
    (auto simp: io_safe_def check_def deadline_error_no_panic split: prod.splits bool.splits)

lemma io_safe_select_future [io_safe]:
  assumes "control_wf ac" and "node_deadline_ok ac node nd" and "io_safe future"
  shows "io_safe (select_future env ac r node step (deadline ac nd) future)"
  by (cases "deadline ac nd")
    (use assms in \<open>simp_all add: io_safe_def select_future_def deadline_error_no_panic
      split: prod.splits race.splits\<close>)

lemma io_safe_await_run_boundary [io_safe]:
  "control_wf ac \<Longrightarrow> io_safe future \<Longrightarrow> io_safe (await_run_boundary env ac r step future)"
  by (simp add: await_run_boundary_def io_safe_select_future)

text \<open>
  A boundary that returns a value returns the value of its future, on the world the future ran in.
\<close>

lemma await_run_boundary_Ok:
  "await_run_boundary env ac r step future w = (Ok a, w') \<Longrightarrow> \<exists>w1. future w1 = (Ok a, w')"
  by (auto simp: await_run_boundary_def select_future_def deadline_error_def run_timeout_error_def
      node_timeout_error_def split: if_splits prod.splits race.splits option.splits
      active_deadline.splits)

section \<open>The run monad\<close>

text \<open>
  A run carries the world and the event emitter. \<open>None\<close> is a run that never returns: routing
  through subgraph boundaries is a loop without a bound of its own.
\<close>

record 'w run_state =
  rs_world :: 'w
  rs_events :: event_emitter

type_synonym ('w, 'a) run = "'w run_state \<Rightarrow> ((graph_run_error, 'a) result \<times> 'w run_state) option"

definition run_return :: "'a \<Rightarrow> ('w, 'a) run" where
  "run_return a s = Some (Ok a, s)"

definition run_bind :: "('w, 'a) run \<Rightarrow> ('a \<Rightarrow> ('w, 'b) run) \<Rightarrow> ('w, 'b) run" where
  "run_bind m f s =
     (case m s of
        None \<Rightarrow> None
      | Some (Ok a, s') \<Rightarrow> f a s'
      | Some (Err e, s') \<Rightarrow> Some (Err e, s')
      | Some (Panic, s') \<Rightarrow> Some (Panic, s'))"

lemma run_bind_cong [fundef_cong]:
  assumes "m s = m' s'" and "\<And>a s1. m' s' = Some (Ok a, s1) \<Longrightarrow> f a s1 = f' a s1" and "s = s'"
  shows "run_bind m f s = run_bind m' f' s'"
  using assms by (auto simp: run_bind_def split: option.splits prod.splits result.splits)

text \<open>\<open>events.emit\<close>, \<open>return events.fail(error)\<close>, and a panic.\<close>

definition run_emit :: "graph_event \<Rightarrow> ('w, unit) run" where
  "run_emit event s = Some (Ok (), s\<lparr>rs_events := emit event (rs_events s)\<rparr>)"

definition run_fail :: "graph_run_error \<Rightarrow> ('w, 'a) run" where
  "run_fail error s = Some (Err error, s\<lparr>rs_events := emit_failed error (rs_events s)\<rparr>)"

definition run_panic :: "('w, 'a) run" where
  "run_panic s = Some (Panic, s)"

text \<open>Fallible code whose error is returned through \<open>events.fail\<close>.\<close>

definition or_fail :: "('w, 'a) io \<Rightarrow> ('w, 'a) run" where
  "or_fail m s =
     (case m (rs_world s) of
        (Ok a, w) \<Rightarrow> Some (Ok a, s\<lparr>rs_world := w\<rparr>)
      | (Err e, w) \<Rightarrow> run_fail e (s\<lparr>rs_world := w\<rparr>)
      | (Panic, w) \<Rightarrow> Some (Panic, s\<lparr>rs_world := w\<rparr>))"

text \<open>Infallible access to the world.\<close>

definition run_world :: "('w \<Rightarrow> 'a \<times> 'w) \<Rightarrow> ('w, 'a) run" where
  "run_world f s = (case f (rs_world s) of (a, w) \<Rightarrow> Some (Ok a, s\<lparr>rs_world := w\<rparr>))"

definition run_if_some :: "'a option \<Rightarrow> ('w, 'a) run" where
  "run_if_some x = (case x of None \<Rightarrow> run_panic | Some a \<Rightarrow> run_return a)"

definition run_when :: "bool \<Rightarrow> ('w, unit) run \<Rightarrow> ('w, unit) run" where
  "run_when b m = (if b then m else run_return ())"

text \<open>A \<open>for\<close> loop, and one that collects a value per element.\<close>

fun run_for :: "('a \<Rightarrow> ('w, unit) run) \<Rightarrow> 'a list \<Rightarrow> ('w, unit) run" where
  "run_for f [] = run_return ()"
| "run_for f (x # xs) = run_bind (f x) (\<lambda>_. run_for f xs)"

fun run_map :: "('a \<Rightarrow> ('w, 'b) run) \<Rightarrow> 'a list \<Rightarrow> ('w, 'b list) run" where
  "run_map f [] = run_return []"
| "run_map f (x # xs) = run_bind (f x) (\<lambda>y. run_bind (run_map f xs) (\<lambda>ys. run_return (y # ys)))"

end
