(* ===== verification/Runtime.thy ===== *)
theory Runtime
  imports Control Compilation
begin

text \<open>
  The parts of the runtime below the super-step loop (\<open>runtime.rs\<close>): the checkpoint behaviour of
  an invocation (the trait \<open>RuntimeCheckpoint\<close> and its three implementations), running one node,
  resolving a transition with its event, and routing a frontier through subgraph boundaries.
\<close>

section \<open>Checkpoint behaviour of an invocation\<close>

record saved_checkpoint =
  sv_id :: checkpoint_id
  sv_thread_id :: thread_id

record 'v checkpoint_boundary =
  cb_superstep :: nat
  cb_step :: nat
  cb_next_frontier :: "node_path list"
  cb_completed :: bool
  cb_interrupt :: "'v checkpoint_interrupt option"

definition boundary_new ::
    "nat \<Rightarrow> nat \<Rightarrow> node_path list \<Rightarrow> bool \<Rightarrow> 'v checkpoint_interrupt option
      \<Rightarrow> 'v checkpoint_boundary" where
  "boundary_new superstep step next_frontier completed interrupt =
     \<lparr>cb_superstep = superstep, cb_step = step, cb_next_frontier = next_frontier,
      cb_completed = completed, cb_interrupt = interrupt\<rparr>"

text \<open>
  The trait. \<open>'c\<close> is what \<open>save\<close> may change in the implementation; a failed save ends the run,
  so it is returned on success only.
\<close>

record ('s, 'v, 'c, 'w) runtime_checkpoint =
  rk_interrupt_error :: "run_id \<Rightarrow> interrupt_id \<Rightarrow> node_path \<Rightarrow> nat \<Rightarrow> bool \<Rightarrow> graph_run_error option"
  rk_should_save :: "bool \<Rightarrow> bool"
  rk_save :: "run_id \<Rightarrow> 's \<Rightarrow> 'v checkpoint_boundary \<Rightarrow> 'c \<Rightarrow> ('w, saved_checkpoint \<times> 'c) io"

definition disabled_checkpoint :: "('s, 'v, unit, 'w) runtime_checkpoint" where
  "disabled_checkpoint =
     \<lparr>rk_interrupt_error = (\<lambda>r i node step parallel.
        Some (if parallel then graph_run_error.UnsupportedParallelInterrupt i node step
              else graph_run_error.InterruptRequiresCheckpoint i node step)),
      rk_should_save = (\<lambda>completed. False),
      rk_save = (\<lambda>r s b c w. (Panic, w))\<rparr>"

definition read_only_replay_checkpoint ::
    "thread_id \<Rightarrow> checkpoint_id \<Rightarrow> ('s, 'v, unit, 'w) runtime_checkpoint" where
  "read_only_replay_checkpoint t source_id =
     \<lparr>rk_interrupt_error = (\<lambda>r i node step parallel.
        Some (graph_run_error.ReplayInterruptUnsupported r t source_id i node step)),
      rk_should_save = (\<lambda>completed. False),
      rk_save = (\<lambda>r s b c w. (Panic, w))\<rparr>"

text \<open>How a write error becomes a run error, on the default head and on a branch.\<close>

definition save_error ::
    "run_id \<Rightarrow> thread_id \<Rightarrow> branch_id option \<Rightarrow> nat \<Rightarrow> nat \<Rightarrow> checkpoint_write_error
      \<Rightarrow> graph_run_error" where
  "save_error r t branch superstep step e =
     (case e of
        Conflict expected actual \<Rightarrow>
          (case branch of
             Some b \<Rightarrow>
               graph_run_error.BranchCheckpointConflict r t b superstep step expected actual
           | None \<Rightarrow> graph_run_error.CheckpointConflict r t superstep step expected actual)
      | Failed err \<Rightarrow> graph_run_error.CheckpointSaveFailed r t superstep step err
      | IdempotencyConflict c \<Rightarrow> graph_run_error.CheckpointIdConflict r t c superstep step
      | Encoding err \<Rightarrow> graph_run_error.CheckpointEncodeFailed r t superstep step err
      | _ \<Rightarrow> graph_run_error.CheckpointSaveFailed r t superstep step (BranchSaveFailed e))"

text \<open>
  \<open>EnabledCheckpoint\<close>: its mutable part is the parent the next save expects. \<open>next_id\<close> is
  \<open>CheckpointId::next\<close>.
\<close>

definition enabled_save ::
    "'w environment \<Rightarrow> ('s, 't) checkpoint_state_ops \<Rightarrow> ('t, 'v, 'w) checkpoint_config
      \<Rightarrow> graph_version option \<Rightarrow> run_id \<Rightarrow> 's \<Rightarrow> 'v checkpoint_boundary
      \<Rightarrow> checkpoint_id option \<Rightarrow> ('w, saved_checkpoint \<times> checkpoint_id option) io" where
  "enabled_save env cops cfg version r s b parent w =
     (let t = cc_thread_id cfg in
      case snapshot cops s of
        Inl e \<Rightarrow> (Err (graph_run_error.SnapshotFailed r t (cb_superstep b) (cb_step b) e), w)
      | Inr snap \<Rightarrow>
          (case env_uuid env w of (u, w1) \<Rightarrow>
             (let request = request_new
                    \<lparr>l_checkpoint_id = CheckpointId u, l_expected_parent = parent,
                     l_graph_version = version, l_thread_id = t, l_run_id = r\<rparr>
                    (cb_superstep b) (cb_step b) snap (cb_next_frontier b) (cb_completed b)
                    (cb_interrupt b) in
              case (case cc_branch_id cfg of
                      Some br \<Rightarrow> ck_save_branch (cc_checkpointer cfg) br request w1
                    | None \<Rightarrow> ck_save (cc_checkpointer cfg) request w1) of
                (Inl e, w2) \<Rightarrow>
                  (Err (save_error r t (cc_branch_id cfg) (cb_superstep b) (cb_step b) e), w2)
              | (Inr cp, w2) \<Rightarrow> (Ok (\<lparr>sv_id = c_id cp, sv_thread_id = t\<rparr>, Some (c_id cp)), w2))))"

definition enabled_checkpoint ::
    "'w environment \<Rightarrow> ('s, 't) checkpoint_state_ops \<Rightarrow> ('t, 'v, 'w) checkpoint_config
      \<Rightarrow> graph_version option \<Rightarrow> ('s, 'v, checkpoint_id option, 'w) runtime_checkpoint" where
  "enabled_checkpoint env cops cfg version =
     \<lparr>rk_interrupt_error = (\<lambda>r i node step parallel.
        if parallel then Some (graph_run_error.UnsupportedParallelInterrupt i node step) else None),
      rk_should_save = (\<lambda>completed. cc_policy cfg = EverySuperstep \<or> completed),
      rk_save = enabled_save env cops cfg version\<rparr>"

section \<open>Running a node\<close>

definition execute_node ::
    "'w environment \<Rightarrow> active_control \<Rightarrow> run_id \<Rightarrow> ('s, 'u, 'v, 'w) compiled_node \<Rightarrow> 's
      \<Rightarrow> 'v node_context \<Rightarrow> instant option \<Rightarrow> ('w, ('u, 'v) node_outcome) io" where
  "execute_node env ac r node s ctx nd =
     (let path = Some (cn_path node); step = ctx_step ctx; active = deadline ac nd;
          future = (\<lambda>w. case run_node (cn_kind node) s ctx w of (x, w') \<Rightarrow> (Ok x, w')) in
      io_bind (check env ac r path step active) (\<lambda>_.
      io_bind (if is_disabled ac then future
               else select_future env ac r path step active future) (\<lambda>x.
      io_bind (check env ac r path step (deadline ac None)) (\<lambda>_.
        io_return (case x of
            Inl e \<Rightarrow> Err (graph_run_error.NodeFailed (cn_path node) step e)
          | Inr outcome \<Rightarrow> Ok outcome)))))"

lemma io_safe_execute_node [io_safe]:
  assumes "control_wf ac" and "node_deadline_ok ac (Some (cn_path node)) nd"
  shows "io_safe (execute_node env ac r node s ctx nd)"
proof -
  have "io_safe (\<lambda>w. case run_node (cn_kind node) s ctx w of (x, w') \<Rightarrow> (Ok x, w'))"
    by (simp add: io_safe_def split: prod.splits)
  then show ?thesis
    unfolding execute_node_def Let_def
    by (intro io_safe_bind io_safe_check io_safe_return)
      (auto intro: io_safe assms split: sum.splits)
qed

section \<open>Items by index\<close>

definition node_at ::
    "('s, 'u, 'v, 'w) compiled_graph \<Rightarrow> nat \<Rightarrow> ('s, 'u, 'v, 'w) compiled_node option" where
  "node_at g i =
     (if i < length (cg_items g)
      then (case cg_items g ! i of Node nd \<Rightarrow> Some nd | _ \<Rightarrow> None) else None)"

lemma node_at_Some:
  "node_at g i = Some nd \<longleftrightarrow> i < length (cg_items g) \<and> cg_items g ! i = Node nd"
  by (simp add: node_at_def split: compiled_item.splits)

definition path_at :: "('s, 'u, 'v, 'w) compiled_graph \<Rightarrow> nat \<Rightarrow> node_path option" where
  "path_at g i =
     (if i < length (cg_items g)
      then (case cg_items g ! i of
              Node nd \<Rightarrow> Some (cn_path nd)
            | EnterSubgraph gp tr \<Rightarrow> graph_path_mount_path gp
            | ExitSubgraph gp mount tr \<Rightarrow> Some mount) else None)"

lemma path_at_wf:
  assumes "compiled_wf g" and "i < length (cg_items g)"
  shows "path_at g i \<noteq> None"
  using compiled_wf_item [OF assms] assms(2)
  by (auto simp: path_at_def item_ok_def graph_path_mount_path_def graph_path_is_root_def
      split: compiled_item.splits)

section \<open>Resolving a transition\<close>

definition transition_run_error ::
    "graph_path \<Rightarrow> node_path \<Rightarrow> nat \<Rightarrow> transition_error \<Rightarrow> graph_run_error" where
  "transition_run_error gp origin step e =
     (case e of
        Router err \<Rightarrow> graph_run_error.RouteFailed origin step err
      | InvalidTarget target \<Rightarrow>
          graph_run_error.InvalidRouteTarget origin (node_path_new gp target) step
      | EmptyTargets \<Rightarrow> graph_run_error.EmptyRouteTargets origin step
      | DuplicateTarget target \<Rightarrow>
          graph_run_error.DuplicateRouteTarget origin (node_path_new gp target) step)"

definition route_event :: "run_id \<Rightarrow> node_path \<Rightarrow> nat \<Rightarrow> route_decision \<Rightarrow> graph_event" where
  "route_event r origin step d =
     (case d of
        Single target \<Rightarrow> RouteSelected r origin target step
      | Multiple targets \<Rightarrow> RoutesSelected r origin targets step)"

definition emit_route ::
    "run_id \<Rightarrow> node_path \<Rightarrow> nat \<Rightarrow> route_decision option \<Rightarrow> event_emitter \<Rightarrow> event_emitter" where
  "emit_route r origin step d em =
     (case d of None \<Rightarrow> em | Some decision \<Rightarrow> emit (route_event r origin step decision) em)"

definition resolve_transition ::
    "('s, 'u, 'v, 'w) compiled_graph \<Rightarrow> run_id \<Rightarrow> 's compiled_transition \<Rightarrow> 's \<Rightarrow> graph_path
      \<Rightarrow> node_path \<Rightarrow> nat \<Rightarrow> nat list \<Rightarrow> event_emitter
      \<Rightarrow> (graph_run_error, nat list) result \<times> event_emitter" where
  "resolve_transition g r tr s gp origin step targets em =
     (case resolve_into tr s gp targets (path_at g) of
        Panic \<Rightarrow> (Panic, em)
      | Err e \<Rightarrow> (Err (transition_run_error gp origin step e), em)
      | Ok (d, targets') \<Rightarrow> (Ok targets', emit_route r origin step d em))"

section \<open>Routing through subgraph boundaries\<close>

datatype subgraph_boundary = Started graph_path | Finished graph_path

primrec boundary_event :: "run_id \<Rightarrow> subgraph_boundary \<Rightarrow> graph_event" where
  "boundary_event r (Started gp) = SubgraphStarted r gp"
| "boundary_event r (Finished gp) = SubgraphCompleted r gp"

text \<open>
  One turn of the loop of \<open>normalize_frontier\<close>: it stops with a result, or goes on with a new
  frontier after leaving a boundary behind.
\<close>

datatype turn = Stop "(graph_run_error, unit) result" | Cross subgraph_boundary "nat list"

definition normalize_turn ::
    "('s, 'u, 'v, 'w) compiled_graph \<Rightarrow> run_id \<Rightarrow> 's \<Rightarrow> nat \<Rightarrow> nat list \<Rightarrow> event_emitter
      \<Rightarrow> turn \<times> event_emitter" where
  "normalize_turn g r s step frontier em =
     (case frontier of
        [i] \<Rightarrow>
          (if i \<ge> length (cg_items g) then (Stop Panic, em)
           else case cg_items g ! i of
             Node nd \<Rightarrow> (Stop (Ok ()), em)
           | EnterSubgraph gp tr \<Rightarrow>
               (case graph_path_mount_path gp of
                  None \<Rightarrow> (Stop Panic, em)
                | Some origin \<Rightarrow>
                    (case resolve_transition g r tr s (node_path_graph_path origin) origin step
                            [] em of
                       (Panic, em1) \<Rightarrow> (Stop Panic, em1)
                     | (Err e, em1) \<Rightarrow> (Stop (Err e), em1)
                     | (Ok targets, em1) \<Rightarrow> (Cross (Started gp) targets, em1)))
           | ExitSubgraph gp mount tr \<Rightarrow>
               (case resolve_transition g r tr s (node_path_graph_path mount) mount step [] em of
                  (Panic, em1) \<Rightarrow> (Stop Panic, em1)
                | (Err e, em1) \<Rightarrow> (Stop (Err e), em1)
                | (Ok targets, em1) \<Rightarrow>
                    (Cross (Finished gp)
                       (if sort_dedup targets = []
                        then option_list (map_of (cg_scope_exits g) (node_path_graph_path mount))
                        else sort_dedup targets), em1)))
      | _ \<Rightarrow> (Stop (Ok ()), em))"

partial_function (option) normalize_frontier ::
    "('s, 'u, 'v, 'w) compiled_graph \<Rightarrow> run_id \<Rightarrow> 's \<Rightarrow> nat \<Rightarrow> subgraph_boundary list \<Rightarrow> nat list
      \<Rightarrow> event_emitter
      \<Rightarrow> ((graph_run_error, subgraph_boundary list \<times> nat list) result \<times> event_emitter) option"
where
  "normalize_frontier g r s step boundaries frontier em =
     (case normalize_turn g r s step frontier em of
        (Stop (Ok u), em1) \<Rightarrow> Some (Ok (boundaries, frontier), em1)
      | (Stop (Err e), em1) \<Rightarrow> Some (Err e, em1)
      | (Stop Panic, em1) \<Rightarrow> Some (Panic, em1)
      | (Cross b frontier', em1) \<Rightarrow>
          normalize_frontier g r s step (boundaries @ [b]) frontier' em1)"

declare normalize_frontier.simps [code]

end
