(* ===== verification/Superstep.thy ===== *)
theory Superstep
  imports Runtime
begin

text \<open>
  One turn of the super-step loop of \<open>execute_internal\<close> (\<open>runtime.rs\<close>): the limit checks, a
  single or a parallel frontier, the commit of its updates, routing, the checkpoint at the
  boundary and the events in between. \<open>invocation\<close> holds what the loop borrows, \<open>execution\<close>
  what it changes. A node of a parallel frontier runs in one piece when the environment picks
  it; nodes that are still pending when the super-step fails do not run.
\<close>

record ('s, 'u, 'v, 'c, 'w) invocation =
  iv_graph :: "('s, 'u, 'v, 'w) compiled_graph"
  iv_ops :: "('s, 'u) state_ops"
  iv_env :: "'w environment"
  iv_control :: active_control
  iv_run_id :: run_id
  iv_max_steps :: nat
  iv_checkpoints :: "('s, 'v, 'c, 'w) runtime_checkpoint"

record ('s, 'v, 'c) execution =
  ex_state :: 's
  ex_steps :: nat
  ex_visited_nodes :: "node_path list"
  ex_frontier :: "nat list"
  ex_superstep :: nat
  ex_save_empty_checkpoint :: bool
  ex_resume_node :: "nat option"
  ex_resume_value :: "'v resume_value option"
  ex_checkpoints :: 'c

section \<open>Building blocks\<close>

text \<open>\<open>control.check\<close> with an early return, \<open>node_at\<close>, and the emitter operations.\<close>

definition run_check ::
    "'w environment \<Rightarrow> active_control \<Rightarrow> run_id \<Rightarrow> node_path option \<Rightarrow> nat \<Rightarrow> instant option
      \<Rightarrow> ('w, unit) run" where
  "run_check env ac r node step nd = or_fail (check env ac r node step (deadline ac nd))"

definition guard ::
    "('s, 'u, 'v, 'c, 'w) invocation \<Rightarrow> node_path option \<Rightarrow> nat \<Rightarrow> instant option \<Rightarrow> ('w, unit) run"
where
  "guard iv = run_check (iv_env iv) (iv_control iv) (iv_run_id iv)"

definition get_node ::
    "('s, 'u, 'v, 'c, 'w) invocation \<Rightarrow> nat \<Rightarrow> ('w, ('s, 'u, 'v, 'w) compiled_node) run" where
  "get_node iv i = run_if_some (node_at (iv_graph iv) i)"

definition node_paths_of ::
    "('s, 'u, 'v, 'c, 'w) invocation \<Rightarrow> nat list \<Rightarrow> ('w, node_path list) run" where
  "node_paths_of iv = run_map (\<lambda>i. run_bind (get_node iv i) (\<lambda>n. run_return (cn_path n)))"

definition run_emitter ::
    "(event_emitter \<Rightarrow> (graph_run_error, 'a) result \<times> event_emitter) \<Rightarrow> ('w, 'a) run" where
  "run_emitter f s =
     (case f (rs_events s) of
        (Ok a, em) \<Rightarrow> Some (Ok a, s\<lparr>rs_events := em\<rparr>)
      | (Err e, em) \<Rightarrow> run_fail e (s\<lparr>rs_events := em\<rparr>)
      | (Panic, em) \<Rightarrow> Some (Panic, s\<lparr>rs_events := em\<rparr>))"

definition run_retained :: "('w, graph_event list) run" where
  "run_retained s = Some (Ok (em_retained (rs_events s)), s)"

definition offset_step :: "nat \<Rightarrow> nat \<Rightarrow> nat" where
  "offset_step base offset = usize_add (usize_add base offset) 1"

definition usize_pred :: "nat \<Rightarrow> nat" where
  "usize_pred n = (if n = 0 then usize_bound - 1 else n - 1)"

section \<open>Entering a super-step\<close>

definition begin_superstep ::
    "('s, 'u, 'v, 'c, 'w) invocation \<Rightarrow> nat \<Rightarrow> ('s, 'v, 'c) execution
      \<Rightarrow> ('w, ('s, 'u, 'v, 'w) compiled_node) run" where
  "begin_superstep iv limit ex =
     (let frontier = ex_frontier ex; remaining = limit - ex_steps ex in
      run_bind (get_node iv (hd frontier)) (\<lambda>first.
      run_bind (guard iv (Some (cn_path first)) (usize_add (ex_steps ex) 1) None) (\<lambda>_.
        if length frontier > remaining
        then run_bind (get_node iv (frontier ! remaining)) (\<lambda>blocked.
               run_fail (graph_run_error.MaxStepsExceeded (iv_max_steps iv) (cn_path blocked)
                           (offset_step (ex_steps ex) remaining)))
        else run_bind (run_when (length frontier > 1)
                (run_bind (node_paths_of iv frontier) (\<lambda>paths.
                   run_emit (SuperstepStarted (iv_run_id iv) (usize_add (ex_superstep ex) 1) paths))))
              (\<lambda>_. run_return first))))"

definition start_node ::
    "('s, 'u, 'v, 'c, 'w) invocation \<Rightarrow> ('s, 'v, 'c) execution \<Rightarrow> nat \<times> nat
      \<Rightarrow> ('w, 'v node_context \<times> instant option) run" where
  "start_node iv ex x =
     (let (offset, index) = x; ac = iv_control iv; step = offset_step (ex_steps ex) offset in
      run_bind (get_node iv index) (\<lambda>node.
      run_bind (guard iv (Some (cn_path node)) step None) (\<lambda>_.
      run_bind (run_world (env_now (iv_env iv))) (\<lambda>now.
      run_bind (run_emit (NodeStarted (iv_run_id iv) (cn_path node) step)) (\<lambda>_.
      run_bind (guard iv (Some (cn_path node)) step (node_deadline ac now)) (\<lambda>_.
        run_return
          (node_context_new step (cn_path node) (ac_cancellation_token ac) (ac_run_deadline ac)
             (if ex_resume_node ex = Some index then ex_resume_value ex else None),
           node_deadline ac now)))))))"

section \<open>A single node\<close>

datatype ('s, 'v) commit = Committed 's | Suspended "('s, 'v) interrupt_report"

definition suspend ::
    "('s, 'u, 'v, 'c, 'w) invocation \<Rightarrow> ('s, 'v, 'c) execution \<Rightarrow> ('s, 'u, 'v, 'w) compiled_node
      \<Rightarrow> nat \<Rightarrow> nat \<Rightarrow> 'v interrupt_request \<Rightarrow> ('w, ('s, 'v) commit) run" where
  "suspend iv ex node superstep step req =
     (let r = iv_run_id iv; path = cn_path node; base = ex_steps ex;
          interrupt = interrupt_into_checkpoint req path;
          committed_superstep = usize_pred superstep in
      run_bind (run_emit (NodeInterrupted r (ci_id interrupt) path step)) (\<lambda>_.
      case rk_interrupt_error (iv_checkpoints iv) r (ci_id interrupt) path step False of
        Some e \<Rightarrow> run_fail e
      | None \<Rightarrow>
      run_bind (or_fail (await_run_boundary (iv_env iv) (iv_control iv) r base
          (rk_save (iv_checkpoints iv) r (ex_state ex)
             (boundary_new committed_superstep base [path] False (Some interrupt))
             (ex_checkpoints ex)))) (\<lambda>(saved, _).
      run_bind (run_emit (CheckpointSaved r (sv_id saved) (sv_thread_id saved)
          committed_superstep base False)) (\<lambda>_.
      run_bind (guard iv None base None) (\<lambda>_.
      run_bind (run_emit (RunInterrupted r (ci_id interrupt) (sv_id saved) (sv_thread_id saved)
          path committed_superstep base)) (\<lambda>_.
      run_bind run_retained (\<lambda>events.
        run_return (Suspended
          \<lparr>it_run_id = r, it_state = ex_state ex, it_steps = base,
           it_superstep = committed_superstep,
           it_visited_nodes = ex_visited_nodes ex @ [path], it_events = events,
           it_checkpoint_id = sv_id saved, it_thread_id = sv_thread_id saved,
           it_interrupt = interrupt\<rparr>)))))))) "

definition run_single ::
    "('s, 'u, 'v, 'c, 'w) invocation \<Rightarrow> ('s, 'v, 'c) execution \<Rightarrow> ('s, 'u, 'v, 'w) compiled_node
      \<Rightarrow> ('w, ('s, 'v) commit) run" where
  "run_single iv ex first =
     (let r = iv_run_id iv; path = cn_path first; step = offset_step (ex_steps ex) 0 in
      run_bind (start_node iv ex (0, hd (ex_frontier ex))) (\<lambda>(ctx, nd).
      run_bind (or_fail (execute_node (iv_env iv) (iv_control iv) r first (ex_state ex) ctx nd))
        (\<lambda>outcome.
        case outcome of
          Interrupt req \<Rightarrow> suspend iv ex first (usize_add (ex_superstep ex) 1) step req
        | Update u \<Rightarrow>
            run_bind (run_emit (NodeCompleted r path step)) (\<lambda>_.
            run_bind (guard iv (Some path) step None) (\<lambda>_.
            run_bind (guard iv (Some path) step None) (\<lambda>_.
              (case apply_update (iv_ops iv) (ex_state ex) u of
                 Inl e \<Rightarrow> run_fail (graph_run_error.StateUpdateFailed path step e)
               | Inr s \<Rightarrow> run_return (Committed s))))))))"

section \<open>A parallel frontier\<close>

text \<open>A node that was started: its offset, item, context and deadline.\<close>

type_synonym 'v started = "(nat \<times> nat) \<times> 'v node_context \<times> instant option"

definition finish_node ::
    "('s, 'u, 'v, 'c, 'w) invocation \<Rightarrow> ('s, 'v, 'c) execution \<Rightarrow> 'v started \<Rightarrow> ('w, 'u) run" where
  "finish_node iv ex x =
     (let ((offset, index), ctx, nd) = x; r = iv_run_id iv; step = offset_step (ex_steps ex) offset in
      run_bind (get_node iv index) (\<lambda>node.
      run_bind (or_fail (execute_node (iv_env iv) (iv_control iv) r node (ex_state ex) ctx nd))
        (\<lambda>outcome.
        case outcome of
          Interrupt req \<Rightarrow>
            (let interrupt = interrupt_into_checkpoint req (cn_path node) in
             run_bind (run_emit (NodeInterrupted r (ci_id interrupt) (cn_path node) step)) (\<lambda>_.
             run_bind (run_if_some (rk_interrupt_error (iv_checkpoints iv) r (ci_id interrupt)
                 (cn_path node) step True)) run_fail))
        | Update u \<Rightarrow>
            run_bind (run_emit (NodeCompleted r (cn_path node) step)) (\<lambda>_.
            run_bind (guard iv (Some (cn_path node)) step None) (\<lambda>_.
              run_return u)))))"

definition remove_nth :: "nat \<Rightarrow> 'a list \<Rightarrow> 'a list" where
  "remove_nth k xs = take k xs @ drop (Suc k) xs"

lemma length_remove_nth: "i < length xs \<Longrightarrow> length (remove_nth i xs) < length xs"
  by (simp add: remove_nth_def)

text \<open>\<open>while let Some(..) = pending_nodes.next().await\<close>, filling one slot per node.\<close>

function collect_updates ::
    "('s, 'u, 'v, 'c, 'w) invocation \<Rightarrow> ('s, 'v, 'c) execution \<Rightarrow> 'v started list
      \<Rightarrow> 'u option list \<Rightarrow> ('w, 'u option list) run" where
  "collect_updates iv ex pending slots =
     (if pending = [] then run_return slots
      else run_bind (run_world (env_next_ready (iv_env iv) (length pending))) (\<lambda>k.
        let i = k mod length pending; x = pending ! i in
        run_bind (finish_node iv ex x) (\<lambda>u.
          collect_updates iv ex (remove_nth i pending) (slots[fst (fst x) := Some u]))))"
  by pat_completeness auto
termination
  by (relation "measure (\<lambda>(iv, ex, pending, slots). length pending)")
    (auto intro: length_remove_nth)

declare collect_updates.simps [simp del]

definition run_parallel ::
    "('s, 'u, 'v, 'c, 'w) invocation \<Rightarrow> ('s, 'v, 'c) execution \<Rightarrow> ('s, 'u, 'v, 'w) compiled_node
      \<Rightarrow> ('w, ('s, 'v) commit) run" where
  "run_parallel iv ex first =
     (let frontier = ex_frontier ex; xs = enumerate 0 frontier;
          first_step = usize_add (ex_steps ex) 1 in
      run_bind (run_map (start_node iv ex) xs) (\<lambda>started.
      run_bind (collect_updates iv ex (zip xs started) (replicate (length frontier) None)) (\<lambda>slots.
      run_bind (guard iv (Some (cn_path first)) first_step None) (\<lambda>_.
      run_bind (node_paths_of iv frontier) (\<lambda>paths.
      run_bind (run_if_some (those slots)) (\<lambda>updates.
        (case apply_batch (iv_ops iv) (ex_state ex)
                (map2 node_update_new paths updates) of
           Inl e \<Rightarrow> run_fail (graph_run_error.StateBatchUpdateFailed paths first_step e)
         | Inr s \<Rightarrow> run_return (Committed s))))))))"

section \<open>After the commit\<close>

definition state_updated ::
    "('s, 'u, 'v, 'c, 'w) invocation \<Rightarrow> ('s, 'v, 'c) execution \<Rightarrow> nat \<times> nat \<Rightarrow> ('w, unit) run" where
  "state_updated iv ex x =
     (let (offset, index) = x; step = offset_step (ex_steps ex) offset in
      run_bind (get_node iv index) (\<lambda>node.
      run_bind (run_emit (StateUpdated (iv_run_id iv) (cn_path node) step)) (\<lambda>_.
        guard iv (Some (cn_path node)) step None)))"

text \<open>The targets of the frontier's nodes, in order, on the committed state.\<close>

fun route_nodes ::
    "('s, 'u, 'v, 'c, 'w) invocation \<Rightarrow> nat \<Rightarrow> 's \<Rightarrow> (nat \<times> nat) list \<Rightarrow> nat list
      \<Rightarrow> ('w, nat list) run" where
  "route_nodes iv base s [] targets = run_return targets"
| "route_nodes iv base s ((offset, index) # xs) targets =
     run_bind (get_node iv index) (\<lambda>node.
     run_bind (run_emitter (resolve_transition (iv_graph iv) (iv_run_id iv) (cn_transition node) s
         (cn_graph_path node) (cn_path node) (offset_step base offset) targets)) (\<lambda>targets'.
     run_bind (guard iv (Some (cn_path node)) (offset_step base offset) None) (\<lambda>_.
       route_nodes iv base s xs targets')))"

text \<open>\<open>normalize_frontier\<close>, with its error returned through \<open>events.fail\<close>.\<close>

definition run_normalize ::
    "('s, 'u, 'v, 'c, 'w) invocation \<Rightarrow> 's \<Rightarrow> nat \<Rightarrow> nat list
      \<Rightarrow> ('w, subgraph_boundary list \<times> nat list) run" where
  "run_normalize iv s step frontier st =
     (case normalize_frontier (iv_graph iv) (iv_run_id iv) s step [] frontier (rs_events st) of
        None \<Rightarrow> None
      | Some y \<Rightarrow> run_emitter (\<lambda>_. y) st)"

definition next_frontier ::
    "('s, 'u, 'v, 'c, 'w) invocation \<Rightarrow> ('s, 'v, 'c) execution \<Rightarrow> ('s, 'u, 'v, 'w) compiled_node
      \<Rightarrow> 's \<Rightarrow> ('w, subgraph_boundary list \<times> nat list) run" where
  "next_frontier iv ex first s =
     run_bind (route_nodes iv (ex_steps ex) s (enumerate 0 (ex_frontier ex)) []) (\<lambda>targets.
       let routed = sort_dedup targets;
           frontier = (if routed = []
             then option_list (map_of (cg_scope_exits (iv_graph iv)) (cn_graph_path first))
             else routed)
       in run_normalize iv s (usize_add (ex_steps ex) (length (ex_frontier ex))) frontier)"

definition save_boundary ::
    "('s, 'u, 'v, 'c, 'w) invocation \<Rightarrow> 's \<Rightarrow> nat \<Rightarrow> nat \<Rightarrow> nat list \<Rightarrow> 'c \<Rightarrow> ('w, 'c) run" where
  "save_boundary iv s superstep steps frontier chk =
     (let completed = (frontier = []); r = iv_run_id iv in
      if \<not> rk_should_save (iv_checkpoints iv) completed then run_return chk
      else run_bind (node_paths_of iv frontier) (\<lambda>paths.
        run_bind (or_fail (await_run_boundary (iv_env iv) (iv_control iv) r steps
            (rk_save (iv_checkpoints iv) r s
               (boundary_new superstep steps paths completed None) chk))) (\<lambda>(saved, chk').
        run_bind (run_emit (CheckpointSaved r (sv_id saved) (sv_thread_id saved) superstep steps
            completed)) (\<lambda>_.
        run_return chk'))))"

section \<open>The super-step\<close>

datatype ('s, 'v, 'c) turn_result =
    Halted "('s, 'v) interrupt_report"
  | Advanced "('s, 'v, 'c) execution"

definition finish_superstep ::
    "('s, 'u, 'v, 'c, 'w) invocation \<Rightarrow> ('s, 'v, 'c) execution \<Rightarrow> ('s, 'u, 'v, 'w) compiled_node
      \<Rightarrow> 's \<Rightarrow> ('w, ('s, 'v, 'c) execution) run" where
  "finish_superstep iv ex first s =
     (let r = iv_run_id iv; frontier = ex_frontier ex; superstep = usize_add (ex_superstep ex) 1;
          steps = usize_add (ex_steps ex) (length frontier) in
      run_bind (run_for (state_updated iv ex) (enumerate 0 frontier)) (\<lambda>_.
      run_bind (next_frontier iv ex first s) (\<lambda>(boundaries, next).
      run_bind (save_boundary iv s superstep steps next (ex_checkpoints ex)) (\<lambda>chk.
      run_bind (run_when (rk_should_save (iv_checkpoints iv) (next = []))
          (guard iv None steps None)) (\<lambda>_.
      run_bind (run_for (\<lambda>b. run_emit (boundary_event r b)) boundaries) (\<lambda>_.
      run_bind (run_when (length frontier > 1) (run_emit (SuperstepCompleted r superstep))) (\<lambda>_.
      run_bind (guard iv (Some (cn_path first)) (usize_add (ex_steps ex) 1) None) (\<lambda>_.
      run_bind (node_paths_of iv frontier) (\<lambda>visited.
        run_return
          \<lparr>ex_state = s, ex_steps = steps, ex_visited_nodes = ex_visited_nodes ex @ visited,
           ex_frontier = next, ex_superstep = superstep,
           ex_save_empty_checkpoint = ex_save_empty_checkpoint ex,
           ex_resume_node = None, ex_resume_value = None, ex_checkpoints = chk\<rparr>)))))))))"

definition superstep_turn ::
    "('s, 'u, 'v, 'c, 'w) invocation \<Rightarrow> nat \<Rightarrow> ('s, 'v, 'c) execution
      \<Rightarrow> ('w, ('s, 'v, 'c) turn_result) run" where
  "superstep_turn iv limit ex =
     run_bind (begin_superstep iv limit ex) (\<lambda>first.
     run_bind (if length (ex_frontier ex) > 1 then run_parallel iv ex first
               else run_single iv ex first) (\<lambda>c.
       case c of
         Suspended report \<Rightarrow> run_return (Halted report)
       | Committed s \<Rightarrow>
           run_bind (finish_superstep iv ex first s) (\<lambda>ex'. run_return (Advanced ex'))))"

end
