(* ===== verification/Run.thy ===== *)
theory Run
  imports Superstep
begin

text \<open>
  The super-step loop and the invocation entry points (\<open>execute_internal\<close>, \<open>invoke_internal\<close>,
  \<open>invoke_with_control\<close> and \<open>invoke_with_checkpoint\<close> of \<open>runtime.rs\<close>). A run ends in a result
  and a final world and event log, or it does not end (\<open>None\<close>).
\<close>

type_synonym ('w, 'a) outcome = "((graph_run_error, 'a) result \<times> 'w run_state) option"

section \<open>The loop\<close>

partial_function (option) run_loop ::
    "('s, 'u, 'v, 'c, 'w) invocation \<Rightarrow> nat \<Rightarrow> ('s, 'v, 'c) execution \<Rightarrow> 'w run_state
      \<Rightarrow> ('w, ('s, 'v, 'c) turn_result) outcome" where
  "run_loop iv limit ex st =
     (if ex_frontier ex = [] then Some (Ok (Advanced ex), st)
      else Option.bind (superstep_turn iv limit ex st) (\<lambda>y. case y of
          (Ok (Advanced ex'), st') \<Rightarrow> run_loop iv limit ex' st'
        | (Ok (Halted report), st') \<Rightarrow> Some (Ok (Halted report), st')
        | (Err e, st') \<Rightarrow> Some (Err e, st')
        | (Panic, st') \<Rightarrow> Some (Panic, st')))"

declare run_loop.simps [code]

definition complete_run ::
    "('s, 'u, 'v, 'c, 'w) invocation \<Rightarrow> ('s, 'v, 'c) execution
      \<Rightarrow> ('w, ('s, 'v) execution_outcome) run" where
  "complete_run iv ex =
     run_bind (guard iv None (ex_steps ex) None) (\<lambda>_.
     run_bind (run_emit (RunCompleted (iv_run_id iv) (ex_steps ex))) (\<lambda>_.
     run_bind run_retained (\<lambda>events.
       run_return (Completed
         \<lparr>rr_run_id = iv_run_id iv, rr_final_state = ex_state ex, rr_steps = ex_steps ex,
          rr_visited_nodes = ex_visited_nodes ex, rr_events = events\<rparr>))))"

definition execute_internal ::
    "('s, 'u, 'v, 'c, 'w) invocation \<Rightarrow> ('s, 'v, 'c) execution
      \<Rightarrow> ('w, ('s, 'v) execution_outcome) run" where
  "execute_internal iv ex =
     (let limit = usize_saturating_add (ex_steps ex) (iv_max_steps iv) in
      run_bind (if ex_save_empty_checkpoint ex \<and> ex_frontier ex = []
                then save_boundary iv (ex_state ex) (ex_superstep ex) (ex_steps ex) []
                       (ex_checkpoints ex)
                else run_return (ex_checkpoints ex)) (\<lambda>chk.
      run_bind (run_loop iv limit (ex\<lparr>ex_checkpoints := chk\<rparr>)) (\<lambda>t.
        case t of
          Halted report \<Rightarrow> run_return (Interrupted report)
        | Advanced ex' \<Rightarrow> complete_run iv ex')))"

section \<open>Starting an invocation\<close>

text \<open>
  What every entry point does first: read the clock, draw the run identifier, activate the
  control and emit \<open>RunStarted\<close>.
\<close>

definition begin_invocation ::
    "'w environment \<Rightarrow> run_config \<Rightarrow> event_config \<Rightarrow> run_control \<Rightarrow> 'w
      \<Rightarrow> (run_id \<times> active_control) \<times> 'w run_state" where
  "begin_invocation env config events control w =
     (case env_now env w of (started, w1) \<Rightarrow>
      case env_uuid env w1 of (u, w2) \<Rightarrow>
      case active_control_new env control started w2 of (ac, w3) \<Rightarrow>
        ((RunId u, ac),
         \<lparr>rs_world = w3,
          rs_events = emit (RunStarted (RunId u) (max_steps config)) (emitter_new (RunId u) events)\<rparr>))"

definition emit_boundaries :: "run_id \<Rightarrow> subgraph_boundary list \<Rightarrow> ('w, unit) run" where
  "emit_boundaries r = run_for (\<lambda>b. run_emit (boundary_event r b))"

definition start_run ::
    "('s, 'u, 'v, 'c, 'w) invocation \<Rightarrow> 's \<Rightarrow> 'c \<Rightarrow> ('w, ('s, 'v) execution_outcome) run" where
  "start_run iv initial_state chk =
     run_bind (run_normalize iv initial_state 0 (option_list (cg_entry_index (iv_graph iv))))
       (\<lambda>(boundaries, frontier).
     run_bind (emit_boundaries (iv_run_id iv) boundaries) (\<lambda>_.
     run_bind (node_paths_of iv (take 1 frontier)) (\<lambda>paths.
     run_bind (guard iv (if paths = [] then None else Some (hd paths)) (length paths) None) (\<lambda>_.
       execute_internal iv
         \<lparr>ex_state = initial_state, ex_steps = 0, ex_visited_nodes = [], ex_frontier = frontier,
          ex_superstep = 0, ex_save_empty_checkpoint = True, ex_resume_node = None,
          ex_resume_value = None, ex_checkpoints = chk\<rparr>))))"

definition invoke_internal ::
    "'w environment \<Rightarrow> ('s, 'u) state_ops \<Rightarrow> ('s, 'u, 'v, 'w) compiled_graph \<Rightarrow> 's \<Rightarrow> run_config
      \<Rightarrow> event_config \<Rightarrow> run_control \<Rightarrow> ('s, 'v, 'c, 'w) runtime_checkpoint \<Rightarrow> 'c \<Rightarrow> 'w
      \<Rightarrow> ('w, ('s, 'v) execution_outcome) outcome" where
  "invoke_internal env ops g initial_state config events control rk chk w =
     (case begin_invocation env config events control w of ((r, ac), st) \<Rightarrow>
        start_run
          \<lparr>iv_graph = g, iv_ops = ops, iv_env = env, iv_control = ac, iv_run_id = r,
           iv_max_steps = max_steps config, iv_checkpoints = rk\<rparr> initial_state chk st)"

text \<open>An interrupted outcome of an invocation without checkpoints is \<open>unreachable!\<close>.\<close>

definition expect_completed ::
    "('w, ('s, 'v) execution_outcome) outcome \<Rightarrow> ('w, 's run_report) outcome" where
  "expect_completed y =
     map_option (\<lambda>(x, st).
       (case x of
          Ok (Completed report) \<Rightarrow> Ok report
        | Ok (Interrupted report) \<Rightarrow> Panic
        | Err e \<Rightarrow> Err e
        | Panic \<Rightarrow> Panic, st)) y"

definition invoke_with_control ::
    "'w environment \<Rightarrow> ('s, 'u) state_ops \<Rightarrow> ('s, 'u, 'v, 'w) compiled_graph \<Rightarrow> 's \<Rightarrow> run_config
      \<Rightarrow> event_config \<Rightarrow> run_control \<Rightarrow> 'w \<Rightarrow> ('w, 's run_report) outcome" where
  "invoke_with_control env ops g initial_state config events control w =
     expect_completed
       (invoke_internal env ops g initial_state config events control disabled_checkpoint () w)"

definition invoke ::
    "'w environment \<Rightarrow> ('s, 'u) state_ops \<Rightarrow> ('s, 'u, 'v, 'w) compiled_graph \<Rightarrow> 's \<Rightarrow> 'w
      \<Rightarrow> ('w, 's run_report) outcome" where
  "invoke env ops g initial_state =
     invoke_with_control env ops g initial_state run_config_default event_config_default
       run_control_new"

definition invoke_with_checkpoint ::
    "'w environment \<Rightarrow> ('s, 'u) state_ops \<Rightarrow> ('s, 't) checkpoint_state_ops
      \<Rightarrow> ('s, 'u, 'v, 'w) compiled_graph \<Rightarrow> 's \<Rightarrow> run_config \<Rightarrow> event_config \<Rightarrow> run_control
      \<Rightarrow> ('t, 'v, 'w) checkpoint_config \<Rightarrow> 'w \<Rightarrow> ('w, ('s, 'v) execution_outcome) outcome" where
  "invoke_with_checkpoint env ops cops g initial_state config events control cfg =
     invoke_internal env ops g initial_state config events control
       (enabled_checkpoint env cops cfg (cg_version g)) (cc_expected_parent cfg)"

end
