(* ===== verification/Resumption.thy ===== *)
theory Resumption
  imports Run
begin

text \<open>
  Continuing from a checkpoint (\<open>runtime.rs\<close>): validation of a checkpoint against the compiled
  graph, \<open>resume\<close> with its state initializer, read-only \<open>replay\<close> and \<open>fork\<close>.
\<close>

section \<open>Validating a checkpoint\<close>

definition check_version ::
    "('t, 'v) checkpoint \<Rightarrow> ('s, 'u, 'v, 'w) compiled_graph \<Rightarrow> checkpoint_incompatibility option"
where
  "check_version cp g =
     (case (c_graph_version cp, cg_version g) of
        (None, _) \<Rightarrow> Some UnversionedCheckpoint
      | (Some _, None) \<Rightarrow> Some UnversionedGraph
      | (Some a, Some b) \<Rightarrow> if a \<noteq> b then Some (GraphVersionMismatch a b) else None)"

definition check_shape :: "('t, 'v) checkpoint \<Rightarrow> checkpoint_incompatibility option" where
  "check_shape cp =
     (if c_completed cp \<and> c_next_frontier cp \<noteq> []
      then Some checkpoint_incompatibility.CompletedWithFrontier
      else if \<not> c_completed cp \<and> c_next_frontier cp = []
      then Some checkpoint_incompatibility.IncompleteWithoutFrontier
      else if c_completed cp \<and> c_interrupt cp \<noteq> None
      then Some checkpoint_incompatibility.CompletedInterrupt
      else case c_interrupt cp of
        None \<Rightarrow> None
      | Some i \<Rightarrow>
          (if c_next_frontier cp \<noteq> [ci_node_path i]
           then Some (checkpoint_incompatibility.InvalidInterruptFrontier (ci_node_path i)
                        (c_next_frontier cp))
           else None))"

text \<open>The closure over the frontier's paths. A path without a leaf is an assertion failure.\<close>

definition resolve_path ::
    "('s, 'u, 'v, 'w) compiled_graph \<Rightarrow> node_path \<Rightarrow> (checkpoint_incompatibility, nat) result" where
  "resolve_path g p =
     (case node_path_leaf p of
        None \<Rightarrow> Panic
      | Some leaf \<Rightarrow>
          (if is_start leaf then Err StartInFrontier
           else if is_end leaf then Err EndInFrontier
           else case map_of (cg_node_paths g) p of
             None \<Rightarrow> Err (UnknownFrontierNode p)
           | Some i \<Rightarrow> Ok i))"

fun resolve_paths ::
    "('s, 'u, 'v, 'w) compiled_graph \<Rightarrow> node_path list
      \<Rightarrow> (checkpoint_incompatibility, nat list) result" where
  "resolve_paths g [] = Ok []"
| "resolve_paths g (p # ps) =
     result_bind (resolve_path g p) (\<lambda>i. result_bind (resolve_paths g ps) (\<lambda>is. Ok (i # is)))"

definition node_result ::
    "('s, 'u, 'v, 'w) compiled_graph \<Rightarrow> nat \<Rightarrow> (checkpoint_incompatibility, ('s, 'u, 'v, 'w) compiled_node) result"
where
  "node_result g i = (case node_at g i of None \<Rightarrow> Panic | Some nd \<Rightarrow> Ok nd)"

definition check_distinct ::
    "('s, 'u, 'v, 'w) compiled_graph \<Rightarrow> nat list \<Rightarrow> (checkpoint_incompatibility, unit) result" where
  "check_distinct g frontier =
     (case first_dup [] frontier of
        None \<Rightarrow> Ok ()
      | Some i \<Rightarrow> result_bind (node_result g i) (\<lambda>nd. Err (DuplicateFrontierNode (cn_path nd))))"

fun check_namespace ::
    "('s, 'u, 'v, 'w) compiled_graph \<Rightarrow> graph_path \<Rightarrow> nat list
      \<Rightarrow> (checkpoint_incompatibility, unit) result" where
  "check_namespace g expected [] = Ok ()"
| "check_namespace g expected (i # is) =
     result_bind (node_result g i) (\<lambda>nd.
       if cn_graph_path nd \<noteq> expected
       then Err (MixedFrontierNamespace expected (cn_graph_path nd) (cn_path nd))
       else check_namespace g expected is)"

fun check_order ::
    "('s, 'u, 'v, 'w) compiled_graph \<Rightarrow> nat list \<Rightarrow> (checkpoint_incompatibility, unit) result" where
  "check_order g (i # j # is) =
     (if i > j
      then result_bind (node_result g i) (\<lambda>a. result_bind (node_result g j) (\<lambda>b.
             Err (NonCanonicalFrontierOrder (cn_path a) (cn_path b))))
      else check_order g (j # is))"
| "check_order g _ = Ok ()"

definition validate_and_resolve_checkpoint_frontier ::
    "('s, 'u, 'v, 'w) compiled_graph \<Rightarrow> ('t, 'v) checkpoint
      \<Rightarrow> (checkpoint_incompatibility, nat list) result" where
  "validate_and_resolve_checkpoint_frontier g cp =
     (case check_version cp g of
        Some e \<Rightarrow> Err e
      | None \<Rightarrow> (case check_shape cp of
        Some e \<Rightarrow> Err e
      | None \<Rightarrow>
          result_bind (resolve_paths g (c_next_frontier cp)) (\<lambda>frontier.
          result_bind (check_distinct g frontier) (\<lambda>_.
          result_bind (case frontier of
              [] \<Rightarrow> Ok ()
            | i # is \<Rightarrow> result_bind (node_result g i) (\<lambda>first.
                check_namespace g (cn_graph_path first) is)) (\<lambda>_.
          result_bind (check_order g frontier) (\<lambda>_. Ok frontier))))))"

section \<open>Common steps\<close>

text \<open>The identity checks on a loaded checkpoint; \<open>named\<close> is the identifier errors name.\<close>

definition check_identity ::
    "run_id \<Rightarrow> thread_id \<Rightarrow> checkpoint_id option \<Rightarrow> ('t, 'v) checkpoint \<Rightarrow> ('w, unit) run" where
  "check_identity r t requested cp =
     (case requested of
        Some c \<Rightarrow>
          (if c_id cp \<noteq> c
           then run_fail (graph_run_error.CheckpointIncompatible r t c (c_step cp)
                  (CheckpointIdMismatch c (c_id cp)))
           else if c_thread_id cp \<noteq> t
           then run_fail (graph_run_error.CheckpointIncompatible r t c (c_step cp)
                  (ThreadMismatch (c_thread_id cp)))
           else run_return ())
      | None \<Rightarrow>
          (if c_thread_id cp \<noteq> t
           then run_fail (graph_run_error.CheckpointIncompatible r t (c_id cp) (c_step cp)
                  (ThreadMismatch (c_thread_id cp)))
           else run_return ()))"

definition resolve_frontier ::
    "('s, 'u, 'v, 'w) compiled_graph \<Rightarrow> run_id \<Rightarrow> thread_id \<Rightarrow> ('t, 'v) checkpoint
      \<Rightarrow> ('w, nat list) run" where
  "resolve_frontier g r t cp =
     (case validate_and_resolve_checkpoint_frontier g cp of
        Ok frontier \<Rightarrow> run_return frontier
      | Err reason \<Rightarrow>
          run_fail (graph_run_error.CheckpointIncompatible r t (c_id cp) (c_step cp) reason)
      | Panic \<Rightarrow> run_panic)"

definition match_resume_value ::
    "run_id \<Rightarrow> thread_id \<Rightarrow> ('t, 'v) checkpoint \<Rightarrow> nat list \<Rightarrow> 'v resume_value option
      \<Rightarrow> ('w, nat option \<times> 'v resume_value option) run" where
  "match_resume_value r t cp frontier value =
     (case (c_interrupt cp, value) of
        (Some _, Some v) \<Rightarrow>
          run_return (case frontier of [] \<Rightarrow> None | i # _ \<Rightarrow> Some i, Some v)
      | (Some i, None) \<Rightarrow>
          run_fail (graph_run_error.MissingResumeValue r t (c_id cp) (ci_id i) (ci_node_path i)
                      (c_step cp))
      | (None, Some _) \<Rightarrow> run_fail (graph_run_error.UnexpectedResumeValue r t (c_id cp) (c_step cp))
      | (None, None) \<Rightarrow> run_return (None, None))"

definition restore_state ::
    "'w environment \<Rightarrow> active_control \<Rightarrow> ('s, 't) checkpoint_state_ops \<Rightarrow> run_id \<Rightarrow> thread_id
      \<Rightarrow> ('t, 'v) checkpoint \<Rightarrow> ('w, 's) run" where
  "restore_state env ac cops r t cp =
     run_bind (run_check env ac r None (c_step cp) None) (\<lambda>_.
     case restore cops (c_snapshot cp) of
       Inl e \<Rightarrow> run_fail (graph_run_error.RestoreFailed r t (c_id cp) (c_superstep cp) (c_step cp) e)
     | Inr s \<Rightarrow> run_bind (run_check env ac r None (c_step cp) None) (\<lambda>_. run_return s))"

text \<open>\<open>SubgraphStarted\<close> for every namespace around the first node of the frontier.\<close>

definition reenter_subgraphs ::
    "('s, 'u, 'v, 'w) compiled_graph \<Rightarrow> run_id \<Rightarrow> nat list \<Rightarrow> ('w, unit) run" where
  "reenter_subgraphs g r frontier =
     (case frontier of
        [] \<Rightarrow> run_return ()
      | i # _ \<Rightarrow> run_bind (run_if_some (node_at g i)) (\<lambda>first.
          run_for (\<lambda>gp. run_emit (SubgraphStarted r gp)) (graph_path_prefixes (cn_graph_path first))))"

text \<open>The \<open>Execution\<close> that continues a checkpoint.\<close>

definition continue_execution ::
    "('t, 'v) checkpoint \<Rightarrow> 's \<Rightarrow> nat list \<Rightarrow> nat option \<Rightarrow> 'v resume_value option \<Rightarrow> 'c
      \<Rightarrow> ('s, 'v, 'c) execution" where
  "continue_execution cp s frontier node value chk =
     \<lparr>ex_state = s, ex_steps = c_step cp, ex_visited_nodes = [], ex_frontier = frontier,
      ex_superstep = c_superstep cp, ex_save_empty_checkpoint = False, ex_resume_node = node,
      ex_resume_value = value, ex_checkpoints = chk\<rparr>"

section \<open>Resume\<close>

definition head_lookup ::
    "('t, 'v, 'w) checkpointer \<Rightarrow> thread_id \<Rightarrow> branch_id option \<Rightarrow> 'w
      \<Rightarrow> (checkpointer_error + ('t, 'v) checkpoint option) \<times> 'w" where
  "head_lookup ck t branch =
     (case branch of Some b \<Rightarrow> ck_branch_head ck t b | None \<Rightarrow> ck_latest ck t)"

definition resume_load ::
    "('t, 'v, 'w) resume_config \<Rightarrow> run_id \<Rightarrow> ('w, ('t, 'v) checkpoint) io" where
  "resume_load cfg r w =
     (let t = rc_thread_id cfg; ck = rc_checkpointer cfg; branch = rc_branch_id cfg;
          requested = (case rc_target cfg of Latest \<Rightarrow> None | Checkpoint c \<Rightarrow> Some c) in
      case (case rc_target cfg of
              Latest \<Rightarrow> head_lookup ck t branch w
            | Checkpoint c \<Rightarrow> ck_get ck t c w) of
        (Inl e, w1) \<Rightarrow> (Err (graph_run_error.CheckpointLoadFailed r t requested e), w1)
      | (Inr (Some cp), w1) \<Rightarrow> (Ok cp, w1)
      | (Inr None, w1) \<Rightarrow>
          (Err (case branch of
                  Some b \<Rightarrow>
                    (if rc_target cfg = Latest then graph_run_error.BranchNotFound r t b 0
                     else graph_run_error.CheckpointNotFound r t requested)
                | None \<Rightarrow> graph_run_error.CheckpointNotFound r t requested), w1))"

text \<open>A named checkpoint must still be the head it would be continued from.\<close>

definition latest_load ::
    "('t, 'v, 'w) resume_config \<Rightarrow> run_id \<Rightarrow> ('t, 'v) checkpoint
      \<Rightarrow> ('w, ('t, 'v) checkpoint option) io" where
  "latest_load cfg r cp w =
     (case head_lookup (rc_checkpointer cfg) (rc_thread_id cfg) (rc_branch_id cfg) w of
        (Inl e, w1) \<Rightarrow>
          (Err (graph_run_error.CheckpointLoadFailed r (rc_thread_id cfg) (Some (c_id cp)) e), w1)
      | (Inr latest, w1) \<Rightarrow> (Ok latest, w1))"

definition check_latest ::
    "'w environment \<Rightarrow> active_control \<Rightarrow> ('t, 'v, 'w) resume_config \<Rightarrow> run_id \<Rightarrow> ('t, 'v) checkpoint
      \<Rightarrow> ('w, unit) run" where
  "check_latest env ac cfg r cp =
     (let t = rc_thread_id cfg in
      if rc_target cfg = Latest then run_return ()
      else run_bind (or_fail (await_run_boundary env ac r (c_step cp) (latest_load cfg r cp)))
        (\<lambda>latest.
          case (latest, rc_branch_id cfg) of
            (None, Some b) \<Rightarrow> run_fail (graph_run_error.BranchNotFound r t b (c_step cp))
          | _ \<Rightarrow>
              (if map_option c_id latest \<noteq> Some (c_id cp)
               then run_fail (graph_run_error.ResumeConflict r t (c_id cp) (map_option c_id latest)
                      (c_step cp))
               else run_return ())))"

definition resume_initialize ::
    "'w environment \<Rightarrow> active_control \<Rightarrow> run_id \<Rightarrow> thread_id \<Rightarrow> ('t, 'v) checkpoint
      \<Rightarrow> ('s \<Rightarrow> snapshot_error + 's) \<Rightarrow> 's \<Rightarrow> ('w, 's) run" where
  "resume_initialize env ac r t cp initialize s =
     (case initialize s of
        Inl e \<Rightarrow> run_fail (graph_run_error.RestoreFailed r t (c_id cp) (c_superstep cp) (c_step cp) e)
      | Inr s' \<Rightarrow> run_bind (run_check env ac r None (c_step cp) None) (\<lambda>_. run_return s'))"

definition resume_checkpoint_config ::
    "('t, 'v, 'w) resume_config \<Rightarrow> checkpoint_id \<Rightarrow> ('t, 'v, 'w) checkpoint_config" where
  "resume_checkpoint_config cfg c =
     (let base = with_expected_parent (Some c)
            (checkpoint_config_new (rc_thread_id cfg) (rc_checkpointer cfg) (rc_checkpoint_policy cfg))
      in case rc_branch_id cfg of Some b \<Rightarrow> with_branch_id b base | None \<Rightarrow> base)"

definition resume_run ::
    "'w environment \<Rightarrow> ('s, 'u) state_ops \<Rightarrow> ('s, 't) checkpoint_state_ops
      \<Rightarrow> ('s, 'u, 'v, 'w) compiled_graph \<Rightarrow> ('t, 'v, 'w) resume_config
      \<Rightarrow> ('s \<Rightarrow> snapshot_error + 's) \<Rightarrow> run_id \<Rightarrow> active_control
      \<Rightarrow> ('w, ('s, 'v) execution_outcome) run" where
  "resume_run env ops cops g cfg initialize r ac =
     (let t = rc_thread_id cfg;
          requested = (case rc_target cfg of Latest \<Rightarrow> None | Checkpoint c \<Rightarrow> Some c) in
      run_bind (run_check env ac r None 0 None) (\<lambda>_.
      run_bind (or_fail (await_run_boundary env ac r 0 (resume_load cfg r))) (\<lambda>cp.
      run_bind (check_identity r t requested cp) (\<lambda>_.
      run_bind (check_latest env ac cfg r cp) (\<lambda>_.
      run_bind (resolve_frontier g r t cp) (\<lambda>frontier.
      run_bind (match_resume_value r t cp frontier (rc_resume_value cfg)) (\<lambda>(node, value).
      run_bind (restore_state env ac cops r t cp) (\<lambda>s0.
      run_bind (resume_initialize env ac r t cp initialize s0) (\<lambda>s.
      run_bind (run_emit (RunResumed r t (c_id cp) (c_step cp) (c_superstep cp))) (\<lambda>_.
      run_bind (case rc_branch_id cfg of
          Some b \<Rightarrow> run_emit (BranchResumed r t b (c_id cp) (c_step cp) (c_superstep cp))
        | None \<Rightarrow> run_return ()) (\<lambda>_.
      run_bind (reenter_subgraphs g r frontier) (\<lambda>_.
      (let ccfg = resume_checkpoint_config cfg (c_id cp) in
       execute_internal
         \<lparr>iv_graph = g, iv_ops = ops, iv_env = env, iv_control = ac, iv_run_id = r,
          iv_max_steps = max_steps (rc_run_config cfg),
          iv_checkpoints = enabled_checkpoint env cops ccfg (cg_version g)\<rparr>
         (continue_execution cp s frontier node value (cc_expected_parent ccfg)))))))))))))))"

definition resume_with_state_initializer ::
    "'w environment \<Rightarrow> ('s, 'u) state_ops \<Rightarrow> ('s, 't) checkpoint_state_ops
      \<Rightarrow> ('s, 'u, 'v, 'w) compiled_graph \<Rightarrow> ('t, 'v, 'w) resume_config
      \<Rightarrow> ('s \<Rightarrow> snapshot_error + 's) \<Rightarrow> 'w \<Rightarrow> ('w, ('s, 'v) execution_outcome) outcome" where
  "resume_with_state_initializer env ops cops g cfg initialize w =
     (case begin_invocation env (rc_run_config cfg) (rc_event_config cfg) (rc_control cfg) w of
        ((r, ac), st) \<Rightarrow> resume_run env ops cops g cfg initialize r ac st)"

definition resume ::
    "'w environment \<Rightarrow> ('s, 'u) state_ops \<Rightarrow> ('s, 't) checkpoint_state_ops
      \<Rightarrow> ('s, 'u, 'v, 'w) compiled_graph \<Rightarrow> ('t, 'v, 'w) resume_config \<Rightarrow> 'w
      \<Rightarrow> ('w, ('s, 'v) execution_outcome) outcome" where
  "resume env ops cops g cfg = resume_with_state_initializer env ops cops g cfg Inr"

section \<open>Replay and fork\<close>

definition exact_load ::
    "('t, 'v, 'w) checkpointer \<Rightarrow> thread_id \<Rightarrow> checkpoint_id \<Rightarrow> run_id
      \<Rightarrow> ('w, ('t, 'v) checkpoint) io" where
  "exact_load ck t c r w =
     (case ck_get ck t c w of
        (Inl e, w1) \<Rightarrow> (Err (graph_run_error.CheckpointLoadFailed r t (Some c) e), w1)
      | (Inr None, w1) \<Rightarrow> (Err (graph_run_error.CheckpointNotFound r t (Some c)), w1)
      | (Inr (Some cp), w1) \<Rightarrow> (Ok cp, w1))"

text \<open>What replay and fork do up to the restored state.\<close>

definition open_checkpoint ::
    "'w environment \<Rightarrow> active_control \<Rightarrow> ('s, 't) checkpoint_state_ops
      \<Rightarrow> ('s, 'u, 'v, 'w) compiled_graph \<Rightarrow> ('t, 'v, 'w) checkpointer \<Rightarrow> run_id \<Rightarrow> thread_id
      \<Rightarrow> checkpoint_id \<Rightarrow> 'v resume_value option
      \<Rightarrow> ('w, ('t, 'v) checkpoint \<times> nat list \<times> (nat option \<times> 'v resume_value option) \<times> 's) run" where
  "open_checkpoint env ac cops g ck r t c value =
     run_bind (run_check env ac r None 0 None) (\<lambda>_.
     run_bind (or_fail (await_run_boundary env ac r 0 (exact_load ck t c r))) (\<lambda>cp.
     run_bind (check_identity r t (Some c) cp) (\<lambda>_.
     run_bind (resolve_frontier g r t cp) (\<lambda>frontier.
     run_bind (match_resume_value r t cp frontier value) (\<lambda>resumed.
     run_bind (restore_state env ac cops r t cp) (\<lambda>s.
       run_return (cp, frontier, resumed, s)))))))"

definition replay_run ::
    "'w environment \<Rightarrow> ('s, 'u) state_ops \<Rightarrow> ('s, 't) checkpoint_state_ops
      \<Rightarrow> ('s, 'u, 'v, 'w) compiled_graph \<Rightarrow> ('t, 'v, 'w) replay_config \<Rightarrow> run_id
      \<Rightarrow> active_control \<Rightarrow> ('w, 's replay_report) run" where
  "replay_run env ops cops g cfg r ac =
     (let t = rp_thread_id cfg; c = rp_checkpoint_id cfg in
      run_bind (open_checkpoint env ac cops g (rp_checkpointer cfg) r t c (rp_resume_value cfg))
        (\<lambda>(cp, frontier, (node, value), s).
      run_bind (run_emit (ReplayStarted r t c (c_step cp) (c_superstep cp))) (\<lambda>_.
      run_bind (reenter_subgraphs g r frontier) (\<lambda>_.
      run_bind (execute_internal
         \<lparr>iv_graph = g, iv_ops = ops, iv_env = env, iv_control = ac, iv_run_id = r,
          iv_max_steps = max_steps (rp_run_config cfg),
          iv_checkpoints = read_only_replay_checkpoint t c\<rparr>
         (continue_execution cp s frontier node value ())) (\<lambda>outcome.
      case outcome of
        Completed report \<Rightarrow>
          run_return \<lparr>rpr_source_thread_id = t, rpr_source_checkpoint_id = c,
            rpr_source_step = c_step cp, rpr_source_superstep = c_superstep cp, rpr_run = report\<rparr>
      | Interrupted report \<Rightarrow> run_panic)))))"

definition replay ::
    "'w environment \<Rightarrow> ('s, 'u) state_ops \<Rightarrow> ('s, 't) checkpoint_state_ops
      \<Rightarrow> ('s, 'u, 'v, 'w) compiled_graph \<Rightarrow> ('t, 'v, 'w) replay_config \<Rightarrow> 'w
      \<Rightarrow> ('w, 's replay_report) outcome" where
  "replay env ops cops g cfg w =
     (case begin_invocation env (rp_run_config cfg) (rp_event_config cfg) (rp_control cfg) w of
        ((r, ac), st) \<Rightarrow> replay_run env ops cops g cfg r ac st)"

definition create_branch_io ::
    "('t, 'v, 'w) fork_config \<Rightarrow> run_id \<Rightarrow> nat \<Rightarrow> ('w, branch_head) io" where
  "create_branch_io cfg r step w =
     (case ck_create_branch (fk_checkpointer cfg) (fk_thread_id cfg) (fk_branch_id cfg)
             (fk_checkpoint_id cfg) w of
        (Inl e, w1) \<Rightarrow> (Err (graph_run_error.BranchCreationFailed r (fk_thread_id cfg)
                          (fk_branch_id cfg) (fk_checkpoint_id cfg) step e), w1)
      | (Inr h, w1) \<Rightarrow> (Ok h, w1))"

definition fork_checkpoint_config ::
    "('t, 'v, 'w) fork_config \<Rightarrow> ('t, 'v, 'w) checkpoint_config" where
  "fork_checkpoint_config cfg =
     with_branch_id (fk_branch_id cfg) (with_expected_parent (Some (fk_checkpoint_id cfg))
       (checkpoint_config_new (fk_thread_id cfg) (fk_checkpointer cfg) (fk_checkpoint_policy cfg)))"

definition fork_run ::
    "'w environment \<Rightarrow> ('s, 'u) state_ops \<Rightarrow> ('s, 't) checkpoint_state_ops
      \<Rightarrow> ('s, 'u, 'v, 'w) compiled_graph \<Rightarrow> ('t, 'v, 'w) fork_config \<Rightarrow> run_id
      \<Rightarrow> active_control \<Rightarrow> ('w, ('s, 'v) fork_report) run" where
  "fork_run env ops cops g cfg r ac =
     (let t = fk_thread_id cfg; c = fk_checkpoint_id cfg; b = fk_branch_id cfg in
      run_bind (open_checkpoint env ac cops g (fk_checkpointer cfg) r t c (fk_resume_value cfg))
        (\<lambda>(cp, frontier, (node, value), s).
      run_bind (or_fail (await_run_boundary env ac r (c_step cp)
         (create_branch_io cfg r (c_step cp)))) (\<lambda>_.
      run_bind (run_emit (ForkStarted r t c b (c_step cp) (c_superstep cp))) (\<lambda>_.
      run_bind (reenter_subgraphs g r frontier) (\<lambda>_.
      (let ccfg = fork_checkpoint_config cfg in
      run_bind (execute_internal
         \<lparr>iv_graph = g, iv_ops = ops, iv_env = env, iv_control = ac, iv_run_id = r,
          iv_max_steps = max_steps (fk_run_config cfg),
          iv_checkpoints = enabled_checkpoint env cops ccfg (cg_version g)\<rparr>
         (continue_execution cp s frontier node value (cc_expected_parent ccfg))) (\<lambda>outcome.
        run_return \<lparr>fr_branch_id = b, fr_source_thread_id = t, fr_source_checkpoint_id = c,
          fr_outcome = outcome\<rparr>)))))))"

definition fork ::
    "'w environment \<Rightarrow> ('s, 'u) state_ops \<Rightarrow> ('s, 't) checkpoint_state_ops
      \<Rightarrow> ('s, 'u, 'v, 'w) compiled_graph \<Rightarrow> ('t, 'v, 'w) fork_config \<Rightarrow> 'w
      \<Rightarrow> ('w, ('s, 'v) fork_report) outcome" where
  "fork env ops cops g cfg w =
     (case begin_invocation env (fk_run_config cfg) (fk_event_config cfg) (fk_control cfg) w of
        ((r, ac), st) \<Rightarrow> fork_run env ops cops g cfg r ac st)"

end
