(* ===== verification/RunLogic.thy ===== *)
theory RunLogic
  imports Resumption
begin

text \<open>
  Reasoning about runs. A judgement on a run says, for a start in which the invocation is under
  way, that it does not panic, that an error leaves a failed event log, and what holds of a
  value it returns. Under way means that the log is \<open>RunStarted\<close> and progress events of this
  run only. The rules follow the monad, so the judgement of a component is proved by its code.
\<close>

named_theorems run_rules "rules for judgements on runs"

section \<open>Event logs\<close>

definition emitted :: "run_id \<Rightarrow> graph_event list \<Rightarrow> event_emitter \<Rightarrow> bool" where
  "emitted r es em \<longleftrightarrow>
     emitter_wf em \<and> em_run_id em = r
     \<and> (has_sink (em_config em) \<longrightarrow> em_delivered em = es)
     \<and> (retention (em_config em) = All \<longrightarrow> em_retained em = es)"

lemma emitted_new: "emitted r [] (emitter_new r c)"
  by (simp add: emitted_def) (simp add: emitter_new_def)

lemma emitted_emit: "emitted r es em \<Longrightarrow> emitted r (es @ [e]) (emit e em)"
  by (simp add: emitted_def emit_delivered emit_retained)

lemma emitted_failed:
  "emitted r es em \<Longrightarrow> emitted r (es @ [RunFailed r (run_failure_from e)]) (emit_failed e em)"
  using emitted_emit by (auto simp: emit_failed_eq emitted_def)

text \<open>Events that neither open nor close a run.\<close>

fun is_progress :: "graph_event \<Rightarrow> bool" where
  "is_progress (RunStarted r m) = False"
| "is_progress (RunInterrupted r i c t n ss s) = False"
| "is_progress (RunCompleted r s) = False"
| "is_progress (RunFailed r f) = False"
| "is_progress _ = True"

definition under_way :: "run_id \<Rightarrow> nat \<Rightarrow> graph_event list \<Rightarrow> bool" where
  "under_way r m es \<longleftrightarrow>
     (\<exists>ps. es = RunStarted r m # ps \<and> (\<forall>e \<in> set ps. is_progress e \<and> event_run_id e = r))"

lemma under_way_snoc:
  "under_way r m es \<Longrightarrow> is_progress e \<Longrightarrow> event_run_id e = r \<Longrightarrow> under_way r m (es @ [e])"
  by (auto simp: under_way_def)

definition running_em :: "run_id \<Rightarrow> nat \<Rightarrow> event_emitter \<Rightarrow> bool" where
  "running_em r m em \<longleftrightarrow> (\<exists>es. under_way r m es \<and> emitted r es em)"

text \<open>A log that was closed by a last event.\<close>

definition closed_by :: "run_id \<Rightarrow> nat \<Rightarrow> graph_event \<Rightarrow> event_emitter \<Rightarrow> bool" where
  "closed_by r m e em \<longleftrightarrow> (\<exists>es. under_way r m es \<and> emitted r (es @ [e]) em)"

lemma running_em_emit:
  "running_em r m em \<Longrightarrow> is_progress e \<Longrightarrow> event_run_id e = r \<Longrightarrow> running_em r m (emit e em)"
  unfolding running_em_def using under_way_snoc emitted_emit by blast

lemma closed_by_emit: "running_em r m em \<Longrightarrow> closed_by r m e (emit e em)"
  unfolding running_em_def closed_by_def using emitted_emit by blast

lemma closed_by_failed:
  "running_em r m em \<Longrightarrow> closed_by r m (RunFailed r (run_failure_from e)) (emit_failed e em)"
  unfolding running_em_def closed_by_def using emitted_failed by blast

section \<open>Judgements\<close>

definition holds_at ::
    "run_id \<Rightarrow> nat \<Rightarrow> ('w, 'a) run \<Rightarrow> ('a \<Rightarrow> 'w run_state \<Rightarrow> bool) \<Rightarrow> 'w run_state \<Rightarrow> bool" where
  "holds_at r m x Q st \<longleftrightarrow>
     (case x st of
        None \<Rightarrow> True
      | Some (Ok a, st') \<Rightarrow> Q a st'
      | Some (Err e, st') \<Rightarrow> closed_by r m (RunFailed r (run_failure_from e)) (rs_events st')
      | Some (Panic, st') \<Rightarrow> False)"

definition holds ::
    "run_id \<Rightarrow> nat \<Rightarrow> ('w, 'a) run \<Rightarrow> ('a \<Rightarrow> 'w run_state \<Rightarrow> bool) \<Rightarrow> bool" where
  "holds r m x Q \<longleftrightarrow> (\<forall>st. running_em r m (rs_events st) \<longrightarrow> holds_at r m x Q st)"

text \<open>The run is still under way afterwards.\<close>

definition steady :: "run_id \<Rightarrow> nat \<Rightarrow> ('w, 'a) run \<Rightarrow> ('a \<Rightarrow> bool) \<Rightarrow> bool" where
  "steady r m x Q \<longleftrightarrow> holds r m x (\<lambda>a st. running_em r m (rs_events st) \<and> Q a)"

lemma holds_conseq: "holds r m x Q \<Longrightarrow> (\<And>a st. Q a st \<Longrightarrow> R a st) \<Longrightarrow> holds r m x R"
  by (fastforce simp: holds_def holds_at_def split: option.splits prod.splits result.splits)

lemma holds_at_return: "Q a st \<Longrightarrow> holds_at r m (run_return a) Q st"
  by (simp add: holds_at_def run_return_def)

lemma holds_atI: "holds r m x Q \<Longrightarrow> running_em r m (rs_events st) \<Longrightarrow> holds_at r m x Q st"
  by (simp add: holds_def)

lemma holds_at_bind:
  assumes "holds_at r m x P st" and "\<And>a st'. P a st' \<Longrightarrow> holds_at r m (f a) Q st'"
  shows "holds_at r m (run_bind x f) Q st"
proof (cases "x st")
  case (Some y)
  obtain z st' where y: "y = (z, st')" by fastforce
  show ?thesis
    using assms(1) assms(2) [of _ st'] Some y by (cases z) (simp_all add: holds_at_def run_bind_def)
qed (simp add: holds_at_def run_bind_def)

lemma holds_bind_at:
  "holds r m x P \<Longrightarrow> (\<And>a st. P a st \<Longrightarrow> holds_at r m (f a) Q st) \<Longrightarrow> holds r m (run_bind x f) Q"
  unfolding holds_def using holds_at_bind by blast

lemma steady_conseq: "steady r m x Q \<Longrightarrow> (\<And>a. Q a \<Longrightarrow> R a) \<Longrightarrow> steady r m x R"
  unfolding steady_def by (erule holds_conseq) simp

lemma steady_any [run_rules]: "steady r m x Q \<Longrightarrow> steady r m x (\<lambda>_. True)"
  by (erule steady_conseq) simp

lemma steady_return [run_rules]: "Q a \<Longrightarrow> steady r m (run_return a) Q"
  by (simp add: steady_def holds_def holds_at_return)

lemma holds_return: "(\<And>st. running_em r m (rs_events st) \<Longrightarrow> Q a st) \<Longrightarrow> holds r m (run_return a) Q"
  by (simp add: holds_def holds_at_return)

lemma holds_bind:
  assumes "steady r m x P" and "\<And>a. P a \<Longrightarrow> holds r m (f a) Q"
  shows "holds r m (run_bind x f) Q"
  by (rule holds_bind_at [OF assms(1) [unfolded steady_def]]) (use assms(2) holds_atI in blast)

lemma steady_bind [run_rules]:
  "steady r m x P \<Longrightarrow> (\<And>a. P a \<Longrightarrow> steady r m (f a) Q) \<Longrightarrow> steady r m (run_bind x f) Q"
  unfolding steady_def [of r m "run_bind x f"] by (erule holds_bind) (simp add: steady_def)

lemma steady_emit [run_rules]:
  "is_progress e \<Longrightarrow> event_run_id e = r \<Longrightarrow> steady r m (run_emit e) (\<lambda>_. True)"
  by (simp add: steady_def holds_def holds_at_def run_emit_def running_em_emit)

lemma holds_fail: "holds r m (run_fail e) Q"
  by (simp add: holds_def holds_at_def run_fail_def closed_by_failed)

lemma steady_fail [run_rules]: "steady r m (run_fail e) Q"
  by (simp add: steady_def holds_fail)

lemma steady_or_fail:
  assumes "io_safe x" and "\<And>w a w'. x w = (Ok a, w') \<Longrightarrow> Q a"
  shows "steady r m (or_fail x) Q"
  using assms io_safeD [OF assms(1)]
  by (auto simp: steady_def holds_def holds_at_def or_fail_def run_fail_def closed_by_failed
      split: prod.splits result.splits)

lemma steady_world [run_rules]: "steady r m (run_world f) (\<lambda>_. True)"
  by (simp add: steady_def holds_def holds_at_def run_world_def split: prod.splits)

lemma steady_some: "x = Some a \<Longrightarrow> Q a \<Longrightarrow> steady r m (run_if_some x) Q"
  by (simp add: run_if_some_def steady_return)

lemma steady_when [run_rules]:
  "(b \<Longrightarrow> steady r m x (\<lambda>_. True)) \<Longrightarrow> steady r m (run_when b x) (\<lambda>_. True)"
  by (simp add: run_when_def steady_return)

lemma steady_retained [run_rules]: "steady r m run_retained (\<lambda>_. True)"
  by (simp add: steady_def holds_def holds_at_def run_retained_def)

lemma steady_for [run_rules]:
  "(\<And>x. x \<in> set xs \<Longrightarrow> steady r m (f x) (\<lambda>_. True)) \<Longrightarrow> steady r m (run_for f xs) (\<lambda>_. True)"
proof (induction xs)
  case (Cons x xs)
  show ?case
    unfolding run_for.simps by (rule steady_bind [OF Cons.prems]) (use Cons in \<open>simp_all\<close>)
qed (simp add: steady_return)

lemma steady_map:
  "(\<And>x. x \<in> set xs \<Longrightarrow> steady r m (f x) (Q x)) \<Longrightarrow>
     steady r m (run_map f xs) (\<lambda>ys. list_all2 Q xs ys)"
proof (induction xs)
  case (Cons x xs)
  have "steady r m (f x) (Q x)" "steady r m (run_map f xs) (\<lambda>ys. list_all2 Q xs ys)"
    using Cons by simp_all
  then show ?case by (auto intro!: steady_bind steady_return)
qed (simp add: steady_return)

lemma steady_emitter:
  assumes "\<And>em. running_em r m em \<Longrightarrow>
      (case f em of (Ok a, em') \<Rightarrow> running_em r m em' \<and> Q a | (Err e, em') \<Rightarrow> running_em r m em'
       | (Panic, em') \<Rightarrow> False)"
  shows "steady r m (run_emitter f) Q"
  using assms
  by (fastforce simp: steady_def holds_def holds_at_def run_emitter_def run_fail_def closed_by_failed
      split: prod.splits result.splits)

section \<open>Frontiers\<close>

text \<open>
  What a frontier looks like: distinct indices of items in increasing order that can be in one
  frontier, and, for one that is executed or saved, real nodes.
\<close>

definition frontier_items :: "('s, 'u, 'v, 'w) compiled_graph \<Rightarrow> nat list \<Rightarrow> bool" where
  "frontier_items g F \<longleftrightarrow>
     sorted_wrt (<) F \<and> (\<forall>i \<in> set F. i < length (cg_items g))
     \<and> (\<forall>i \<in> set F. \<forall>j \<in> set F. i \<noteq> j \<longrightarrow> together g i j)"

definition frontier_nodes :: "('s, 'u, 'v, 'w) compiled_graph \<Rightarrow> nat list \<Rightarrow> bool" where
  "frontier_nodes g F \<longleftrightarrow> frontier_items g F \<and> (\<forall>i \<in> set F. node_at g i \<noteq> None)"

definition graph_ok :: "('s, 'u, 'v, 'w) compiled_graph \<Rightarrow> bool" where
  "graph_ok g \<longleftrightarrow> compiled_wf g \<and> frontiers_plain g"

lemma built_graph_ok: "built dfs g \<Longrightarrow> dfs_correct dfs \<Longrightarrow> graph_ok g"
  by (simp add: graph_ok_def built_wf built_scheduling)

lemma graph_ok_item:
  assumes "graph_ok g" and "i < length (cg_items g)"
  shows "transition_indices (item_transition (cg_items g ! i)) \<subseteq> {..<length (cg_items g)}"
  using compiled_wf_item [of g i] assms by (simp add: graph_ok_def item_ok_def)

lemma frontier_items_Nil [simp]: "frontier_items g []"
  by (simp add: frontier_items_def)

lemma frontier_items_single: "i < length (cg_items g) \<Longrightarrow> frontier_items g [i]"
  by (simp add: frontier_items_def)

lemma together_nodes:
  assumes "graph_ok g" and "together g i j"
  obtains a b where "node_at g i = Some a" and "node_at g j = Some b"
    and "cn_graph_path a = cn_graph_path b"
proof -
  obtain a b where "i < length (cg_items g)" "j < length (cg_items g)"
    "cg_items g ! i = Node a" "cg_items g ! j = Node b" "cn_graph_path a = cn_graph_path b"
    using assms unfolding graph_ok_def frontiers_plain_def by blast
  then show thesis using that by (simp add: node_at_def)
qed

lemma frontier_items_many:
  assumes "graph_ok g" and "frontier_items g F" and "length F \<noteq> 1"
  shows "frontier_nodes g F"
proof -
  have "node_at g i \<noteq> None" if i: "i \<in> set F" for i
  proof -
    have "distinct F"
      using assms(2) strict_sorted_iff [of F] unfolding frontier_items_def by blast
    moreover obtain x y ys where "F = x # y # ys"
      using i assms(3) by (cases F; cases "tl F") auto
    ultimately have "\<exists>j \<in> set F. i \<noteq> j" by (cases "i = x") auto
    then obtain j where "together g i j" using assms(2) i by (auto simp: frontier_items_def)
    then show ?thesis by (rule together_nodes [OF assms(1)]) simp
  qed
  then show ?thesis using assms(2) by (simp add: frontier_nodes_def)
qed

lemma scope_exit_bound:
  "graph_ok g \<Longrightarrow> map_of (cg_scope_exits g) p = Some i \<Longrightarrow> i < length (cg_items g)"
  using compiled_wf_exit [of g p i] by (simp add: graph_ok_def)

lemma frontier_items_exit:
  "graph_ok g \<Longrightarrow> frontier_items g (option_list (map_of (cg_scope_exits g) p))"
  using scope_exit_bound [of g p]
  by (cases "map_of (cg_scope_exits g) p") (simp_all add: frontier_items_single)

section \<open>Resolving transitions\<close>

text \<open>Two targets of one transition are together.\<close>

lemma resolve_into_fan:
  assumes "resolve_into tr s gp [] pa = Ok (d, ts)" and "i \<in> set ts" "j \<in> set ts" "i \<noteq> j"
  shows "i \<in> fan_targets tr \<and> j \<in> fan_targets tr"
proof (cases tr)
  case (ConditionalFanOut router allowed)
  then show ?thesis using resolve_into_targets [OF assms(1)] assms(2,3) by auto
qed (use assms in \<open>auto simp: resolve_into_def split: sum.splits option.splits\<close>)

lemma running_em_route:
  "running_em r m em \<Longrightarrow> running_em r m (emit_route r p step d em)"
  by (cases d) (auto simp: emit_route_def route_event_def intro!: running_em_emit
      split: route_decision.splits)

lemma resolve_transition_spec:
  assumes "graph_ok g" and "k < length (cg_items g)" and "tr = item_transition (cg_items g ! k)"
    and "running_em r m em"
  shows "case resolve_transition g r tr s gp p step targets em of
      (Ok targets', em') \<Rightarrow> running_em r m em'
        \<and> (\<exists>new. targets' = targets @ new \<and> set new \<subseteq> transition_indices tr
             \<and> (\<forall>i \<in> set new. \<forall>j \<in> set new. i \<noteq> j \<longrightarrow> together g i j))
    | (Err e, em') \<Rightarrow> running_em r m em'
    | (Panic, em') \<Rightarrow> False"
proof -
  have np: "resolve_into tr s gp ts (path_at g) \<noteq> Panic" for ts
  proof (rule resolve_into_no_panic)
    show "\<forall>i \<in> transition_indices tr. path_at g i \<noteq> None"
      using graph_ok_item [OF assms(1,2)] assms(3) path_at_wf [of g] assms(1)
      by (auto simp: graph_ok_def)
  qed
  show ?thesis
  proof (cases "resolve_into tr s gp targets (path_at g)")
    case (Ok x)
    obtain d ts where x: "x = (d, ts)" by fastforce
    obtain new where new: "ts = targets @ new" "set new \<subseteq> transition_indices tr"
      using resolve_into_targets [OF Ok [unfolded x]] by blast
    have nil: "resolve_into tr s gp [] (path_at g) = Ok (d, new)"
      using Ok x new(1)
      by (auto simp: resolve_into_def Let_def split: compiled_transition.splits sum.splits
          option.splits if_splits)
    have "together g i j" if "i \<in> set new" "j \<in> set new" "i \<noteq> j" for i j
      using resolve_into_fan [OF nil that] together_fan [OF assms(2)] assms(3) that(3) by blast
    then show ?thesis
      using new Ok x assms(4) by (simp add: resolve_transition_def running_em_route)
  qed (use np assms(4) in \<open>simp_all add: resolve_transition_def\<close>)
qed

section \<open>Subgraph boundaries\<close>

lemma frontier_items_routed:
  "set new \<subseteq> {..<length (cg_items g)} \<Longrightarrow>
     \<forall>i \<in> set new. \<forall>j \<in> set new. i \<noteq> j \<longrightarrow> together g i j \<Longrightarrow> frontier_items g (sort_dedup new)"
  by (auto simp: frontier_items_def)

lemma normalize_turn_spec:
  assumes "graph_ok g" and "frontier_items g F" and "running_em r m em"
  shows "case normalize_turn g r s step F em of
      (Stop (Ok u), em') \<Rightarrow> em' = em \<and> frontier_nodes g F
    | (Stop (Err e), em') \<Rightarrow> running_em r m em'
    | (Stop Panic, em') \<Rightarrow> False
    | (Cross b F', em') \<Rightarrow> running_em r m em' \<and> frontier_items g F'"
proof (cases "length F = 1")
  case False
  then have "normalize_turn g r s step F em = (Stop (Ok ()), em)"
    by (auto simp: normalize_turn_def split: list.splits)
  then show ?thesis using frontier_items_many [OF assms(1,2) False] by simp
next
  case True
  then obtain i where F: "F = [i]" by (cases F) auto
  then have i: "i < length (cg_items g)" using assms(2) by (simp add: frontier_items_def)
  have item: "item_ok (length (cg_items g)) (cg_items g ! i)"
    using assms(1) i compiled_wf_item by (auto simp: graph_ok_def)
  have bound: "transition_indices (item_transition (cg_items g ! i)) \<subseteq> {..<length (cg_items g)}"
    by (rule graph_ok_item [OF assms(1) i])
  show ?thesis
  proof (cases "cg_items g ! i")
    case (Node nd)
    then show ?thesis
      using i assms(2) F by (simp add: normalize_turn_def frontier_nodes_def node_at_def)
  next
    case (EnterSubgraph gp tr)
    then obtain e where tr: "tr = Fixed (Some e)" using item by (auto simp: item_ok_def)
    then have e: "e < length (cg_items g)" using bound EnterSubgraph by simp
    obtain mount where mount: "graph_path_mount_path gp = Some mount"
      using item EnterSubgraph
      by (auto simp: item_ok_def graph_path_mount_path_def graph_path_is_root_def)
    have "resolve_transition g r tr s q mount step [] em = (Ok [e], em)" for q
      by (simp add: resolve_transition_def resolve_into_def tr emit_route_def)
    then show ?thesis
      using F i EnterSubgraph mount assms(3) e
      by (simp add: normalize_turn_def frontier_items_single)
  next
    case (ExitSubgraph gp mount tr)
    let ?res = "resolve_transition g r tr s (node_path_graph_path mount) mount step [] em"
    have "case ?res of
        (Ok ts, em') \<Rightarrow> running_em r m em' \<and> set ts \<subseteq> {..<length (cg_items g)}
          \<and> (\<forall>i \<in> set ts. \<forall>j \<in> set ts. i \<noteq> j \<longrightarrow> together g i j)
      | (Err e, em') \<Rightarrow> running_em r m em' | (Panic, em') \<Rightarrow> False"
      using resolve_transition_spec [OF assms(1) i _ assms(3), where tr = tr and s = s
          and gp = "node_path_graph_path mount" and p = mount and step = step and targets = "[]"]
        ExitSubgraph bound
      by (auto split: prod.splits result.splits)
    then show ?thesis
      using F i ExitSubgraph frontier_items_routed frontier_items_exit [OF assms(1)]
      by (auto simp: normalize_turn_def split: prod.splits result.splits)
  qed
qed

lemma normalize_frontier_spec:
  assumes "normalize_frontier g r s step bs F em = Some y" and "graph_ok g"
    and "frontier_items g F" and "running_em r m em"
  shows "case y of
      (Ok (bs', F'), em') \<Rightarrow> running_em r m em' \<and> frontier_nodes g F'
    | (Err e, em') \<Rightarrow> running_em r m em'
    | (Panic, em') \<Rightarrow> False"
  using assms(2-)
proof (induction rule: normalize_frontier.raw_induct [OF _ assms(1)])
  case (1 nf g r s step bs F em y)
  note turn = normalize_turn_spec [OF "1.prems", where s = s and step = step]
  show ?case
  proof (cases "normalize_turn g r s step F em")
    case (Pair t em1)
    show ?thesis
    proof (cases t)
      case (Stop x)
      then show ?thesis
        using "1"(2) turn Pair "1.prems" by (cases x) auto
    next
      case (Cross b F')
      then have "nf g r s step (bs @ [b]) F' em1 = Some y" using "1"(2) Pair by simp
      from "1"(1) [OF this "1.prems"(1)] show ?thesis using turn Pair Cross by simp
    qed
  qed
qed

lemma steady_normalize:
  assumes "graph_ok (iv_graph iv)" and "frontier_items (iv_graph iv) F"
  shows "steady (iv_run_id iv) m (run_normalize iv s step F)
    (\<lambda>(bs, F'). frontier_nodes (iv_graph iv) F')"
  unfolding steady_def holds_def
proof (intro allI impI)
  fix st :: "'d run_state" assume st: "running_em (iv_run_id iv) m (rs_events st)"
  show "holds_at (iv_run_id iv) m (run_normalize iv s step F)
      (\<lambda>a st. running_em (iv_run_id iv) m (rs_events st)
        \<and> (case a of (bs, F') \<Rightarrow> frontier_nodes (iv_graph iv) F')) st"
  proof (cases "normalize_frontier (iv_graph iv) (iv_run_id iv) s step [] F (rs_events st)")
    case (Some y)
    then show ?thesis
      using normalize_frontier_spec [OF Some assms st]
      by (auto simp: holds_at_def run_normalize_def run_emitter_def run_fail_def closed_by_failed
          split: prod.splits result.splits)
  qed (simp add: holds_at_def run_normalize_def)
qed

end
