(* ===== verification/RunSafety.thy ===== *)
theory RunSafety
  imports RunLogic
begin

text \<open>
  Safety of the super-step loop, for any checkpoint behaviour that keeps the contract of
  \<open>RuntimeCheckpoint\<close> (the locale \<open>checkpointing\<close>): a run on a compiled graph never panics, the
  frontier always consists of real nodes of one namespace, the step budget is kept, and the event
  log is closed by exactly the event that matches the outcome.
\<close>

section \<open>Steps of a super-step that need no contract\<close>

definition invocation_ok :: "('s, 'u, 'v, 'c, 'w) invocation \<Rightarrow> bool" where
  "invocation_ok iv \<longleftrightarrow> graph_ok (iv_graph iv) \<and> control_wf (iv_control iv)"

lemma steady_check:
  "control_wf ac \<Longrightarrow> node_deadline_ok ac node nd \<Longrightarrow>
     steady r m (run_check env ac r' node step nd) (\<lambda>_. True)"
  unfolding run_check_def by (rule steady_or_fail) (auto intro: io_safe_check)

lemma steady_guard [run_rules]:
  "invocation_ok iv \<Longrightarrow> node_deadline_ok (iv_control iv) node nd \<Longrightarrow>
     steady r m (guard iv node step nd) (\<lambda>_. True)"
  by (simp add: guard_def invocation_ok_def steady_check)

lemma steady_get_node:
  "node_at (iv_graph iv) i = Some nd \<Longrightarrow> steady r m (get_node iv i) (\<lambda>n. n = nd)"
  by (simp add: get_node_def steady_some)

definition frontier_paths :: "('s, 'u, 'v, 'w) compiled_graph \<Rightarrow> nat list \<Rightarrow> node_path list" where
  "frontier_paths g F = map (\<lambda>i. cn_path (the (node_at g i))) F"

lemma length_frontier_paths [simp]: "length (frontier_paths g F) = length F"
  by (simp add: frontier_paths_def)

lemma steady_node_paths:
  assumes "\<forall>i \<in> set F. node_at (iv_graph iv) i \<noteq> None"
  shows "steady r m (node_paths_of iv F) (\<lambda>ps. ps = frontier_paths (iv_graph iv) F)"
proof -
  have "steady r m (node_paths_of iv F)
      (\<lambda>ps. list_all2 (\<lambda>i p. p = cn_path (the (node_at (iv_graph iv) i))) F ps)"
    unfolding node_paths_of_def
  proof (rule steady_map)
    fix i assume "i \<in> set F"
    then obtain nd where "node_at (iv_graph iv) i = Some nd" using assms by blast
    then show "steady r m (run_bind (get_node iv i) (\<lambda>n. run_return (cn_path n)))
        (\<lambda>p. p = cn_path (the (node_at (iv_graph iv) i)))"
      by (intro steady_bind [OF steady_get_node] steady_return) auto
  qed
  then show ?thesis
    by (rule steady_conseq) (auto simp: frontier_paths_def list_all2_conv_all_nth intro: nth_equalityI)
qed

lemma close_run:
  "holds r m (run_bind (run_emit e) (\<lambda>_. run_bind run_retained (\<lambda>es. run_return (F es))))
     (\<lambda>a st. closed_by r m e (rs_events st) \<and> a = F (em_retained (rs_events st)))"
  by (simp add: holds_def holds_at_def run_bind_def run_emit_def run_retained_def run_return_def closed_by_emit)

lemma steady_begin_superstep:
  assumes "invocation_ok iv" and "frontier_nodes (iv_graph iv) (ex_frontier ex)"
    and "ex_frontier ex \<noteq> []"
  shows "steady (iv_run_id iv) m (begin_superstep iv limit ex)
    (\<lambda>first. node_at (iv_graph iv) (hd (ex_frontier ex)) = Some first
       \<and> length (ex_frontier ex) \<le> limit - ex_steps ex)"
proof -
  let ?F = "ex_frontier ex" and ?n = "limit - ex_steps ex"
  have at: "\<forall>i \<in> set ?F. node_at (iv_graph iv) i \<noteq> None"
    using assms(2) by (simp add: frontier_nodes_def)
  obtain first where first: "node_at (iv_graph iv) (hd ?F) = Some first"
    using at assms(3) by (meson hd_in_set not_Some_eq)
  show ?thesis
  proof (cases "length ?F > ?n")
    case True
    then obtain b where "node_at (iv_graph iv) (?F ! ?n) = Some b"
      using at by (meson nth_mem not_Some_eq)
    then show ?thesis
      using True first assms(1) unfolding begin_superstep_def Let_def
      by (intro steady_bind [OF steady_get_node] steady_bind [OF steady_guard])
        (auto intro!: steady_bind [OF steady_get_node] steady_fail)
  next
    case False
    then show ?thesis
      using first assms(1) unfolding begin_superstep_def Let_def
      by (intro steady_bind [OF steady_get_node] steady_bind [OF steady_guard])
        (auto intro!: steady_bind [OF steady_when] steady_bind [OF steady_node_paths [OF at]]
          steady_emit steady_return)
  qed
qed

lemma steady_start_node:
  assumes "invocation_ok iv" and "node_at (iv_graph iv) (snd x) \<noteq> None"
  shows "steady (iv_run_id iv) m (start_node iv ex x)
    (\<lambda>(ctx, nd). \<forall>p. node_deadline_ok (iv_control iv) (Some p) nd)"
proof -
  obtain node where "node_at (iv_graph iv) (snd x) = Some node" using assms(2) by blast
  then show ?thesis
    using assms(1) unfolding start_node_def
    by (cases x) (auto simp: Let_def intro!: steady_bind [OF steady_get_node]
        steady_bind [OF steady_guard] steady_bind [OF steady_world] steady_bind [OF steady_emit]
        steady_return)
qed

lemma steady_execute_node:
  assumes "invocation_ok iv" and "\<forall>p. node_deadline_ok (iv_control iv) (Some p) nd"
  shows "steady r m (or_fail (execute_node env (iv_control iv) r' node s ctx nd)) (\<lambda>_. True)"
  using assms by (intro steady_or_fail io_safe_execute_node) (auto simp: invocation_ok_def)

lemma steady_state_updated:
  assumes "invocation_ok iv" and "node_at (iv_graph iv) (snd x) \<noteq> None"
  shows "steady (iv_run_id iv) m (state_updated iv ex x) (\<lambda>_. True)"
proof -
  obtain node where "node_at (iv_graph iv) (snd x) = Some node" using assms(2) by blast
  then show ?thesis
    using assms(1) unfolding state_updated_def
    by (cases x) (auto simp: Let_def intro!: steady_bind [OF steady_get_node]
        steady_bind [OF steady_emit] steady_guard)
qed

section \<open>Routing keeps frontiers plain\<close>

text \<open>Targets that were routed from the nodes in \<open>D\<close>.\<close>

definition routed_from :: "('s, 'u, 'v, 'w) compiled_graph \<Rightarrow> nat set \<Rightarrow> nat list \<Rightarrow> bool" where
  "routed_from g D ts \<longleftrightarrow>
     (\<forall>i \<in> set ts. \<exists>a \<in> D. i \<in> transition_indices (item_transition (cg_items g ! a)))
     \<and> (\<forall>i \<in> set ts. \<forall>j \<in> set ts. i \<noteq> j \<longrightarrow> together g i j)"

lemma routed_from_step:
  assumes "routed_from g D ts" and D: "\<forall>b \<in> D. together g a b \<and> together g b a"
    and ok: "graph_ok g" and a: "a < length (cg_items g)"
    and new: "set new \<subseteq> transition_indices (item_transition (cg_items g ! a))"
    and fan: "\<forall>i \<in> set new. \<forall>j \<in> set new. i \<noteq> j \<longrightarrow> together g i j"
  shows "routed_from g (insert a D) (ts @ new)"
proof -
  have cross: "together g i j \<and> together g j i" if "i \<in> set ts" "j \<in> set new" "i \<noteq> j" for i j
  proof -
    obtain b where b: "b \<in> D" "i \<in> transition_indices (item_transition (cg_items g ! b))"
      using assms(1) \<open>i \<in> set ts\<close> by (auto simp: routed_from_def)
    have "b < length (cg_items g)"
      using D b(1) ok unfolding graph_ok_def frontiers_plain_def by blast
    moreover have "j \<in> transition_indices (item_transition (cg_items g ! a))"
      using new that(2) by blast
    ultimately show ?thesis
      using together_step [of g b a i j] together_step [of g a b j i] D b a that(3) by auto
  qed
  show ?thesis
    unfolding routed_from_def
  proof (intro conjI ballI impI)
    fix i assume "i \<in> set (ts @ new)"
    then show "\<exists>b \<in> insert a D. i \<in> transition_indices (item_transition (cg_items g ! b))"
      using assms(1) new by (auto simp: routed_from_def)
  next
    fix i j assume "i \<in> set (ts @ new)" "j \<in> set (ts @ new)" "i \<noteq> j"
    then show "together g i j"
      using assms(1) fan cross [of i j] cross [of j i] by (auto simp: routed_from_def)
  qed
qed

lemma steady_route_nodes:
  assumes "invocation_ok iv" and "frontier_nodes (iv_graph iv) F"
    and "snd ` set xs \<subseteq> set F" and "distinct (map snd xs)" and "D \<subseteq> set F"
    and "D \<inter> snd ` set xs = {}" and "routed_from (iv_graph iv) D targets"
  shows "steady (iv_run_id iv) m (route_nodes iv base s xs targets)
    (\<lambda>ts. routed_from (iv_graph iv) (set F) ts)"
  using assms(3-)
proof (induction xs arbitrary: D targets)
  case Nil
  then have "routed_from (iv_graph iv) (set F) targets" by (fastforce simp: routed_from_def)
  then show ?case by (simp add: steady_return)
next
  case (Cons x xs)
  let ?g = "iv_graph iv"
  obtain off a where x: "x = (off, a)" by fastforce
  have aF: "a \<in> set F" and aD: "a \<notin> D" using Cons.prems x by auto
  have ok: "graph_ok ?g" using assms(1) by (simp add: invocation_ok_def)
  obtain nd where at: "node_at ?g a = Some nd" using assms(2) aF unfolding frontier_nodes_def by blast
  then have nd: "a < length (cg_items ?g)" "cg_items ?g ! a = Node nd"
    by (simp_all add: node_at_Some)
  have D: "\<forall>b \<in> D. together ?g a b \<and> together ?g b a"
  proof
    fix b assume "b \<in> D"
    then have b: "b \<in> set F" "a \<noteq> b" using Cons.prems(3) aD by auto
    have "\<forall>i \<in> set F. \<forall>j \<in> set F. i \<noteq> j \<longrightarrow> together ?g i j"
      using assms(2) by (simp add: frontier_nodes_def frontier_items_def)
    then show "together ?g a b \<and> together ?g b a" using aF b by simp
  qed
  have resolve: "steady (iv_run_id iv) m (run_emitter (resolve_transition ?g (iv_run_id iv)
      (cn_transition nd) s gp p step targets)) (\<lambda>ts. routed_from ?g (insert a D) ts)" for gp p step
  proof (rule steady_emitter)
    fix em assume "running_em (iv_run_id iv) m em"
    from resolve_transition_spec [OF ok nd(1) _ this, where tr = "cn_transition nd" and s = s
        and gp = gp and p = p and step = step and targets = targets]
    have res: "case resolve_transition ?g (iv_run_id iv) (cn_transition nd) s gp p step targets em of
        (Ok ts, em') \<Rightarrow> running_em (iv_run_id iv) m em' \<and> (\<exists>new. ts = targets @ new
          \<and> set new \<subseteq> transition_indices (cn_transition nd)
          \<and> (\<forall>i \<in> set new. \<forall>j \<in> set new. i \<noteq> j \<longrightarrow> together ?g i j))
      | (Err e, em') \<Rightarrow> running_em (iv_run_id iv) m em' | (Panic, em') \<Rightarrow> False"
      using nd(2) by simp
    have routed: "routed_from ?g (insert a D) (targets @ new)"
      if "set new \<subseteq> transition_indices (cn_transition nd)"
        "\<forall>i \<in> set new. \<forall>j \<in> set new. i \<noteq> j \<longrightarrow> together ?g i j" for new
      using routed_from_step [OF Cons.prems(5) D ok nd(1)] that nd(2) by simp
    obtain x em' where eq: "resolve_transition ?g (iv_run_id iv) (cn_transition nd) s gp p step
        targets em = (x, em')" by fastforce
    show "case resolve_transition ?g (iv_run_id iv) (cn_transition nd) s gp p step targets em of
        (Ok ts, em') \<Rightarrow> running_em (iv_run_id iv) m em' \<and> routed_from ?g (insert a D) ts
      | (Err e, em') \<Rightarrow> running_em (iv_run_id iv) m em' | (Panic, em') \<Rightarrow> False"
      using res routed unfolding eq by (cases x) auto
  qed
  have rest: "steady (iv_run_id iv) m (route_nodes iv base s xs ts)
      (\<lambda>ts. routed_from ?g (set F) ts)" if "routed_from ?g (insert a D) ts" for ts
    by (rule Cons.IH [OF _ _ _ _ that]) (use Cons.prems x in auto)
  show ?case
    unfolding x route_nodes.simps
    by (rule steady_bind [OF steady_get_node [OF at]], simp,
        rule steady_bind [OF resolve], rule steady_bind [OF steady_guard [OF assms(1)]])
      (simp_all add: rest)
qed

lemma enumerate_facts:
  "snd ` set (enumerate n xs) = set xs" "map snd (enumerate n xs) = xs"
  by (metis map_snd_enumerate set_map) simp

lemma frontier_nodes_distinct: "frontier_nodes g F \<Longrightarrow> distinct F"
  using strict_sorted_iff [of F] by (simp add: frontier_nodes_def frontier_items_def)

lemma steady_next_frontier:
  assumes "invocation_ok iv" and "frontier_nodes (iv_graph iv) (ex_frontier ex)"
  shows "steady (iv_run_id iv) m (next_frontier iv ex first s)
    (\<lambda>(bs, F). frontier_nodes (iv_graph iv) F)"
proof -
  let ?g = "iv_graph iv" and ?F = "ex_frontier ex"
  have ok: "graph_ok ?g" using assms(1) by (simp add: invocation_ok_def)
  have route: "steady (iv_run_id iv) m (route_nodes iv (ex_steps ex) s (enumerate 0 ?F) [])
      (\<lambda>ts. routed_from ?g (set ?F) ts)"
    by (rule steady_route_nodes [OF assms, of _ "{}"])
      (simp_all add: enumerate_facts frontier_nodes_distinct [OF assms(2)] routed_from_def)
  have "frontier_items ?g (if sort_dedup ts = []
      then option_list (map_of (cg_scope_exits ?g) (cn_graph_path first)) else sort_dedup ts)"
    if ts: "routed_from ?g (set ?F) ts" for ts
  proof -
    have "set ts \<subseteq> {..<length (cg_items ?g)}"
    proof
      fix i assume "i \<in> set ts"
      then obtain a where "a \<in> set ?F" "i \<in> transition_indices (item_transition (cg_items ?g ! a))"
        using ts by (auto simp: routed_from_def)
      then show "i \<in> {..<length (cg_items ?g)}"
        using graph_ok_item [OF ok, of a] assms(2)
        by (auto simp: frontier_nodes_def frontier_items_def)
    qed
    then show ?thesis
      using frontier_items_routed [of ts ?g] frontier_items_exit [OF ok] ts
      by (simp add: routed_from_def)
  qed
  then show ?thesis
    unfolding next_frontier_def Let_def
    by (intro steady_bind [OF route] steady_normalize [OF ok]) simp
qed

section \<open>The contract of the checkpoint behaviour\<close>

text \<open>
  The boundaries of a run on \<open>g\<close>: the paths of a frontier, completed when there is none, and a
  suspended node alone.
\<close>

definition boundary_ok ::
    "('s, 'u, 'v, 'w) compiled_graph \<Rightarrow> 'v checkpoint_boundary \<Rightarrow> bool" where
  "boundary_ok g b \<longleftrightarrow>
     (\<exists>F. frontier_nodes g F \<and> cb_next_frontier b = frontier_paths g F
        \<and> cb_completed b = (F = []))
     \<and> (\<forall>i. cb_interrupt b = Some i \<longrightarrow> cb_next_frontier b = [ci_node_path i])"

lemma boundary_ok_frontier:
  "frontier_nodes g F \<Longrightarrow> boundary_ok g (boundary_new ss s (frontier_paths g F) (F = []) None)"
  by (auto simp: boundary_ok_def boundary_new_def)

lemma boundary_ok_suspended:
  assumes "node_at g i = Some node"
  shows "boundary_ok g (boundary_new ss s [cn_path node] False
    (Some (interrupt_into_checkpoint req (cn_path node))))"
  unfolding boundary_ok_def
proof (intro conjI exI)
  show "frontier_nodes g [i]"
    using assms by (simp add: frontier_nodes_def frontier_items_single node_at_Some)
qed (use assms in \<open>simp_all add: frontier_paths_def boundary_new_def interrupt_into_checkpoint_def\<close>)

definition served ::
    "('s, 'u, 'v, 'w) compiled_graph \<Rightarrow> ('s, 'v, 'c, 'w) runtime_checkpoint
      \<Rightarrow> ('s, 'u, 'v, 'c, 'w) invocation \<Rightarrow> bool" where
  "served g rk iv \<longleftrightarrow> iv_checkpoints iv = rk \<and> iv_graph iv = g"

lemma served_eqs: "served g rk iv \<Longrightarrow> iv_checkpoints iv = rk" "served g rk iv \<Longrightarrow> iv_graph iv = g"
  by (simp_all add: served_def)

text \<open>
  A parallel interrupt is always rejected, and saving a boundary of the graph does not panic when
  it can be reached.
\<close>

locale checkpointing =
  fixes g :: "('s, 'u, 'v, 'w) compiled_graph" and rk :: "('s, 'v, 'c, 'w) runtime_checkpoint"
  assumes parallel_rejected: "rk_interrupt_error rk r i node step True \<noteq> None"
    and boundary_save_safe: "rk_should_save rk completed \<Longrightarrow> boundary_ok g b \<Longrightarrow>
      io_safe (rk_save rk r' s b c)"
    and interrupt_save_safe: "rk_interrupt_error rk r i node step False = None \<Longrightarrow>
      boundary_ok g b \<Longrightarrow> io_safe (rk_save rk r' s b c)"

text \<open>What is true when the run stops with a result.\<close>

definition halted_ok ::
    "run_id \<Rightarrow> nat \<Rightarrow> ('s, 'v) interrupt_report \<Rightarrow> event_emitter \<Rightarrow> bool" where
  "halted_ok r m rep em \<longleftrightarrow>
     closed_by r m (RunInterrupted r (ci_id (it_interrupt rep)) (it_checkpoint_id rep)
       (it_thread_id rep) (ci_node_path (it_interrupt rep)) (it_superstep rep) (it_steps rep)) em
     \<and> it_events rep = em_retained em \<and> it_run_id rep = r"

definition commit_ok ::
    "run_id \<Rightarrow> nat \<Rightarrow> ('s, 'v, 'c) execution \<Rightarrow> ('s, 'v) commit \<Rightarrow> 'w run_state \<Rightarrow> bool" where
  "commit_ok r m ex c st \<longleftrightarrow>
     (case c of
        Committed s \<Rightarrow> running_em r m (rs_events st)
      | Suspended rep \<Rightarrow> halted_ok r m rep (rs_events st) \<and> it_steps rep = ex_steps ex
          \<and> length (it_visited_nodes rep) = Suc (length (ex_visited_nodes ex)))"

lemma holds_steady: "steady r m x Q \<Longrightarrow> (\<And>a st. running_em r m (rs_events st) \<Longrightarrow> Q a \<Longrightarrow> R a st) \<Longrightarrow>
    holds r m x R"
  unfolding steady_def by (erule holds_conseq) blast

context checkpointing
begin

lemma holds_suspend:
  fixes iv :: "('s, 'u, 'v, 'c, 'w) invocation"
  assumes "invocation_ok iv" and "served g rk iv" and "node_at (iv_graph iv) i = Some node"
  shows "holds (iv_run_id iv) m (suspend iv ex node superstep step req)
    (commit_ok (iv_run_id iv) m ex)"
proof -
  note rk = served_eqs(1) [OF assms(2)]
  let ?r = "iv_run_id iv" and ?i = "ci_id (interrupt_into_checkpoint req (cn_path node))"
  show ?thesis
  proof (cases "rk_interrupt_error rk ?r ?i (cn_path node) step False")
    case (Some e)
    then show ?thesis
      unfolding suspend_def Let_def rk
      by (intro holds_bind [OF steady_emit]) (simp_all add: holds_fail)
  next
    case None
    have save: "steady ?r m (or_fail (await_run_boundary (iv_env iv) (iv_control iv) ?r base
        (rk_save rk ?r s (boundary_new ss base [cn_path node] False
          (Some (interrupt_into_checkpoint req (cn_path node)))) c))) (\<lambda>_. True)" for base s ss c
      by (intro steady_or_fail io_safe_await_run_boundary interrupt_save_safe [OF None]
          boundary_ok_suspended [of g i]) (use assms in \<open>simp_all add: invocation_ok_def served_def\<close>)
    show ?thesis
      using None assms(1) unfolding suspend_def Let_def rk
      by (auto intro!: holds_bind [OF steady_emit]
          holds_bind [OF save [unfolded interrupt_into_checkpoint_def]]
          holds_bind [OF steady_guard] holds_conseq [OF close_run]
          simp: commit_ok_def halted_ok_def interrupt_into_checkpoint_def)
  qed
qed

lemma holds_run_single:
  fixes iv :: "('s, 'u, 'v, 'c, 'w) invocation"
  assumes "invocation_ok iv" and "served g rk iv"
    and "node_at (iv_graph iv) (hd (ex_frontier ex)) = Some first"
  shows "holds (iv_run_id iv) m (run_single iv ex first) (commit_ok (iv_run_id iv) m ex)"
proof -
  have commit: "holds (iv_run_id iv) m (case apply_update (iv_ops iv) (ex_state ex) u of
      Inl e \<Rightarrow> run_fail (f e) | Inr s \<Rightarrow> run_return (Committed s)) (commit_ok (iv_run_id iv) m ex)" for u f
    by (cases "apply_update (iv_ops iv) (ex_state ex) u")
      (simp_all add: holds_fail holds_return commit_ok_def)
  have rest: "holds (iv_run_id iv) m (case outcome of
      Interrupt req \<Rightarrow> suspend iv ex first superstep step req
    | Update u \<Rightarrow>
        run_bind (run_emit (NodeCompleted (iv_run_id iv) (cn_path first) step)) (\<lambda>_.
        run_bind (guard iv (Some (cn_path first)) step None) (\<lambda>_.
        run_bind (guard iv (Some (cn_path first)) step None) (\<lambda>_.
          (case apply_update (iv_ops iv) (ex_state ex) u of
             Inl e \<Rightarrow> run_fail (graph_run_error.StateUpdateFailed (cn_path first) step e)
           | Inr s \<Rightarrow> run_return (Committed s))))))
      (commit_ok (iv_run_id iv) m ex)" for outcome superstep step
    using assms(1)
    by (cases outcome) (auto intro!: holds_suspend [OF assms] holds_bind [OF steady_emit]
        holds_bind [OF steady_guard] commit)
  show ?thesis
    unfolding run_single_def Let_def
    by (intro holds_bind [OF steady_start_node [OF assms(1)]])
      (auto simp: assms(3) intro!: holds_bind [OF steady_execute_node [OF assms(1)]] rest)
qed

lemma steady_finish_node:
  fixes iv :: "('s, 'u, 'v, 'c, 'w) invocation"
  assumes "invocation_ok iv" and "served g rk iv"
    and "node_at (iv_graph iv) (snd (fst x)) \<noteq> None"
    and "\<forall>p. node_deadline_ok (iv_control iv) (Some p) (snd (snd x))"
  shows "steady (iv_run_id iv) m (finish_node iv ex x) (\<lambda>_. True)"
proof -
  obtain off index ctx nd where x: "x = ((off, index), ctx, nd)" by (metis prod.exhaust)
  obtain node where node: "node_at (iv_graph iv) index = Some node" using assms(3) x by auto
  have "steady (iv_run_id iv) m (run_bind (run_if_some (rk_interrupt_error rk r i p step True)) run_fail)
      (\<lambda>_. True)" for r i p step
    using parallel_rejected [of r i p step]
    by (cases "rk_interrupt_error rk r i p step True")
      (auto intro!: steady_bind [OF steady_some] steady_fail)
  then show ?thesis
    using assms(1,4) served_eqs(1) [OF assms(2)] node unfolding finish_node_def x
    by (auto simp: Let_def intro!: steady_bind [OF steady_get_node]
        steady_bind [OF steady_execute_node] steady_bind [OF steady_emit]
        steady_bind [OF steady_guard] steady_return split: node_outcome.splits)
qed

lemma steady_collect_updates:
  fixes iv :: "('s, 'u, 'v, 'c, 'w) invocation"
  assumes "invocation_ok iv" and "served g rk iv"
    and "\<forall>x \<in> set pending. node_at (iv_graph iv) (snd (fst x)) \<noteq> None
      \<and> (\<forall>p. node_deadline_ok (iv_control iv) (Some p) (snd (snd x)))"
    and "\<forall>k < length slots. slots ! k = None \<longrightarrow> k \<in> (fst \<circ> fst) ` set pending"
  shows "steady (iv_run_id iv) m (collect_updates iv ex pending slots)
    (\<lambda>ys. length ys = length slots \<and> None \<notin> set ys)"
  using assms(3,4)
proof (induction pending arbitrary: slots rule: measure_induct_rule [where f = length])
  case (less pending)
  show ?case
  proof (cases "pending = []")
    case True
    then have "None \<notin> set slots" using less.prems(2) by (auto simp: in_set_conv_nth)
    then show ?thesis
      using True by (subst collect_updates.simps) (simp add: steady_return)
  next
    case False
    have step: "steady (iv_run_id iv) m (run_bind (finish_node iv ex (pending ! i)) (\<lambda>u.
          collect_updates iv ex (remove_nth i pending) (slots[fst (fst (pending ! i)) := Some u])))
        (\<lambda>ys. length ys = length slots \<and> None \<notin> set ys)" if i: "i < length pending" for i
    proof (rule steady_bind [OF steady_finish_node [OF assms(1,2)]])
      let ?k = "fst (fst (pending ! i))"
      show "node_at (iv_graph iv) (snd (fst (pending ! i))) \<noteq> None"
        "\<forall>p. node_deadline_ok (iv_control iv) (Some p) (snd (snd (pending ! i)))"
        using less.prems(1) i by simp_all
      fix u
      have split: "set pending = insert (pending ! i) (set (remove_nth i pending))"
        using i by (metis Cons_nth_drop_Suc append_take_drop_id list.simps(15) remove_nth_def
            set_append sup_commute Un_insert_right)
      have sub: "set (remove_nth i pending) \<subseteq> set pending" using split by auto
      have "steady (iv_run_id iv) m
          (collect_updates iv ex (remove_nth i pending) (slots[?k := Some u]))
          (\<lambda>ys. length ys = length (slots[?k := Some u]) \<and> None \<notin> set ys)"
      proof (rule less.IH)
        show "length (remove_nth i pending) < length pending" by (rule length_remove_nth [OF i])
        show "\<forall>x \<in> set (remove_nth i pending). node_at (iv_graph iv) (snd (fst x)) \<noteq> None
            \<and> (\<forall>p. node_deadline_ok (iv_control iv) (Some p) (snd (snd x)))"
          using less.prems(1) sub by blast
        show "\<forall>k < length (slots[?k := Some u]). slots[?k := Some u] ! k = None
            \<longrightarrow> k \<in> (fst \<circ> fst) ` set (remove_nth i pending)"
        proof (intro allI impI)
          fix k assume k: "k < length (slots[?k := Some u])" "slots[?k := Some u] ! k = None"
          then have "k \<noteq> ?k" by auto
          then show "k \<in> (fst \<circ> fst) ` set (remove_nth i pending)"
            using k less.prems(2) split by auto
        qed
      qed
      then show "steady (iv_run_id iv) m
          (collect_updates iv ex (remove_nth i pending) (slots[?k := Some u]))
          (\<lambda>ys. length ys = length slots \<and> None \<notin> set ys)" by simp
    qed
    show ?thesis
      using False by (subst collect_updates.simps) (simp add: Let_def steady_bind [OF steady_world] step)
  qed
qed

lemma steady_run_parallel:
  fixes iv :: "('s, 'u, 'v, 'c, 'w) invocation"
  assumes "invocation_ok iv" and "served g rk iv"
    and "frontier_nodes (iv_graph iv) (ex_frontier ex)"
  shows "steady (iv_run_id iv) m (run_parallel iv ex first) (\<lambda>c. \<exists>s. c = Committed s)"
proof -
  let ?F = "ex_frontier ex" and ?r = "iv_run_id iv"
  have at: "\<forall>i \<in> set ?F. node_at (iv_graph iv) i \<noteq> None"
    using assms(3) by (simp add: frontier_nodes_def)
  have start: "steady ?r m (run_map (start_node iv ex) (enumerate 0 ?F))
      (\<lambda>ys. list_all2 (\<lambda>x y. \<forall>p. node_deadline_ok (iv_control iv) (Some p) (snd y)) (enumerate 0 ?F) ys)"
    by (rule steady_map, rule steady_conseq [OF steady_start_node [OF assms(1)]])
      (use at enumerate_facts(1) [of 0 ?F] in auto)
  have collect: "steady ?r m (collect_updates iv ex (zip (enumerate 0 ?F) ys)
        (replicate (length ?F) None)) (\<lambda>zs. length zs = length ?F \<and> None \<notin> set zs)"
    if ys: "list_all2 (\<lambda>x y. \<forall>p. node_deadline_ok (iv_control iv) (Some p) (snd y))
      (enumerate 0 ?F) ys" for ys
  proof -
    have len: "length ys = length ?F" using list_all2_lengthD [OF ys] by simp
    have "steady ?r m (collect_updates iv ex (zip (enumerate 0 ?F) ys) (replicate (length ?F) None))
        (\<lambda>zs. length zs = length (replicate (length ?F) (None :: 'u option)) \<and> None \<notin> set zs)"
    proof (rule steady_collect_updates [OF assms(1,2)])
      show "\<forall>x \<in> set (zip (enumerate 0 ?F) ys). node_at (iv_graph iv) (snd (fst x)) \<noteq> None
          \<and> (\<forall>p. node_deadline_ok (iv_control iv) (Some p) (snd (snd x)))"
      proof
        fix x assume "x \<in> set (zip (enumerate 0 ?F) ys)"
        then obtain k where k: "k < length ?F" "x = (enumerate 0 ?F ! k, ys ! k)"
          using len by (auto simp: in_set_zip)
        then have "snd (fst x) \<in> set ?F" by (simp add: nth_enumerate_eq)
        then show "node_at (iv_graph iv) (snd (fst x)) \<noteq> None
            \<and> (\<forall>p. node_deadline_ok (iv_control iv) (Some p) (snd (snd x)))"
          using at list_all2_nthD [OF ys, of k] k by simp
      qed
      show "\<forall>k < length (replicate (length ?F) (None :: 'u option)).
          replicate (length ?F) (None :: 'u option) ! k = None
          \<longrightarrow> k \<in> (fst \<circ> fst) ` set (zip (enumerate 0 ?F) ys)"
      proof (intro allI impI)
        fix k assume "k < length (replicate (length ?F) (None :: 'u option))"
        then have k: "k < length ?F" by simp
        then have "zip (enumerate 0 ?F) ys ! k = ((k, ?F ! k), ys ! k)"
          using len by (simp add: nth_enumerate_eq)
        then have "((k, ?F ! k), ys ! k) \<in> set (zip (enumerate 0 ?F) ys)"
          using k len by (metis length_enumerate length_zip min_less_iff_conj nth_mem)
        then show "k \<in> (fst \<circ> fst) ` set (zip (enumerate 0 ?F) ys)" by force
      qed
    qed
    then show ?thesis by simp
  qed
  have finish: "steady ?r m (case apply_batch (iv_ops iv) (ex_state ex) b of
      Inl e \<Rightarrow> run_fail (f e) | Inr s \<Rightarrow> run_return (Committed s)) (\<lambda>c. \<exists>s. c = Committed s)" for b f
    by (cases "apply_batch (iv_ops iv) (ex_state ex) b") (simp_all add: steady_fail steady_return)
  have slots: "steady ?r m (run_if_some (those zs)) (\<lambda>_. True)" if "None \<notin> set zs" for zs :: "'u option list"
    using that those_eq_None_iff [of zs] by (cases "those zs") (auto intro: steady_some)
  show ?thesis
    unfolding run_parallel_def Let_def
    by (rule steady_bind [OF start], rule steady_bind [OF collect], assumption,
        rule steady_bind [OF steady_guard [OF assms(1)]], simp,
        rule steady_bind [OF steady_node_paths [OF at]], rule steady_bind [OF slots], blast,
        rule finish)
qed

lemma steady_save_boundary:
  fixes iv :: "('s, 'u, 'v, 'c, 'w) invocation"
  assumes "invocation_ok iv" and "served g rk iv"
    and F: "frontier_nodes (iv_graph iv) F"
  shows "steady (iv_run_id iv) m (save_boundary iv s superstep steps F chk) (\<lambda>_. True)"
proof (cases "rk_should_save rk (F = [])")
  case True
  have at: "\<forall>i \<in> set F. node_at (iv_graph iv) i \<noteq> None" using F by (simp add: frontier_nodes_def)
  have save: "steady r m (or_fail (await_run_boundary (iv_env iv) (iv_control iv) r base
      (rk_save rk r s (boundary_new ss n (frontier_paths (iv_graph iv) F) (F = []) None) c)))
      (\<lambda>_. True)" for base c r ss n
    by (intro steady_or_fail io_safe_await_run_boundary boundary_save_safe [OF True])
      (use assms in \<open>simp_all add: invocation_ok_def served_def boundary_ok_frontier\<close>)
  show ?thesis
    using True unfolding save_boundary_def Let_def served_eqs(1) [OF assms(2)]
    by (auto intro!: steady_bind [OF steady_node_paths [OF at]] steady_bind [OF save]
        steady_bind [OF steady_emit] steady_return)
qed (simp add: save_boundary_def served_eqs [OF assms(2)] steady_return)

lemma steady_finish_superstep:
  fixes iv :: "('s, 'u, 'v, 'c, 'w) invocation"
  assumes "invocation_ok iv" and "served g rk iv"
    and "frontier_nodes (iv_graph iv) (ex_frontier ex)"
  shows "steady (iv_run_id iv) m (finish_superstep iv ex first s)
    (\<lambda>ex'. frontier_nodes (iv_graph iv) (ex_frontier ex')
       \<and> ex_steps ex' = usize_add (ex_steps ex) (length (ex_frontier ex))
       \<and> ex_visited_nodes ex' =
           ex_visited_nodes ex @ frontier_paths (iv_graph iv) (ex_frontier ex))"
proof -
  let ?F = "ex_frontier ex"
  have at: "\<forall>i \<in> set ?F. node_at (iv_graph iv) i \<noteq> None"
    using assms(3) by (simp add: frontier_nodes_def)
  have updated: "steady (iv_run_id iv) m (run_for (state_updated iv ex) (enumerate 0 ?F)) (\<lambda>_. True)"
    by (rule steady_for, rule steady_state_updated [OF assms(1)])
      (use at enumerate_facts(1) [of 0 ?F] in auto)
  have boundaries: "steady (iv_run_id iv) m
      (run_for (\<lambda>b. run_emit (boundary_event (iv_run_id iv) b)) bs) (\<lambda>_. True)" for bs
  proof (rule steady_for)
    fix b show "steady (iv_run_id iv) m (run_emit (boundary_event (iv_run_id iv) b)) (\<lambda>_. True)"
      by (cases b) (simp_all add: steady_emit)
  qed
  have save: "steady (iv_run_id iv) m (save_boundary iv s superstep steps F chk) (\<lambda>_. True)"
    if "frontier_nodes (iv_graph iv) F" for superstep steps F chk
    by (rule steady_save_boundary [OF assms(1,2) that])
  show ?thesis
    unfolding finish_superstep_def Let_def
    using assms(1)
    by (auto intro!: steady_bind [OF updated] steady_bind [OF steady_next_frontier [OF assms(1,3)]]
        steady_bind [OF save] steady_bind [OF steady_when] steady_bind [OF boundaries]
        steady_bind [OF steady_guard] steady_bind [OF steady_node_paths [OF at]]
        steady_guard steady_emit steady_return)
qed

end

end
