(* ===== verification/RunOutcome.thy ===== *)
theory RunOutcome
  imports RunSafety
begin

text \<open>
  The whole run: the super-step loop keeps the frontier and the step budget, and every entry point
  ends with an outcome that matches the event log. The three implementations of
  \<open>RuntimeCheckpoint\<close> interpret the contract.
\<close>

section \<open>The loop\<close>

text \<open>
  \<open>start\<close> is the step count the invocation began with and \<open>limit\<close> its absolute step limit.
\<close>

definition exec_ok ::
    "('s, 'u, 'v, 'c, 'w) invocation \<Rightarrow> nat \<Rightarrow> nat \<Rightarrow> ('s, 'v, 'c) execution \<Rightarrow> bool" where
  "exec_ok iv start limit ex \<longleftrightarrow>
     frontier_nodes (iv_graph iv) (ex_frontier ex) \<and> limit < usize_bound
     \<and> start \<le> ex_steps ex \<and> ex_steps ex \<le> limit
     \<and> length (ex_visited_nodes ex) = ex_steps ex - start"

definition turn_ok ::
    "('s, 'u, 'v, 'c, 'w) invocation \<Rightarrow> nat \<Rightarrow> nat \<Rightarrow> nat \<Rightarrow> ('s, 'v, 'c) turn_result
      \<Rightarrow> 'w run_state \<Rightarrow> bool" where
  "turn_ok iv m start limit t st \<longleftrightarrow>
     (case t of
        Advanced ex \<Rightarrow> running_em (iv_run_id iv) m (rs_events st) \<and> exec_ok iv start limit ex
      | Halted rep \<Rightarrow> halted_ok (iv_run_id iv) m rep (rs_events st)
          \<and> start \<le> it_steps rep \<and> it_steps rep \<le> limit
          \<and> length (it_visited_nodes rep) = Suc (it_steps rep - start))"

definition outcome_ok ::
    "run_id \<Rightarrow> nat \<Rightarrow> nat \<Rightarrow> nat \<Rightarrow> ('s, 'v) execution_outcome \<Rightarrow> event_emitter \<Rightarrow> bool" where
  "outcome_ok r m start limit out em \<longleftrightarrow>
     outcome_run_id out = r \<and> outcome_events out = em_retained em
     \<and> start \<le> outcome_steps out \<and> outcome_steps out \<le> limit
     \<and> (case out of
          Completed rep \<Rightarrow> closed_by r m (RunCompleted r (rr_steps rep)) em
            \<and> length (rr_visited_nodes rep) = rr_steps rep - start
        | Interrupted rep \<Rightarrow> halted_ok r m rep em
            \<and> length (it_visited_nodes rep) = Suc (it_steps rep - start))"

context checkpointing
begin

lemma holds_superstep_turn:
  fixes iv :: "('s, 'u, 'v, 'c, 'w) invocation"
  assumes "invocation_ok iv" and "served g rk iv" and ex: "exec_ok iv start limit ex"
    and "ex_frontier ex \<noteq> []"
  shows "holds (iv_run_id iv) m (superstep_turn iv limit ex) (\<lambda>t st. turn_ok iv m start limit t st
    \<and> (\<forall>ex'. t = Advanced ex' \<longrightarrow> ex_steps ex < ex_steps ex'))"
proof -
  let ?r = "iv_run_id iv" and ?F = "ex_frontier ex"
  have nodes: "frontier_nodes (iv_graph iv) ?F" using ex by (simp add: exec_ok_def)
  have commit: "holds ?r m (if length ?F > 1 then run_parallel iv ex first else run_single iv ex first)
      (commit_ok ?r m ex)" if "node_at (iv_graph iv) (hd ?F) = Some first" for first
  proof -
    have "holds ?r m (run_parallel iv ex first) (commit_ok ?r m ex)"
      by (rule holds_steady [OF steady_run_parallel [OF assms(1,2) nodes]]) (auto simp: commit_ok_def)
    then show ?thesis using holds_run_single [OF assms(1,2) that] by simp
  qed
  have finish: "steady ?r m (run_bind (finish_superstep iv ex first s) (\<lambda>ex'. run_return (Advanced ex')))
      (\<lambda>t. \<exists>ex'. t = Advanced ex' \<and> exec_ok iv start limit ex' \<and> ex_steps ex < ex_steps ex')"
    if len: "length ?F \<le> limit - ex_steps ex" for first s
  proof (rule steady_bind [OF steady_finish_superstep [OF assms(1,2) nodes]])
    fix ex' :: "('s, 'v, 'c) execution"
    assume ex': "frontier_nodes (iv_graph iv) (ex_frontier ex')
      \<and> ex_steps ex' = usize_add (ex_steps ex) (length ?F)
      \<and> ex_visited_nodes ex' = ex_visited_nodes ex @ frontier_paths (iv_graph iv) ?F"
    have "0 < length ?F" using assms(4) by simp
    have "ex_steps ex + length ?F < usize_bound" using ex len by (auto simp: exec_ok_def)
    then have "ex_steps ex' = ex_steps ex + length ?F" using ex' by simp
    then have "exec_ok iv start limit ex' \<and> ex_steps ex < ex_steps ex'"
      using ex' ex len \<open>0 < length ?F\<close> by (auto simp: exec_ok_def)
    then show "steady ?r m (run_return (Advanced ex'))
        (\<lambda>t. \<exists>ex'. t = Advanced ex' \<and> exec_ok iv start limit ex' \<and> ex_steps ex < ex_steps ex')"
      by (simp add: steady_return)
  qed
  have rest: "holds ?r m (run_bind (if length ?F > 1 then run_parallel iv ex first
        else run_single iv ex first) (\<lambda>c. case c of
          Suspended report \<Rightarrow> run_return (Halted report)
        | Committed s \<Rightarrow> run_bind (finish_superstep iv ex first s) (\<lambda>ex'. run_return (Advanced ex'))))
      (\<lambda>t st. turn_ok iv m start limit t st \<and> (\<forall>ex'. t = Advanced ex' \<longrightarrow> ex_steps ex < ex_steps ex'))"
    if first: "node_at (iv_graph iv) (hd ?F) = Some first \<and> length ?F \<le> limit - ex_steps ex" for first
  proof (rule holds_bind_at [OF commit])
    show "node_at (iv_graph iv) (hd ?F) = Some first" using first by simp
    fix c and st :: "'w run_state" assume c: "commit_ok ?r m ex c st"
    show "holds_at ?r m (case c of
          Suspended report \<Rightarrow> run_return (Halted report)
        | Committed s \<Rightarrow> run_bind (finish_superstep iv ex first s) (\<lambda>ex'. run_return (Advanced ex')))
      (\<lambda>t st. turn_ok iv m start limit t st \<and> (\<forall>ex'. t = Advanced ex' \<longrightarrow> ex_steps ex < ex_steps ex')) st"
    proof (cases c)
      case (Committed s)
      have "holds ?r m (run_bind (finish_superstep iv ex first s) (\<lambda>ex'. run_return (Advanced ex')))
          (\<lambda>t st. turn_ok iv m start limit t st \<and> (\<forall>ex'. t = Advanced ex' \<longrightarrow> ex_steps ex < ex_steps ex'))"
        by (rule holds_steady [OF finish]) (use first in \<open>auto simp: turn_ok_def\<close>)
      then show ?thesis using c Committed by (simp add: commit_ok_def holds_atI)
    qed (use c ex in \<open>simp add: holds_at_return commit_ok_def turn_ok_def exec_ok_def\<close>)
  qed
  show ?thesis
    unfolding superstep_turn_def
    by (rule holds_bind [OF steady_begin_superstep [OF assms(1) nodes assms(4)]]) (rule rest)
qed

lemma run_loop_ok:
  fixes iv :: "('s, 'u, 'v, 'c, 'w) invocation"
  assumes run: "run_loop iv limit ex st = Some y" and iv: "invocation_ok iv" "served g rk iv"
    and ex: "exec_ok iv start limit ex" and st: "running_em (iv_run_id iv) m (rs_events st)"
  shows "case y of
      (Ok t, st') \<Rightarrow> turn_ok iv m start limit t st'
        \<and> (case t of Advanced ex' \<Rightarrow> ex_frontier ex' = [] | Halted rep \<Rightarrow> True)
    | (Err e, st') \<Rightarrow>
        closed_by (iv_run_id iv) m (RunFailed (iv_run_id iv) (run_failure_from e)) (rs_events st')
    | (Panic, st') \<Rightarrow> False"
  using iv ex st
proof (induction rule: run_loop.raw_induct [OF _ run])
  case (1 f iv limit ex st y)
  show ?case
  proof (cases "ex_frontier ex = []")
    case True
    then show ?thesis using "1"(2) "1.prems" by (auto simp: turn_ok_def)
  next
    case False
    note turn = holds_atI [OF holds_superstep_turn [OF "1.prems"(1-3) False] "1.prems"(4),
        unfolded holds_at_def]
    show ?thesis
    proof (cases "superstep_turn iv limit ex st")
      case None
      then show ?thesis using "1"(2) False by simp
    next
      case (Some z)
      obtain x st' where z: "z = (x, st')" by fastforce
      show ?thesis
      proof (cases x)
        case (Ok t)
        show ?thesis
        proof (cases t)
          case (Halted rep)
          then show ?thesis using "1"(2) turn False Some z Ok by auto
        next
          case (Advanced ex')
          then have "f iv limit ex' st' = Some y" using "1"(2) False Some z Ok by simp
          from "1"(1) [OF this "1.prems"(1,2)] show ?thesis
            using turn Some z Ok Advanced by (simp add: turn_ok_def)
        qed
      qed (use "1"(2) turn False Some z in auto)
    qed
  qed
qed

lemma holds_run_loop:
  fixes iv :: "('s, 'u, 'v, 'c, 'w) invocation"
  assumes "invocation_ok iv" and "served g rk iv" and "exec_ok iv start limit ex"
  shows "holds (iv_run_id iv) m (run_loop iv limit ex) (turn_ok iv m start limit)"
  unfolding holds_def
proof (intro allI impI)
  fix st :: "'w run_state" assume st: "running_em (iv_run_id iv) m (rs_events st)"
  show "holds_at (iv_run_id iv) m (run_loop iv limit ex) (turn_ok iv m start limit) st"
  proof (cases "run_loop iv limit ex st")
    case (Some y)
    obtain x st' where y: "y = (x, st')" by fastforce
    show ?thesis
      using run_loop_ok [OF Some assms st] Some y by (cases x) (simp_all add: holds_at_def)
  qed (simp add: holds_at_def)
qed

lemma holds_complete_run:
  assumes "invocation_ok iv" and "exec_ok iv start limit ex"
  shows "holds (iv_run_id iv) m (complete_run iv ex)
    (\<lambda>out st. outcome_ok (iv_run_id iv) m start limit out (rs_events st))"
  unfolding complete_run_def
  by (rule holds_bind [OF steady_guard [OF assms(1)]], simp, rule holds_conseq [OF close_run])
    (use assms(2) in \<open>auto simp: outcome_ok_def exec_ok_def\<close>)

lemma holds_execute_internal:
  fixes iv :: "('s, 'u, 'v, 'c, 'w) invocation"
  assumes iv: "invocation_ok iv" "served g rk iv"
    and nodes: "frontier_nodes (iv_graph iv) (ex_frontier ex)" and "ex_visited_nodes ex = []"
    and "ex_steps ex < usize_bound"
  shows "holds (iv_run_id iv) m (execute_internal iv ex)
    (\<lambda>out st. outcome_ok (iv_run_id iv) m (ex_steps ex)
       (usize_saturating_add (ex_steps ex) (iv_max_steps iv)) out (rs_events st))"
proof -
  let ?r = "iv_run_id iv" and ?limit = "usize_saturating_add (ex_steps ex) (iv_max_steps iv)"
  have limit: "?limit < usize_bound" "ex_steps ex \<le> ?limit"
    using assms(5) by (simp_all add: usize_saturating_add_def)
  have save: "steady ?r m (if ex_save_empty_checkpoint ex \<and> ex_frontier ex = []
      then save_boundary iv (ex_state ex) (ex_superstep ex) (ex_steps ex) [] (ex_checkpoints ex)
      else run_return (ex_checkpoints ex)) (\<lambda>_. True)"
    using steady_save_boundary [OF iv, of "[]"] by (simp add: steady_return frontier_nodes_def)
  have ok: "exec_ok iv (ex_steps ex) ?limit (ex\<lparr>ex_checkpoints := chk\<rparr>)" for chk
    using nodes assms(4) limit by (simp add: exec_ok_def)
  have loop: "holds ?r m (run_bind (run_loop iv ?limit (ex\<lparr>ex_checkpoints := chk\<rparr>)) (\<lambda>t. case t of
        Halted report \<Rightarrow> run_return (Interrupted report) | Advanced ex' \<Rightarrow> complete_run iv ex'))
      (\<lambda>out st. outcome_ok ?r m (ex_steps ex) ?limit out (rs_events st))" for chk
  proof (rule holds_bind_at [OF holds_run_loop [OF iv ok]])
    fix t and st :: "'w run_state" assume t: "turn_ok iv m (ex_steps ex) ?limit t st"
    show "holds_at ?r m (case t of
        Halted report \<Rightarrow> run_return (Interrupted report) | Advanced ex' \<Rightarrow> complete_run iv ex')
      (\<lambda>out st. outcome_ok ?r m (ex_steps ex) ?limit out (rs_events st)) st"
    proof (cases t)
      case (Halted rep)
      then show ?thesis
        using t by (auto simp: holds_at_return turn_ok_def outcome_ok_def halted_ok_def)
    next
      case (Advanced ex')
      then show ?thesis
        using t holds_atI [OF holds_complete_run [OF iv(1)]] by (simp add: turn_ok_def)
    qed
  qed
  show ?thesis
    unfolding execute_internal_def Let_def by (rule holds_bind [OF save]) (rule loop)
qed

lemma holds_start_run:
  fixes iv :: "('s, 'u, 'v, 'c, 'w) invocation"
  assumes iv: "invocation_ok iv" "served g rk iv"
  shows "holds (iv_run_id iv) m (start_run iv s chk)
    (\<lambda>out st. outcome_ok (iv_run_id iv) m 0 (usize_saturating_add 0 (iv_max_steps iv)) out
       (rs_events st))"
proof -
  let ?g = "iv_graph iv"
  have ok: "graph_ok ?g" using iv(1) by (simp add: invocation_ok_def)
  then have entry: "frontier_items ?g (option_list (cg_entry_index ?g))"
    by (cases "cg_entry_index ?g") (auto simp: graph_ok_def compiled_wf_def frontier_items_single)
  have boundaries: "steady (iv_run_id iv) m (emit_boundaries (iv_run_id iv) bs) (\<lambda>_. True)" for bs
    unfolding emit_boundaries_def
  proof (rule steady_for)
    fix b show "steady (iv_run_id iv) m (run_emit (boundary_event (iv_run_id iv) b)) (\<lambda>_. True)"
      by (cases b) (simp_all add: steady_emit)
  qed
  show ?thesis
    unfolding start_run_def
  proof (rule holds_bind [OF steady_normalize [OF ok entry]])
    fix a :: "subgraph_boundary list \<times> nat list"
    assume a: "case a of (bs, F) \<Rightarrow> frontier_nodes ?g F"
    obtain bs F where eq: "a = (bs, F)" by fastforce
    have F: "frontier_nodes ?g F" using a eq by simp
    then have at: "\<forall>i \<in> set (take 1 F). node_at ?g i \<noteq> None"
      by (meson frontier_nodes_def in_set_takeD)
    have exec: "holds (iv_run_id iv) m (execute_internal iv
        \<lparr>ex_state = s, ex_steps = 0, ex_visited_nodes = [], ex_frontier = F, ex_superstep = 0,
         ex_save_empty_checkpoint = True, ex_resume_node = None, ex_resume_value = None,
         ex_checkpoints = chk\<rparr>)
        (\<lambda>out st. outcome_ok (iv_run_id iv) m 0 (usize_saturating_add 0 (iv_max_steps iv)) out
          (rs_events st))"
      using holds_execute_internal [OF iv, where m = m and ex = "\<lparr>ex_state = s, ex_steps = 0,
          ex_visited_nodes = [], ex_frontier = F, ex_superstep = 0, ex_save_empty_checkpoint = True,
          ex_resume_node = None, ex_resume_value = None, ex_checkpoints = chk\<rparr>"] F by simp
    show "holds (iv_run_id iv) m (case a of (boundaries, frontier) \<Rightarrow>
        run_bind (emit_boundaries (iv_run_id iv) boundaries) (\<lambda>_.
        run_bind (node_paths_of iv (take 1 frontier)) (\<lambda>paths.
        run_bind (guard iv (if paths = [] then None else Some (hd paths)) (length paths) None) (\<lambda>_.
          execute_internal iv
           \<lparr>ex_state = s, ex_steps = 0, ex_visited_nodes = [], ex_frontier = frontier,
            ex_superstep = 0, ex_save_empty_checkpoint = True, ex_resume_node = None,
            ex_resume_value = None, ex_checkpoints = chk\<rparr>))))
       (\<lambda>out st. outcome_ok (iv_run_id iv) m 0 (usize_saturating_add 0 (iv_max_steps iv)) out
         (rs_events st))"
      unfolding eq prod.case
      by (rule holds_bind [OF boundaries], rule holds_bind [OF steady_node_paths [OF at]],
          rule holds_bind [OF steady_guard [OF iv(1)]], simp, rule exec)
  qed
qed

end

section \<open>The implementations keep the contract\<close>

lemma io_safe_enabled_save: "io_safe (enabled_save env cops cfg version r s b parent)"
  by (auto simp: io_safe_def enabled_save_def Let_def split: sum.splits prod.splits)

interpretation disabled: checkpointing g
  "disabled_checkpoint :: ('s, 'v, unit, 'w) runtime_checkpoint"
  for g :: "('s, 'u, 'v, 'w) compiled_graph"
  by unfold_locales (simp_all add: disabled_checkpoint_def)

interpretation read_only: checkpointing g
  "read_only_replay_checkpoint t c :: ('s, 'v, unit, 'w) runtime_checkpoint"
  for g :: "('s, 'u, 'v, 'w) compiled_graph" and t c
  by unfold_locales (simp_all add: read_only_replay_checkpoint_def)

interpretation enabled: checkpointing g "enabled_checkpoint env cops cfg version"
  for g :: "('s, 'u, 'v, 'w) compiled_graph" and env cops cfg version
  by unfold_locales (simp_all add: enabled_checkpoint_def io_safe_enabled_save)

end
