(* ===== verification/RunTermination.thy ===== *)
theory RunTermination
  imports RunOutcome
begin

text \<open>
  Runs return. The super-step loop is bounded by the step limit; the only other loop is the
  routing through subgraph boundaries, which is bounded as long as no mounted graph is empty: an
  exit leads to shallower exits and then to an entry, an entry to deeper entries and then to a
  node. An empty mounted graph whose transition leads back to itself is routed forever.
\<close>

section \<open>Routing through boundaries returns\<close>

definition enters_node ::
    "('s, 'u, 'v, 'w) compiled_graph \<Rightarrow> ('s, 'u, 'v, 'w) compiled_item \<Rightarrow> bool" where
  "enters_node g item \<longleftrightarrow>
     (case item of
        EnterSubgraph gp (Fixed (Some e)) \<Rightarrow>
          (case cg_items g ! e of ExitSubgraph gp' mount tr \<Rightarrow> False | _ \<Rightarrow> True)
      | _ \<Rightarrow> True)"

definition no_empty_subgraph :: "('s, 'u, 'v, 'w) compiled_graph \<Rightarrow> bool" where
  "no_empty_subgraph g \<longleftrightarrow> list_all (enters_node g) (cg_items g)"

definition item_depth :: "('s, 'u, 'v, 'w) compiled_item \<Rightarrow> nat" where
  "item_depth item = length (item_segments item)"

definition max_depth :: "('s, 'u, 'v, 'w) compiled_graph \<Rightarrow> nat" where
  "max_depth g = Max (insert 0 (item_depth ` set (cg_items g)))"

definition item_rank :: "('s, 'u, 'v, 'w) compiled_graph \<Rightarrow> ('s, 'u, 'v, 'w) compiled_item \<Rightarrow> nat" where
  "item_rank g item =
     (case item of
        Node nd \<Rightarrow> 0
      | EnterSubgraph gp tr \<Rightarrow> 1 + (max_depth g - item_depth item)
      | ExitSubgraph gp mount tr \<Rightarrow> 2 + max_depth g + item_depth item)"

definition frontier_rank :: "('s, 'u, 'v, 'w) compiled_graph \<Rightarrow> nat list \<Rightarrow> nat" where
  "frontier_rank g F =
     (case F of [i] \<Rightarrow> if i < length (cg_items g) then item_rank g (cg_items g ! i) else 0 | _ \<Rightarrow> 0)"

definition routable :: "('s, 'u, 'v, 'w) compiled_graph \<Rightarrow> bool" where
  "routable g \<longleftrightarrow> graph_ok g \<and> chains_ok g \<and> no_empty_subgraph g"

lemma item_depth_le: "i < length (cg_items g) \<Longrightarrow> item_depth (cg_items g ! i) \<le> max_depth g"
  unfolding max_depth_def by (rule Max_ge) auto

lemma item_rank_not_exit: "\<not> is_exit item \<Longrightarrow> item_rank g item \<le> 1 + max_depth g"
  by (cases item) (auto simp: is_exit_def item_rank_def)

lemma item_rank_deeper:
  assumes "deeper (EnterSubgraph gp tr) (cg_items g ! j)" and "j < length (cg_items g)"
  shows "item_rank g (cg_items g ! j) < item_rank g (EnterSubgraph gp tr)"
  using assms item_depth_le [OF assms(2)]
  by (cases "cg_items g ! j")
    (auto simp: deeper_def is_exit_def is_enter_def item_rank_def item_depth_def)

lemma frontier_rank_list: "frontier_rank g F \<le> n" if "\<forall>i \<in> set F. i < length (cg_items g) \<longrightarrow>
    item_rank g (cg_items g ! i) \<le> n"
  using that by (auto simp: frontier_rank_def split: list.split)

lemma cross_rank:
  assumes ok: "routable g" and turn: "normalize_turn g r s step F em = (Cross b F', em')"
  shows "frontier_rank g F' < frontier_rank g F"
proof -
  obtain i where F: "F = [i]" and i: "i < length (cg_items g)"
    using turn by (auto simp: normalize_turn_def split: list.splits if_splits)
  have wf: "compiled_wf g" using ok by (simp add: routable_def graph_ok_def)
  have item: "item_ok (length (cg_items g)) (cg_items g ! i)" by (rule compiled_wf_item [OF wf i])
  have chain: "if is_enter (cg_items g ! i)
      then is_exit (cg_items g ! j) \<or> deeper (cg_items g ! i) (cg_items g ! j)
      else \<not> is_exit (cg_items g ! j)" if "j \<in> transition_indices (item_transition (cg_items g ! i))" for j
    using ok i that unfolding routable_def chains_ok_def by blast
  have rank: "frontier_rank g F = item_rank g (cg_items g ! i)" using F i by (simp add: frontier_rank_def)
  show ?thesis
  proof (cases "cg_items g ! i")
    case (Node nd)
    then show ?thesis using turn F i by (simp add: normalize_turn_def)
  next
    case (EnterSubgraph gp tr)
    then obtain e where tr: "tr = Fixed (Some e)" using item by (auto simp: item_ok_def)
    have F': "F' = [e]"
      using turn F i EnterSubgraph tr
      by (auto simp: normalize_turn_def resolve_transition_def resolve_into_def emit_route_def
          split: option.splits)
    have e: "e < length (cg_items g)" using item EnterSubgraph tr by (simp add: item_ok_def)
    have "enters_node g (cg_items g ! i)"
      using ok i by (simp add: routable_def no_empty_subgraph_def list_all_length)
    then have "\<not> is_exit (cg_items g ! e)"
      using EnterSubgraph tr
      by (cases "cg_items g ! e") (simp_all add: enters_node_def is_exit_def)
    then have "deeper (cg_items g ! i) (cg_items g ! e)"
      using chain [of e] EnterSubgraph tr by (auto simp: is_enter_def)
    then have "item_rank g (cg_items g ! e) < item_rank g (cg_items g ! i)"
      using item_rank_deeper [OF _ e] EnterSubgraph by simp
    then show ?thesis using e rank by (simp add: F' frontier_rank_def)
  next
    case (ExitSubgraph gp mount tr)
    let ?exit = "map_of (cg_scope_exits g) (node_path_graph_path mount)"
    obtain ts where ts: "resolve_transition g r tr s (node_path_graph_path mount) mount step [] em
        = (Ok ts, em')" and F': "F' = (if sort_dedup ts = [] then option_list ?exit else sort_dedup ts)"
      using turn F i ExitSubgraph by (auto simp: normalize_turn_def split: prod.splits result.splits)
    obtain d where "resolve_into tr s (node_path_graph_path mount) [] (path_at g) = Ok (d, ts)"
      using ts by (auto simp: resolve_transition_def split: result.splits prod.splits)
    from resolve_into_targets [OF this] have sub: "set ts \<subseteq> transition_indices tr" by auto
    have "item_rank g (cg_items g ! j) \<le> 1 + max_depth g + item_depth (cg_items g ! i)"
      if "j \<in> set F'" for j
    proof (cases "sort_dedup ts = []")
      case True
      then have "?exit = Some j" using F' that by (cases ?exit) simp_all
      then obtain mount' tr' where j: "cg_items g ! j = ExitSubgraph (node_path_graph_path mount) mount' tr'"
        using compiled_wf_exit [OF wf] by blast
      have "length (graph_segments (node_path_graph_path mount)) < length (graph_segments gp)"
        using item ExitSubgraph by (simp add: item_ok_def node_path_graph_path_def)
      then show ?thesis using j ExitSubgraph by (simp add: item_rank_def item_depth_def)
    next
      case False
      then have "j \<in> transition_indices tr" using F' that sub by auto
      then have "\<not> is_exit (cg_items g ! j)"
        using chain [of j] ExitSubgraph by (simp add: is_enter_def)
      then show ?thesis using item_rank_not_exit [of "cg_items g ! j" g] by simp
    qed
    then have "frontier_rank g F' \<le> 1 + max_depth g + item_depth (cg_items g ! i)"
      by (intro frontier_rank_list) simp
    then show ?thesis using rank ExitSubgraph by (simp add: item_rank_def)
  qed
qed

lemma normalize_returns:
  assumes "routable g"
  shows "normalize_frontier g r s step bs F em \<noteq> None"
proof (induction F arbitrary: bs em rule: measure_induct_rule [where f = "frontier_rank g"])
  case (less F)
  obtain t em' where turn: "normalize_turn g r s step F em = (t, em')" by fastforce
  show ?case
  proof (cases t)
    case (Stop x)
    then show ?thesis using turn by (subst normalize_frontier.simps) (cases x; simp)
  next
    case (Cross b F')
    have "frontier_rank g F' < frontier_rank g F"
      by (rule cross_rank [OF assms turn [unfolded Cross]])
    from less.IH [OF this] show ?thesis
      using turn Cross by (subst normalize_frontier.simps) simp
  qed
qed

section \<open>Code that always returns\<close>

definition returns :: "('w, 'a) run \<Rightarrow> bool" where
  "returns x \<longleftrightarrow> (\<forall>st. x st \<noteq> None)"

named_theorems return_rules "rules for code that always returns"

lemma returns_bind [return_rules]: "returns x \<Longrightarrow> (\<And>a. returns (f a)) \<Longrightarrow> returns (run_bind x f)"
  by (fastforce simp: returns_def run_bind_def split: option.splits prod.splits result.splits)

lemma returns_basic [return_rules]:
  "returns (run_return a)" "returns (run_emit e)" "returns (run_fail err)" "returns run_panic"
  "returns run_retained"
  by (simp_all add: returns_def run_return_def run_emit_def run_fail_def run_panic_def
      run_retained_def)

lemma returns_or_fail [return_rules]: "returns (or_fail x)"
  by (simp add: returns_def or_fail_def run_fail_def split: prod.splits result.splits)

lemma returns_world [return_rules]: "returns (run_world f)"
  by (simp add: returns_def run_world_def split: prod.splits)

lemma returns_emitter [return_rules]: "returns (run_emitter f)"
  by (simp add: returns_def run_emitter_def run_fail_def split: prod.splits result.splits)

lemma returns_if_some [return_rules]: "returns (run_if_some x)"
  by (cases x) (simp_all add: run_if_some_def return_rules)

lemma returns_when [return_rules]: "returns x \<Longrightarrow> returns (run_when b x)"
  by (simp add: run_when_def return_rules)

lemma returns_if [return_rules]: "returns x \<Longrightarrow> returns y \<Longrightarrow> returns (if b then x else y)"
  by simp

lemma returns_for [return_rules]: "(\<And>x. returns (f x)) \<Longrightarrow> returns (run_for f xs)"
  by (induction xs) (simp_all add: return_rules)

lemma returns_map [return_rules]: "(\<And>x. returns (f x)) \<Longrightarrow> returns (run_map f xs)"
  by (induction xs) (simp_all add: return_rules)

lemma returns_check [return_rules]: "returns (run_check env ac r node step nd)"
  by (simp add: run_check_def return_rules)

lemma returns_guard [return_rules]: "returns (guard iv node step nd)"
  by (simp add: guard_def return_rules)

lemma returns_get_node [return_rules]: "returns (get_node iv i)"
  by (simp add: get_node_def return_rules)

lemma returns_node_paths [return_rules]: "returns (node_paths_of iv F)"
  by (simp add: node_paths_of_def return_rules)

lemma returns_begin_superstep [return_rules]: "returns (begin_superstep iv limit ex)"
  unfolding begin_superstep_def Let_def by (intro return_rules)

lemma returns_start_node [return_rules]: "returns (start_node iv ex x)"
  unfolding start_node_def Let_def by (cases x) (auto intro!: return_rules)

lemma returns_suspend [return_rules]: "returns (suspend iv ex node superstep step req)"
  unfolding suspend_def Let_def by (auto intro!: return_rules split: option.split)

lemma returns_run_single [return_rules]: "returns (run_single iv ex first)"
  unfolding run_single_def Let_def
  by (auto intro!: return_rules split: node_outcome.split sum.split)

lemma returns_finish_node [return_rules]: "returns (finish_node iv ex x)"
  unfolding finish_node_def Let_def
  by (cases x) (auto intro!: return_rules split: node_outcome.split prod.split)

lemma returns_collect_updates [return_rules]: "returns (collect_updates iv ex pending slots)"
proof (induction pending arbitrary: slots rule: measure_induct_rule [where f = length])
  case (less pending)
  show ?case
  proof (cases "pending = []")
    case False
    then have "returns (collect_updates iv ex (remove_nth (k mod length pending) pending) zs)" for k zs
      by (intro less.IH length_remove_nth) simp
    then show ?thesis
      using False by (subst collect_updates.simps) (auto simp: Let_def intro!: return_rules)
  qed (subst collect_updates.simps, simp add: return_rules)
qed

lemma returns_run_parallel [return_rules]: "returns (run_parallel iv ex first)"
  unfolding run_parallel_def Let_def by (auto intro!: return_rules split: sum.split)

lemma returns_state_updated [return_rules]: "returns (state_updated iv ex x)"
  unfolding state_updated_def Let_def by (cases x) (auto intro!: return_rules)

lemma returns_route_nodes [return_rules]: "returns (route_nodes iv base s xs targets)"
  by (induction iv base s xs targets rule: route_nodes.induct) (simp_all add: return_rules)

lemma returns_normalize [return_rules]:
  "routable (iv_graph iv) \<Longrightarrow> returns (run_normalize iv s step F)"
  using normalize_returns [of "iv_graph iv"] returns_emitter
  by (fastforce simp: returns_def run_normalize_def split: option.splits)

lemma returns_next_frontier [return_rules]:
  "routable (iv_graph iv) \<Longrightarrow> returns (next_frontier iv ex first s)"
  unfolding next_frontier_def Let_def by (intro return_rules)

lemma returns_save_boundary [return_rules]: "returns (save_boundary iv s ss steps F chk)"
  unfolding save_boundary_def Let_def by (auto intro!: return_rules)

lemma returns_finish_superstep [return_rules]:
  "routable (iv_graph iv) \<Longrightarrow> returns (finish_superstep iv ex first s)"
  unfolding finish_superstep_def Let_def by (auto intro!: return_rules)

lemma returns_superstep_turn:
  "routable (iv_graph iv) \<Longrightarrow> returns (superstep_turn iv limit ex)"
  unfolding superstep_turn_def by (auto intro!: return_rules split: commit.split)

lemma returns_complete_run [return_rules]: "returns (complete_run iv ex)"
  unfolding complete_run_def by (intro return_rules)

section \<open>The loop returns\<close>

text \<open>Returning from every start in which the invocation is under way.\<close>

definition total_run :: "run_id \<Rightarrow> nat \<Rightarrow> ('w, 'a) run \<Rightarrow> bool" where
  "total_run r m x \<longleftrightarrow> (\<forall>st. running_em r m (rs_events st) \<longrightarrow> x st \<noteq> None)"

lemma total_returns: "returns x \<Longrightarrow> total_run r m x"
  by (simp add: total_run_def returns_def)

lemma total_bind:
  assumes "steady r m x P" and "total_run r m x" and "\<And>a. P a \<Longrightarrow> total_run r m (f a)"
  shows "total_run r m (run_bind x f)"
  unfolding total_run_def
proof (intro allI impI)
  fix st :: "'a run_state" assume st: "running_em r m (rs_events st)"
  obtain z st' where x: "x st = Some (z, st')" using assms(2) st by (auto simp: total_run_def)
  show "run_bind x f st \<noteq> None"
  proof (cases z)
    case (Ok a)
    then have "running_em r m (rs_events st') \<and> P a"
      using holds_atI [OF assms(1) [unfolded steady_def] st] x by (simp add: holds_at_def)
    then show ?thesis using assms(3) x Ok by (simp add: total_run_def run_bind_def)
  qed (simp_all add: x run_bind_def)
qed

lemma total_bind_any: "total_run r m x \<Longrightarrow> (\<And>a. returns (f a)) \<Longrightarrow> total_run r m (run_bind x f)"
  by (fastforce simp: total_run_def returns_def run_bind_def split: option.splits prod.splits
      result.splits)

context checkpointing
begin

lemma total_run_loop:
  fixes iv :: "('s, 'u, 'v, 'c, 'w) invocation"
  assumes iv: "invocation_ok iv" "served g rk iv" and ok: "routable (iv_graph iv)"
    and ex: "exec_ok iv start limit ex"
  shows "total_run (iv_run_id iv) m (run_loop iv limit ex)"
  using ex
proof (induction ex rule: measure_induct_rule [where f = "\<lambda>ex. limit - ex_steps ex"])
  case (less ex)
  show ?case
    unfolding total_run_def
  proof (intro allI impI)
    fix st :: "'w run_state" assume st: "running_em (iv_run_id iv) m (rs_events st)"
    show "run_loop iv limit ex st \<noteq> None"
    proof (cases "ex_frontier ex = []")
      case True
      then show ?thesis by (subst run_loop.simps) simp
    next
      case False
      obtain z st' where turn: "superstep_turn iv limit ex st = Some (z, st')"
        using returns_superstep_turn [OF ok] by (fastforce simp: returns_def)
      have post: "case z of Ok t \<Rightarrow> turn_ok iv m start limit t st'
          \<and> (\<forall>ex'. t = Advanced ex' \<longrightarrow> ex_steps ex < ex_steps ex') | _ \<Rightarrow> True"
        using holds_atI [OF holds_superstep_turn [OF iv less.prems False] st] turn
        by (cases z) (simp_all add: holds_at_def)
      show ?thesis
      proof (cases z)
        case (Ok t)
        show ?thesis
        proof (cases t)
          case (Halted rep)
          then show ?thesis using turn Ok False by (subst run_loop.simps) simp
        next
          case (Advanced ex')
          then have ex': "exec_ok iv start limit ex'" "ex_steps ex < ex_steps ex'"
            "running_em (iv_run_id iv) m (rs_events st')"
            using post Ok by (simp_all add: turn_ok_def)
          then have "limit - ex_steps ex' < limit - ex_steps ex" by (auto simp: exec_ok_def)
          from less.IH [OF this ex'(1)] show ?thesis
            using turn Ok Advanced False ex'(3)
            by (subst run_loop.simps) (simp add: total_run_def)
        qed
      qed (use turn False in \<open>subst run_loop.simps, simp\<close>)+
    qed
  qed
qed

lemma total_execute_internal:
  fixes iv :: "('s, 'u, 'v, 'c, 'w) invocation"
  assumes iv: "invocation_ok iv" "served g rk iv" and ok: "routable (iv_graph iv)"
    and nodes: "frontier_nodes (iv_graph iv) (ex_frontier ex)" and "ex_visited_nodes ex = []"
    and "ex_steps ex < usize_bound"
  shows "total_run (iv_run_id iv) m (execute_internal iv ex)"
proof -
  let ?limit = "usize_saturating_add (ex_steps ex) (iv_max_steps iv)"
  have save: "steady (iv_run_id iv) m (if ex_save_empty_checkpoint ex \<and> ex_frontier ex = []
      then save_boundary iv (ex_state ex) (ex_superstep ex) (ex_steps ex) [] (ex_checkpoints ex)
      else run_return (ex_checkpoints ex)) (\<lambda>_. True)"
    using steady_save_boundary [OF iv, of "[]"] by (simp add: steady_return frontier_nodes_def)
  have "exec_ok iv (ex_steps ex) ?limit (ex\<lparr>ex_checkpoints := chk\<rparr>)" for chk
    using nodes assms(5,6) by (auto simp: exec_ok_def usize_saturating_add_def)
  note loop = total_run_loop [OF iv ok this]
  show ?thesis
    unfolding execute_internal_def Let_def
    by (rule total_bind [OF save]) (auto intro!: total_returns return_rules total_bind_any [OF loop]
        split: turn_result.split)
qed

lemma total_start_run:
  fixes iv :: "('s, 'u, 'v, 'c, 'w) invocation"
  assumes iv: "invocation_ok iv" "served g rk iv" and ok: "routable (iv_graph iv)"
  shows "total_run (iv_run_id iv) m (start_run iv s chk)"
proof -
  let ?g = "iv_graph iv"
  have gok: "graph_ok ?g" using ok by (simp add: routable_def)
  then have entry: "frontier_items ?g (option_list (cg_entry_index ?g))"
    by (cases "cg_entry_index ?g") (auto simp: graph_ok_def compiled_wf_def frontier_items_single)
  have boundaries: "steady (iv_run_id iv) m (emit_boundaries (iv_run_id iv) bs) (\<lambda>_. True)" for bs
    unfolding emit_boundaries_def
    by (rule steady_for, rename_tac b, case_tac b) (simp_all add: steady_emit)
  show ?thesis
    unfolding start_run_def
  proof (rule total_bind [OF steady_normalize [OF gok entry] total_returns [OF returns_normalize [OF ok]]])
    fix a :: "subgraph_boundary list \<times> nat list"
    assume a: "case a of (bs, F) \<Rightarrow> frontier_nodes ?g F"
    obtain bs F where eq: "a = (bs, F)" by fastforce
    have F: "frontier_nodes ?g F" using a eq by simp
    then have at: "\<forall>i \<in> set (take 1 F). node_at ?g i \<noteq> None"
      by (meson frontier_nodes_def in_set_takeD)
    show "total_run (iv_run_id iv) m (case a of (boundaries, frontier) \<Rightarrow>
        run_bind (emit_boundaries (iv_run_id iv) boundaries) (\<lambda>_.
        run_bind (node_paths_of iv (take 1 frontier)) (\<lambda>paths.
        run_bind (guard iv (if paths = [] then None else Some (hd paths)) (length paths) None) (\<lambda>_.
          execute_internal iv
           \<lparr>ex_state = s, ex_steps = 0, ex_visited_nodes = [], ex_frontier = frontier,
            ex_superstep = 0, ex_save_empty_checkpoint = True, ex_resume_node = None,
            ex_resume_value = None, ex_checkpoints = chk\<rparr>))))"
      unfolding eq prod.case
      by (rule total_bind [OF boundaries], simp add: total_returns emit_boundaries_def return_rules,
          rule total_bind [OF steady_node_paths [OF at] total_returns [OF returns_node_paths]],
          rule total_bind [OF steady_guard [OF iv(1)] total_returns [OF returns_guard]], simp,
          rule total_execute_internal [OF iv ok]) (simp_all add: F)
  qed
qed

end

end
