(* ===== verification/Invocation.thy ===== *)
theory Invocation
  imports RunTermination
begin

text \<open>
  Properties of complete invocations. The event configuration never changes during a run, and a run
  whose checkpoint behaviour rejects interrupts only completes; with the judgements on runs this
  gives what a caller sees of \<open>invoke\<close>, \<open>invoke_with_control\<close> and \<open>invoke_with_checkpoint\<close>.
\<close>

section \<open>The event configuration is kept\<close>

named_theorems keep_rules "rules for code that keeps the event configuration"

definition keeps :: "('w, 'a) run \<Rightarrow> bool" where
  "keeps x \<longleftrightarrow>
     (\<forall>st y st'. x st = Some (y, st') \<longrightarrow> em_config (rs_events st') = em_config (rs_events st))"

lemma keepsD: "keeps x \<Longrightarrow> x st = Some (y, st') \<Longrightarrow> em_config (rs_events st') = em_config (rs_events st)"
  by (simp add: keeps_def)

lemma em_config_failed [simp]: "em_config (emit_failed e em) = em_config em"
  by (simp add: emit_failed_def)

lemma keeps_bind [keep_rules]: "keeps x \<Longrightarrow> (\<And>a. keeps (f a)) \<Longrightarrow> keeps (run_bind x f)"
  by (fastforce simp: keeps_def run_bind_def split: option.splits prod.splits result.splits)

lemma keeps_basic [keep_rules]:
  "keeps (run_return a)" "keeps (run_emit e)" "keeps (run_fail err)" "keeps run_panic"
  "keeps run_retained"
  by (simp_all add: keeps_def run_return_def run_emit_def run_fail_def run_panic_def
      run_retained_def)

lemma keeps_or_fail [keep_rules]: "keeps (or_fail x)"
  by (auto simp: keeps_def or_fail_def run_fail_def split: prod.splits result.splits)

lemma keeps_world [keep_rules]: "keeps (run_world f)"
  by (auto simp: keeps_def run_world_def split: prod.splits)

lemma keeps_emitter:
  "(\<And>em. em_config (snd (f em)) = em_config em) \<Longrightarrow> keeps (run_emitter f)"
  unfolding keeps_def run_emitter_def run_fail_def
  by (auto split: prod.splits result.splits) (metis snd_conv em_config_failed)+

lemma keeps_if_some [keep_rules]: "keeps (run_if_some x)"
  by (cases x) (simp_all add: run_if_some_def keep_rules)

lemma keeps_when [keep_rules]: "keeps x \<Longrightarrow> keeps (run_when b x)"
  by (simp add: run_when_def keep_rules)

lemma keeps_if [keep_rules]: "keeps x \<Longrightarrow> keeps y \<Longrightarrow> keeps (if b then x else y)"
  by simp

lemma keeps_for [keep_rules]: "(\<And>x. keeps (f x)) \<Longrightarrow> keeps (run_for f xs)"
  by (induction xs) (simp_all add: keep_rules)

lemma keeps_map [keep_rules]: "(\<And>x. keeps (f x)) \<Longrightarrow> keeps (run_map f xs)"
  by (induction xs) (simp_all add: keep_rules)

lemma keeps_parts [keep_rules]:
  "keeps (run_check env ac r node step nd)" "keeps (guard iv node step nd)" "keeps (get_node iv i)"
  "keeps (node_paths_of iv F)"
  by (simp_all add: run_check_def guard_def get_node_def node_paths_of_def keep_rules)

lemma keeps_begin_superstep [keep_rules]: "keeps (begin_superstep iv limit ex)"
  unfolding begin_superstep_def Let_def by (intro keep_rules)

lemma keeps_start_node [keep_rules]: "keeps (start_node iv ex x)"
  unfolding start_node_def Let_def by (cases x) (auto intro!: keep_rules)

lemma keeps_suspend [keep_rules]: "keeps (suspend iv ex node superstep step req)"
  unfolding suspend_def Let_def by (auto intro!: keep_rules split: option.split)

lemma keeps_run_single [keep_rules]: "keeps (run_single iv ex first)"
  unfolding run_single_def Let_def
  by (auto intro!: keep_rules split: node_outcome.split sum.split)

lemma keeps_finish_node [keep_rules]: "keeps (finish_node iv ex x)"
  unfolding finish_node_def Let_def
  by (cases x) (auto intro!: keep_rules split: node_outcome.split prod.split)

lemma keeps_collect_updates [keep_rules]: "keeps (collect_updates iv ex pending slots)"
proof (induction pending arbitrary: slots rule: measure_induct_rule [where f = length])
  case (less pending)
  show ?case
  proof (cases "pending = []")
    case False
    then have "keeps (collect_updates iv ex (remove_nth (k mod length pending) pending) zs)" for k zs
      by (intro less.IH length_remove_nth) simp
    then show ?thesis
      using False by (subst collect_updates.simps) (auto simp: Let_def intro!: keep_rules)
  qed (subst collect_updates.simps, simp add: keep_rules)
qed

lemma keeps_run_parallel [keep_rules]: "keeps (run_parallel iv ex first)"
  unfolding run_parallel_def Let_def by (auto intro!: keep_rules split: sum.split)

lemma keeps_state_updated [keep_rules]: "keeps (state_updated iv ex x)"
  unfolding state_updated_def Let_def by (cases x) (auto intro!: keep_rules)

lemma resolve_transition_config:
  "resolve_transition g r tr s gp p step ts em = (x, em') \<Longrightarrow> em_config em' = em_config em"
  by (auto simp: resolve_transition_def emit_route_def split: result.splits prod.splits option.splits)

lemma keeps_route_nodes [keep_rules]: "keeps (route_nodes iv base s xs targets)"
proof (induction iv base s xs targets rule: route_nodes.induct)
  case (2 iv base s offset index xs targets)
  have "keeps (run_emitter (resolve_transition g r tr s gp p step ts))" for g r tr gp p step ts
    by (rule keeps_emitter) (metis prod.collapse resolve_transition_config)
  then show ?case using 2 by (auto intro!: keep_rules)
qed (simp add: keep_rules)

lemma normalize_turn_config:
  "normalize_turn g r s step F em = (t, em') \<Longrightarrow> em_config em' = em_config em"
  by (auto simp: normalize_turn_def dest!: resolve_transition_config
      split: list.splits if_splits compiled_item.splits result.splits prod.splits option.splits)

lemma normalize_frontier_config:
  assumes "normalize_frontier g r s step bs F em = Some (y, em')"
  shows "em_config em' = em_config em"
proof -
  have "em_config (snd z) = em_config em" if "normalize_frontier g r s step bs F em = Some z" for z
  proof (induction rule: normalize_frontier.raw_induct [OF _ that])
    case (1 f g r s step bs F em z)
    obtain t em1 where turn: "normalize_turn g r s step F em = (t, em1)" by fastforce
    note config = normalize_turn_config [OF turn]
    show ?case
    proof (cases t)
      case (Stop x)
      then show ?thesis using "1"(2) turn config by (cases x) auto
    next
      case (Cross b F')
      then have "f g r s step (bs @ [b]) F' em1 = Some z" using "1"(2) turn by simp
      from "1"(1) [OF this] show ?thesis using config by simp
    qed
  qed
  from this [OF assms] show ?thesis by simp
qed

lemma keeps_normalize [keep_rules]: "keeps (run_normalize iv s step F)"
  unfolding keeps_def run_normalize_def run_emitter_def run_fail_def
  by (auto dest!: normalize_frontier_config split: option.splits prod.splits result.splits)

lemma keeps_next_frontier [keep_rules]: "keeps (next_frontier iv ex first s)"
  unfolding next_frontier_def Let_def by (intro keep_rules)

lemma keeps_save_boundary [keep_rules]: "keeps (save_boundary iv s ss steps F chk)"
  unfolding save_boundary_def Let_def by (auto intro!: keep_rules)

lemma keeps_finish_superstep [keep_rules]: "keeps (finish_superstep iv ex first s)"
  unfolding finish_superstep_def Let_def by (auto intro!: keep_rules)

lemma keeps_superstep_turn: "keeps (superstep_turn iv limit ex)"
  unfolding superstep_turn_def by (auto intro!: keep_rules split: commit.split)

lemma keeps_run_loop [keep_rules]:
  fixes iv :: "('s, 'u, 'v, 'c, 'w) invocation"
  shows "keeps (run_loop iv limit ex)"
proof -
  have "em_config (rs_events (snd y)) = em_config (rs_events st)" if "run_loop iv limit ex st = Some y"
    for y and st :: "'w run_state"
  proof (induction rule: run_loop.raw_induct [OF _ that])
    case (1 f iv limit ex st y)
    note turn = keepsD [OF keeps_superstep_turn]
    show ?case
    proof (cases "ex_frontier ex = []")
      case False
      then obtain z where z: "superstep_turn iv limit ex st = Some z"
        and y: "(case z of
          (Ok (Advanced ex'), st') \<Rightarrow> f iv limit ex' st'
        | (Ok (Halted report), st') \<Rightarrow> Some (Ok (Halted report), st')
        | (Err e, st') \<Rightarrow> Some (Err e, st')
        | (Panic, st') \<Rightarrow> Some (Panic, st')) = Some y"
        using "1"(2) by (cases "superstep_turn iv limit ex st") auto
      obtain x st' where [simp]: "z = (x, st')" by fastforce
      show ?thesis
      proof (cases x)
        case (Ok t)
        show ?thesis
        proof (cases t)
          case (Advanced ex')
          then have "f iv limit ex' st' = Some y" using y Ok by simp
          from "1"(1) [OF this] show ?thesis using turn z by simp
        qed (use y turn z Ok in auto)
      qed (use y turn z in auto)
    qed (use "1"(2) in auto)
  qed
  then show ?thesis by (fastforce simp: keeps_def)
qed

lemma keeps_execute_internal [keep_rules]: "keeps (execute_internal iv ex)"
  unfolding execute_internal_def complete_run_def Let_def
  by (auto intro!: keep_rules split: turn_result.split)

lemma keeps_start_run: "keeps (start_run iv s chk)"
  unfolding start_run_def emit_boundaries_def by (auto intro!: keep_rules)

section \<open>Runs that only complete\<close>

text \<open>\<open>ends\<close> speaks of the value of a run that returns one.\<close>

definition ends :: "('w, 'a) run \<Rightarrow> ('a \<Rightarrow> bool) \<Rightarrow> bool" where
  "ends x Q \<longleftrightarrow> (\<forall>st a st'. x st = Some (Ok a, st') \<longrightarrow> Q a)"

lemma endsD: "ends x Q \<Longrightarrow> x st = Some (Ok a, st') \<Longrightarrow> Q a"
  unfolding ends_def by blast

lemma ends_any: "ends x (\<lambda>_. True)"
  by (simp add: ends_def)

lemma ends_bind: "ends x P \<Longrightarrow> (\<And>a. P a \<Longrightarrow> ends (f a) Q) \<Longrightarrow> ends (run_bind x f) Q"
  by (fastforce simp: ends_def run_bind_def split: option.splits prod.splits result.splits)

lemma ends_after: "(\<And>a. ends (f a) Q) \<Longrightarrow> ends (run_bind x f) Q"
  by (rule ends_bind [OF ends_any])

lemma ends_return: "Q a \<Longrightarrow> ends (run_return a) Q"
  by (simp add: ends_def run_return_def)

lemma ends_fail: "ends (run_fail e) Q"
  by (simp add: ends_def run_fail_def)

definition rejecting :: "('s, 'v, 'c, 'w) runtime_checkpoint \<Rightarrow> bool" where
  "rejecting rk \<longleftrightarrow> (\<forall>r i node step. rk_interrupt_error rk r i node step False \<noteq> None)"

lemma ends_suspend:
  assumes "rejecting (iv_checkpoints iv)"
  shows "ends (suspend iv ex node superstep step req) Q"
proof -
  obtain e where "rk_interrupt_error (iv_checkpoints iv) (iv_run_id iv)
      (ci_id (interrupt_into_checkpoint req (cn_path node))) (cn_path node) step False = Some e"
    using assms unfolding rejecting_def by blast
  then show ?thesis
    unfolding suspend_def Let_def by (intro ends_after) (simp add: ends_fail)
qed

lemma ends_run_single:
  "rejecting (iv_checkpoints iv) \<Longrightarrow> ends (run_single iv ex first) (\<lambda>c. \<exists>s. c = Committed s)"
  unfolding run_single_def Let_def
  by (auto intro!: ends_after ends_suspend ends_fail ends_return
      split: node_outcome.split sum.split)

lemma ends_run_parallel: "ends (run_parallel iv ex first) (\<lambda>c. \<exists>s. c = Committed s)"
  unfolding run_parallel_def Let_def
  by (auto intro!: ends_after ends_fail ends_return split: sum.split)

lemma ends_superstep_turn:
  assumes "rejecting (iv_checkpoints iv)"
  shows "ends (superstep_turn iv limit ex) (\<lambda>t. \<exists>ex'. t = Advanced ex')"
  unfolding superstep_turn_def
  using ends_run_single [OF assms] ends_run_parallel
  by (intro ends_after ends_bind [where P = "\<lambda>c. \<exists>s. c = Committed s"])
    (auto intro!: ends_after ends_return)

lemma ends_run_loop:
  fixes iv :: "('s, 'u, 'v, 'c, 'w) invocation"
  assumes "rejecting (iv_checkpoints iv)"
  shows "ends (run_loop iv limit ex) (\<lambda>t. \<exists>ex'. t = Advanced ex')"
proof -
  have "\<exists>ex'. t = Advanced ex'"
    if "run_loop iv limit ex st = Some y" "fst y = Ok t" for y t and st :: "'w run_state"
    using assms that(2)
  proof (induction rule: run_loop.raw_induct [OF _ that(1)])
    case (1 f iv limit ex st y)
    show ?case
    proof (cases "ex_frontier ex = []")
      case False
      then obtain z where z: "superstep_turn iv limit ex st = Some z"
        and y: "(case z of
          (Ok (Advanced ex'), st') \<Rightarrow> f iv limit ex' st'
        | (Ok (Halted report), st') \<Rightarrow> Some (Ok (Halted report), st')
        | (Err e, st') \<Rightarrow> Some (Err e, st')
        | (Panic, st') \<Rightarrow> Some (Panic, st')) = Some y"
        using "1"(2) by (cases "superstep_turn iv limit ex st") auto
      obtain x st' where eq: "z = (x, st')" by fastforce
      show ?thesis
      proof (cases x)
        case (Ok t')
        then obtain ex' where "t' = Advanced ex'"
          using endsD [OF ends_superstep_turn [OF "1.prems"(1)], of limit ex st] z eq by blast
        then have "f iv limit ex' st' = Some y" using y Ok eq by simp
        from "1"(1) [OF this "1.prems"] show ?thesis .
      qed (use y eq "1.prems" in auto)
    qed (use "1"(2) "1.prems" in auto)
  qed
  then show ?thesis by (fastforce simp: ends_def)
qed

lemma ends_execute_internal:
  assumes "rejecting (iv_checkpoints iv)"
  shows "ends (execute_internal iv ex) (\<lambda>out. \<exists>rep. out = Completed rep)"
  unfolding execute_internal_def complete_run_def Let_def
  by (rule ends_after, rule ends_bind [OF ends_run_loop [OF assms]])
    (auto intro!: ends_after ends_return)

lemma ends_start_run:
  assumes "rejecting (iv_checkpoints iv)"
  shows "ends (start_run iv s chk) (\<lambda>out. \<exists>rep. out = Completed rep)"
  unfolding start_run_def using ends_execute_internal [OF assms]
  by (auto intro!: ends_after)

lemma rejecting_disabled: "rejecting disabled_checkpoint"
  by (simp add: rejecting_def disabled_checkpoint_def)

lemma rejecting_read_only: "rejecting (read_only_replay_checkpoint t c)"
  by (simp add: rejecting_def read_only_replay_checkpoint_def)

section \<open>Invocations\<close>

text \<open>The event that closes the log of a run with a given result.\<close>

fun closing_event ::
    "run_id \<Rightarrow> (graph_run_error, ('s, 'v) execution_outcome) result \<Rightarrow> graph_event option" where
  "closing_event r (Ok (Completed rep)) = Some (RunCompleted r (rr_steps rep))"
| "closing_event r (Ok (Interrupted rep)) =
     Some (RunInterrupted r (ci_id (it_interrupt rep)) (it_checkpoint_id rep) (it_thread_id rep)
       (ci_node_path (it_interrupt rep)) (it_superstep rep) (it_steps rep))"
| "closing_event r (Err e) = Some (RunFailed r (run_failure_from e))"
| "closing_event r Panic = None"

text \<open>
  \<open>RunStarted\<close>, then events of this run that neither open nor close one, then a last event, in
  every list that the configuration asks for.
\<close>

definition complete_log ::
    "event_config \<Rightarrow> run_id \<Rightarrow> nat \<Rightarrow> graph_event \<Rightarrow> event_emitter \<Rightarrow> bool" where
  "complete_log c r m closing em \<longleftrightarrow>
     (\<exists>progress. (\<forall>e \<in> set progress. is_progress e \<and> event_run_id e = r)
        \<and> (has_sink c \<longrightarrow> em_delivered em = RunStarted r m # progress @ [closing])
        \<and> (retention c = All \<longrightarrow> em_retained em = RunStarted r m # progress @ [closing]))"

lemma closed_by_complete:
  "closed_by r m e em \<Longrightarrow> em_config em = c \<Longrightarrow> complete_log c r m e em"
  by (auto simp: closed_by_def under_way_def emitted_def complete_log_def)

definition run_finished ::
    "event_config \<Rightarrow> nat \<Rightarrow> nat \<Rightarrow> nat \<Rightarrow> (graph_run_error, ('s, 'v) execution_outcome) result
      \<Rightarrow> 'w run_state \<Rightarrow> bool" where
  "run_finished c m start limit x st \<longleftrightarrow>
     (\<exists>r closing. closing_event r x = Some closing \<and> complete_log c r m closing (rs_events st)
        \<and> (\<forall>out. x = Ok out \<longrightarrow> outcome_run_id out = r
             \<and> outcome_events out = em_retained (rs_events st)
             \<and> start \<le> outcome_steps out \<and> outcome_steps out \<le> limit
             \<and> length (outcome_visited_nodes out) =
                 outcome_steps out - start + (case out of Completed _ \<Rightarrow> 0 | Interrupted _ \<Rightarrow> 1)))"

lemma run_finishedI:
  assumes "holds r m x (\<lambda>out st. outcome_ok r m start limit out (rs_events st))" and "keeps x"
    and "running_em r m (rs_events st)" and "x st = Some (y, st')"
  shows "run_finished (em_config (rs_events st)) m start limit y st'"
proof -
  note config = keepsD [OF assms(2,4)]
  have post: "holds_at r m x (\<lambda>out st. outcome_ok r m start limit out (rs_events st)) st"
    by (rule holds_atI [OF assms(1,3)])
  show ?thesis
  proof (cases y)
    case (Ok out)
    then show ?thesis
      using post assms(4) closed_by_complete [OF _ config]
      by (cases out) (auto simp: run_finished_def holds_at_def outcome_ok_def halted_ok_def)
  next
    case (Err e)
    then show ?thesis
      using post assms(4) closed_by_complete [OF _ config]
      by (auto simp: run_finished_def holds_at_def)
  qed (use post assms(4) in \<open>simp add: holds_at_def\<close>)
qed

lemma begin_invocation_ok:
  assumes "begin_invocation env config events control w = ((r, ac), st)"
  shows "running_em r (max_steps config) (rs_events st)" and "control_wf ac"
    and "em_config (rs_events st) = events"
proof -
  have "running_em r m (emit (RunStarted r m) (emitter_new r events))" for r m
    using emitted_emit [OF emitted_new] by (fastforce simp: running_em_def under_way_def)
  moreover have "em_config (emitter_new r events) = events" for r
    by (simp add: emitter_new_def)
  ultimately show "running_em r (max_steps config) (rs_events st)" "control_wf ac"
    "em_config (rs_events st) = events"
    using assms control_wf_new [of env control]
    by (auto simp: begin_invocation_def split: prod.splits) (metis fst_conv)+
qed

lemma invoke_internal_finished:
  assumes "checkpointing g rk" and g: "built dfs g" "dfs_correct dfs"
    and run: "invoke_internal env ops g s config events control rk chk w = Some (y, st')"
  shows "run_finished events (max_steps config) 0 (max_steps config) y st'"
proof -
  obtain r ac st where start: "begin_invocation env config events control w = ((r, ac), st)"
    by (metis prod.exhaust)
  let ?iv = "\<lparr>iv_graph = g, iv_ops = ops, iv_env = env, iv_control = ac, iv_run_id = r,
    iv_max_steps = max_steps config, iv_checkpoints = rk\<rparr>"
  note ok = begin_invocation_ok [OF start]
  have "invocation_ok ?iv" and "served g rk ?iv"
    using built_graph_ok [OF g] ok(2) by (simp_all add: invocation_ok_def served_def)
  then have "holds r (max_steps config) (start_run ?iv s chk)
      (\<lambda>out st. outcome_ok r (max_steps config) 0 (usize_saturating_add 0 (max_steps config)) out (rs_events st))"
    using checkpointing.holds_start_run [OF assms(1), of ?iv] by simp
  then have "run_finished events (max_steps config) 0 (usize_saturating_add 0 (max_steps config)) y st'"
    using run_finishedI [OF _ keeps_start_run ok(1), of ?iv] run start ok(3)
    by (simp add: invoke_internal_def)
  moreover have "usize_saturating_add 0 (max_steps config) \<le> max_steps config"
    by (simp add: usize_saturating_add_def)
  ultimately show ?thesis
    unfolding run_finished_def by (meson le_trans)
qed

lemma built_routable: "built dfs g \<Longrightarrow> dfs_correct dfs \<Longrightarrow> no_empty_subgraph g \<Longrightarrow> routable g"
  by (simp add: routable_def built_graph_ok built_scheduling)

lemma invoke_internal_total:
  assumes "checkpointing g rk" and g: "built dfs g" "dfs_correct dfs" "no_empty_subgraph g"
  shows "\<exists>y st'. invoke_internal env ops g s config events control rk chk w = Some (y, st')"
proof -
  obtain r ac st where start: "begin_invocation env config events control w = ((r, ac), st)"
    by (metis prod.exhaust)
  let ?iv = "\<lparr>iv_graph = g, iv_ops = ops, iv_env = env, iv_control = ac, iv_run_id = r,
    iv_max_steps = max_steps config, iv_checkpoints = rk\<rparr>"
  note ok = begin_invocation_ok [OF start]
  have "invocation_ok ?iv" and "served g rk ?iv"
    using built_graph_ok [OF g(1,2)] ok(2) by (simp_all add: invocation_ok_def served_def)
  then have "total_run r (max_steps config) (start_run ?iv s chk)"
    using checkpointing.total_start_run [OF assms(1), of ?iv] built_routable [OF g] by simp
  then show ?thesis
    using start ok(1) by (auto simp: invoke_internal_def total_run_def)
qed

lemma invoke_internal_completes:
  assumes "rejecting rk" and "invoke_internal env ops g s config events control rk chk w = Some (y, st')"
  shows "y \<noteq> Ok (Interrupted rep)"
proof
  obtain r ac st where start: "begin_invocation env config events control w = ((r, ac), st)"
    by (metis prod.exhaust)
  assume "y = Ok (Interrupted rep)"
  then show False
    using endsD [OF ends_start_run, of "\<lparr>iv_graph = g, iv_ops = ops, iv_env = env, iv_control = ac,
        iv_run_id = r, iv_max_steps = max_steps config, iv_checkpoints = rk\<rparr>" s chk st] assms start
    by (simp add: invoke_internal_def)
qed

end
