(* ===== verification/Continuation.thy ===== *)
theory Continuation
  imports Recovery
begin

text \<open>
  Resume, replay and fork as runs: they never panic, keep the step budget, close their event log and
  return, provided the checkpointer hands out checkpoints whose frontier can run together on this
  graph, as every checkpoint that a run on the graph saved can.
\<close>

section \<open>Checkpoints that can be continued\<close>

text \<open>
  The first two conditions hold of every value of the Rust types. The last one excludes frontiers
  that pass validation although no run can reach them, such as two alternatives of one choice.
\<close>

definition continuable :: "('s, 'u, 'v, 'w) compiled_graph \<Rightarrow> ('t, 'v) checkpoint \<Rightarrow> bool" where
  "continuable g cp \<longleftrightarrow>
     c_step cp < usize_bound \<and> (\<forall>p \<in> set (c_next_frontier cp). node_path_leaf p \<noteq> None)
     \<and> (\<forall>F. validate_and_resolve_checkpoint_frontier g cp = Ok F \<longrightarrow>
          (\<forall>i \<in> set F. \<forall>j \<in> set F. i \<noteq> j \<longrightarrow> together g i j))"

definition continuing ::
    "('s, 'u, 'v, 'w) compiled_graph \<Rightarrow> ('t, 'v, 'w) checkpointer \<Rightarrow> bool" where
  "continuing g ck \<longleftrightarrow>
     (\<forall>t c w cp w'. ck_get ck t c w = (Inr (Some cp), w') \<longrightarrow> continuable g cp)
     \<and> (\<forall>t w cp w'. ck_latest ck t w = (Inr (Some cp), w') \<longrightarrow> continuable g cp)
     \<and> (\<forall>t b w cp w'. ck_branch_head ck t b w = (Inr (Some cp), w') \<longrightarrow> continuable g cp)"

lemma continuingD:
  "continuing g ck \<Longrightarrow> ck_get ck t c w = (Inr (Some cp), w') \<Longrightarrow> continuable g cp"
  "continuing g ck \<Longrightarrow> ck_latest ck t w = (Inr (Some cp), w') \<Longrightarrow> continuable g cp"
  "continuing g ck \<Longrightarrow> ck_branch_head ck t b w = (Inr (Some cp), w') \<Longrightarrow> continuable g cp"
  unfolding continuing_def by blast+

lemma resolve_paths_no_panic:
  "(\<forall>p \<in> set ps. node_path_leaf p \<noteq> None) \<Longrightarrow> resolve_paths g ps \<noteq> Panic"
  by (induction ps)
    (auto simp: result_bind_Panic resolve_path_def split: option.splits if_splits)

lemma check_distinct_no_panic: "\<forall>i \<in> set F. node_at g i \<noteq> None \<Longrightarrow> check_distinct g F \<noteq> Panic"
  by (auto simp: check_distinct_def result_bind_Panic node_result_def dest!: first_dup_SomeD
      split: option.splits)

lemma check_namespace_no_panic: "\<forall>i \<in> set F. node_at g i \<noteq> None \<Longrightarrow> check_namespace g gp F \<noteq> Panic"
  by (induction g gp F rule: check_namespace.induct)
    (auto simp: result_bind_Panic node_result_def split: option.splits if_splits)

lemma check_order_no_panic: "\<forall>i \<in> set F. node_at g i \<noteq> None \<Longrightarrow> check_order g F \<noteq> Panic"
  by (induction g F rule: check_order.induct)
    (auto simp: result_bind_Panic node_result_def split: option.splits)

lemma validate_no_panic:
  assumes "compiled_wf g" and "\<forall>p \<in> set (c_next_frontier cp). node_path_leaf p \<noteq> None"
  shows "validate_and_resolve_checkpoint_frontier g cp \<noteq> Panic"
proof -
  have rest: "check_distinct g F \<noteq> Panic \<and> check_order g F \<noteq> Panic
      \<and> (case F of [] \<Rightarrow> Ok () | i # js \<Rightarrow> result_bind (node_result g i)
          (\<lambda>first. check_namespace g (cn_graph_path first) js)) \<noteq> Panic"
    if "resolve_paths g (c_next_frontier cp) = Ok F" for F
  proof -
    have "\<forall>i \<in> set F. node_at g i \<noteq> None" using that resolve_paths_Ok [OF assms(1)] by blast
    then show ?thesis
      using check_distinct_no_panic [of F g] check_order_no_panic [of F g]
        check_namespace_no_panic [of "tl F" g]
      by (cases F) (auto simp: result_bind_Panic node_result_def)
  qed
  show ?thesis
    using rest resolve_paths_no_panic [OF assms(2)]
    by (auto simp: validate_and_resolve_checkpoint_frontier_def result_bind_Panic split: option.splits)
qed

lemma continuable_frontier:
  assumes "graph_ok g" and "continuable g cp"
    and F: "validate_and_resolve_checkpoint_frontier g cp = Ok F"
  shows "frontier_nodes g F"
proof -
  have wf: "compiled_wf g" using assms(1) by (simp add: graph_ok_def)
  have ok: "acceptable g cp F" using F by (simp add: validate_Ok_iff [OF wf])
  then have "\<forall>i \<in> set F. node_at g i \<noteq> None" by (simp add: acceptable_def)
  moreover from this have "\<forall>i \<in> set F. i < length (cg_items g)" by (auto simp: node_at_def split: if_splits)
  moreover have "sorted_wrt (<) F" using ok by (simp add: acceptable_def)
  moreover have "\<forall>i \<in> set F. \<forall>j \<in> set F. i \<noteq> j \<longrightarrow> together g i j"
    using assms(2) F unfolding continuable_def by blast
  ultimately show ?thesis unfolding frontier_nodes_def frontier_items_def by blast
qed

section \<open>The steps before the loop\<close>

lemma steady_check_none:
  "control_wf ac \<Longrightarrow> steady r m (run_check env ac r' None step None) (\<lambda>_. True)"
  by (rule steady_check) simp_all

lemma steady_boundary:
  assumes "control_wf ac" and "io_safe x" and "\<And>w a w'. x w = (Ok a, w') \<Longrightarrow> Q a"
  shows "steady r m (or_fail (await_run_boundary env ac r' step x)) Q"
proof (rule steady_or_fail [OF io_safe_await_run_boundary [OF assms(1,2)]])
  fix w a w' assume "await_run_boundary env ac r' step x w = (Ok a, w')"
  from await_run_boundary_Ok [OF this] show "Q a" using assms(3) by blast
qed

lemma resume_load_ok:
  assumes "continuing g (rc_checkpointer cfg)" and "resume_load cfg r w = (Ok cp, w')"
  shows "continuable g cp"
  using assms(2) continuingD [OF assms(1)] unfolding resume_load_def head_lookup_def Let_def
  by (auto split: resume_target.splits option.splits sum.splits prod.splits)

lemma io_safe_loads:
  "io_safe (resume_load cfg r)" "io_safe (latest_load cfg r cp)" "io_safe (exact_load ck t c r)"
  "io_safe (create_branch_io fcfg r step)"
  by (auto simp: io_safe_def resume_load_def latest_load_def exact_load_def create_branch_io_def
      Let_def split: sum.splits option.splits prod.splits)

lemma exact_load_ok:
  assumes "continuing g ck" and "exact_load ck t c r w = (Ok cp, w')"
  shows "continuable g cp"
  using assms(2) continuingD [OF assms(1)] unfolding exact_load_def
  by (auto split: sum.splits option.splits prod.splits)

lemma steady_check_identity: "steady r m (check_identity r' t req cp) (\<lambda>_. True)"
  by (auto simp: check_identity_def intro!: steady_fail steady_return split: option.split)

lemma steady_check_latest:
  "control_wf ac \<Longrightarrow> steady r m (check_latest env ac cfg r' cp) (\<lambda>_. True)"
  unfolding check_latest_def Let_def
  by (auto intro!: steady_bind [OF steady_boundary [OF _ io_safe_loads(2), where Q = "\<lambda>_. True"]]
      steady_fail steady_return split: option.split)

lemma steady_resolve_frontier:
  assumes "graph_ok g" and "continuable g cp"
  shows "steady r m (resolve_frontier g r' t cp) (frontier_nodes g)"
proof -
  have "validate_and_resolve_checkpoint_frontier g cp \<noteq> Panic"
    by (rule validate_no_panic) (use assms in \<open>simp_all add: graph_ok_def continuable_def\<close>)
  then show ?thesis
    using continuable_frontier [OF assms]
    by (auto simp: resolve_frontier_def intro!: steady_return steady_fail split: result.split)
qed

lemma steady_match_resume_value: "steady r m (match_resume_value r' t cp F v) (\<lambda>_. True)"
  by (auto simp: match_resume_value_def intro!: steady_fail steady_return split: option.split)

lemma steady_restore_state:
  "control_wf ac \<Longrightarrow> steady r m (restore_state env ac cops r' t cp) (\<lambda>_. True)"
  unfolding restore_state_def
  by (auto intro!: steady_bind [OF steady_check_none] steady_fail steady_return split: sum.split)

lemma steady_resume_initialize:
  "control_wf ac \<Longrightarrow> steady r m (resume_initialize env ac r' t cp init s) (\<lambda>_. True)"
  unfolding resume_initialize_def
  by (auto intro!: steady_bind [OF steady_check_none] steady_fail steady_return split: sum.split)

lemma steady_reenter_subgraphs:
  assumes "frontier_nodes g F"
  shows "steady r m (reenter_subgraphs g r F) (\<lambda>_. True)"
proof (cases F)
  case (Cons i js)
  then obtain nd where "node_at g i = Some nd" using assms by (auto simp: frontier_nodes_def)
  then show ?thesis
    using Cons unfolding reenter_subgraphs_def
    by (auto intro!: steady_bind [OF steady_some] steady_for steady_emit)
qed (simp add: reenter_subgraphs_def steady_return)

lemma keeps_continuation_parts [keep_rules]:
  "keeps (check_identity r t req cp)" "keeps (check_latest env ac cfg r cp)"
  "keeps (resolve_frontier g r t cp)" "keeps (match_resume_value r t cp F v)"
  "keeps (restore_state env ac cops r t cp)" "keeps (resume_initialize env ac r t cp init s)"
  "keeps (reenter_subgraphs g r F)"
  unfolding check_identity_def check_latest_def resolve_frontier_def match_resume_value_def
    restore_state_def resume_initialize_def reenter_subgraphs_def Let_def
  by (auto intro!: keep_rules split: option.split result.split sum.split list.split)

lemma returns_continuation_parts [return_rules]:
  "returns (check_identity r t req cp)" "returns (check_latest env ac cfg r cp)"
  "returns (resolve_frontier g r t cp)" "returns (match_resume_value r t cp F v)"
  "returns (restore_state env ac cops r t cp)" "returns (resume_initialize env ac r t cp init s)"
  "returns (reenter_subgraphs g r F)"
  unfolding check_identity_def check_latest_def resolve_frontier_def match_resume_value_def
    restore_state_def resume_initialize_def reenter_subgraphs_def Let_def
  by (auto intro!: return_rules split: option.split result.split sum.split list.split)

section \<open>Continued runs\<close>

text \<open>
  An outcome within \<open>max\<close> steps of the checkpoint it started from.
\<close>

definition continued ::
    "run_id \<Rightarrow> nat \<Rightarrow> ('s, 'v) execution_outcome \<Rightarrow> event_emitter \<Rightarrow> bool" where
  "continued r m out em \<longleftrightarrow> (\<exists>start. outcome_ok r m start (start + m) out em)"

lemma continued_execute:
  fixes iv :: "('s, 'u, 'v, 'c, 'w) invocation"
  assumes "checkpointing (iv_graph iv) (iv_checkpoints iv)" and "invocation_ok iv"
    and "frontier_nodes (iv_graph iv) F" and "continuable (iv_graph iv) cp"
    and "r = iv_run_id iv" and "m = iv_max_steps iv"
  shows "holds r m (execute_internal iv (continue_execution cp s F node rv chk))
    (\<lambda>out st. continued r m out (rs_events st))"
proof -
  let ?ex = "continue_execution cp s F node rv chk"
  have ex: "ex_frontier ?ex = F" "ex_visited_nodes ?ex = []" "ex_steps ?ex = c_step cp"
    by (simp_all add: continue_execution_def)
  have "served (iv_graph iv) (iv_checkpoints iv) iv" by (simp add: served_def)
  then have "holds (iv_run_id iv) m (execute_internal iv ?ex)
      (\<lambda>out st. outcome_ok (iv_run_id iv) m (ex_steps ?ex)
         (usize_saturating_add (ex_steps ?ex) (iv_max_steps iv)) out (rs_events st))"
    using checkpointing.holds_execute_internal [OF assms(1,2), of ?ex m] assms(3,4)
    unfolding ex by (simp add: continuable_def)
  then show ?thesis
    unfolding assms(5)
  proof (rule holds_conseq)
    fix out :: "('s, 'v) execution_outcome" and st :: "'w run_state"
    assume out: "outcome_ok (iv_run_id iv) m (ex_steps ?ex)
      (usize_saturating_add (ex_steps ?ex) (iv_max_steps iv)) out (rs_events st)"
    have "usize_saturating_add (ex_steps ?ex) (iv_max_steps iv) \<le> ex_steps ?ex + m"
      using assms(6) by (simp add: usize_saturating_add_def)
    then have "outcome_ok (iv_run_id iv) m (ex_steps ?ex) (ex_steps ?ex + m) out (rs_events st)"
      using out unfolding outcome_ok_def by (meson le_trans)
    then show "continued (iv_run_id iv) m out (rs_events st)" unfolding continued_def by blast
  qed
qed

lemma total_continued:
  assumes "checkpointing (iv_graph iv) (iv_checkpoints iv)" and "invocation_ok iv"
    and "frontier_nodes (iv_graph iv) F" and "continuable (iv_graph iv) cp"
    and "routable (iv_graph iv)" and "r = iv_run_id iv"
  shows "total_run r m (execute_internal iv (continue_execution cp s F node rv chk))"
proof -
  let ?ex = "continue_execution cp s F node rv chk"
  have "served (iv_graph iv) (iv_checkpoints iv) iv" by (simp add: served_def)
  then show ?thesis
    using checkpointing.total_execute_internal [OF assms(1,2), of ?ex m] assms(3-6)
    by (simp add: continue_execution_def continuable_def)
qed

lemma steady_open_checkpoint:
  assumes "control_wf ac" and "graph_ok g" and "continuing g ck"
  shows "steady r m (open_checkpoint env ac cops g ck r' t c v)
    (\<lambda>(cp, F, y). continuable g cp \<and> frontier_nodes g F)"
  unfolding open_checkpoint_def
  by (rule steady_bind [OF steady_check_none [OF assms(1)]],
      rule steady_bind [OF steady_boundary [OF assms(1) io_safe_loads(3) exact_load_ok [OF assms(3)]]],
      assumption, rule steady_bind [OF steady_check_identity],
      rule steady_bind [OF steady_resolve_frontier [OF assms(2)]], assumption,
      rule steady_bind [OF steady_match_resume_value],
      rule steady_bind [OF steady_restore_state [OF assms(1)]])
    (simp add: steady_return)

lemma returns_open_checkpoint [return_rules]: "returns (open_checkpoint env ac cops g ck r t c v)"
  unfolding open_checkpoint_def by (auto intro!: return_rules)

lemma keeps_open_checkpoint [keep_rules]: "keeps (open_checkpoint env ac cops g ck r t c v)"
  unfolding open_checkpoint_def by (auto intro!: keep_rules)

text \<open>What the caller of a run sees, whatever the run returns.\<close>

lemma run_log:
  assumes "holds r m x Q" and "keeps x" and "running_em r m (rs_events st)" and "x st = Some (y, st')"
  shows "case y of
      Ok a \<Rightarrow> Q a st'
    | Err e \<Rightarrow> complete_log (em_config (rs_events st)) r m (RunFailed r (run_failure_from e))
        (rs_events st')
    | Panic \<Rightarrow> False"
  using holds_atI [OF assms(1,3)] assms(4) closed_by_complete [OF _ keepsD [OF assms(2,4)]]
  by (cases y) (simp_all add: holds_at_def)

lemma continued_log:
  assumes "continued r m out (rs_events st)" and "em_config (rs_events st) = c"
  shows "\<exists>start. run_finished c m start (start + m) (Ok out) st"
proof -
  obtain start where "outcome_ok r m start (start + m) out (rs_events st)"
    using assms(1) by (auto simp: continued_def)
  then have "run_finished c m start (start + m) (Ok out) st"
    using closed_by_complete [OF _ assms(2)]
    by (cases out) (auto simp: run_finished_def outcome_ok_def halted_ok_def)
  then show ?thesis ..
qed

lemma failed_log:
  "complete_log c r m (RunFailed r (run_failure_from e)) (rs_events st) \<Longrightarrow>
     run_finished c m start limit (Err e) st"
  by (auto simp: run_finished_def)

section \<open>Resume, replay and fork\<close>

lemma holds_resume_run:
  assumes g: "graph_ok g" and ac: "control_wf ac" and ck: "continuing g (rc_checkpointer cfg)"
    and m: "m = max_steps (rc_run_config cfg)"
  shows "holds r m (resume_run env ops cops g cfg init r ac) (\<lambda>out st. continued r m out (rs_events st))"
proof -
  have branch: "steady r m (case b of Some x \<Rightarrow> run_emit (BranchResumed r t x c s n)
      | None \<Rightarrow> run_return ()) (\<lambda>_. True)" for b t c s n
    by (cases b) (auto intro: steady_return steady_emit)
  show ?thesis
    unfolding resume_run_def Let_def
    by (rule holds_bind [OF steady_check_none [OF ac]],
        rule holds_bind [OF steady_boundary [OF ac io_safe_loads(1) resume_load_ok [OF ck]]],
        assumption, rule holds_bind [OF steady_check_identity],
        rule holds_bind [OF steady_check_latest [OF ac]],
        rule holds_bind [OF steady_resolve_frontier [OF g]], assumption,
        rule holds_bind [OF steady_match_resume_value], clarify,
        rule holds_bind [OF steady_restore_state [OF ac]],
        rule holds_bind [OF steady_resume_initialize [OF ac]],
        rule holds_bind [OF steady_emit], simp, simp,
        rule holds_bind [OF branch], rule holds_bind [OF steady_reenter_subgraphs], assumption,
        rule continued_execute)
      (simp_all add: enabled.checkpointing_axioms invocation_ok_def g ac m)
qed

lemma total_resume_run:
  assumes g: "routable g" and ac: "control_wf ac" and ck: "continuing g (rc_checkpointer cfg)"
  shows "total_run r m (resume_run env ops cops g cfg init r ac)"
proof -
  have gok: "graph_ok g" using g by (simp add: routable_def)
  have branch: "steady r m (case b of Some x \<Rightarrow> run_emit (BranchResumed r t x c s n)
      | None \<Rightarrow> run_return ()) (\<lambda>_. True)" for b t c s n
    by (cases b) (auto intro: steady_return steady_emit)
  have rest: "total_run r m (case b of Some x \<Rightarrow> run_emit (BranchResumed r t x c s n)
      | None \<Rightarrow> run_return ())" for b t c s n
    by (cases b) (auto intro: total_returns return_rules)
  show ?thesis
    unfolding resume_run_def Let_def
    by (rule total_bind [OF steady_check_none [OF ac]], simp add: total_returns return_rules,
        rule total_bind [OF steady_boundary [OF ac io_safe_loads(1) resume_load_ok [OF ck]]],
        assumption, simp add: total_returns return_rules,
        rule total_bind [OF steady_check_identity], simp add: total_returns return_rules,
        rule total_bind [OF steady_check_latest [OF ac]], simp add: total_returns return_rules,
        rule total_bind [OF steady_resolve_frontier [OF gok]], assumption,
        simp add: total_returns return_rules,
        rule total_bind [OF steady_match_resume_value], simp add: total_returns return_rules, clarify,
        rule total_bind [OF steady_restore_state [OF ac]], simp add: total_returns return_rules,
        rule total_bind [OF steady_resume_initialize [OF ac]], simp add: total_returns return_rules,
        rule total_bind [OF steady_emit], simp, simp, simp add: total_returns return_rules,
        rule total_bind [OF branch rest], rule total_bind [OF steady_reenter_subgraphs], assumption,
        simp add: total_returns return_rules, rule total_continued)
      (simp_all add: enabled.checkpointing_axioms invocation_ok_def g gok ac)
qed

lemma keeps_resume_run: "keeps (resume_run env ops cops g cfg init r ac)"
  unfolding resume_run_def Let_def by (auto intro!: keep_rules split: option.split)

lemma holds_ends:
  "holds r m x Q \<Longrightarrow> ends x P \<Longrightarrow> holds r m x (\<lambda>a st. Q a st \<and> P a)"
  by (fastforce simp: holds_def holds_at_def ends_def split: option.splits prod.splits result.splits)

lemma holds_replay_run:
  fixes g :: "('s, 'u, 'v, 'w) compiled_graph"
  assumes g: "graph_ok g" and ac: "control_wf ac" and ck: "continuing g (rp_checkpointer cfg)"
    and m: "m = max_steps (rp_run_config cfg)"
  shows "holds r m (replay_run env ops cops g cfg r ac)
    (\<lambda>rep st. continued r m (Completed (rpr_run rep) :: ('s, 'v) execution_outcome) (rs_events st))"
proof -
  let ?iv = "\<lparr>iv_graph = g, iv_ops = ops, iv_env = env, iv_control = ac, iv_run_id = r,
    iv_max_steps = m, iv_checkpoints = read_only_replay_checkpoint (rp_thread_id cfg)
      (rp_checkpoint_id cfg)\<rparr>"
  have run: "holds r m (execute_internal ?iv (continue_execution cp s F node rv ()))
      (\<lambda>out st. continued r m out (rs_events st) \<and> (\<exists>rep. out = Completed rep))"
    if "continuable g cp" "frontier_nodes g F" for cp s F node rv
    by (rule holds_ends [OF continued_execute ends_execute_internal])
      (use that in \<open>simp_all add: read_only.checkpointing_axioms rejecting_read_only
         invocation_ok_def g ac\<close>)
  have report: "holds r m (run_bind (execute_internal ?iv (continue_execution cp s F node rv ()))
      (\<lambda>outcome. case outcome of Completed report \<Rightarrow> run_return (rep cp report)
        | Interrupted report \<Rightarrow> run_panic))
      (\<lambda>x st. continued r m (Completed (rpr_run x) :: ('s, 'v) execution_outcome) (rs_events st))"
    if "continuable g cp" "frontier_nodes g F" "\<And>cp report. rpr_run (rep cp report) = report"
    for cp s F node rv and rep :: "_ \<Rightarrow> _ \<Rightarrow> _ replay_report"
    by (rule holds_bind_at [OF run [OF that(1,2)]])
      (auto intro!: holds_at_return simp: that(3))
  show ?thesis
    unfolding replay_run_def Let_def m [symmetric]
    by (rule holds_bind [OF steady_open_checkpoint [OF ac g ck]], clarify,
        rule holds_bind [OF steady_emit], simp, simp,
        rule holds_bind [OF steady_reenter_subgraphs], assumption, rule report) simp_all
qed

lemma holds_fork_run:
  assumes g: "graph_ok g" and ac: "control_wf ac" and ck: "continuing g (fk_checkpointer cfg)"
    and m: "m = max_steps (fk_run_config cfg)"
  shows "holds r m (fork_run env ops cops g cfg r ac)
    (\<lambda>rep st. continued r m (fr_outcome rep) (rs_events st))"
proof -
  let ?iv = "\<lparr>iv_graph = g, iv_ops = ops, iv_env = env, iv_control = ac, iv_run_id = r,
    iv_max_steps = m,
    iv_checkpoints = enabled_checkpoint env cops (fork_checkpoint_config cfg) (cg_version g)\<rparr>"
  have report: "holds r m (run_bind (execute_internal ?iv (continue_execution cp s F node rv chk))
      (\<lambda>outcome. run_return (rep outcome))) (\<lambda>x st. continued r m (fr_outcome x) (rs_events st))"
    if "continuable g cp" "frontier_nodes g F" "\<And>out. fr_outcome (rep out) = out"
    for cp s F node rv chk and rep :: "_ \<Rightarrow> (_, _) fork_report"
    by (rule holds_bind_at [OF continued_execute])
      (use that in \<open>simp_all add: enabled.checkpointing_axioms invocation_ok_def g ac holds_at_return\<close>)
  show ?thesis
    unfolding fork_run_def Let_def m [symmetric]
    by (rule holds_bind [OF steady_open_checkpoint [OF ac g ck]], clarify,
        rule holds_bind [OF steady_boundary [OF ac io_safe_loads(4), where Q = "\<lambda>_. True"]], simp,
        rule holds_bind [OF steady_emit], simp, simp,
        rule holds_bind [OF steady_reenter_subgraphs], assumption, rule report) simp_all
qed

lemma total_replay_run:
  assumes g: "routable g" and ac: "control_wf ac" and ck: "continuing g (rp_checkpointer cfg)"
  shows "total_run r m (replay_run env ops cops g cfg r ac)"
proof -
  have gok: "graph_ok g" using g by (simp add: routable_def)
  let ?iv = "\<lparr>iv_graph = g, iv_ops = ops, iv_env = env, iv_control = ac, iv_run_id = r,
    iv_max_steps = max_steps (rp_run_config cfg), iv_checkpoints = read_only_replay_checkpoint
      (rp_thread_id cfg) (rp_checkpoint_id cfg)\<rparr>"
  have run: "total_run r m (execute_internal ?iv (continue_execution cp s F node rv ()))"
    if "continuable g cp" "frontier_nodes g F" for cp s F node rv
    by (rule total_continued)
      (use that in \<open>simp_all add: read_only.checkpointing_axioms invocation_ok_def g gok ac\<close>)
  show ?thesis
    unfolding replay_run_def Let_def
    by (rule total_bind [OF steady_open_checkpoint [OF ac gok ck]],
        simp add: total_returns return_rules, clarify,
        rule total_bind [OF steady_emit], simp, simp, simp add: total_returns return_rules,
        rule total_bind [OF steady_reenter_subgraphs], assumption,
        simp add: total_returns return_rules, rule total_bind_any [OF run])
      (auto intro: return_rules split: execution_outcome.split)
qed

lemma total_fork_run:
  assumes g: "routable g" and ac: "control_wf ac" and ck: "continuing g (fk_checkpointer cfg)"
  shows "total_run r m (fork_run env ops cops g cfg r ac)"
proof -
  have gok: "graph_ok g" using g by (simp add: routable_def)
  let ?iv = "\<lparr>iv_graph = g, iv_ops = ops, iv_env = env, iv_control = ac, iv_run_id = r,
    iv_max_steps = max_steps (fk_run_config cfg),
    iv_checkpoints = enabled_checkpoint env cops (fork_checkpoint_config cfg) (cg_version g)\<rparr>"
  have run: "total_run r m (execute_internal ?iv (continue_execution cp s F node rv chk))"
    if "continuable g cp" "frontier_nodes g F" for cp s F node rv chk
    by (rule total_continued)
      (use that in \<open>simp_all add: enabled.checkpointing_axioms invocation_ok_def g gok ac\<close>)
  show ?thesis
    unfolding fork_run_def Let_def
    by (rule total_bind [OF steady_open_checkpoint [OF ac gok ck]],
        simp add: total_returns return_rules, clarify,
        rule total_bind [OF steady_boundary [OF ac io_safe_loads(4), where Q = "\<lambda>_. True"]], simp,
        simp add: total_returns return_rules,
        rule total_bind [OF steady_emit], simp, simp, simp add: total_returns return_rules,
        rule total_bind [OF steady_reenter_subgraphs], assumption,
        simp add: total_returns return_rules, rule total_bind_any [OF run])
      (auto intro: return_rules)
qed

lemma keeps_replay_run: "keeps (replay_run env ops cops g cfg r ac)"
  unfolding replay_run_def Let_def by (auto intro!: keep_rules split: execution_outcome.split)

lemma keeps_fork_run: "keeps (fork_run env ops cops g cfg r ac)"
  unfolding fork_run_def Let_def by (auto intro!: keep_rules)

section \<open>The entry points\<close>

lemma resume_finished:
  assumes g: "built dfs g" "dfs_correct dfs" "no_empty_subgraph g"
    and ck: "continuing g (rc_checkpointer cfg)"
  shows "\<exists>x st. resume_with_state_initializer env ops cops g cfg init w = Some (x, st)
    \<and> (\<exists>start. run_finished (rc_event_config cfg) (max_steps (rc_run_config cfg)) start
        (start + max_steps (rc_run_config cfg)) x st)"
proof -
  let ?m = "max_steps (rc_run_config cfg)"
  obtain r ac st where start:
    "begin_invocation env (rc_run_config cfg) (rc_event_config cfg) (rc_control cfg) w = ((r, ac), st)"
    by (metis prod.exhaust)
  note ok = begin_invocation_ok [OF start] and gok = built_graph_ok [OF g(1,2)]
  note holds = holds_resume_run [OF gok ok(2) ck refl]
  obtain y st' where run: "resume_run env ops cops g cfg init r ac st = Some (y, st')"
    using total_resume_run [OF built_routable [OF g] ok(2) ck] ok(1)
    by (fastforce simp: total_run_def)
  have "\<exists>start. run_finished (rc_event_config cfg) ?m start (start + ?m) y st'"
    using run_log [OF holds keeps_resume_run ok(1) run] keepsD [OF keeps_resume_run run] ok(3)
      continued_log [of r ?m _ st' "rc_event_config cfg"]
    by (cases y) (auto intro: failed_log)
  then show ?thesis using run start by (auto simp: resume_with_state_initializer_def)
qed

text \<open>Replay and fork return a report around the outcome.\<close>

fun map_result :: "('a \<Rightarrow> 'b) \<Rightarrow> (graph_run_error, 'a) result \<Rightarrow> (graph_run_error, 'b) result" where
  "map_result f (Ok a) = Ok (f a)"
| "map_result f (Err e) = Err e"
| "map_result f Panic = Panic"

lemma replay_finished:
  fixes g :: "('s, 'u, 'v, 'w) compiled_graph"
  assumes g: "built dfs g" "dfs_correct dfs" "no_empty_subgraph g"
    and ck: "continuing g (rp_checkpointer cfg)"
  shows "\<exists>x st. replay env ops cops g cfg w = Some (x, st)
    \<and> (\<exists>start. run_finished (rp_event_config cfg) (max_steps (rp_run_config cfg)) start
        (start + max_steps (rp_run_config cfg))
        (map_result (\<lambda>r. Completed (rpr_run r) :: ('s, 'v) execution_outcome) x) st)"
proof -
  let ?m = "max_steps (rp_run_config cfg)"
  obtain r ac st where start:
    "begin_invocation env (rp_run_config cfg) (rp_event_config cfg) (rp_control cfg) w = ((r, ac), st)"
    by (metis prod.exhaust)
  note ok = begin_invocation_ok [OF start] and gok = built_graph_ok [OF g(1,2)]
  note holds = holds_replay_run [OF gok ok(2) ck refl]
  obtain x st' where run: "replay_run env ops cops g cfg r ac st = Some (x, st')"
    using total_replay_run [OF built_routable [OF g] ok(2) ck] ok(1)
    by (fastforce simp: total_run_def)
  have "\<exists>start. run_finished (rp_event_config cfg) ?m start (start + ?m) (map_result (\<lambda>r. Completed (rpr_run r) :: ('s, 'v) execution_outcome) x) st'"
    using run_log [OF holds keeps_replay_run ok(1) run] keepsD [OF keeps_replay_run run] ok(3)
      continued_log [where st = st' and c = "rp_event_config cfg"]
    by (cases x) (auto intro: failed_log)
  then show ?thesis using run start by (auto simp: replay_def)
qed

lemma fork_finished:
  assumes g: "built dfs g" "dfs_correct dfs" "no_empty_subgraph g"
    and ck: "continuing g (fk_checkpointer cfg)"
  shows "\<exists>x st. fork env ops cops g cfg w = Some (x, st)
    \<and> (\<exists>start. run_finished (fk_event_config cfg) (max_steps (fk_run_config cfg)) start
        (start + max_steps (fk_run_config cfg)) (map_result fr_outcome x) st)"
proof -
  let ?m = "max_steps (fk_run_config cfg)"
  obtain r ac st where start:
    "begin_invocation env (fk_run_config cfg) (fk_event_config cfg) (fk_control cfg) w = ((r, ac), st)"
    by (metis prod.exhaust)
  note ok = begin_invocation_ok [OF start] and gok = built_graph_ok [OF g(1,2)]
  note holds = holds_fork_run [OF gok ok(2) ck refl]
  obtain x st' where run: "fork_run env ops cops g cfg r ac st = Some (x, st')"
    using total_fork_run [OF built_routable [OF g] ok(2) ck] ok(1)
    by (fastforce simp: total_run_def)
  have "\<exists>start. run_finished (fk_event_config cfg) ?m start (start + ?m) (map_result (fr_outcome) x) st'"
    using run_log [OF holds keeps_fork_run ok(1) run] keepsD [OF keeps_fork_run run] ok(3)
      continued_log [where st = st' and c = "fk_event_config cfg"]
    by (cases x) (auto intro: failed_log)
  then show ?thesis using run start by (auto simp: fork_def)
qed

section \<open>Only the head is resumed\<close>

lemma ends_check_identity: "ends (check_identity r t (Some c) cp) (\<lambda>_. c_id cp = c)"
  by (auto simp: check_identity_def intro: ends_fail ends_return)

lemma ends_check_latest:
  assumes "rc_target cfg = Checkpoint c"
    and head: "\<And>v v' latest. head_lookup (rc_checkpointer cfg) (rc_thread_id cfg) (rc_branch_id cfg) v
      = (Inr (Some latest), v') \<Longrightarrow> c_id latest \<noteq> c"
    and "c_id cp = c"
  shows "ends (check_latest env ac cfg r cp) (\<lambda>_. False)"
proof -
  have loaded: "c_id l \<noteq> c" if "latest_load cfg r cp w = (Ok (Some l), w')" for w w' l
    using that head by (auto simp: latest_load_def split: prod.splits sum.splits)
  have load: "ends (or_fail (await_run_boundary env ac r n (latest_load cfg r cp)))
      (\<lambda>latest. \<forall>l. latest = Some l \<longrightarrow> c_id l \<noteq> c)" for n
    unfolding ends_def or_fail_def
    by (auto simp: run_fail_def split: prod.splits result.splits dest!: await_run_boundary_Ok loaded)
  show ?thesis
    unfolding check_latest_def Let_def
  proof (subst if_not_P, simp add: assms(1), intro ends_bind [OF load])
    fix latest
    assume "\<forall>l. latest = Some l \<longrightarrow> c_id l \<noteq> c"
    then show "ends (case (latest, rc_branch_id cfg) of
        (None, Some b) \<Rightarrow> run_fail (graph_run_error.BranchNotFound r (rc_thread_id cfg) b (c_step cp))
      | _ \<Rightarrow> (if map_option c_id latest \<noteq> Some (c_id cp)
           then run_fail (graph_run_error.ResumeConflict r (rc_thread_id cfg) (c_id cp)
             (map_option c_id latest) (c_step cp))
           else run_return ())) (\<lambda>_. False)"
      using assms(3) by (cases latest; cases "rc_branch_id cfg") (simp_all add: ends_fail)
  qed
qed

lemma resume_not_head:
  assumes "rc_target cfg = Checkpoint c"
    and head: "\<And>v v' latest. head_lookup (rc_checkpointer cfg) (rc_thread_id cfg) (rc_branch_id cfg) v
      = (Inr (Some latest), v') \<Longrightarrow> c_id latest \<noteq> c"
    and run: "resume_with_state_initializer env ops cops g cfg init w = Some (x, st')"
  shows "x \<noteq> Ok out"
proof -
  obtain r ac st where start:
    "begin_invocation env (rc_run_config cfg) (rc_event_config cfg) (rc_control cfg) w = ((r, ac), st)"
    by (metis prod.exhaust)
  have "ends (resume_run env ops cops g cfg init r ac) (\<lambda>_. False)"
    unfolding resume_run_def Let_def assms(1) resume_target.case
    by (rule ends_after, rule ends_after, rule ends_bind [OF ends_check_identity],
        rule ends_bind [OF ends_check_latest [OF assms(1) head]]) simp_all
  then show ?thesis using run start endsD by (fastforce simp: resume_with_state_initializer_def)
qed

end
