(* ===== verification/Assertions.thy ===== *)
theory Assertions
  imports Recovery
begin

text \<open>
  Runs with an assertion before each save. A run whose saves may also panic is the run without the
  assertion unless it panics; when the assertion holds at every boundary of the graph the two are
  the same. Here the assertion is that the checkpoint could be continued.
\<close>

section \<open>Code that only panics more\<close>

named_theorems refine_rules "rules for code that panics more"

definition refines :: "('w, 'a) run \<Rightarrow> ('w, 'a) run \<Rightarrow> bool" where
  "refines x y \<longleftrightarrow> (\<forall>st. x st = y st \<or> (\<exists>st'. x st = Some (Panic, st')))"

lemma refines_refl [refine_rules]: "refines x x"
  by (simp add: refines_def)

lemma refines_bind [refine_rules]:
  assumes "refines x y" and "\<And>a. refines (f a) (h a)"
  shows "refines (run_bind x f) (run_bind y h)"
  unfolding refines_def
proof
  fix st
  show "run_bind x f st = run_bind y h st \<or> (\<exists>st'. run_bind x f st = Some (Panic, st'))"
  proof (cases "\<exists>st'. x st = Some (Panic, st')")
    case False
    then have same: "x st = y st" using assms(1) by (auto simp: refines_def)
    have "f a st' = h a st' \<or> (\<exists>st''. f a st' = Some (Panic, st''))" for a st'
      using assms(2) by (auto simp: refines_def)
    then show ?thesis
      by (auto simp: run_bind_def same split: option.splits prod.splits result.splits)
  qed (auto simp: run_bind_def)
qed

lemma refines_or_fail:
  assumes "\<And>w. x w = y w \<or> fst (x w) = Panic"
  shows "refines (or_fail x) (or_fail y)"
  unfolding refines_def
proof
  fix st :: "'a run_state"
  show "or_fail x st = or_fail y st \<or> (\<exists>st'. or_fail x st = Some (Panic, st'))"
    using assms [of "rs_world st"]
  proof
    assume "x (rs_world st) = y (rs_world st)"
    then show ?thesis by (simp add: or_fail_def)
  qed (cases "x (rs_world st)", auto simp: or_fail_def)
qed

lemma refines_if [refine_rules]:
  "(b \<Longrightarrow> refines x y) \<Longrightarrow> (\<not> b \<Longrightarrow> refines x' y') \<Longrightarrow>
     refines (if b then x else x') (if b then y else y')"
  by simp

lemma boundary_io_refines:
  assumes "\<And>w. x w = y w \<or> fst (x w) = Panic"
  shows "await_run_boundary env ac r step x w = await_run_boundary env ac r step y w
    \<or> fst (await_run_boundary env ac r step x w) = Panic"
  using assms
  by (auto simp: await_run_boundary_def select_future_def split: prod.splits race.splits option.splits)

locale save_assertion =
  fixes rk rk' :: "('s, 'v, 'c, 'w) runtime_checkpoint"
  assumes interrupt_same: "rk_interrupt_error rk' = rk_interrupt_error rk"
    and should_save_same: "rk_should_save rk' = rk_should_save rk"
    and save_asserted: "rk_save rk' r s b c w = rk_save rk r s b c w \<or> fst (rk_save rk' r s b c w) = Panic"

definition asserting ::
    "('s, 'v, 'c, 'w) runtime_checkpoint \<Rightarrow> ('s, 'u, 'v, 'c, 'w) invocation
      \<Rightarrow> ('s, 'u, 'v, 'c, 'w) invocation" where
  "asserting rk iv = iv\<lparr>iv_checkpoints := rk\<rparr>"

lemma asserting_fields [simp]:
  "iv_graph (asserting rk iv) = iv_graph iv" "iv_ops (asserting rk iv) = iv_ops iv"
  "iv_env (asserting rk iv) = iv_env iv" "iv_control (asserting rk iv) = iv_control iv"
  "iv_run_id (asserting rk iv) = iv_run_id iv" "iv_max_steps (asserting rk iv) = iv_max_steps iv"
  "iv_checkpoints (asserting rk iv) = rk"
  by (simp_all add: asserting_def)

lemma asserting_basic [simp]:
  "guard (asserting rk iv) = guard iv" "get_node (asserting rk iv) = get_node iv"
  "run_normalize (asserting rk iv) = run_normalize iv"
  by (intro ext, simp add: guard_def get_node_def run_normalize_def)+

lemma asserting_node_paths [simp]: "node_paths_of (asserting rk iv) = node_paths_of iv"
  by (intro ext) (simp add: node_paths_of_def)

lemma asserting_parts [simp]:
  "begin_superstep (asserting rk iv) = begin_superstep iv"
  "start_node (asserting rk iv) = start_node iv" "state_updated (asserting rk iv) = state_updated iv"
  by (intro ext, simp add: begin_superstep_def start_node_def state_updated_def cong: if_cong)+

lemma asserting_route_nodes [simp]: "route_nodes (asserting rk iv) base s xs ts = route_nodes iv base s xs ts"
  by (induction iv base s xs ts rule: route_nodes.induct) simp_all

lemma asserting_next_frontier [simp]: "next_frontier (asserting rk iv) = next_frontier iv"
  by (intro ext) (simp add: next_frontier_def cong: if_cong)

lemma asserting_complete_run [simp]: "complete_run (asserting rk iv) = complete_run iv"
  by (intro ext) (simp add: complete_run_def)

context save_assertion
begin

lemma refines_save:
  "refines (or_fail (await_run_boundary env ac r step (rk_save rk' r' s b c)))
     (or_fail (await_run_boundary env ac r step (rk_save rk r' s b c)))"
  by (rule refines_or_fail, rule boundary_io_refines, rule save_asserted)

lemma refines_suspend:
  assumes "iv_checkpoints iv = rk"
  shows "refines (suspend (asserting rk' iv) ex node superstep step req)
    (suspend iv ex node superstep step req)"
  unfolding suspend_def Let_def assms asserting_fields asserting_basic interrupt_same
  by (auto intro!: refine_rules refines_save split: option.split)

lemma refines_run_single:
  "iv_checkpoints iv = rk \<Longrightarrow> refines (run_single (asserting rk' iv) ex first) (run_single iv ex first)"
  unfolding run_single_def Let_def
  by (auto intro!: refine_rules refines_suspend split: node_outcome.split)

lemma finish_node_same:
  "iv_checkpoints iv = rk \<Longrightarrow> finish_node (asserting rk' iv) ex x = finish_node iv ex x"
  by (simp add: finish_node_def interrupt_same)

lemma collect_updates_same:
  "iv_checkpoints iv = rk \<Longrightarrow>
     collect_updates (asserting rk' iv) ex pending slots st = collect_updates iv ex pending slots st"
proof (induction pending arbitrary: slots st rule: measure_induct_rule [where f = length])
  case (less pending)
  show ?case
  proof (cases "pending = []")
    case False
    then have "collect_updates (asserting rk' iv) ex (remove_nth (k mod length pending) pending) zs st'
        = collect_updates iv ex (remove_nth (k mod length pending) pending) zs st'" for k zs st'
      using less by (intro less.IH length_remove_nth) simp
    then show ?thesis
      using False less.prems
      by (subst (1 2) collect_updates.simps) (simp add: finish_node_same run_bind_def Let_def
          split: option.split prod.split result.split)
  qed (simp add: collect_updates.simps)
qed

lemma run_parallel_same:
  "iv_checkpoints iv = rk \<Longrightarrow> run_parallel (asserting rk' iv) ex first = run_parallel iv ex first"
  by (simp add: fun_eq_iff run_parallel_def Let_def run_bind_def collect_updates_same
      split: option.split prod.split result.split)

lemma refines_save_boundary:
  assumes "iv_checkpoints iv = rk"
  shows "refines (save_boundary (asserting rk' iv) s ss n F chk) (save_boundary iv s ss n F chk)"
  unfolding save_boundary_def Let_def assms asserting_fields asserting_node_paths should_save_same
  by (auto intro!: refine_rules refines_save)

lemma refines_finish_superstep:
  "iv_checkpoints iv = rk \<Longrightarrow>
     refines (finish_superstep (asserting rk' iv) ex first s) (finish_superstep iv ex first s)"
  unfolding finish_superstep_def Let_def
  by (auto simp: should_save_same intro!: refine_rules refines_save_boundary)

lemma refines_superstep_turn:
  "iv_checkpoints iv = rk \<Longrightarrow>
     refines (superstep_turn (asserting rk' iv) limit ex) (superstep_turn iv limit ex)"
  unfolding superstep_turn_def
  by (auto simp: run_parallel_same intro!: refine_rules refines_run_single refines_finish_superstep
      split: commit.split)

text \<open>One step of the two loops: the same outcome, or a panic of the asserting one.\<close>

lemma refines_run_loop:
  fixes iv :: "('s, 'u, 'v, 'c, 'w) invocation"
  assumes rk: "iv_checkpoints iv = rk"
  shows "refines (run_loop (asserting rk' iv) limit ex) (run_loop iv limit ex)"
proof -
  have turn: "superstep_turn (asserting rk' iv) limit ex st = superstep_turn iv limit ex st
      \<or> (\<exists>st'. superstep_turn (asserting rk' iv) limit ex st = Some (Panic, st'))"
    if "iv_checkpoints iv = rk" for iv limit ex and st :: "'w run_state"
    using refines_superstep_turn [OF that] by (simp add: refines_def)
  have fwd: "run_loop (asserting rk' iv) limit ex st = Some y \<or>
      (\<exists>st'. run_loop (asserting rk' iv) limit ex st = Some (Panic, st'))"
    if "run_loop iv limit ex st = Some y" for y ex and st :: "'w run_state"
    using rk
  proof (induction rule: run_loop.raw_induct [OF _ that])
    case (1 f iv limit ex st y)
    show ?case
    proof (cases "ex_frontier ex = []")
      case True
      then show ?thesis using "1"(2) by (simp add: run_loop.simps)
    next
      case False
      then obtain z st' where z: "superstep_turn iv limit ex st = Some (z, st')"
        using "1"(2) by (cases "superstep_turn iv limit ex st") auto
      have rec: "f iv limit ex' st' = Some y \<Longrightarrow>
        run_loop (asserting rk' iv) limit ex' st' = Some y \<or>
        (\<exists>st''. run_loop (asserting rk' iv) limit ex' st' = Some (Panic, st''))" for ex'
        using "1"(1) [OF _ "1.prems"] by blast
      from turn [OF "1.prems", of limit ex st] show ?thesis
        using "1"(2) False z
        by (subst (1 2) run_loop.simps) (auto dest!: rec split: result.splits turn_result.splits)
    qed
  qed
  have bwd: "run_loop iv limit ex st = Some y \<or> fst y = Panic"
    if "run_loop jv limit ex st = Some y" "jv = asserting rk' iv" for y ex jv and st :: "'w run_state"
    using rk that(2)
  proof (induction arbitrary: iv rule: run_loop.raw_induct [OF _ that(1)])
    case (1 f jv limit ex st y)
    show ?case
    proof (cases "ex_frontier ex = []")
      case True
      then show ?thesis using "1"(2) by (simp add: run_loop.simps)
    next
      case False
      then obtain z st' where z: "superstep_turn jv limit ex st = Some (z, st')"
        using "1"(2) by (cases "superstep_turn jv limit ex st") auto
      have rec: "f jv limit ex' st' = Some y \<Longrightarrow> run_loop iv limit ex' st' = Some y \<or> fst y = Panic" for ex'
        using "1"(1) [OF _ "1.prems"] by blast
      from turn [OF "1.prems"(1), of limit ex st]
      have "superstep_turn iv limit ex st = Some (z, st') \<or> z = Panic" using z "1.prems"(2) by auto
      then show ?thesis
        using "1"(2) False z
        by (subst run_loop.simps) (auto dest!: rec split: result.splits turn_result.splits)
    qed
  qed
  show ?thesis
    unfolding refines_def
  proof
    fix st :: "'w run_state"
    show "run_loop (asserting rk' iv) limit ex st = run_loop iv limit ex st
      \<or> (\<exists>st'. run_loop (asserting rk' iv) limit ex st = Some (Panic, st'))"
      using fwd [of ex st] bwd [of _ ex st]
      by (cases "run_loop (asserting rk' iv) limit ex st"; cases "run_loop iv limit ex st") fastforce+
  qed
qed

lemma refines_execute_internal:
  "iv_checkpoints iv = rk \<Longrightarrow>
     refines (execute_internal (asserting rk' iv) ex) (execute_internal iv ex)"
  unfolding execute_internal_def Let_def
  by (auto intro!: refine_rules refines_save_boundary refines_run_loop split: turn_result.split)

lemma refines_start_run:
  "iv_checkpoints iv = rk \<Longrightarrow> refines (start_run (asserting rk' iv) s chk) (start_run iv s chk)"
  unfolding start_run_def emit_boundaries_def
  by (auto intro!: refine_rules refines_execute_internal)

text \<open>If the assertion is safe at the boundaries of the graph, the runs are the same.\<close>

lemma invoke_same:
  assumes "checkpointing g rk'" and g: "built dfs g" "dfs_correct dfs"
  shows "invoke_internal env ops g s config events control rk' chk w
    = invoke_internal env ops g s config events control rk chk w"
proof -
  obtain r ac st where start: "begin_invocation env config events control w = ((r, ac), st)"
    by (metis prod.exhaust)
  let ?iv = "\<lparr>iv_graph = g, iv_ops = ops, iv_env = env, iv_control = ac, iv_run_id = r,
    iv_max_steps = max_steps config, iv_checkpoints = rk\<rparr>"
  let ?jv = "?iv\<lparr>iv_checkpoints := rk'\<rparr>"
  note ok = begin_invocation_ok [OF start]
  have "refines (start_run ?jv s chk) (start_run ?iv s chk)"
    using refines_start_run [of ?iv s chk] by (simp add: asserting_def)
  moreover have "invocation_ok ?jv" and "served g rk' ?jv"
    using built_graph_ok [OF g] ok(2) by (simp_all add: invocation_ok_def served_def)
  then have "holds_at r (max_steps config) (start_run ?jv s chk)
      (\<lambda>out st. outcome_ok r (max_steps config) 0 (usize_saturating_add 0 (max_steps config)) out (rs_events st)) st"
    using holds_atI [OF checkpointing.holds_start_run [OF assms(1), of ?jv]] ok(1) by simp
  then have "start_run ?jv s chk st \<noteq> Some (Panic, st')" for st'
    by (auto simp: holds_at_def)
  ultimately have "start_run ?jv s chk st = start_run ?iv s chk st"
    unfolding refines_def by blast
  then show ?thesis using start by (simp add: invoke_internal_def)
qed

end

section \<open>The assertion that a save can be continued\<close>

text \<open>
  \<open>enabled_save\<close> preceded by the validation of the checkpoint that it requests.
\<close>

definition asserted_save ::
    "'w environment \<Rightarrow> ('s, 't) checkpoint_state_ops \<Rightarrow> ('t, 'v, 'w) checkpoint_config
      \<Rightarrow> ('s, 'u, 'v, 'w) compiled_graph \<Rightarrow> run_id \<Rightarrow> 's \<Rightarrow> 'v checkpoint_boundary
      \<Rightarrow> checkpoint_id option \<Rightarrow> ('w, saved_checkpoint \<times> checkpoint_id option) io" where
  "asserted_save env cops cfg g r s b parent w =
     (case snapshot cops s of
        Inl e \<Rightarrow> enabled_save env cops cfg (cg_version g) r s b parent w
      | Inr snap \<Rightarrow>
          (case validate_and_resolve_checkpoint_frontier g (into_checkpoint (request_new
                  \<lparr>l_checkpoint_id = CheckpointId (fst (env_uuid env w)), l_expected_parent = parent,
                   l_graph_version = cg_version g, l_thread_id = cc_thread_id cfg, l_run_id = r\<rparr>
                  (cb_superstep b) (cb_step b) snap (cb_next_frontier b) (cb_completed b)
                  (cb_interrupt b))) of
             Ok F \<Rightarrow> enabled_save env cops cfg (cg_version g) r s b parent w
           | _ \<Rightarrow> (Panic, w)))"

definition asserted_checkpoint ::
    "'w environment \<Rightarrow> ('s, 't) checkpoint_state_ops \<Rightarrow> ('t, 'v, 'w) checkpoint_config
      \<Rightarrow> ('s, 'u, 'v, 'w) compiled_graph \<Rightarrow> ('s, 'v, checkpoint_id option, 'w) runtime_checkpoint"
where
  "asserted_checkpoint env cops cfg g =
     (enabled_checkpoint env cops cfg (cg_version g))\<lparr>rk_save := asserted_save env cops cfg g\<rparr>"

interpretation asserted: save_assertion
  "enabled_checkpoint env cops cfg (cg_version g)" "asserted_checkpoint env cops cfg g"
  for env cops cfg g
  by unfold_locales (auto simp: asserted_checkpoint_def asserted_save_def enabled_checkpoint_def
      split: sum.split result.split)

lemma boundary_acceptable:
  assumes "graph_ok g" and "cg_version g = Some v" and "boundary_ok g b"
    and "c_graph_version cp = cg_version g" and "c_next_frontier cp = cb_next_frontier b"
    and "c_completed cp = cb_completed b" and "c_interrupt cp = cb_interrupt b"
  shows "\<exists>F. acceptable g cp F"
proof -
  obtain F where F: "frontier_nodes g F" "cb_next_frontier b = frontier_paths g F"
      "cb_completed b = (F = [])"
    using assms(3) by (auto simp: boundary_ok_def)
  have "cn_graph_path (the (node_at g i)) = cn_graph_path (the (node_at g j))"
    if ij: "i \<in> set F" "j \<in> set F" for i j
  proof (cases "i = j")
    case False
    then have "together g i j" using F(1) ij by (simp add: frontier_nodes_def frontier_items_def)
    then show ?thesis by (rule together_nodes [OF assms(1)]) simp
  qed simp
  moreover have "\<forall>i. c_interrupt cp = Some i \<longrightarrow> c_next_frontier cp = [ci_node_path i]"
    using assms(3) by (simp add: boundary_ok_def assms(5,7))
  moreover have "sorted_wrt (<) F \<and> (\<forall>i \<in> set F. node_at g i \<noteq> None)"
    using F(1) by (simp add: frontier_nodes_def frontier_items_def)
  moreover have "c_next_frontier cp = frontier_paths g F" "c_completed cp = (F = [])"
    "\<exists>v. c_graph_version cp = Some v \<and> cg_version g = Some v"
    by (simp_all add: assms F)
  ultimately have "acceptable g cp F"
    unfolding acceptable_def by blast
  then show ?thesis by blast
qed

lemma checkpointing_asserted:
  assumes "graph_ok g" and "cg_version g = Some v"
  shows "checkpointing g (asserted_checkpoint env cops cfg g)"
proof -
  have wf: "compiled_wf g" using assms(1) by (simp add: graph_ok_def)
  have save: "io_safe (asserted_save env cops cfg g r s b c)" if b: "boundary_ok g b" for r s b c
    unfolding io_safe_def
  proof
    fix w
    show "fst (asserted_save env cops cfg g r s b c w) \<noteq> Panic"
    proof (cases "snapshot cops s")
      case (Inl e)
      then show ?thesis
        using io_safe_enabled_save [of env cops cfg "cg_version g" r s b c]
        by (simp add: asserted_save_def io_safe_def)
    next
      case (Inr snap)
      let ?cp = "into_checkpoint (request_new \<lparr>l_checkpoint_id = CheckpointId (fst (env_uuid env w)),
        l_expected_parent = c, l_graph_version = cg_version g, l_thread_id = cc_thread_id cfg,
        l_run_id = r\<rparr> (cb_superstep b) (cb_step b) snap (cb_next_frontier b) (cb_completed b)
        (cb_interrupt b))"
      obtain F where "acceptable g ?cp F"
        using boundary_acceptable [OF assms b, of ?cp]
        by (auto simp: into_checkpoint_def request_new_def)
      then have "validate_and_resolve_checkpoint_frontier g ?cp = Ok F"
        by (simp add: validate_Ok_iff [OF wf])
      then show ?thesis
        using Inr io_safe_enabled_save [of env cops cfg "cg_version g" r s b c]
        by (simp add: asserted_save_def io_safe_def)
    qed
  qed
  show ?thesis
    by unfold_locales (auto simp: asserted_checkpoint_def enabled_checkpoint_def save)
qed

end
