(* ===== verification/Demos.thy ===== *)
theory Demos
  imports Continuation Assertions
begin

text \<open>
  A concrete program for the properties of runs: a graph with a node, a routed subgraph and a
  version, an environment without deadlines, and a checkpointer that holds one checkpoint.
\<close>

definition demo_versioned :: "(nat, nat, unit, unit) builder_call list" where
  "demo_versioned = demo_parent @ [CallSetVersion (GraphVersion ''1'')]"

definition demo_graph :: "(nat, nat, unit, unit) compiled_graph" where
  "demo_graph = compiled_of demo_versioned"

lemma demo_versioned_compiles: "compiles demo_versioned" by code_simp

lemma demo_graph_built: "built reach_search demo_graph"
  unfolding demo_graph_def
  by (rule built.built [OF _ compiles_compiled_of [OF demo_versioned_compiles]])
    (use demo_parent_subgraphs in \<open>auto simp: demo_versioned_def\<close>)

lemma demo_graph_version: "cg_version demo_graph \<noteq> None"
  by code_simp

lemma demo_no_empty: "no_empty_subgraph demo_graph"
  by code_simp

definition demo_env :: "unit environment" where
  "demo_env =
     \<lparr>env_cancelled = (\<lambda>t w. (False, w)), env_fresh_token = (\<lambda>w. (0, w)), env_now = (\<lambda>w. (0, w)),
      env_uuid = (\<lambda>w. (1, w)), env_race = (\<lambda>t d w. (FutureFirst, w)),
      env_next_ready = (\<lambda>n w. (n - 1, w))\<rparr>"

definition demo_ops :: "(nat, nat) state_ops" where
  "demo_ops =
     \<lparr>apply_update = (\<lambda>s u. Inr (s + u)),
      apply_batch = (\<lambda>s us. Inr (s + sum_list (map nu_update us)))\<rparr>"

definition demo_snapshots :: "(nat, nat) checkpoint_state_ops" where
  "demo_snapshots = \<lparr>snapshot = Inr, restore = Inr\<rparr>"

definition demo_thread :: thread_id where
  "demo_thread = ThreadId ''t''"

definition demo_checkpoint :: "(nat, unit) checkpoint" where
  "demo_checkpoint =
     \<lparr>c_id = CheckpointId 7, c_thread_id = demo_thread, c_run_id = RunId 1, c_parent_id = None,
      c_graph_version = Some (GraphVersion ''1''), c_superstep = 1, c_step = 1, c_snapshot = 5,
      c_next_frontier = [NodePath [NodeId ''sub'', NodeId ''work'']], c_completed = False,
      c_interrupt = None\<rparr>"

definition demo_checkpointer :: "(nat, unit, unit) checkpointer" where
  "demo_checkpointer =
     \<lparr>ck_save = (\<lambda>q w. (Inr (into_checkpoint q), w)), ck_latest = (\<lambda>t w. (Inr (Some demo_checkpoint), w)),
      ck_get = (\<lambda>t c w. (Inr (Some demo_checkpoint), w)), ck_history = (\<lambda>t w. (Inr [demo_checkpoint], w)),
      ck_create_branch = (\<lambda>t b c w. (Inl BranchUnsupported, w)),
      ck_save_branch = (\<lambda>b q w. (Inr (into_checkpoint q), w)),
      ck_branch_head = (\<lambda>t b w. (Inr None, w)), ck_branch_history = (\<lambda>t b w. (Inr [], w))\<rparr>"

definition demo_events :: event_config where
  "demo_events = \<lparr>retention = All, has_sink = True\<rparr>"

definition demo_config :: "(nat, unit, unit) checkpoint_config" where
  "demo_config = checkpoint_config_new demo_thread demo_checkpointer EverySuperstep"

lemma demo_acceptable: "\<exists>F. validate_and_resolve_checkpoint_frontier demo_graph demo_checkpoint = Ok F"
proof -
  have "case validate_and_resolve_checkpoint_frontier demo_graph demo_checkpoint of Ok F \<Rightarrow> True | _ \<Rightarrow> False"
    by code_simp
  then show ?thesis by (auto split: result.splits)
qed

lemma demo_continuable: "continuable demo_graph demo_checkpoint"
proof -
  have wf: "compiled_wf demo_graph" by (rule built_wf [OF demo_graph_built reach_search_correct])
  have "\<forall>i \<in> set F. \<forall>j \<in> set F. i \<noteq> j \<longrightarrow> together demo_graph i j"
    if "validate_and_resolve_checkpoint_frontier demo_graph demo_checkpoint = Ok F" for F
  proof -
    have "length F = length (c_next_frontier demo_checkpoint)"
      using that by (simp add: validate_Ok_iff [OF wf] acceptable_def)
    then obtain i where "F = [i]" by (auto simp: demo_checkpoint_def length_Suc_conv)
    then show ?thesis by simp
  qed
  then show ?thesis
    by (simp add: continuable_def) (simp add: demo_checkpoint_def usize_bound_def node_path_leaf_def)
qed

lemma demo_continuing: "continuing demo_graph demo_checkpointer"
  by (simp add: continuing_def demo_checkpointer_def demo_continuable)

end
