(* ===== verification/Evaluation.thy ===== *)
theory Evaluation
  imports Demos
begin

text \<open>
  Compilation and complete runs evaluated by simplification: a node, a parallel pair over a state
  that lists the updates, with pending nodes completing in reverse order.
\<close>

section \<open>Evaluation\<close>

lemmas compile_eval =
  START_def END_def node_id_start_def node_id_end_def is_start_def is_end_def is_reserved_def
  graph_path_root_def graph_path_is_root_def graph_path_child_def graph_path_prefixed_def
  graph_path_prefixes_def graph_path_mount_path_def node_path_root_def node_path_new_def
  node_path_leaf_def node_path_graph_path_def node_path_prefixed_def
  state_graph_new_def set_version_def insert_node_def add_node_def
  add_interruptible_node_def add_subgraph_def add_edge_def add_fan_out_def
  add_conditional_edges_def add_conditional_fan_out_def
  check_fixed_edge_def add_fixed_def check_conditional_edge_def check_fan_out_edge_def
  check_conditional_fan_out_edge_def aggregate_edges_def fixed_count_def kind_count_def
  validate_edge_shapes_def topology_indices_def declared_edges_def
  topology_edge_at_def topology_edges_def has_outgoing_def validate_reachability_def
  validate_topology_def canonical_pair_def queue_pair_def enqueue_frontier_def
  executable_target_def transition_alternatives_def pair_frontiers_def declares_subgraph_def
  initial_frontiers_def validate_subgraph_frontiers_def flat_builder_new_def fb_allocate_def
  fb_set_def fb_insert_node_def fb_append_item_def fb_append_graph_def fb_finish_def
  target_index_def allowed_of_def compile_transition_def place_item_def build_graph_def
  compile_def index_at_def remap_target_def remap_allowed_def remap_def im_contains_def
  reach_search_def reach_step_def compiled_of_def

section \<open>A parallel program\<close>

definition noted :: "nat \<Rightarrow> (nat list, nat, unit, unit) node_kind" where
  "noted k = Normal (\<lambda>s cx w. (Inr k, w))"

definition fan_calls :: "(nat list, nat, unit, unit) builder_call list" where
  "fan_calls = [CallAddNode (NodeId ''a'') (noted 1), CallAddNode (NodeId ''b'') (noted 2),
     CallAddNode (NodeId ''c'') (noted 3),
     CallAddEdge node_id_start (NodeId ''a''),
     CallAddFanOut (NodeId ''a'') [NodeId ''b'', NodeId ''c''],
     CallAddEdge (NodeId ''b'') node_id_end, CallAddEdge (NodeId ''c'') node_id_end]"

definition fan_item :: "node_id \<Rightarrow> nat \<Rightarrow> nat list compiled_transition
      \<Rightarrow> (nat list, nat, unit, unit) compiled_node" where
  "fan_item n k tr =
     \<lparr>cn_path = NodePath [n], cn_graph_path = GraphPath [], cn_kind = noted k, cn_transition = tr\<rparr>"

lemma fan_item_simps [simp]:
  "cn_path (fan_item n k tr) = NodePath [n]" "cn_graph_path (fan_item n k tr) = GraphPath []"
  "cn_kind (fan_item n k tr) = noted k" "cn_transition (fan_item n k tr) = tr"
  by (simp_all add: fan_item_def)

definition fan_graph :: "(nat list, nat, unit, unit) compiled_graph" where
  "fan_graph =
     \<lparr>cg_items = [Node (fan_item (NodeId ''a'') 1 (StaticFanOut [1, 2])),
        Node (fan_item (NodeId ''b'') 2 (Fixed None)), Node (fan_item (NodeId ''c'') 3 (Fixed None))],
      cg_node_paths = [(NodePath [NodeId ''a''], 0), (NodePath [NodeId ''b''], 1),
        (NodePath [NodeId ''c''], 2)],
      cg_scope_exits = [], cg_entry_index = Some 0, cg_version = None\<rparr>"

lemma fan_compile: "compile reach_search (builder_run state_graph_new fan_calls) = Ok fan_graph"
  by (simp add: fan_calls_def fan_graph_def fan_item_def compile_eval)

lemma fan_built: "built reach_search fan_graph"
  by (rule built.built [OF _ fan_compile]) (auto simp: fan_calls_def)

lemma fan_together: "together fan_graph 1 2"
  by (rule together_fan [of 0]) (simp_all add: fan_graph_def)

section \<open>A run\<close>

definition list_ops :: "(nat list, nat) state_ops" where
  "list_ops =
     \<lparr>apply_update = (\<lambda>s u. Inr (s @ [u])),
      apply_batch = (\<lambda>s us. Inr (s @ map nu_update us))\<rparr>"

definition quiet :: event_config where
  "quiet = \<lparr>retention = NoRetention, has_sink = False\<rparr>"

lemma fan_graph_simps [simp]:
  "cg_items fan_graph = [Node (fan_item (NodeId ''a'') 1 (StaticFanOut [1, 2])),
     Node (fan_item (NodeId ''b'') 2 (Fixed None)), Node (fan_item (NodeId ''c'') 3 (Fixed None))]"
  "cg_scope_exits fan_graph = []" "cg_entry_index fan_graph = Some 0" "cg_version fan_graph = None"
  by (simp_all add: fan_graph_def)

lemma run_noted [simp]: "run_node (noted k) s cx w = (Inr (Update k), w)"
  by (simp add: noted_def)

lemma list_ops_simps [simp]:
  "apply_update list_ops s u = Inr (s @ [u])" "apply_batch list_ops s us = Inr (s @ map nu_update us)"
  by (simp_all add: list_ops_def)

lemma demo_env_simps [simp]:
  "env_cancelled demo_env t w = (False, w)" "env_fresh_token demo_env w = (0, w)"
  "env_now demo_env w = (0, w)" "env_uuid demo_env w = (1, w)"
  "env_race demo_env t d w = (FutureFirst, w)" "env_next_ready demo_env n w = (n - 1, w)"
  by (simp_all add: demo_env_def)

lemma emit_quiet [simp]: "emit e (emitter_new r quiet) = emitter_new r quiet"
  by (simp add: emit_def emitter_new_def quiet_def event_config_is_enabled_def)

text \<open>The invocation and its state, which stays the same: the world is trivial and the log off.\<close>

definition fan_iv :: "(nat list, nat, unit, unit, unit) invocation" where
  "fan_iv =
     \<lparr>iv_graph = fan_graph, iv_ops = list_ops, iv_env = demo_env,
      iv_control = \<lparr>ac_cancellation_token = 0, ac_cancellation_enabled = False,
        ac_run_timeout = None, ac_run_deadline = None, ac_node_timeout = None\<rparr>,
      iv_run_id = RunId 1, iv_max_steps = 3, iv_checkpoints = disabled_checkpoint\<rparr>"

definition fan_state :: "unit run_state" where
  "fan_state = \<lparr>rs_world = (), rs_events = emitter_new (RunId 1) quiet\<rparr>"

definition fan_execution :: "nat list \<Rightarrow> nat \<Rightarrow> node_path list \<Rightarrow> nat list \<Rightarrow> nat
    \<Rightarrow> (nat list, unit, unit) execution" where
  "fan_execution s n visited F ss =
     \<lparr>ex_state = s, ex_steps = n, ex_visited_nodes = visited, ex_frontier = F, ex_superstep = ss,
      ex_save_empty_checkpoint = True, ex_resume_node = None, ex_resume_value = None,
      ex_checkpoints = ()\<rparr>"

lemma fan_iv_simps [simp]:
  "iv_graph fan_iv = fan_graph" "iv_ops fan_iv = list_ops" "iv_env fan_iv = demo_env"
  "iv_run_id fan_iv = RunId 1" "iv_max_steps fan_iv = 3" "iv_checkpoints fan_iv = disabled_checkpoint"
  "ac_cancellation_token (iv_control fan_iv) = 0" "ac_run_deadline (iv_control fan_iv) = None"
  "is_disabled (iv_control fan_iv)" "node_deadline (iv_control fan_iv) i = None"
  "deadline (iv_control fan_iv) None = None"
  by (simp_all add: fan_iv_def is_disabled_def node_deadline_def deadline_def)

lemma fan_execution_simps [simp]:
  "ex_state (fan_execution s n v F ss) = s" "ex_steps (fan_execution s n v F ss) = n"
  "ex_visited_nodes (fan_execution s n v F ss) = v" "ex_frontier (fan_execution s n v F ss) = F"
  "ex_superstep (fan_execution s n v F ss) = ss"
  "ex_save_empty_checkpoint (fan_execution s n v F ss) = True"
  "ex_resume_node (fan_execution s n v F ss) = None"
  "ex_resume_value (fan_execution s n v F ss) = None" "ex_checkpoints (fan_execution s n v F ss) = ()"
  "fan_execution s n v F ss\<lparr>ex_checkpoints := c\<rparr> = fan_execution s n v F ss"
  by (simp_all add: fan_execution_def)

lemma fan_execution_fold:
  "\<lparr>ex_state = s, ex_steps = n, ex_visited_nodes = visited, ex_frontier = F, ex_superstep = ss,
      ex_save_empty_checkpoint = True, ex_resume_node = None, ex_resume_value = None,
      ex_checkpoints = ()\<rparr> = fan_execution s n visited F ss"
  by (simp add: fan_execution_def)

lemma fan_state_simps [simp]:
  "rs_world fan_state = ()" "emit e (rs_events fan_state) = rs_events fan_state"
  "fan_state\<lparr>rs_world := ()\<rparr> = fan_state" "fan_state\<lparr>rs_events := rs_events fan_state\<rparr> = fan_state"
  "em_retained (rs_events fan_state) = []"
  by (simp_all add: fan_state_def) (simp add: emitter_new_def)

lemma run_bind_step: "m s = Some (Ok a, s') \<Longrightarrow> run_bind m f s = f a s'"
  by (simp add: run_bind_def)

lemma run_return_step: "run_return a s = Some (Ok a, s)"
  by (simp add: run_return_def)

lemma emit_step [simp]: "run_emit e fan_state = Some (Ok (), fan_state)"
  by (simp add: run_emit_def)

lemma check_step [simp]: "check demo_env ac r node step None () = (Ok (), ())"
  by (simp add: check_def)

lemma or_fail_step [simp]: "m () = (Ok a, ()) \<Longrightarrow> or_fail m fan_state = Some (Ok a, fan_state)"
  by (simp add: or_fail_def)

lemma guard_step [simp]: "guard fan_iv node step None fan_state = Some (Ok (), fan_state)"
  by (simp add: guard_def run_check_def)

lemma world_step [simp]: "f () = (a, ()) \<Longrightarrow> run_world f fan_state = Some (Ok a, fan_state)"
  by (simp add: run_world_def)

lemma get_node_step [simp]:
  "node_at fan_graph i = Some nd \<Longrightarrow> get_node fan_iv i fan_state = Some (Ok nd, fan_state)"
  by (simp add: get_node_def run_if_some_def run_return_step)

lemma fan_nodes [simp]:
  "node_at fan_graph 0 = Some (fan_item (NodeId ''a'') 1 (StaticFanOut [1, 2]))"
  "node_at fan_graph (Suc 0) = Some (fan_item (NodeId ''b'') 2 (Fixed None))"
  "node_at fan_graph 2 = Some (fan_item (NodeId ''c'') 3 (Fixed None))"
  by (simp_all add: node_at_def)

lemma offset_step_eval [simp]: "base + off + 1 < usize_bound \<Longrightarrow> offset_step base off = base + off + 1"
  by (simp add: offset_step_def usize_add_def)

lemma usize_bound_eval [simp]: "usize_bound = 18446744073709551616"
  by (simp add: usize_bound_def)

lemma start_step [simp]:
  assumes "node_at fan_graph i = Some (fan_item n k tr)"
  shows "start_node fan_iv (fan_execution s base v F ss) (off, i) fan_state =
    Some (Ok (node_context_new (offset_step base off) (NodePath [n]) 0 None None, None), fan_state)"
  using assms by (simp add: start_node_def run_bind_step run_return_step Let_def)

lemma execute_step [simp]:
  "execute_node demo_env (iv_control fan_iv) r (fan_item n k tr) s cx None () = (Ok (Update k), ())"
  by (simp add: execute_node_def io_bind_def io_return_def Let_def)

lemma paths_step [simp]:
  "node_paths_of fan_iv [] fan_state = Some (Ok [], fan_state)"
  "node_at fan_graph i = Some (fan_item n k tr) \<Longrightarrow> node_paths_of fan_iv F fan_state = Some (Ok ps, fan_state) \<Longrightarrow>
     node_paths_of fan_iv (i # F) fan_state = Some (Ok (NodePath [n] # ps), fan_state)"
  by (simp_all add: node_paths_of_def run_bind_step run_return_step)

lemmas turn_eval =
  superstep_turn_def begin_superstep_def run_single_def run_parallel_def run_when_def
  finish_superstep_def state_updated_def next_frontier_def run_emitter_def resolve_transition_def
  resolve_into_def emit_route_def run_normalize_def normalize_frontier.simps normalize_turn_def
  save_boundary_def fan_execution_fold sort_dedup_def path_at_def disabled_checkpoint_def
  usize_add_def finish_node_def collect_updates.simps run_if_some_def node_update_new_def
  remove_nth_def run_bind_step run_return_step

lemma fan_turn_single:
  "superstep_turn fan_iv 3 (fan_execution [] 0 [] [0] 0) fan_state =
     Some (Ok (Advanced (fan_execution [1] 1 [NodePath [NodeId ''a'']] [1, 2] 1)), fan_state)"
  by (simp add: turn_eval Let_def)

lemma fan_turn_parallel:
  "superstep_turn fan_iv 3 (fan_execution [1] 1 [NodePath [NodeId ''a'']] [1, 2] 1) fan_state =
     Some (Ok (Advanced (fan_execution [1, 2, 3] 3
       [NodePath [NodeId ''a''], NodePath [NodeId ''b''], NodePath [NodeId ''c'']] [] 2)), fan_state)"
  by (simp add: turn_eval Let_def)

lemma fan_loop:
  "run_loop fan_iv 3 (fan_execution [] 0 [] [0] 0) fan_state =
     Some (Ok (Advanced (fan_execution [1, 2, 3] 3
       [NodePath [NodeId ''a''], NodePath [NodeId ''b''], NodePath [NodeId ''c'']] [] 2)), fan_state)"
  by (simp add: run_loop.simps fan_turn_single fan_turn_parallel [simplified])

definition fan_report :: "nat list run_report" where
  "fan_report = \<lparr>rr_run_id = RunId 1, rr_final_state = [1, 2, 3], rr_steps = 3,
     rr_visited_nodes = [NodePath [NodeId ''a''], NodePath [NodeId ''b''], NodePath [NodeId ''c'']],
     rr_events = []\<rparr>"

lemma fan_start: "start_run fan_iv [] () fan_state = Some (Ok (Completed fan_report), fan_state)"
  by (simp add: start_run_def run_normalize_def normalize_frontier.simps normalize_turn_def
      run_emitter_def emit_boundaries_def execute_internal_def save_boundary_def disabled_checkpoint_def
      complete_run_def run_retained_def usize_saturating_add_def fan_execution_fold fan_loop
      fan_report_def run_bind_step run_return_step Let_def)

lemma fan_invoke:
  "invoke_with_control demo_env list_ops fan_graph [] \<lparr>max_steps = 3\<rparr> quiet run_control_new () =
     Some (Ok fan_report, fan_state)"
  using fan_start
  by (simp add: invoke_with_control_def invoke_internal_def begin_invocation_def run_control_new_def
      active_control_new_def fan_iv_def fan_state_def expect_completed_def)

end
