(* ===== verification/Parallel.thy ===== *)
theory Parallel
  imports Invocation
begin

text \<open>
  A parallel super-step commits the updates of its nodes in the order of the frontier, in whatever
  order the nodes complete.
\<close>

section \<open>Code with a determined result\<close>

definition yields :: "('w, 'a) run \<Rightarrow> (graph_run_error, 'a) result \<Rightarrow> bool" where
  "yields x a \<longleftrightarrow> (\<forall>st. \<exists>st'. x st = Some (a, st'))"

lemma yields_return: "yields (run_return a) (Ok a)"
  by (simp add: yields_def run_return_def)

lemma yields_bind:
  assumes "yields x (Ok a)" and "yields (f a) b"
  shows "yields (run_bind x f) b"
  unfolding yields_def
proof
  fix st
  obtain st1 where st1: "x st = Some (Ok a, st1)" using assms(1) by (auto simp: yields_def)
  obtain st2 where "f a st1 = Some (b, st2)" using assms(2) unfolding yields_def by blast
  then show "\<exists>st'. run_bind x f st = Some (b, st')" using st1 by (simp add: run_bind_def)
qed

lemma yields_fail: "yields (run_fail e) (Err e)"
  by (simp add: yields_def run_fail_def)

lemma yields_emit: "yields (run_emit e) (Ok ())"
  by (simp add: yields_def run_emit_def)

lemma yields_some: "x = Some a \<Longrightarrow> yields (run_if_some x) (Ok a)"
  by (simp add: run_if_some_def yields_return)

lemma yields_or_fail:
  assumes "\<And>w. fst (x w) = Ok a"
  shows "yields (or_fail x) (Ok a)"
  unfolding yields_def
proof
  fix st :: "'a run_state"
  obtain w where "x (rs_world st) = (Ok a, w)" using assms [of "rs_world st"] by (metis prod.collapse)
  then show "\<exists>st'. or_fail x st = Some (Ok a, st')" by (simp add: or_fail_def)
qed

lemma yields_world: "(\<And>a. yields (f a) b) \<Longrightarrow> yields (run_bind (run_world h) f) b"
  unfolding yields_def run_bind_def run_world_def by (auto split: prod.split)

lemma yields_map:
  "(\<And>x. x \<in> set xs \<Longrightarrow> yields (f x) (Ok (g x))) \<Longrightarrow> yields (run_map f xs) (Ok (map g xs))"
  by (induction xs) (auto intro!: yields_bind yields_return)

section \<open>Without deadlines and cancellation\<close>

text \<open>A control that stops nothing, and nodes that always return the update \<open>f i\<close>.\<close>

definition unhindered :: "('s, 'u, 'v, 'c, 'w) invocation \<Rightarrow> bool" where
  "unhindered iv \<longleftrightarrow>
     is_disabled (iv_control iv) \<and> (\<forall>t w. \<not> fst (env_cancelled (iv_env iv) t w))"

definition updating ::
    "('s, 'u, 'v, 'c, 'w) invocation \<Rightarrow> 's \<Rightarrow> (nat \<Rightarrow> 'u) \<Rightarrow> nat \<Rightarrow> bool" where
  "updating iv s f i \<longleftrightarrow>
     (\<exists>nd. node_at (iv_graph iv) i = Some nd
        \<and> (\<forall>ctx w. fst (run_node (cn_kind nd) s ctx w) = Inr (Update (f i))))"

lemma unhindered_check:
  "unhindered iv \<Longrightarrow> fst (check (iv_env iv) (iv_control iv) r node step (deadline (iv_control iv) None) w) = Ok ()"
  by (auto simp: unhindered_def is_disabled_def check_def deadline_def split: prod.split bool.split)
    (metis fst_conv)

lemma yields_guard: "unhindered iv \<Longrightarrow> yields (guard iv node step None) (Ok ())"
  unfolding guard_def run_check_def by (rule yields_or_fail) (rule unhindered_check)

lemma yields_get_node: "node_at (iv_graph iv) i = Some nd \<Longrightarrow> yields (get_node iv i) (Ok nd)"
  by (simp add: get_node_def yields_some)

lemma yields_node_paths:
  assumes "\<forall>i \<in> set F. node_at (iv_graph iv) i \<noteq> None"
  shows "yields (node_paths_of iv F) (Ok (frontier_paths (iv_graph iv) F))"
  unfolding node_paths_of_def frontier_paths_def
proof (rule yields_map)
  fix i assume "i \<in> set F"
  then obtain nd where "node_at (iv_graph iv) i = Some nd" using assms by blast
  then show "yields (run_bind (get_node iv i) (\<lambda>n. run_return (cn_path n)))
      (Ok (cn_path (the (node_at (iv_graph iv) i))))"
    by (intro yields_bind [OF yields_get_node]) (auto intro: yields_return)
qed

text \<open>The context a started node gets.\<close>

definition node_context_at ::
    "('s, 'u, 'v, 'c, 'w) invocation \<Rightarrow> ('s, 'v, 'c) execution \<Rightarrow> nat \<times> nat \<Rightarrow> 'v node_context" where
  "node_context_at iv ex x =
     node_context_new (offset_step (ex_steps ex) (fst x))
       (cn_path (the (node_at (iv_graph iv) (snd x))))
       (ac_cancellation_token (iv_control iv)) (ac_run_deadline (iv_control iv))
       (if ex_resume_node ex = Some (snd x) then ex_resume_value ex else None)"

lemma yields_start_node:
  assumes "unhindered iv" and "node_at (iv_graph iv) (snd x) = Some nd"
  shows "yields (start_node iv ex x) (Ok (node_context_at iv ex x, None))"
proof -
  have none: "node_deadline (iv_control iv) now = None" for now
    using assms(1) by (simp add: unhindered_def is_disabled_def node_deadline_def)
  obtain offset index where x: "x = (offset, index)" by fastforce
  have "node_at (iv_graph iv) index = Some nd" using assms(2) x by simp
  then show ?thesis
    unfolding start_node_def Let_def x prod.case none
    by (intro yields_bind [OF yields_get_node] yields_bind [OF yields_guard [OF assms(1)]]
          yields_world yields_bind [OF yields_emit])
      (auto simp: node_context_at_def intro: yields_return)
qed

lemma io_bind_Ok: "fst (m w) = Ok a \<Longrightarrow> io_bind m f w = f a (snd (m w))"
  by (cases "m w") (simp add: io_bind_def)

lemma yields_finish_node:
  assumes "unhindered iv" and "updating iv (ex_state ex) f index"
  shows "yields (finish_node iv ex ((offset, index), ctx, None)) (Ok (f index))"
proof -
  obtain nd where nd: "node_at (iv_graph iv) index = Some nd"
    "\<And>ctx w. fst (run_node (cn_kind nd) (ex_state ex) ctx w) = Inr (Update (f index))"
    using assms(2) by (auto simp: updating_def)
  have disabled: "is_disabled (iv_control iv)" using assms(1) by (simp add: unhindered_def)
  have run: "fst (execute_node (iv_env iv) (iv_control iv) r nd (ex_state ex) ctx None w)
      = Ok (Update (f index))" for r w
  proof -
    have node: "fst (case run_node (cn_kind nd) (ex_state ex) ctx w of (x, w') \<Rightarrow> (Ok x, w'))
        = Ok (Inr (Update (f index)))" for w
      using nd(2) [of ctx w] by (cases "run_node (cn_kind nd) (ex_state ex) ctx w") simp
    show ?thesis
      by (simp add: execute_node_def Let_def disabled io_bind_Ok [OF unhindered_check [OF assms(1)]]
          io_bind_Ok [OF node] io_return_def)
  qed
  show ?thesis
    unfolding finish_node_def Let_def prod.case
    by (rule yields_bind [OF yields_get_node [OF nd(1)]],
        rule yields_bind [OF yields_or_fail [OF run]])
      (auto intro!: yields_bind [OF yields_emit] yields_bind [OF yields_guard [OF assms(1)]] yields_return)
qed

section \<open>The order of completion\<close>

text \<open>The slots once all pending nodes of the frontier \<open>F\<close> have completed.\<close>

definition filled :: "(nat \<Rightarrow> 'u) \<Rightarrow> nat list \<Rightarrow> nat set \<Rightarrow> 'u option list \<Rightarrow> 'u option list" where
  "filled f F ks slots =
     map (\<lambda>k. if k \<in> ks then Some (f (F ! k)) else slots ! k) [0..<length slots]"

lemma filled_update:
  "k < length slots \<Longrightarrow> filled f F ks (slots[k := Some (f (F ! k))]) = filled f F (insert k ks) slots"
  by (rule nth_equalityI) (auto simp: filled_def nth_list_update)

lemma set_remove_nth:
  assumes "i < length xs"
  shows "set xs = insert (xs ! i) (set (remove_nth i xs))"
proof -
  have "xs = take i xs @ xs ! i # drop (Suc i) xs" using assms by (rule id_take_nth_drop)
  then have "set xs = set (take i xs @ xs ! i # drop (Suc i) xs)" by metis
  then show ?thesis by (auto simp: remove_nth_def)
qed

lemma yields_collect_updates:
  assumes "unhindered iv" and "length slots = length F"
    and "\<forall>((k, index), ctx, nd) \<in> set pending. k < length F \<and> index = F ! k \<and> nd = None
      \<and> updating iv (ex_state ex) f index"
  shows "yields (collect_updates iv ex pending slots)
    (Ok (filled f F ((fst \<circ> fst) ` set pending) slots))"
  using assms(2,3)
proof (induction pending arbitrary: slots rule: measure_induct_rule [where f = length])
  case (less pending)
  show ?case
  proof (cases "pending = []")
    case True
    have "filled f F {} slots = slots" by (rule nth_equalityI) (auto simp: filled_def)
    then show ?thesis using True by (simp add: collect_updates.simps yields_return)
  next
    case False
    have turn: "yields (let i = k mod length pending; x = pending ! i in
        run_bind (finish_node iv ex x) (\<lambda>u.
          collect_updates iv ex (remove_nth i pending) (slots[fst (fst x) := Some u])))
      (Ok (filled f F ((fst \<circ> fst) ` set pending) slots))" for k
    proof -
      let ?i = "k mod length pending"
      have i: "?i < length pending" using False by simp
      obtain off index ctx nd where x: "pending ! ?i = ((off, index), ctx, nd)" by (metis prod.exhaust)
      have "((off, index), ctx, nd) \<in> set pending" using nth_mem [OF i] x by simp
      then have ok: "off < length F" "index = F ! off" "nd = None" "updating iv (ex_state ex) f index"
        using less.prems(2) by auto
      have pending: "set pending = insert (pending ! ?i) (set (remove_nth ?i pending))"
        by (rule set_remove_nth [OF i])
      have "yields (collect_updates iv ex (remove_nth ?i pending) (slots[off := Some (f index)]))
          (Ok (filled f F ((fst \<circ> fst) ` set (remove_nth ?i pending)) (slots[off := Some (f index)])))"
        by (rule less.IH [OF length_remove_nth [OF i]])
          (use less.prems pending in auto)
      also have "filled f F ((fst \<circ> fst) ` set (remove_nth ?i pending)) (slots[off := Some (f index)])
          = filled f F ((fst \<circ> fst) ` set pending) slots"
        using ok(1,2) less.prems(1) filled_update [of off slots f F] pending x by simp
      finally show ?thesis
        unfolding Let_def x using ok(3) yields_finish_node [OF assms(1) ok(4)]
        by (auto intro: yields_bind)
    qed
    show ?thesis
      using False by (subst collect_updates.simps) (simp only: if_False yields_world [OF turn])
  qed
qed

lemma yields_run_parallel:
  assumes free: "unhindered iv" and F: "\<forall>i \<in> set (ex_frontier ex). updating iv (ex_state ex) f i"
  shows "yields (run_parallel iv ex first)
    (case apply_batch (iv_ops iv) (ex_state ex)
        (map2 node_update_new (frontier_paths (iv_graph iv) (ex_frontier ex)) (map f (ex_frontier ex))) of
       Inl e \<Rightarrow> Err (graph_run_error.StateBatchUpdateFailed
         (frontier_paths (iv_graph iv) (ex_frontier ex)) (usize_add (ex_steps ex) 1) e)
     | Inr s \<Rightarrow> Ok (Committed s))"
proof -
  let ?F = "ex_frontier ex" and ?xs = "enumerate 0 (ex_frontier ex)"
  have at: "\<forall>i \<in> set ?F. node_at (iv_graph iv) i \<noteq> None" using F by (auto simp: updating_def)
  have mem: "k < length ?F \<and> index = ?F ! k" if "(k, index) \<in> set ?xs" for k index
    using that by (auto simp: in_set_enumerate_eq)
  let ?started = "map (\<lambda>x. (node_context_at iv ex x, None)) ?xs"
  have start: "yields (run_map (start_node iv ex) ?xs) (Ok ?started)"
  proof (rule yields_map)
    fix x assume "x \<in> set ?xs"
    then have "snd x \<in> set ?F" using mem [of "fst x" "snd x"] by simp
    then obtain nd where "node_at (iv_graph iv) (snd x) = Some nd" using at by blast
    then show "yields (start_node iv ex x) (Ok (node_context_at iv ex x, None))"
      by (rule yields_start_node [OF free])
  qed
  let ?pending = "zip ?xs ?started"
  have offsets: "(fst \<circ> fst) ` set ?pending = {..<length ?F}"
  proof -
    have "map fst ?pending = ?xs" by simp
    then have "fst ` set ?pending = set ?xs" by (metis list.set_map)
    then have "(fst \<circ> fst) ` set ?pending = fst ` set ?xs" by (metis image_comp)
    moreover have "fst ` set ?xs = set [0..<length ?F]"
      by (metis enumerate_eq_zip add_0 length_upt diff_zero list.set_map map_fst_zip)
    ultimately show ?thesis by (simp add: lessThan_atLeast0)
  qed
  have collect: "yields (collect_updates iv ex ?pending (replicate (length ?F) None))
      (Ok (filled f ?F {..<length ?F} (replicate (length ?F) None)))"
  proof -
    have "k < length ?F \<and> index = ?F ! k \<and> nd = None \<and> updating iv (ex_state ex) f index"
      if "((k, index), ctx, nd) \<in> set ?pending" for k index ctx nd
    proof -
      have "(k, index) \<in> set ?xs" "(ctx, nd) \<in> set ?started"
        using set_zip_leftD [OF that] set_zip_rightD [OF that] by simp_all
      then show ?thesis using mem [of k index] F by auto
    qed
    then have all: "\<forall>((k, index), ctx, nd) \<in> set ?pending. k < length ?F \<and> index = ?F ! k \<and> nd = None
        \<and> updating iv (ex_state ex) f index" by blast
    show ?thesis
      using yields_collect_updates [OF free _ all, of "replicate (length ?F) None"]
      unfolding offsets by simp
  qed
  have slots: "filled f ?F {..<length ?F} (replicate (length ?F) None) = map Some (map f ?F)"
    by (rule nth_equalityI) (auto simp: filled_def)
  have those: "those (map Some us) = Some us" for us :: "'b list"
    by (induction us) auto
  show ?thesis
    unfolding run_parallel_def Let_def
    by (rule yields_bind [OF start], rule yields_bind [OF collect],
        rule yields_bind [OF yields_guard [OF free]], rule yields_bind [OF yields_node_paths [OF at]],
        rule yields_bind [OF yields_some], simp only: slots those)
      (auto intro: yields_fail yields_return split: sum.split)
qed

end
