(* ===== verification/Cancellation.thy ===== *)
theory Cancellation
  imports Invocation
begin

text \<open>
  Code that does not touch the world, and code that stops before it does: what a run with a
  cancelled token does up to its first check.
\<close>

definition still :: "('w, 'a) run \<Rightarrow> bool" where
  "still x \<longleftrightarrow> (\<forall>st y st'. x st = Some (y, st') \<longrightarrow> rs_world st' = rs_world st)"

definition stops :: "('w, 'a) run \<Rightarrow> bool" where
  "stops x \<longleftrightarrow> still x \<and> (\<forall>st a st'. x st \<noteq> Some (Ok a, st'))"

named_theorems still_rules "rules for code that does not touch the world"

lemma still_bind [still_rules]: "still x \<Longrightarrow> (\<And>a. still (f a)) \<Longrightarrow> still (run_bind x f)"
  by (fastforce simp: still_def run_bind_def split: option.splits prod.splits result.splits)

lemma still_basic [still_rules]:
  "still (run_return a)" "still (run_emit e)" "still (run_fail err)" "still run_panic"
  by (simp_all add: still_def run_return_def run_emit_def run_fail_def run_panic_def)

lemma still_emitter [still_rules]: "still (run_emitter f)"
  by (auto simp: still_def run_emitter_def run_fail_def split: prod.splits result.splits)

lemma still_if_some [still_rules]: "still (run_if_some x)"
  by (cases x) (simp_all add: run_if_some_def still_rules)

lemma still_for [still_rules]: "(\<And>x. still (f x)) \<Longrightarrow> still (run_for f xs)"
  by (induction xs) (simp_all add: still_rules)

lemma still_map [still_rules]: "(\<And>x. still (f x)) \<Longrightarrow> still (run_map f xs)"
  by (induction xs) (simp_all add: still_rules)

lemma still_parts [still_rules]: "still (get_node iv i)" "still (node_paths_of iv F)"
  by (simp_all add: get_node_def node_paths_of_def still_rules)

lemma still_normalize [still_rules]: "still (run_normalize iv s step F)"
  unfolding still_def run_normalize_def
  by (auto dest: still_emitter [unfolded still_def, rule_format] split: option.splits)

lemma stops_bind: "still x \<Longrightarrow> (\<And>a. stops (f a)) \<Longrightarrow> stops (run_bind x f)"
  unfolding stops_def
  by (auto simp: still_rules) (auto simp: run_bind_def split: option.splits prod.splits result.splits)

lemma stops_first:
  assumes "stops x"
  shows "stops (run_bind x f)"
proof -
  have *: "x st \<noteq> Some (Ok a, st')" for st a st' using assms by (simp add: stops_def)
  have "run_bind x f st = Some (y, st') \<Longrightarrow> \<exists>z. x st = Some (z, st') \<and> (\<forall>a. y \<noteq> Ok a)" for st y st'
    using * by (auto simp: run_bind_def split: option.splits prod.splits result.splits)
  then show ?thesis using assms unfolding stops_def still_def by blast
qed

lemma stops_cancelled_guard:
  assumes "\<And>t v. env_cancelled (iv_env iv) t v = (True, v)"
  shows "stops (guard iv node step nd)"
  by (auto simp: stops_def still_def guard_def run_check_def or_fail_def check_def assms run_fail_def)

lemma stops_start_run:
  assumes "\<And>t v. env_cancelled (iv_env iv) t v = (True, v)"
  shows "stops (start_run iv s chk)"
  unfolding start_run_def emit_boundaries_def
  by (auto intro!: stops_bind still_rules stops_first [OF stops_cancelled_guard] simp: assms)

end
