(* ===== verification/Divergence.thy ===== *)
theory Divergence
  imports Evaluation
begin

text \<open>
  A compiled graph on which no run returns: an empty mounted graph with a route back to itself.
  \<open>normalize_frontier\<close> follows the boundary forever, before any step is counted and without looking
  at the cancellation token.
\<close>

definition hollow :: "(nat, nat, unit, unit) builder_call list" where
  "hollow = [CallAddEdge node_id_start node_id_end]"

definition hollow_loop :: "(nat, nat, unit, unit) builder_call list" where
  "hollow_loop = [CallAddSubgraph (NodeId ''m'') (compiled_of hollow),
     CallAddEdge node_id_start (NodeId ''m''), CallAddConditionalEdges (NodeId ''m'') [NodeId ''m'', node_id_end]
       (\<lambda>s. Inr (NodeId ''m''))]"

definition loop_graph :: "(nat, nat, unit, unit) compiled_graph" where
  "loop_graph =
     \<lparr>cg_items = [EnterSubgraph (GraphPath [NodeId ''m'']) (Fixed (Some 1)),
        ExitSubgraph (GraphPath [NodeId ''m'']) (NodePath [NodeId ''m''])
          (Conditional (\<lambda>s. Inr (NodeId ''m'')) [(NodeId ''m'', Some 0), (node_id_end, None)])],
      cg_node_paths = [], cg_scope_exits = [(GraphPath [NodeId ''m''], 1)],
      cg_entry_index = Some 0, cg_version = None\<rparr>"

lemma hollow_graph: "compiled_of hollow = \<lparr>cg_items = [], cg_node_paths = [], cg_scope_exits = [],
    cg_entry_index = None, cg_version = None\<rparr>"
  by (simp add: hollow_def compile_eval)

lemma loop_compile: "compile reach_search (builder_run state_graph_new hollow_loop) = Ok loop_graph"
  by (simp add: hollow_loop_def hollow_graph loop_graph_def compile_eval Let_def del: compiled_of_def)

lemma loop_graph_simps [simp]:
  "cg_items loop_graph = [EnterSubgraph (GraphPath [NodeId ''m'']) (Fixed (Some 1)),
     ExitSubgraph (GraphPath [NodeId ''m'']) (NodePath [NodeId ''m''])
       (Conditional (\<lambda>s. Inr (NodeId ''m'')) [(NodeId ''m'', Some 0), (node_id_end, None)])]"
  "cg_entry_index loop_graph = Some 0"
  by (simp_all add: loop_graph_def)

lemma loop_turn:
  "\<exists>em'. normalize_turn loop_graph r s step [0] em = (Cross (Started (GraphPath [NodeId ''m''])) [1], em')"
  "\<exists>em'. normalize_turn loop_graph r s step [1] em = (Cross (Finished (GraphPath [NodeId ''m''])) [0], em')"
  by (simp_all add: normalize_turn_def resolve_transition_def resolve_into_def target_path_def
      path_at_def graph_path_mount_path_def graph_path_is_root_def sort_dedup_def)

lemma loop_diverges: "normalize_frontier loop_graph r s step bs [0] em = None"
proof -
  have "F \<noteq> [0] \<and> F \<noteq> [1]"
    if "normalize_frontier g r s step bs F em = Some y" "g = loop_graph" for g r s step bs F em y
    using that(2)
  proof (induction rule: normalize_frontier.raw_induct [OF _ that(1)])
    case (1 f g r s step bs F em y)
    then show ?case
      using loop_turn(1) [of r s step em] loop_turn(2) [of r s step em] by fastforce
  qed
  then show ?thesis by (metis not_None_eq)
qed

lemma hollow_compile: "compile reach_search (builder_run state_graph_new hollow) = Ok (compiled_of hollow)"
  by (simp add: hollow_def compile_eval)

lemma loop_built: "built reach_search loop_graph"
proof (rule built.built [OF _ loop_compile])
  fix n sub assume "CallAddSubgraph n sub \<in> set hollow_loop"
  then have "sub = compiled_of hollow" by (simp add: hollow_loop_def)
  then show "built reach_search sub"
    using built.built [OF _ hollow_compile] by (auto simp: hollow_def)
qed

lemma loop_start: "iv_graph iv = loop_graph \<Longrightarrow> start_run iv s chk st = None"
  by (simp add: start_run_def run_normalize_def run_bind_def loop_diverges)

end
