(* ===== verification/Guarantees.thy ===== *)
theory Guarantees
  imports Evaluation Parallel Cancellation Divergence
begin

text \<open>
  What the runtime guarantees to its callers, for every compiled graph: invocations return, close
  their event log, keep the step budget and save only checkpoints that can be continued; resume,
  replay and fork keep the same promises.
\<close>

section \<open>Invocations\<close>



text \<open>C16: The event log of an invocation is complete: \<open>RunStarted\<close> first, then only events of this
  run that neither open nor close one, and one last event that states the result, in the retained
  list and at the sink; the report carries the retained list.\<close>

theorem invocation_event_log:
  assumes "built dfs g" and "dfs_correct dfs"
    and "invoke_with_checkpoint env ops cops g s config events control cfg w = Some (x, st)"
  shows "\<exists>r closing progress. closing_event r x = Some closing
    \<and> (\<forall>e \<in> set progress. is_progress e \<and> event_run_id e = r)
    \<and> (has_sink events \<longrightarrow> em_delivered (rs_events st) =
         RunStarted r (max_steps config) # progress @ [closing])
    \<and> (retention events = All \<longrightarrow> em_retained (rs_events st) =
         RunStarted r (max_steps config) # progress @ [closing])
    \<and> (\<forall>out. x = Ok out \<longrightarrow> outcome_run_id out = r \<and> outcome_events out = em_retained (rs_events st))"
  using invoke_internal_finished [OF enabled.checkpointing_axioms assms(1,2)
      assms(3) [unfolded invoke_with_checkpoint_def]]
  unfolding run_finished_def complete_log_def by blast

theorem invocation_event_log_witness:
  "\<exists>x st r closing progress. invoke_with_checkpoint demo_env demo_ops demo_snapshots demo_graph 0
      run_config_default demo_events run_control_new demo_config () = Some (x, st)
    \<and> closing_event r x = Some closing \<and> em_delivered (rs_events st) =
         RunStarted r (max_steps run_config_default) # progress @ [closing]"
proof -
  obtain x st where run: "invoke_with_checkpoint demo_env demo_ops demo_snapshots demo_graph 0
      run_config_default demo_events run_control_new demo_config () = Some (x, st)"
    using invoke_internal_total [OF enabled.checkpointing_axioms demo_graph_built
        reach_search_correct demo_no_empty] unfolding invoke_with_checkpoint_def by blast
  have "has_sink demo_events" by (simp add: demo_events_def)
  with run invocation_event_log [OF demo_graph_built reach_search_correct run] show ?thesis by blast
qed

text \<open>C17: A completed invocation took at most \<open>max_steps\<close> steps, and its report lists one visited
  node per step.\<close>

theorem invocation_step_budget:
  assumes "built dfs g" and "dfs_correct dfs"
    and "invoke_with_control env ops g s config events control w = Some (Ok report, st)"
  shows "rr_steps report \<le> max_steps config
    \<and> length (rr_visited_nodes report) = rr_steps report"
proof -
  obtain y where y: "invoke_internal env ops g s config events control disabled_checkpoint () w
      = Some (y, st)"
    using assms(3) by (auto simp: invoke_with_control_def expect_completed_def)
  have "invoke_internal env ops g s config events control disabled_checkpoint () w
      = Some (Ok (Completed report), st)"
    using assms(3) y by (cases y) (auto simp: invoke_with_control_def expect_completed_def
        split: execution_outcome.splits)
  from invoke_internal_finished [OF disabled.checkpointing_axioms assms(1,2) this] show ?thesis
    by (auto simp: run_finished_def)
qed

theorem invocation_step_budget_witness: "rr_steps fan_report \<le> 3 \<and> length (rr_visited_nodes fan_report) = 3"
  using invocation_step_budget [OF fan_built reach_search_correct fan_invoke]
  by (simp add: fan_report_def)

text \<open>C13: With a versioned graph a run never saves a checkpoint that it could not continue: the run
  is the same when every save first asserts that validation accepts the requested checkpoint.\<close>

theorem saves_can_be_continued:
  assumes "built dfs g" and "dfs_correct dfs" and "cg_version g \<noteq> None"
  shows "invoke_with_checkpoint env ops cops g s config events control cfg w =
    invoke_internal env ops g s config events control (asserted_checkpoint env cops cfg g)
      (cc_expected_parent cfg) w"
proof -
  obtain v where "cg_version g = Some v" using assms(3) by blast
  then have "checkpointing g (asserted_checkpoint env cops cfg g)"
    using checkpointing_asserted [OF built_graph_ok [OF assms(1,2)]] by blast
  from asserted.invoke_same [OF this assms(1,2)] show ?thesis
    by (simp add: invoke_with_checkpoint_def)
qed

theorem saves_can_be_continued_witness:
  "invoke_with_checkpoint demo_env demo_ops demo_snapshots demo_graph 0 run_config_default
      demo_events run_control_new demo_config () =
    invoke_internal demo_env demo_ops demo_graph 0 run_config_default demo_events run_control_new
      (asserted_checkpoint demo_env demo_snapshots demo_config demo_graph)
      (cc_expected_parent demo_config) ()"
  by (rule saves_can_be_continued [OF demo_graph_built reach_search_correct demo_graph_version])

section \<open>Super-steps\<close>

text \<open>C19: Two items that can be in one frontier are nodes of one namespace, so a parallel frontier
  never holds a subgraph boundary and never mixes the levels of nested graphs.\<close>

theorem frontier_in_one_namespace:
  assumes "built dfs g" and "dfs_correct dfs" and "together g i j"
  shows "\<exists>a b. node_at g i = Some a \<and> node_at g j = Some b \<and> cn_graph_path a = cn_graph_path b"
  using together_nodes [OF built_graph_ok [OF assms(1,2)] assms(3)] by metis

theorem frontier_in_one_namespace_witness:
  "\<exists>a b. node_at fan_graph 1 = Some a \<and> node_at fan_graph 2 = Some b
     \<and> cn_graph_path a = cn_graph_path b"
  by (rule frontier_in_one_namespace [OF fan_built reach_search_correct fan_together])

text \<open>C18: In whatever order the nodes of a parallel frontier complete, and whatever they do to the
  world, their updates are applied as one batch in the order of the frontier: without a deadline or
  a cancellation the result of the super-step is a function of the state alone.\<close>

theorem parallel_commit_in_frontier_order:
  assumes "unhindered iv" and "\<forall>i \<in> set (ex_frontier ex). updating iv (ex_state ex) f i"
  shows "\<exists>st'. run_parallel iv ex first st = Some
    (case apply_batch (iv_ops iv) (ex_state ex)
        (map2 node_update_new (frontier_paths (iv_graph iv) (ex_frontier ex)) (map f (ex_frontier ex))) of
       Inl e \<Rightarrow> Err (graph_run_error.StateBatchUpdateFailed
         (frontier_paths (iv_graph iv) (ex_frontier ex)) (usize_add (ex_steps ex) 1) e)
     | Inr s \<Rightarrow> Ok (Committed s), st')"
  using yields_run_parallel [OF assms, of first] by (simp add: yields_def)

theorem parallel_commit_in_frontier_order_witness:
  "\<exists>st'. run_parallel fan_iv (fan_execution [1] 1 [] [1, 2] 1) (fan_item (NodeId ''b'') 2 (Fixed None))
     fan_state = Some (Ok (Committed [1, 2, 3]), st')"
proof -
  have "unhindered fan_iv" by (simp add: unhindered_def)
  moreover have "\<forall>i \<in> set (ex_frontier (fan_execution [1] 1 [] [1, 2] 1)).
      updating fan_iv (ex_state (fan_execution [1] 1 [] [1, 2] 1)) (\<lambda>i. if i = 1 then 2 else 3) i"
    by (simp add: updating_def)
  ultimately show ?thesis
    using parallel_commit_in_frontier_order [of fan_iv "fan_execution [1] 1 [] [1, 2] 1" "\<lambda>i. if i = 1 then 2 else 3"]
    by (simp add: frontier_paths_def node_update_new_def)
qed

text \<open>C23: A run whose token is cancelled fails without running a node: the world is untouched.\<close>

theorem cancelled_runs_no_node:
  assumes "\<And>t v. env_cancelled env t v = (True, v)" and "\<And>v. snd (env_now env v) = v"
    and "\<And>v. snd (env_uuid env v) = v" and "\<And>v. snd (env_fresh_token env v) = v"
    and "invoke_internal env ops g s config events control rk chk w = Some (x, st)"
  shows "rs_world st = w \<and> (\<forall>out. x \<noteq> Ok out)"
proof -
  obtain r ac st0 where start: "begin_invocation env config events control w = ((r, ac), st0)"
    by (metis prod.exhaust)
  let ?iv = "\<lparr>iv_graph = g, iv_ops = ops, iv_env = env, iv_control = ac, iv_run_id = r,
    iv_max_steps = max_steps config, iv_checkpoints = rk\<rparr>"
  have "rs_world st0 = w"
    using start assms(2-4) unfolding begin_invocation_def active_control_new_def
    by (auto split: prod.splits option.splits) (metis snd_conv)+
  moreover have "stops (start_run ?iv s chk)"
    by (rule stops_start_run) (simp add: assms(1))
  ultimately show ?thesis
    using assms(5) start by (auto simp: invoke_internal_def stops_def still_def)
qed

theorem cancelled_runs_no_node_witness:
  "\<exists>x st. invoke_internal (demo_env\<lparr>env_cancelled := \<lambda>t v. (True, v)\<rparr>) demo_ops demo_graph 0
      run_config_default demo_events run_control_new disabled_checkpoint () () = Some (x, st)
    \<and> (\<forall>out. x \<noteq> Ok out)"
proof -
  let ?env = "demo_env\<lparr>env_cancelled := \<lambda>t v. (True, v)\<rparr>"
  obtain x st where run: "invoke_internal ?env demo_ops demo_graph 0 run_config_default demo_events
      run_control_new disabled_checkpoint () () = Some (x, st)"
    using invoke_internal_total [OF disabled.checkpointing_axioms demo_graph_built
        reach_search_correct demo_no_empty] by blast
  have "rs_world st = () \<and> (\<forall>out. x \<noteq> Ok out)"
    by (rule cancelled_runs_no_node [OF _ _ _ _ run]) simp_all
  then show ?thesis using run by blast
qed

text \<open>C24: No run on a graph with an empty mounted graph that is routed back to itself returns, with any
  step limit and even when the token is cancelled, although the graph compiles.\<close>

theorem empty_loop_never_returns:
  "compile reach_search (builder_run state_graph_new hollow_loop) = Ok loop_graph
   \<and> invoke_internal env ops loop_graph s config events control rk chk w = None"
proof -
  obtain r ac st where "begin_invocation env config events control w = ((r, ac), st)"
    by (metis prod.exhaust)
  then show ?thesis by (simp add: invoke_internal_def loop_start loop_compile)
qed

section \<open>Continuing from checkpoints\<close>

text \<open>C15: Validation resolves a checkpoint to a frontier exactly when the versions are declared and
  equal, the checkpoint is completed iff it has no frontier, an interrupt names its only node, and
  the frontier lists known nodes of one namespace, each once and in compiled order.\<close>

theorem validation_exact:
  assumes "built dfs g" and "dfs_correct dfs"
  shows "validate_and_resolve_checkpoint_frontier g cp = Ok F \<longleftrightarrow> acceptable g cp F"
  by (rule validate_Ok_iff [OF built_wf [OF assms]])

theorem validation_exact_witness:
  "\<exists>F. acceptable demo_graph demo_checkpoint F"
  using demo_acceptable validation_exact [OF demo_graph_built reach_search_correct] by blast









end
