(* ===== verification/ModelData.thy ===== *)
theory ModelData
  imports Values
begin

text \<open>
  The provider-neutral data of \<open>group-agent-model\<close>: identifiers and metadata (\<open>metadata.rs\<close>),
  content and messages (\<open>content.rs\<close>, \<open>message.rs\<close>), tools (\<open>tool.rs\<close>), requests (\<open>request.rs\<close>),
  responses and token usage (\<open>response.rs\<close>), and the errors (\<open>error.rs\<close>). All features of the
  crate are on. Texts of errors of other crates are opaque strings.
\<close>

section \<open>Identifiers and metadata\<close>

datatype identifier_error =
  EmptyToolName | EmptyToolCallId | EmptyProviderId | EmptyModelId | EmptyResponseId

datatype provider_id = ProviderId string
datatype model_id = ModelId string
datatype tool_name = ToolName (tool_name_str: string)
datatype tool_call_id = ToolCallId (tool_call_id_str: string)
datatype response_id = ResponseId string

definition provider_id_new :: "string \<Rightarrow> identifier_error + provider_id" where
  "provider_id_new s = (if trim s = [] then Inl EmptyProviderId else Inr (ProviderId s))"

definition model_id_new :: "string \<Rightarrow> identifier_error + model_id" where
  "model_id_new s = (if trim s = [] then Inl EmptyModelId else Inr (ModelId s))"

definition tool_name_new :: "string \<Rightarrow> identifier_error + tool_name" where
  "tool_name_new s = (if trim s = [] then Inl EmptyToolName else Inr (ToolName s))"

definition tool_call_id_new :: "string \<Rightarrow> identifier_error + tool_call_id" where
  "tool_call_id_new s = (if trim s = [] then Inl EmptyToolCallId else Inr (ToolCallId s))"

definition response_id_new :: "string \<Rightarrow> identifier_error + response_id" where
  "response_id_new s = (if trim s = [] then Inl EmptyResponseId else Inr (ResponseId s))"

text \<open>The derived order of \<open>ToolName\<close> and \<open>ToolCallId\<close> is the order of their strings.\<close>

instantiation tool_name :: linorder
begin
definition less_eq_tool_name :: "tool_name \<Rightarrow> tool_name \<Rightarrow> bool" where
  "less_eq_tool_name a b \<longleftrightarrow> tool_name_str a \<le> tool_name_str b"
definition less_tool_name :: "tool_name \<Rightarrow> tool_name \<Rightarrow> bool" where
  "less_tool_name a b \<longleftrightarrow> tool_name_str a < tool_name_str b"
instance
  by standard (auto simp: less_eq_tool_name_def less_tool_name_def intro: tool_name.expand)
end

instantiation tool_call_id :: linorder
begin
definition less_eq_tool_call_id :: "tool_call_id \<Rightarrow> tool_call_id \<Rightarrow> bool" where
  "less_eq_tool_call_id a b \<longleftrightarrow> tool_call_id_str a \<le> tool_call_id_str b"
definition less_tool_call_id :: "tool_call_id \<Rightarrow> tool_call_id \<Rightarrow> bool" where
  "less_tool_call_id a b \<longleftrightarrow> tool_call_id_str a < tool_call_id_str b"
instance
  by standard (auto simp: less_eq_tool_call_id_def less_tool_call_id_def intro: tool_call_id.expand)
end

datatype model_capability =
  StructuredOutput | Streaming | ToolCalling | ParallelToolCalls | UsageReporting

record model_capabilities =
  structured_output :: bool
  streaming :: bool
  tool_calling :: bool
  parallel_tool_calls :: bool
  usage_reporting :: bool

definition model_capabilities_new :: model_capabilities where
  "model_capabilities_new =
     \<lparr>structured_output = False, streaming = False, tool_calling = False,
      parallel_tool_calls = False, usage_reporting = False\<rparr>"

definition with_structured_output :: "bool \<Rightarrow> model_capabilities \<Rightarrow> model_capabilities" where
  "with_structured_output b c = c\<lparr>structured_output := b\<rparr>"

definition with_streaming :: "bool \<Rightarrow> model_capabilities \<Rightarrow> model_capabilities" where
  "with_streaming b c = c\<lparr>streaming := b\<rparr>"

definition with_tool_calling :: "bool \<Rightarrow> model_capabilities \<Rightarrow> model_capabilities" where
  "with_tool_calling b c = c\<lparr>tool_calling := b\<rparr>"

definition with_parallel_tool_calls :: "bool \<Rightarrow> model_capabilities \<Rightarrow> model_capabilities" where
  "with_parallel_tool_calls b c = c\<lparr>parallel_tool_calls := b\<rparr>"

definition with_usage_reporting :: "bool \<Rightarrow> model_capabilities \<Rightarrow> model_capabilities" where
  "with_usage_reporting b c = c\<lparr>usage_reporting := b\<rparr>"

fun supports :: "model_capabilities \<Rightarrow> model_capability \<Rightarrow> bool" where
  "supports c StructuredOutput = structured_output c"
| "supports c Streaming = streaming c"
| "supports c ToolCalling = tool_calling c"
| "supports c ParallelToolCalls = parallel_tool_calls c"
| "supports c UsageReporting = usage_reporting c"

record model_metadata =
  md_provider :: provider_id
  md_model :: model_id
  md_capabilities :: model_capabilities
  md_extensions :: extensions

definition model_metadata_new ::
    "provider_id \<Rightarrow> model_id \<Rightarrow> model_capabilities \<Rightarrow> model_metadata" where
  "model_metadata_new p m c =
     \<lparr>md_provider = p, md_model = m, md_capabilities = c, md_extensions = extensions_new\<rparr>"

datatype metadata_validation_error = ParallelToolCallsRequireToolCalling

definition metadata_validate :: "model_metadata \<Rightarrow> metadata_validation_error + unit" where
  "metadata_validate m =
     (if parallel_tool_calls (md_capabilities m) \<and> \<not> tool_calling (md_capabilities m)
      then Inl ParallelToolCallsRequireToolCalling else Inr ())"

section \<open>Content, tools and messages\<close>

datatype content_part = Text string

fun as_text :: "content_part \<Rightarrow> string option" where
  "as_text (Text t) = Some t"

definition text_len :: "content_part \<Rightarrow> nat" where
  "text_len p = (case as_text p of None \<Rightarrow> 0 | Some t \<Rightarrow> length t)"

definition text_parts :: "content_part list \<Rightarrow> string list" where
  "text_parts ps = List.map_filter as_text ps"

definition has_text :: "content_part list \<Rightarrow> bool" where
  "has_text ps \<longleftrightarrow> text_parts ps \<noteq> []"

definition text_content :: "content_part list \<Rightarrow> string" where
  "text_content ps = concat (text_parts ps)"

record tool_definition =
  td_name :: tool_name
  td_description :: string
  td_input_schema :: json

record tool_call =
  tc_id :: tool_call_id
  tc_name :: tool_name
  tc_arguments :: json
  tc_extensions :: extensions

definition tool_call_new :: "tool_call_id \<Rightarrow> tool_name \<Rightarrow> json \<Rightarrow> tool_call" where
  "tool_call_new i n a = \<lparr>tc_id = i, tc_name = n, tc_arguments = a, tc_extensions = extensions_new\<rparr>"

record tool_result =
  tr_content :: "content_part list"
  tr_is_error :: bool

definition tool_result_text :: "string \<Rightarrow> tool_result" where
  "tool_result_text t = \<lparr>tr_content = [Text t], tr_is_error = False\<rparr>"

definition tool_result_error_text :: "string \<Rightarrow> tool_result" where
  "tool_result_error_text t = \<lparr>tr_content = [Text t], tr_is_error = True\<rparr>"

datatype tool_choice = Auto | NoTools | Required | Named tool_name

datatype role = SystemRole | UserRole | AssistantRole | ToolRole

datatype system_message = SystemMessage (system_content: "content_part list")
datatype user_message = UserMessage (user_content: "content_part list")

record assistant_message =
  am_content :: "content_part list"
  am_tool_calls :: "tool_call list"
  am_extensions :: extensions

definition assistant_message_new :: "content_part list \<Rightarrow> tool_call list \<Rightarrow> assistant_message" where
  "assistant_message_new ps calls =
     \<lparr>am_content = ps, am_tool_calls = calls, am_extensions = extensions_new\<rparr>"

definition assistant_message_text :: "string \<Rightarrow> assistant_message" where
  "assistant_message_text t = assistant_message_new [Text t] []"

record tool_message =
  tm_tool_call_id :: tool_call_id
  tm_result :: tool_result

datatype message =
    System system_message
  | User user_message
  | Assistant assistant_message
  | Tool tool_message

definition message_system :: "string \<Rightarrow> message" where
  "message_system t = System (SystemMessage [Text t])"

definition message_user :: "string \<Rightarrow> message" where
  "message_user t = User (UserMessage [Text t])"

definition message_assistant :: "string \<Rightarrow> message" where
  "message_assistant t = Assistant (assistant_message_text t)"

definition message_tool :: "tool_call_id \<Rightarrow> tool_result \<Rightarrow> message" where
  "message_tool i r = Tool \<lparr>tm_tool_call_id = i, tm_result = r\<rparr>"

fun message_role :: "message \<Rightarrow> role" where
  "message_role (System _) = SystemRole"
| "message_role (User _) = UserRole"
| "message_role (Assistant _) = AssistantRole"
| "message_role (Tool _) = ToolRole"

fun message_content :: "message \<Rightarrow> content_part list" where
  "message_content (System m) = system_content m"
| "message_content (User m) = user_content m"
| "message_content (Assistant m) = am_content m"
| "message_content (Tool m) = tr_content (tm_result m)"

fun as_assistant :: "message \<Rightarrow> assistant_message option" where
  "as_assistant (Assistant m) = Some m"
| "as_assistant _ = None"

fun as_tool :: "message \<Rightarrow> tool_message option" where
  "as_tool (Tool m) = Some m"
| "as_tool _ = None"

section \<open>Requests\<close>

text \<open>An \<open>f64\<close> is a finite value, an infinity with its sign, or not a number.\<close>

datatype f64 = Finite rat | Infinite bool | NaN

record generation_config =
  gc_temperature :: "f64 option"
  gc_top_p :: "f64 option"
  gc_max_output_tokens :: "32 word option"
  gc_stop_sequences :: "string list"
  gc_parallel_tool_calls :: "bool option"

definition generation_config_new :: generation_config where
  "generation_config_new =
     \<lparr>gc_temperature = None, gc_top_p = None, gc_max_output_tokens = None, gc_stop_sequences = [],
      gc_parallel_tool_calls = None\<rparr>"

text \<open>
  An output contract (\<open>structured_output/mod.rs\<close>). Its compiled validator is a function of the
  schema and is supplied where a value is validated.
\<close>

record output_contract =
  oc_name :: string
  oc_schema :: json
  oc_id :: string

record chat_request =
  cr_output :: "output_contract option"
  cr_messages :: "message list"
  cr_tools :: "tool_definition list"
  cr_tool_choice :: tool_choice
  cr_generation :: generation_config
  cr_extensions :: extensions

definition chat_request_new :: "message list \<Rightarrow> chat_request" where
  "chat_request_new ms =
     \<lparr>cr_output = None, cr_messages = ms, cr_tools = [], cr_tool_choice = Auto,
      cr_generation = generation_config_new, cr_extensions = extensions_new\<rparr>"

datatype request_validation_error =
    EmptyMessages
  | InvalidTemperature f64
  | InvalidTopP f64
  | ZeroMaxOutputTokens
  | EmptyStopSequence nat
  | DuplicateToolDefinition tool_name
  | UnknownNamedTool tool_name
  | RequiredToolChoiceWithoutTools
  | DuplicateToolCallId tool_call_id
  | UnknownToolCallReference tool_call_id nat
  | DuplicateToolResult tool_call_id

section \<open>Responses\<close>

datatype finish_reason = Stop | Length | ToolCalls | ContentFilter | Error | Other string

record token_usage =
  tu_input :: "64 word option"
  tu_output :: "64 word option"
  tu_total :: "64 word option"
  tu_extensions :: extensions

datatype token_usage_error =
    TotalOverflow "64 word" "64 word"
  | InconsistentTotal "64 word option" "64 word option" "64 word"
  | CounterDecreased string "64 word" "64 word"
  | ExtensionConflict extension_merge_error

definition token_usage_new :: token_usage where
  "token_usage_new = \<lparr>tu_input = None, tu_output = None, tu_total = None, tu_extensions = extensions_new\<rparr>"

definition checked_computed_total :: "token_usage \<Rightarrow> token_usage_error + 64 word option" where
  "checked_computed_total u =
     (case (tu_input u, tu_output u) of
        (Some i, Some j) \<Rightarrow> (case u64_checked_add i j of
            Some t \<Rightarrow> Inr (Some t) | None \<Rightarrow> Inl (TotalOverflow i j))
      | _ \<Rightarrow> Inr None)"

definition effective_total :: "token_usage \<Rightarrow> token_usage_error + 64 word option" where
  "effective_total u = (case tu_total u of Some t \<Rightarrow> Inr (Some t) | None \<Rightarrow> checked_computed_total u)"

fun first_some :: "'a option list \<Rightarrow> 'a option" where
  "first_some [] = None"
| "first_some (Some a # xs) = Some a"
| "first_some (None # xs) = first_some xs"

definition usage_validate :: "token_usage \<Rightarrow> token_usage_error + unit" where
  "usage_validate u =
     sum_bind (checked_computed_total u) (\<lambda>computed.
       case tu_total u of
         None \<Rightarrow> Inr ()
       | Some t \<Rightarrow>
           (let lower_bound = (case first_some [computed, tu_input u, tu_output u] of
                                  Some b \<Rightarrow> b | None \<Rightarrow> 0);
                inconsistent = Inl (InconsistentTotal (tu_input u) (tu_output u) t)
            in if t < lower_bound then inconsistent
               else if (\<exists>i \<in> set_option (tu_input u). t < i)
                     \<or> (\<exists>j \<in> set_option (tu_output u). t < j) then inconsistent
               else Inr ()))"

definition usage_from_parts ::
    "64 word option \<Rightarrow> 64 word option \<Rightarrow> 64 word option \<Rightarrow> token_usage_error + token_usage" where
  "usage_from_parts i j t =
     (let u = \<lparr>tu_input = i, tu_output = j, tu_total = t, tu_extensions = extensions_new\<rparr>
      in sum_bind (usage_validate u) (\<lambda>_. Inr u))"

fun merge_counter ::
    "string \<Rightarrow> 64 word option \<Rightarrow> 64 word option \<Rightarrow> token_usage_error + 64 word option" where
  "merge_counter f (Some previous) (Some current) =
     (if current < previous then Inl (CounterDecreased f previous current) else Inr (Some current))"
| "merge_counter f None (Some current) = Inr (Some current)"
| "merge_counter f previous None = Inr previous"

text \<open>\<open>merge_snapshot\<close> updates the usage only when nothing failed; the result is the new usage.\<close>

definition merge_snapshot :: "token_usage \<Rightarrow> token_usage \<Rightarrow> token_usage_error + token_usage" where
  "merge_snapshot u s =
     sum_bind (merge_counter ''input_tokens'' (tu_input u) (tu_input s)) (\<lambda>i.
     sum_bind (merge_counter ''output_tokens'' (tu_output u) (tu_output s)) (\<lambda>j.
     sum_bind (merge_counter ''total_tokens'' (tu_total u) (tu_total s)) (\<lambda>t.
     sum_bind (usage_validate
         \<lparr>tu_input = i, tu_output = j, tu_total = t, tu_extensions = extensions_new\<rparr>) (\<lambda>_.
     sum_bind (map_err ExtensionConflict
         (validate_idempotent_merge (tu_extensions u) (tu_extensions s))) (\<lambda>_.
       Inr \<lparr>tu_input = i, tu_output = j, tu_total = t,
            tu_extensions = commit_idempotent_merge (tu_extensions u) (tu_extensions s)\<rparr>)))))"

record chat_response =
  rs_message :: assistant_message
  rs_finish_reason :: finish_reason
  rs_usage :: "token_usage option"
  rs_response_id :: "response_id option"
  rs_model :: "model_id option"
  rs_extensions :: extensions

definition chat_response_new :: "assistant_message \<Rightarrow> finish_reason \<Rightarrow> chat_response" where
  "chat_response_new m r =
     \<lparr>rs_message = m, rs_finish_reason = r, rs_usage = None, rs_response_id = None,
      rs_model = None, rs_extensions = extensions_new\<rparr>"

section \<open>Errors\<close>

type_synonym json_error = string

datatype stream_protocol_error =
    DuplicateResponseStarted
  | EventAfterFinished string
  | CollectorAlreadyFailed
  | MissingFinished
  | ToolCallIndexTooLarge "32 word" "32 word"
  | DuplicateToolCallField "32 word" string
  | ConflictingToolCallExtension "32 word" extension_merge_error
  | ExtensionLimitExceeded "32 word" nat
  | TextLimitExceeded nat
  | ToolArgumentsLimitExceeded "32 word" nat
  | InvalidUsage token_usage_error
  | MissingToolCallId "32 word"
  | MissingToolCallName "32 word"
  | InvalidToolArguments "32 word" json_error

datatype structured_output_error =
    Refused
  | Incomplete
  | InvalidToolRound
  | OutputLimitExceeded
  | InvalidJson json_error
  | SchemaMismatch string

datatype model_error_kind =
    OutputValidation
  | InvalidRequest
  | UnsupportedCapability model_capability
  | Authentication
  | PermissionDenied
  | RateLimited
  | ProviderUnavailable
  | Timeout
  | Protocol
  | Decode
  | Cancelled
  | OtherKind

datatype retryability = Never | Retryable | Unknown

datatype model_error_source =
    SourceRequest request_validation_error
  | SourceStream stream_protocol_error
  | SourceOutput structured_output_error
  | SourceForeign string

record model_error =
  me_kind :: model_error_kind
  me_message :: string
  me_provider :: "provider_id option"
  me_model :: "model_id option"
  me_http_status :: "16 word option"
  me_retry_after :: "nat option"
  me_retryability :: retryability
  me_source :: "model_error_source option"

fun default_retryability :: "model_error_kind \<Rightarrow> retryability" where
  "default_retryability OutputValidation = Never"
| "default_retryability RateLimited = Retryable"
| "default_retryability ProviderUnavailable = Retryable"
| "default_retryability Timeout = Retryable"
| "default_retryability OtherKind = Unknown"
| "default_retryability InvalidRequest = Never"
| "default_retryability (UnsupportedCapability _) = Never"
| "default_retryability Authentication = Never"
| "default_retryability PermissionDenied = Never"
| "default_retryability Protocol = Never"
| "default_retryability Decode = Never"
| "default_retryability Cancelled = Never"

definition model_error_new :: "model_error_kind \<Rightarrow> string \<Rightarrow> model_error" where
  "model_error_new k msg =
     \<lparr>me_kind = k, me_message = msg, me_provider = None, me_model = None, me_http_status = None,
      me_retry_after = None, me_retryability = default_retryability k, me_source = None\<rparr>"

definition model_error_with_source ::
    "model_error_kind \<Rightarrow> string \<Rightarrow> model_error_source \<Rightarrow> model_error" where
  "model_error_with_source k msg src = (model_error_new k msg)\<lparr>me_source := Some src\<rparr>"

definition invalid_request :: "request_validation_error \<Rightarrow> model_error" where
  "invalid_request e =
     model_error_with_source InvalidRequest ''chat request validation failed'' (SourceRequest e)"

definition with_model_context :: "provider_id \<Rightarrow> model_id \<Rightarrow> model_error \<Rightarrow> model_error" where
  "with_model_context p m e = e\<lparr>me_provider := Some p, me_model := Some m\<rparr>"

definition with_retry_after :: "nat \<Rightarrow> model_error \<Rightarrow> model_error" where
  "with_retry_after d e =
     (if me_kind e \<in> {RateLimited, ProviderUnavailable, Timeout} then e\<lparr>me_retry_after := Some d\<rparr> else e)"

definition with_retryability :: "retryability \<Rightarrow> model_error \<Rightarrow> model_error" where
  "with_retryability r e = e\<lparr>me_retryability := r\<rparr>"

text \<open>The text of an unsupported capability names the model; it is kept as one opaque text here.\<close>

definition unsupported :: "model_capability \<Rightarrow> model_metadata \<Rightarrow> model_error" where
  "unsupported c m =
     with_retryability Never (with_model_context (md_provider m) (md_model m)
       (model_error_new (UnsupportedCapability c) ''unsupported capability''))"

definition is_retryable :: "model_error \<Rightarrow> bool" where
  "is_retryable e \<longleftrightarrow> me_retryability e = Retryable"

section \<open>Token usage\<close>

text \<open>A usage is consistent when its total, if reported, covers what it counts, without overflow.\<close>

definition usage_wf :: "token_usage \<Rightarrow> bool" where
  "usage_wf u \<longleftrightarrow>
     (\<forall>i j. tu_input u = Some i \<longrightarrow> tu_output u = Some j \<longrightarrow> unat i + unat j < 2 ^ 64)
     \<and> (\<forall>t. tu_total u = Some t \<longrightarrow>
          (case tu_input u of None \<Rightarrow> 0 | Some i \<Rightarrow> unat i)
          + (case tu_output u of None \<Rightarrow> 0 | Some j \<Rightarrow> unat j) \<le> unat t)"

lemma usage_validate_iff: "usage_validate u = Inr () \<longleftrightarrow> usage_wf u"
proof -
  have add: "unat (i + j) = unat i + unat j" if "unat i + unat j < 2 ^ 64" for i j :: "64 word"
    using that by (simp add: unat_word_ariths)
  show ?thesis
    by (cases "tu_input u"; cases "tu_output u"; cases "tu_total u")
      (auto simp: usage_validate_def usage_wf_def checked_computed_total_def u64_checked_add_def
        word_less_nat_alt word_le_nat_alt add Let_def not_less)
qed

lemma merge_snapshot_Inr:
  assumes "merge_snapshot u s = Inr u'"
  shows "usage_wf u'"
    and "tu_input u = Some i \<Longrightarrow> \<exists>i'. tu_input u' = Some i' \<and> i \<le> i'"
    and "tu_output u = Some i \<Longrightarrow> \<exists>i'. tu_output u' = Some i' \<and> i \<le> i'"
    and "tu_total u = Some i \<Longrightarrow> \<exists>i'. tu_total u' = Some i' \<and> i \<le> i'"
proof -
  have counter: "merge_counter f (Some a) b = Inr c \<Longrightarrow> \<exists>c'. c = Some c' \<and> a \<le> c'" for f a b c
    by (cases b) (auto split: if_splits)
  obtain i' j' t' where m: "merge_counter ''input_tokens'' (tu_input u) (tu_input s) = Inr i'"
      "merge_counter ''output_tokens'' (tu_output u) (tu_output s) = Inr j'"
      "merge_counter ''total_tokens'' (tu_total u) (tu_total s) = Inr t'"
      "usage_validate \<lparr>tu_input = i', tu_output = j', tu_total = t', tu_extensions = extensions_new\<rparr> = Inr ()"
      "tu_input u' = i'" "tu_output u' = j'" "tu_total u' = t'"
    using assms by (auto simp: merge_snapshot_def)
  show "usage_wf u'" using m(4-7) unfolding usage_validate_iff by (simp add: usage_wf_def)
  show "tu_input u = Some i \<Longrightarrow> \<exists>i'. tu_input u' = Some i' \<and> i \<le> i'"
    and "tu_output u = Some i \<Longrightarrow> \<exists>i'. tu_output u' = Some i' \<and> i \<le> i'"
    and "tu_total u = Some i \<Longrightarrow> \<exists>i'. tu_total u' = Some i' \<and> i \<le> i'"
    using m counter by auto
qed

end
