(* ===== verification/ChatStream.thy ===== *)
theory ChatStream
  imports ModelData
begin

text \<open>
  Streamed responses (\<open>stream.rs\<close>): the events of a chat stream and the collector that validates
  them and assembles the response. JSON text is decoded by the parameter \<open>parse\<close>, the
  \<open>serde_json::from_str\<close> of the code.
\<close>

section \<open>Events\<close>

record tool_call_delta =
  dl_index :: "32 word"
  dl_id :: "tool_call_id option"
  dl_name :: "tool_name option"
  dl_arguments_fragment :: string
  dl_extensions :: extensions

definition tool_call_delta_new :: "32 word \<Rightarrow> tool_call_delta" where
  "tool_call_delta_new i =
     \<lparr>dl_index = i, dl_id = None, dl_name = None, dl_arguments_fragment = [],
      dl_extensions = extensions_new\<rparr>"

datatype chat_stream_event =
    ResponseStarted "response_id option" "model_id option" extensions
  | TextDelta string
  | ToolCallDelta tool_call_delta
  | Usage token_usage
  | Finished finish_reason

fun event_name :: "chat_stream_event \<Rightarrow> string" where
  "event_name (ResponseStarted _ _ _) = ''response_started''"
| "event_name (TextDelta _) = ''text_delta''"
| "event_name (ToolCallDelta _) = ''tool_call_delta''"
| "event_name (Usage _) = ''usage''"
| "event_name (Finished _) = ''finished''"

definition protocol_error :: "stream_protocol_error \<Rightarrow> model_error" where
  "protocol_error e =
     model_error_with_source Protocol ''chat stream protocol violation'' (SourceStream e)"

definition decode_error :: "stream_protocol_error \<Rightarrow> model_error" where
  "decode_error e =
     model_error_with_source Decode ''chat stream data could not be decoded'' (SourceStream e)"

section \<open>The collector\<close>

record pending_tool_call =
  pt_id :: "tool_call_id option"
  pt_name :: "tool_name option"
  pt_arguments :: string
  pt_extensions :: extensions

definition pending_default :: pending_tool_call where
  "pending_default = \<lparr>pt_id = None, pt_name = None, pt_arguments = [], pt_extensions = extensions_new\<rparr>"

datatype collector_state = CollectorActive | CollectorFinished | CollectorFailed

record collector =
  cs_state :: collector_state
  cs_response_id :: "response_id option"
  cs_model :: "model_id option"
  cs_extensions :: extensions
  cs_response_started :: bool
  cs_text :: string
  cs_tool_calls :: "(32 word \<times> pending_tool_call) list"
  cs_usage :: "token_usage option"
  cs_finish_reason :: "finish_reason option"
  cs_max_tool_call_index :: "32 word"
  cs_max_tool_call_extensions :: nat
  cs_max_text_bytes :: nat
  cs_max_tool_argument_bytes :: nat

definition collector_new :: collector where
  "collector_new =
     \<lparr>cs_state = CollectorActive, cs_response_id = None, cs_model = None,
      cs_extensions = extensions_new, cs_response_started = False, cs_text = [],
      cs_tool_calls = [], cs_usage = None, cs_finish_reason = None,
      cs_max_tool_call_index = 1024, cs_max_tool_call_extensions = 256,
      cs_max_text_bytes = 16 * 1024 * 1024, cs_max_tool_argument_bytes = 16 * 1024 * 1024\<rparr>"

definition with_max_tool_call_index :: "32 word \<Rightarrow> collector \<Rightarrow> collector" where
  "with_max_tool_call_index n c = c\<lparr>cs_max_tool_call_index := n\<rparr>"

definition with_max_tool_call_extensions :: "nat \<Rightarrow> collector \<Rightarrow> collector" where
  "with_max_tool_call_extensions n c = c\<lparr>cs_max_tool_call_extensions := n\<rparr>"

definition with_max_text_bytes :: "nat \<Rightarrow> collector \<Rightarrow> collector" where
  "with_max_text_bytes n c = c\<lparr>cs_max_text_bytes := n\<rparr>"

definition with_max_tool_argument_bytes :: "nat \<Rightarrow> collector \<Rightarrow> collector" where
  "with_max_tool_argument_bytes n c = c\<lparr>cs_max_tool_argument_bytes := n\<rparr>"

definition at_most :: "nat \<Rightarrow> nat option \<Rightarrow> nat option" where
  "at_most maximum n = (case n of Some l \<Rightarrow> (if l \<le> maximum then Some l else None) | None \<Rightarrow> None)"

text \<open>The checks of a tool call fragment all come before its first write.\<close>

definition check_tool_delta :: "tool_call_delta \<Rightarrow> collector \<Rightarrow> model_error + unit" where
  "check_tool_delta d c =
     (let index = dl_index d; existing = map_of (cs_tool_calls c) index in
      if cs_max_tool_call_index c < index
      then Inl (protocol_error (ToolCallIndexTooLarge index (cs_max_tool_call_index c)))
      else if dl_id d \<noteq> None \<and> (\<exists>p \<in> set_option existing. pt_id p \<noteq> None)
      then Inl (protocol_error (DuplicateToolCallField index ''id''))
      else if dl_name d \<noteq> None \<and> (\<exists>p \<in> set_option existing. pt_name p \<noteq> None)
      then Inl (protocol_error (DuplicateToolCallField index ''name''))
      else
        (let existing_arguments = (case existing of None \<Rightarrow> 0 | Some p \<Rightarrow> length (pt_arguments p)) in
         case at_most (cs_max_tool_argument_bytes c)
                (usize_checked_add existing_arguments (length (dl_arguments_fragment d))) of
           None \<Rightarrow> Inl (protocol_error (ToolArgumentsLimitExceeded index (cs_max_tool_argument_bytes c)))
         | Some _ \<Rightarrow>
             (let existing_extensions = (case existing of None \<Rightarrow> extensions_new | Some p \<Rightarrow> pt_extensions p) in
              sum_bind (map_err (\<lambda>e. protocol_error (ConflictingToolCallExtension index e))
                (validate_idempotent_merge existing_extensions (dl_extensions d))) (\<lambda>new_keys.
              case at_most (cs_max_tool_call_extensions c)
                     (usize_checked_add (length existing_extensions) new_keys) of
                None \<Rightarrow> Inl (protocol_error (ExtensionLimitExceeded index (cs_max_tool_call_extensions c)))
              | Some _ \<Rightarrow> Inr ()))))"

definition apply_tool_delta :: "tool_call_delta \<Rightarrow> pending_tool_call \<Rightarrow> pending_tool_call" where
  "apply_tool_delta d p =
     \<lparr>pt_id = (case dl_id d of Some i \<Rightarrow> Some i | None \<Rightarrow> pt_id p),
      pt_name = (case dl_name d of Some n \<Rightarrow> Some n | None \<Rightarrow> pt_name p),
      pt_arguments = pt_arguments p @ dl_arguments_fragment d,
      pt_extensions = commit_idempotent_merge (pt_extensions p) (dl_extensions d)\<rparr>"

definition push_tool_delta :: "tool_call_delta \<Rightarrow> collector \<Rightarrow> (model_error + unit) \<times> collector" where
  "push_tool_delta d c =
     (case check_tool_delta d c of
        Inl e \<Rightarrow> (Inl e, c)
      | Inr _ \<Rightarrow>
          (let p = (case map_of (cs_tool_calls c) (dl_index d) of
                      None \<Rightarrow> pending_default | Some p \<Rightarrow> p)
           in (Inr (), c\<lparr>cs_tool_calls :=
                bt_insert (dl_index d) (apply_tool_delta d p) (cs_tool_calls c)\<rparr>)))"

text \<open>What every finished tool call needs, with the call assembled from it.\<close>

definition complete_call ::
    "(string \<Rightarrow> json_error + json) \<Rightarrow> 32 word \<times> pending_tool_call \<Rightarrow> model_error + tool_call" where
  "complete_call parse x =
     (let (index, p) = x in
      case pt_id p of
        None \<Rightarrow> Inl (protocol_error (MissingToolCallId index))
      | Some i \<Rightarrow>
          (case pt_name p of
             None \<Rightarrow> Inl (protocol_error (MissingToolCallName index))
           | Some n \<Rightarrow>
               (case parse (pt_arguments p) of
                  Inl e \<Rightarrow> Inl (decode_error (InvalidToolArguments index e))
                | Inr v \<Rightarrow> Inr ((tool_call_new i n v)\<lparr>tc_extensions := pt_extensions p\<rparr>))))"

fun complete_calls ::
    "(string \<Rightarrow> json_error + json) \<Rightarrow> (32 word \<times> pending_tool_call) list
      \<Rightarrow> model_error + tool_call list" where
  "complete_calls parse [] = Inr []"
| "complete_calls parse (x # xs) =
     sum_bind (complete_call parse x) (\<lambda>call.
     sum_bind (complete_calls parse xs) (\<lambda>calls. Inr (call # calls)))"

definition validate_finished ::
    "(string \<Rightarrow> json_error + json) \<Rightarrow> collector \<Rightarrow> model_error + unit" where
  "validate_finished parse c =
     sum_bind (complete_calls parse (cs_tool_calls c)) (\<lambda>_. Inr ())"

fun push_active ::
    "(string \<Rightarrow> json_error + json) \<Rightarrow> chat_stream_event \<Rightarrow> collector
      \<Rightarrow> (model_error + unit) \<times> collector" where
  "push_active parse (ResponseStarted i m x) c =
     (if cs_response_started c then (Inl (protocol_error DuplicateResponseStarted), c)
      else (Inr (), c\<lparr>cs_response_started := True, cs_response_id := i, cs_model := m,
                      cs_extensions := x\<rparr>))"
| "push_active parse (TextDelta d) c =
     (case at_most (cs_max_text_bytes c) (usize_checked_add (length (cs_text c)) (length d)) of
        None \<Rightarrow> (Inl (protocol_error (TextLimitExceeded (cs_max_text_bytes c))), c)
      | Some _ \<Rightarrow> (Inr (), c\<lparr>cs_text := cs_text c @ d\<rparr>))"
| "push_active parse (ToolCallDelta d) c = push_tool_delta d c"
| "push_active parse (Usage u) c =
     (case cs_usage c of
        Some existing \<Rightarrow>
          (case merge_snapshot existing u of
             Inl e \<Rightarrow> (Inl (protocol_error (InvalidUsage e)), c)
           | Inr u' \<Rightarrow> (Inr (), c\<lparr>cs_usage := Some u'\<rparr>))
      | None \<Rightarrow> (Inr (), c\<lparr>cs_usage := Some u\<rparr>))"
| "push_active parse (Finished reason) c =
     (case validate_finished parse c of
        Inl e \<Rightarrow> (Inl e, c)
      | Inr _ \<Rightarrow> (Inr (), c\<lparr>cs_finish_reason := Some reason, cs_state := CollectorFinished\<rparr>))"

definition collector_push ::
    "(string \<Rightarrow> json_error + json) \<Rightarrow> chat_stream_event \<Rightarrow> collector
      \<Rightarrow> (model_error + unit) \<times> collector" where
  "collector_push parse ev c =
     (case cs_state c of
        CollectorFailed \<Rightarrow> (Inl (protocol_error CollectorAlreadyFailed), c)
      | CollectorFinished \<Rightarrow> (Inl (protocol_error (EventAfterFinished (event_name ev))), c)
      | CollectorActive \<Rightarrow>
          (case push_active parse ev c of
             (Inl e, c') \<Rightarrow> (Inl e, c'\<lparr>cs_state := CollectorFailed\<rparr>)
           | (Inr u, c') \<Rightarrow> (Inr u, c')))"

definition collector_finish ::
    "(string \<Rightarrow> json_error + json) \<Rightarrow> collector \<Rightarrow> model_error + chat_response" where
  "collector_finish parse c =
     (case cs_state c of
        CollectorFailed \<Rightarrow> Inl (protocol_error CollectorAlreadyFailed)
      | CollectorActive \<Rightarrow> Inl (protocol_error MissingFinished)
      | CollectorFinished \<Rightarrow>
          (case cs_finish_reason c of
             None \<Rightarrow> Inl (protocol_error MissingFinished)
           | Some reason \<Rightarrow>
               sum_bind (complete_calls parse (cs_tool_calls c)) (\<lambda>calls.
                 let content = (if cs_text c = [] then [] else [Text (cs_text c)])
                 in Inr ((chat_response_new (assistant_message_new content calls) reason)
                      \<lparr>rs_extensions := cs_extensions c, rs_usage := cs_usage c,
                       rs_response_id := cs_response_id c, rs_model := cs_model c\<rparr>))))"

text \<open>A stream is the possibly endless sequence of the items that polling it delivers.\<close>

codatatype 'a item_stream = StreamEnd | StreamItem 'a "'a item_stream"

type_synonym chat_event_stream = "(model_error + chat_stream_event) item_stream"

partial_function (option) collect_from ::
    "(string \<Rightarrow> json_error + json) \<Rightarrow> collector \<Rightarrow> chat_event_stream
      \<Rightarrow> (model_error + chat_response) option" where
  "collect_from parse c s =
     (case s of
        StreamEnd \<Rightarrow> Some (collector_finish parse c)
      | StreamItem (Inl e) _ \<Rightarrow> Some (Inl e)
      | StreamItem (Inr ev) rest \<Rightarrow>
          (case collector_push parse ev c of
             (Inl e, _) \<Rightarrow> Some (Inl e)
           | (Inr _, c') \<Rightarrow> collect_from parse c' rest))"

definition collect_chat_stream ::
    "(string \<Rightarrow> json_error + json) \<Rightarrow> chat_event_stream \<Rightarrow> (model_error + chat_response) option" where
  "collect_chat_stream parse = collect_from parse collector_new"

declare collect_from.simps [code]

section \<open>A failed event commits nothing\<close>

lemma push_active_Inl: "push_active parse ev c = (Inl e, c') \<Longrightarrow> c' = c"
  by (cases ev) (auto simp: push_tool_delta_def Let_def split: if_splits option.splits sum.splits)

lemma push_Inl:
  "collector_push parse ev c = (Inl e, c') \<Longrightarrow>
     c' = (if cs_state c = CollectorActive then c\<lparr>cs_state := CollectorFailed\<rparr> else c)"
  by (auto simp: collector_push_def dest!: push_active_Inl split: collector_state.splits prod.splits sum.splits)

lemma push_stopped: "cs_state c \<noteq> CollectorActive \<Longrightarrow> \<exists>e. collector_push parse ev c = (Inl e, c)"
  by (cases "cs_state c") (auto simp: collector_push_def)

lemma push_Inr:
  "collector_push parse ev c = (Inr u, c') \<longleftrightarrow>
     cs_state c = CollectorActive \<and> push_active parse ev c = (Inr u, c')"
  by (auto simp: collector_push_def split: collector_state.splits prod.splits sum.splits)

definition same_limits :: "collector \<Rightarrow> collector \<Rightarrow> bool" where
  "same_limits c' c \<longleftrightarrow>
     cs_max_text_bytes c' = cs_max_text_bytes c \<and> cs_max_tool_call_index c' = cs_max_tool_call_index c
     \<and> cs_max_tool_argument_bytes c' = cs_max_tool_argument_bytes c
     \<and> cs_max_tool_call_extensions c' = cs_max_tool_call_extensions c"

lemma push_active_limits: "push_active parse ev c = (Inr u, c') \<Longrightarrow> same_limits c' c"
  by (cases ev) (auto simp: same_limits_def push_tool_delta_def Let_def
      split: if_splits option.splits sum.splits)

lemma push_keeps_limits:
  assumes "collector_push parse ev c = (r, c')"
  shows "same_limits c' c"
proof (cases r)
  case (Inl e)
  then have "c' = (if cs_state c = CollectorActive then c\<lparr>cs_state := CollectorFailed\<rparr> else c)"
    using push_Inl assms by blast
  then show ?thesis by (simp add: same_limits_def)
next
  case (Inr u)
  then show ?thesis using push_active_limits assms push_Inr by metis
qed

section \<open>The invariant of a collector\<close>

definition pending_ok :: "collector \<Rightarrow> 32 word \<times> pending_tool_call \<Rightarrow> bool" where
  "pending_ok c x \<longleftrightarrow>
     fst x \<le> cs_max_tool_call_index c \<and> length (pt_arguments (snd x)) \<le> cs_max_tool_argument_bytes c
     \<and> ext_wf (pt_extensions (snd x)) \<and> length (pt_extensions (snd x)) \<le> cs_max_tool_call_extensions c"

definition collector_ok :: "(string \<Rightarrow> json_error + json) \<Rightarrow> collector \<Rightarrow> bool" where
  "collector_ok parse c \<longleftrightarrow>
     length (cs_text c) \<le> cs_max_text_bytes c
     \<and> bt_wf (cs_tool_calls c) \<and> (\<forall>x \<in> set (cs_tool_calls c). pending_ok c x)
     \<and> (\<forall>u. cs_usage c = Some u \<longrightarrow> usage_wf u)
     \<and> (cs_state c = CollectorFinished \<longleftrightarrow> cs_finish_reason c \<noteq> None)
     \<and> (cs_state c = CollectorFinished \<longrightarrow> validate_finished parse c = Inr ())"

text \<open>The parts of an event come from validated constructors.\<close>

definition event_ok :: "chat_stream_event \<Rightarrow> bool" where
  "event_ok ev \<longleftrightarrow>
     (case ev of ToolCallDelta d \<Rightarrow> ext_wf (dl_extensions d) | Usage u \<Rightarrow> usage_wf u | _ \<Rightarrow> True)"

lemma at_most_Some [simp]: "at_most m n = Some l \<longleftrightarrow> n = Some l \<and> l \<le> m"
  by (auto simp: at_most_def split: option.splits)

lemma usize_checked_add_Some [simp]: "usize_checked_add a b = Some l \<longleftrightarrow> l = a + b \<and> l < usize_bound"
  by (auto simp: usize_checked_add_def)

lemma commit_ext_wf: "ext_wf m \<Longrightarrow> ext_wf m' \<Longrightarrow> ext_wf (commit_idempotent_merge m m')"
proof -
  assume wf: "ext_wf m" "ext_wf m'"
  then have bt: "bt_wf m" "bt_wf m'" by (simp_all add: ext_wf_def)
  have "fst ` set (commit_idempotent_merge m m') = fst ` set m \<union> fst ` set m'"
    using map_of_commit [OF bt] by (metis dom_map_add dom_map_of_conv_image_fst)
  then show ?thesis using wf commit_wf [OF bt] by (auto simp: ext_wf_def)
qed

lemma bt_insert_set: "bt_wf m \<Longrightarrow> set (bt_insert k v m) = insert (k, v) {x \<in> set m. fst x \<noteq> k}"
  by (induction k v m rule: bt_insert.induct) auto

lemma pending_ok_apply:
  assumes "check_tool_delta d c = Inr ()" and "ext_wf (dl_extensions d)"
    and "\<And>q. map_of (cs_tool_calls c) (dl_index d) = Some q \<Longrightarrow> pending_ok c (dl_index d, q)"
  shows "pending_ok c (dl_index d, apply_tool_delta d
    (case map_of (cs_tool_calls c) (dl_index d) of None \<Rightarrow> pending_default | Some p \<Rightarrow> p))"
proof -
  let ?p = "case map_of (cs_tool_calls c) (dl_index d) of None \<Rightarrow> pending_default | Some p \<Rightarrow> p"
  have p: "ext_wf (pt_extensions ?p)"
    using assms(3) by (auto simp: pending_ok_def pending_default_def split: option.splits)
  have "dl_index d \<le> cs_max_tool_call_index c
      \<and> length (pt_arguments ?p @ dl_arguments_fragment d) \<le> cs_max_tool_argument_bytes c"
    using assms(1) by (auto simp: check_tool_delta_def Let_def pending_default_def not_less
        split: if_splits option.splits)
  moreover have "\<exists>n. validate_idempotent_merge (pt_extensions ?p) (dl_extensions d) = Inr n
      \<and> length (pt_extensions ?p) + n \<le> cs_max_tool_call_extensions c"
    using assms(1) by (auto simp: check_tool_delta_def Let_def pending_default_def
        split: if_splits option.splits)
  ultimately show ?thesis
    using p assms(2) commit_ext_wf [OF p assms(2)]
    by (auto simp: pending_ok_def apply_tool_delta_def length_commit ext_wf_def
        validate_idempotent_merge_def additional_keys_Inr)
qed

lemma pending_ok_updates [simp]:
  "pending_ok (c\<lparr>cs_state := a\<rparr>) = pending_ok c"
  "pending_ok (c\<lparr>cs_text := t\<rparr>) = pending_ok c"
  "pending_ok (c\<lparr>cs_tool_calls := m\<rparr>) = pending_ok c"
  "pending_ok (c\<lparr>cs_usage := v\<rparr>) = pending_ok c"
  "pending_ok (c\<lparr>cs_finish_reason := r\<rparr>) = pending_ok c"
  "pending_ok (c\<lparr>cs_response_started := s, cs_response_id := i, cs_model := n,
     cs_extensions := x\<rparr>) = pending_ok c"
  by (simp_all add: pending_ok_def fun_eq_iff)

lemma collector_ok_new: "collector_ok parse collector_new"
  by (simp add: collector_ok_def collector_new_def)

lemma pending_ok_lookup:
  "collector_ok parse c \<Longrightarrow> map_of (cs_tool_calls c) i = Some p \<Longrightarrow> pending_ok c (i, p)"
  by (auto simp: collector_ok_def dest: map_of_SomeD)

lemma collector_ok_active:
  assumes "collector_ok parse c" "cs_state c = CollectorActive" "event_ok ev"
    and push: "push_active parse ev c = (Inr u, c')"
  shows "collector_ok parse c'"
proof (cases ev)
  case (ToolCallDelta d)
  let ?p = "case map_of (cs_tool_calls c) (dl_index d) of None \<Rightarrow> pending_default | Some p \<Rightarrow> p"
  have chk: "check_tool_delta d c = Inr ()"
    and c': "c' = c\<lparr>cs_tool_calls := bt_insert (dl_index d) (apply_tool_delta d ?p) (cs_tool_calls c)\<rparr>"
    using push ToolCallDelta by (auto simp: push_tool_delta_def Let_def split: sum.splits)
  have "pending_ok c (dl_index d, apply_tool_delta d ?p)"
    by (rule pending_ok_apply [OF chk])
      (use assms(3) pending_ok_lookup [OF assms(1)] ToolCallDelta in \<open>auto simp: event_ok_def\<close>)
  then show ?thesis
    using assms(1,2) c' by (auto simp: collector_ok_def bt_insert_set)
next
  case (Usage v)
  then show ?thesis
    using assms merge_snapshot_Inr(1)
    by (auto simp: collector_ok_def event_ok_def split: option.splits sum.splits)
qed (use assms in \<open>auto simp: collector_ok_def validate_finished_def split: if_splits option.splits sum.splits\<close>)

lemma collector_ok_push:
  assumes "collector_ok parse c" and "event_ok ev" and "collector_push parse ev c = (r, c')"
  shows "collector_ok parse c'"
proof (cases r)
  case (Inl e)
  then show ?thesis
    using push_Inl [of parse ev c e c'] assms(1,3)
    by (auto simp: collector_ok_def split: if_splits)
next
  case (Inr u)
  then show ?thesis using assms push_Inr collector_ok_active by metis
qed

lemma finish_total:
  "collector_ok parse c \<Longrightarrow> cs_state c = CollectorFinished \<Longrightarrow> \<exists>r. collector_finish parse c = Inr r"
  by (auto simp: collector_ok_def collector_finish_def validate_finished_def)

section \<open>What a stream collects\<close>

fun stream_of :: "'a list \<Rightarrow> 'a item_stream" where
  "stream_of [] = StreamEnd"
| "stream_of (x # xs) = StreamItem x (stream_of xs)"

fun push_all ::
    "(string \<Rightarrow> json_error + json) \<Rightarrow> collector \<Rightarrow> chat_stream_event list \<Rightarrow> model_error + collector" where
  "push_all parse c [] = Inr c"
| "push_all parse c (ev # evs) =
     (case collector_push parse ev c of (Inl e, _) \<Rightarrow> Inl e | (Inr _, c') \<Rightarrow> push_all parse c' evs)"

lemma collect_from_stream_of:
  "collect_from parse c (stream_of (map Inr evs)) =
     Some (sum_bind (push_all parse c evs) (collector_finish parse))"
  by (induction evs arbitrary: c) (subst collect_from.simps, simp split: prod.split sum.split)+

text \<open>The text, and the fragments of one tool call, in the order of the stream.\<close>

fun event_text :: "chat_stream_event \<Rightarrow> string" where
  "event_text (TextDelta t) = t"
| "event_text _ = []"

fun event_deltas :: "32 word \<Rightarrow> chat_stream_event \<Rightarrow> tool_call_delta list" where
  "event_deltas i (ToolCallDelta d) = (if dl_index d = i then [d] else [])"
| "event_deltas i _ = []"

definition stream_text :: "chat_stream_event list \<Rightarrow> string" where
  "stream_text evs = concat (map event_text evs)"

definition deltas :: "chat_stream_event list \<Rightarrow> 32 word \<Rightarrow> tool_call_delta list" where
  "deltas evs i = concat (map (event_deltas i) evs)"

definition given :: "('a \<Rightarrow> 'b option) \<Rightarrow> 'a list \<Rightarrow> 'b list" where
  "given f xs = List.map_filter f xs"

lemma given_append: "given f (xs @ ys) = given f xs @ given f ys"
  by (simp add: given_def map_filter_def)

lemma given_single: "given f [x] = (case f x of None \<Rightarrow> [] | Some y \<Rightarrow> [y])"
  by (simp add: given_def map_filter_def split: option.split)

lemma deltas_append: "deltas (evs @ [ev]) i = deltas evs i @ event_deltas i ev"
  by (simp add: deltas_def)

definition pending_of :: "tool_call_delta list \<Rightarrow> pending_tool_call \<Rightarrow> bool" where
  "pending_of ds p \<longleftrightarrow>
     given dl_id ds = (case pt_id p of None \<Rightarrow> [] | Some i \<Rightarrow> [i])
     \<and> given dl_name ds = (case pt_name p of None \<Rightarrow> [] | Some n \<Rightarrow> [n])
     \<and> pt_arguments p = concat (map dl_arguments_fragment ds)
     \<and> (\<forall>d \<in> set ds. map_of (dl_extensions d) \<subseteq>\<^sub>m map_of (pt_extensions p))"

definition tracked :: "tool_call_delta list \<Rightarrow> pending_tool_call option \<Rightarrow> bool" where
  "tracked ds x \<longleftrightarrow> (case x of None \<Rightarrow> ds = [] | Some p \<Rightarrow> ds \<noteq> [] \<and> pending_of ds p)"

definition collected :: "chat_stream_event list \<Rightarrow> collector \<Rightarrow> bool" where
  "collected evs c \<longleftrightarrow>
     cs_state c = CollectorActive \<and> cs_text c = stream_text evs
     \<and> (\<forall>i. tracked (deltas evs i) (map_of (cs_tool_calls c) i))"

lemma collected_new: "collected [] collector_new"
  by (simp add: collected_def collector_new_def stream_text_def deltas_def tracked_def)

lemma pending_of_default: "pending_of [] pending_default"
  by (simp add: pending_of_def pending_default_def given_def map_filter_def)

lemma pending_of_apply:
  assumes p: "pending_of ds p" "ext_wf (pt_extensions p)" and d: "ext_wf (dl_extensions d)"
    and "dl_id d = None \<or> pt_id p = None" and "dl_name d = None \<or> pt_name p = None"
    and merge: "validate_idempotent_merge (pt_extensions p) (dl_extensions d) = Inr n"
  shows "pending_of (ds @ [d]) (apply_tool_delta d p)"
proof -
  have wf: "bt_wf (pt_extensions p)" "bt_wf (dl_extensions d)"
    using p(2) d by (simp_all add: ext_wf_def)
  have "map_of (dl_extensions d) \<subseteq>\<^sub>m map_of (dl_extensions d) ++ map_of (pt_extensions p)"
    using compatible_iff [OF wf(2)] merge
    by (auto simp: map_le_def map_add_def split: option.split)
  then have "\<forall>x \<in> set (ds @ [d]). map_of (dl_extensions x) \<subseteq>\<^sub>m
      map_of (commit_idempotent_merge (pt_extensions p) (dl_extensions d))"
    using p(1) by (auto simp: map_of_commit [OF wf] pending_of_def intro: map_le_trans)
  then show ?thesis
    using p(1) assms(4,5)
    by (auto simp: pending_of_def apply_tool_delta_def given_append given_single split: option.splits)
qed

lemma collected_push:
  assumes c: "collected evs c" "collector_ok parse c" and ev: "event_ok ev" "\<forall>r. ev \<noteq> Finished r"
    and push: "collector_push parse ev c = (Inr u, c')"
  shows "collected (evs @ [ev]) c'"
proof -
  have push': "push_active parse ev c = (Inr u, c')" and act: "cs_state c = CollectorActive"
    using push by (simp_all add: push_Inr)
  show ?thesis
  proof (cases ev)
    case (ToolCallDelta d)
    let ?old = "map_of (cs_tool_calls c) (dl_index d)"
    let ?p = "case ?old of None \<Rightarrow> pending_default | Some p \<Rightarrow> p"
    have chk: "check_tool_delta d c = Inr ()"
      and c': "c' = c\<lparr>cs_tool_calls := bt_insert (dl_index d) (apply_tool_delta d ?p) (cs_tool_calls c)\<rparr>"
      using push' ToolCallDelta by (auto simp: push_tool_delta_def Let_def split: sum.splits)
    have wf: "bt_wf (cs_tool_calls c)" using c(2) by (simp add: collector_ok_def)
    have p: "pending_of (deltas evs (dl_index d)) ?p" "ext_wf (pt_extensions ?p)"
    proof -
      have "tracked (deltas evs (dl_index d)) ?old" using c(1) by (simp add: collected_def)
      then show "pending_of (deltas evs (dl_index d)) ?p"
        by (cases ?old) (simp_all add: tracked_def pending_of_default)
      show "ext_wf (pt_extensions ?p)"
        using pending_ok_lookup [OF c(2), of "dl_index d"]
        by (cases ?old) (auto simp: pending_ok_def pending_default_def)
    qed
    have "(dl_id d = None \<or> pt_id ?p = None) \<and> (dl_name d = None \<or> pt_name ?p = None)
        \<and> (\<exists>n. validate_idempotent_merge (pt_extensions ?p) (dl_extensions d) = Inr n)"
      using chk by (auto simp: check_tool_delta_def Let_def pending_default_def
          split: if_splits option.splits)
    then have "pending_of (deltas evs (dl_index d) @ [d]) (apply_tool_delta d ?p)"
      using pending_of_apply [OF p, of d] ev(1) ToolCallDelta by (auto simp: event_ok_def)
    then have "tracked (deltas evs (dl_index d) @ [d]) (Some (apply_tool_delta d ?p))"
      by (simp add: tracked_def)
    then show ?thesis
      using c(1) wf ToolCallDelta c' by (simp add: collected_def deltas_append stream_text_def)
  qed (use c(1) act push' ev(2) in \<open>auto simp: collected_def deltas_append stream_text_def
        split: if_splits option.splits sum.splits\<close>)
qed

lemma push_all_append:
  "push_all parse c (evs @ evs') = sum_bind (push_all parse c evs) (\<lambda>c'. push_all parse c' evs')"
  by (induction evs arbitrary: c) (auto split: prod.split sum.split)

lemma push_all_ok:
  "collector_ok parse c \<Longrightarrow> \<forall>ev \<in> set evs. event_ok ev \<Longrightarrow> push_all parse c evs = Inr c' \<Longrightarrow>
     collector_ok parse c'"
  by (induction evs arbitrary: c) (auto split: prod.splits sum.splits dest: collector_ok_push)

lemma push_all_collected:
  assumes "push_all parse collector_new evs = Inr c" and "\<forall>ev \<in> set evs. event_ok ev"
    and "\<forall>ev \<in> set evs. \<forall>r. ev \<noteq> Finished r"
  shows "collected evs c"
  using assms
proof (induction evs arbitrary: c rule: rev_induct)
  case Nil
  then show ?case by (simp add: collected_new)
next
  case (snoc ev evs)
  obtain c0 where c0: "push_all parse collector_new evs = Inr c0" "push_all parse c0 [ev] = Inr c"
    using snoc.prems(1) by (auto simp: push_all_append)
  moreover obtain u where "collector_push parse ev c0 = (Inr u, c)"
    using c0(2) by (auto split: prod.splits sum.splits)
  ultimately show ?case
    using snoc collected_push [of evs c0 parse ev u c] push_all_ok [OF collector_ok_new _ c0(1)]
    by auto
qed

text \<open>An accepted stream ends with its only \<open>Finished\<close> event.\<close>

lemma push_all_finished:
  assumes "push_all parse c evs = Inr c'" and "cs_state c = CollectorActive"
    and "cs_state c' = CollectorFinished"
  shows "\<exists>body r c0. evs = body @ [Finished r] \<and> (\<forall>ev \<in> set body. \<forall>x. ev \<noteq> Finished x)
    \<and> push_all parse c body = Inr c0 \<and> collector_push parse (Finished r) c0 = (Inr (), c')"
  using assms
proof (induction evs arbitrary: c)
  case (Cons ev evs)
  obtain u c1 where c1: "collector_push parse ev c = (Inr u, c1)" "push_all parse c1 evs = Inr c'"
    using Cons.prems(1) by (auto split: prod.splits sum.splits)
  show ?case
  proof (cases "cs_state c1 = CollectorActive")
    case True
    moreover have "\<forall>x. ev \<noteq> Finished x" using c1(1) True by (auto simp: push_Inr split: sum.splits)
    moreover obtain body r c0 where "evs = body @ [Finished r]"
        "\<forall>ev \<in> set body. \<forall>x. ev \<noteq> Finished x" "push_all parse c1 body = Inr c0"
        "collector_push parse (Finished r) c0 = (Inr (), c')"
      using Cons.IH [OF c1(2) True Cons.prems(3)] by blast
    ultimately show ?thesis
      using c1(1) by (intro exI [of _ "ev # body"] exI [of _ r] exI [of _ c0]) auto
  next
    case False
    have "evs = []"
    proof (cases evs)
      case (Cons x xs)
      then show ?thesis using c1(2) push_stopped [OF False, of parse x] by auto
    qed simp
    moreover obtain r where "ev = Finished r"
      using c1(1) False Cons.prems(2) by (cases ev) (auto simp: push_Inr push_tool_delta_def Let_def
          split: if_splits option.splits sum.splits)
    ultimately show ?thesis using c1 by (intro exI [of _ "[]"]) auto
  qed
qed auto

end
