(* ===== verification/Structured.thy ===== *)
theory Structured
  imports ChatStream
begin

text \<open>
  Structured output (\<open>structured_output\<close> of \<open>group-agent-model\<close>): admission of a schema
  (\<open>schema.rs\<close>), the strict JSON reader (\<open>validate.rs\<close>), validation of a response (\<open>mod.rs\<close>) and of
  a stream (\<open>stream.rs\<close>). Serialization, hashing, the lexer of \<open>serde_json\<close> and the compiled
  validators of \<open>jsonschema\<close> are parameters.
\<close>

section \<open>Admission of a schema\<close>

datatype output_schema_error =
  InvalidName | UnsupportedProfile | SchemaLimitExceeded | SchemaCompilation string

record schema_counts =
  sc_properties :: nat
  sc_enums :: nat
  sc_bytes :: nat

definition required_some :: "'a option \<Rightarrow> output_schema_error + 'a" where
  "required_some x = (case x of None \<Rightarrow> Inl UnsupportedProfile | Some a \<Rightarrow> Inr a)"

definition schema_kind :: "(string \<times> json) list \<Rightarrow> output_schema_error + string" where
  "schema_kind obj =
     (case map_of obj ''type'' of
        Some (JString s) \<Rightarrow> Inr s
      | Some (JArray types) \<Rightarrow>
          (case types of
             [x, y] \<Rightarrow>
               sum_bind (required_some (json_as_str x)) (\<lambda>a.
               sum_bind (required_some (json_as_str y)) (\<lambda>b.
                 if a = ''null'' \<and> b \<noteq> ''null'' then Inr b
                 else if b = ''null'' \<and> a \<noteq> ''null'' then Inr a
                 else Inl UnsupportedProfile))
           | _ \<Rightarrow> Inl UnsupportedProfile)
      | _ \<Rightarrow> Inl UnsupportedProfile)"

definition key_allowed :: "string \<Rightarrow> string \<Rightarrow> bool" where
  "key_allowed kind key \<longleftrightarrow>
     (if key \<in> {''type'', ''description''} then True
      else if key \<in> {''properties'', ''required'', ''additionalProperties''} then kind = ''object''
      else if key = ''items'' then kind = ''array''
      else if key = ''enum'' then kind = ''string''
      else False)"

fun check_required ::
    "(string \<times> json) list \<Rightarrow> string list \<Rightarrow> json list \<Rightarrow> output_schema_error + unit" where
  "check_required props seen [] = Inr ()"
| "check_required props seen (v # vs) =
     sum_bind (required_some (json_as_str v)) (\<lambda>name.
       if map_of props name = None \<or> name \<in> set seen then Inl UnsupportedProfile
       else check_required props (name # seen) vs)"

fun count_enum ::
    "bool \<Rightarrow> string option list \<Rightarrow> nat \<Rightarrow> json list \<Rightarrow> output_schema_error + nat" where
  "count_enum nullable seen bytes [] = Inr bytes"
| "count_enum nullable seen bytes (v # vs) =
     sum_bind (if v = JNull \<and> nullable then Inr None
               else map_sum id Some (required_some (json_as_str v))) (\<lambda>entry.
       if entry \<in> set seen then Inl UnsupportedProfile
       else count_enum nullable (entry # seen)
              (bytes + (case entry of None \<Rightarrow> 0 | Some t \<Rightarrow> length t)) vs)"

definition visit_string ::
    "(string \<times> json) list \<Rightarrow> schema_counts \<Rightarrow> output_schema_error + schema_counts" where
  "visit_string obj c =
     (case map_of obj ''enum'' of
        None \<Rightarrow> Inr c
      | Some v \<Rightarrow>
          sum_bind (required_some (as_array v)) (\<lambda>values.
            if values = [] then Inl UnsupportedProfile
            else let enums = sc_enums c + length values in
              if enums > 256 then Inl SchemaLimitExceeded
              else sum_bind (count_enum (\<exists>types. map_of obj ''type'' = Some (JArray types)) []
                       (sc_bytes c) values)
                     (\<lambda>bytes. Inr (c\<lparr>sc_enums := enums, sc_bytes := bytes\<rparr>))))"

definition count_description ::
    "(string \<times> json) list \<Rightarrow> schema_counts \<Rightarrow> output_schema_error + schema_counts" where
  "count_description obj c =
     (case map_of obj ''description'' of
        None \<Rightarrow> Inr c
      | Some v \<Rightarrow> sum_bind (required_some (json_as_str v))
                    (\<lambda>t. Inr (c\<lparr>sc_bytes := sc_bytes c + length t\<rparr>)))"

definition object_properties ::
    "(string \<times> json) list \<Rightarrow> output_schema_error + (string \<times> json) list" where
  "object_properties obj =
     sum_bind (required_some (Option.bind (map_of obj ''properties'') as_object)) (\<lambda>props.
     sum_bind (required_some (Option.bind (map_of obj ''required'') as_array)) (\<lambda>req.
       if map_of obj ''additionalProperties'' \<noteq> Some (JBool False) \<or> length req \<noteq> length props
       then Inl UnsupportedProfile
       else sum_bind (check_required props [] req) (\<lambda>_. Inr props)))"

lemma size_map_of: "map_of m k = Some v \<Longrightarrow> size v < size (JObject m)"
  by (induction m) (auto split: if_splits)

lemma object_properties_size: "object_properties obj = Inr props \<Longrightarrow> size (JObject props) < size (JObject obj)"
proof -
  assume "object_properties obj = Inr props"
  then obtain v where "map_of obj ''properties'' = Some v" "as_object v = Some props"
    by (auto simp: object_properties_def required_some_def split: option.splits bind_splits if_splits)
  then show ?thesis using size_map_of [of obj "''properties''" v] by (cases v) auto
qed

function visit :: "json \<Rightarrow> nat \<Rightarrow> schema_counts \<Rightarrow> output_schema_error + schema_counts"
  and visit_properties ::
    "(string \<times> json) list \<Rightarrow> nat \<Rightarrow> schema_counts \<Rightarrow> output_schema_error + schema_counts"
where
  "visit schema depth c0 =
     (if depth > 8 then Inl SchemaLimitExceeded
      else case schema of
        JObject obj \<Rightarrow>
          sum_bind (schema_kind obj) (\<lambda>kind.
            if \<exists>key \<in> fst ` set obj. \<not> key_allowed kind key then Inl UnsupportedProfile
            else sum_bind (count_description obj c0) (\<lambda>c.
              sum_bind
                (if kind = ''object'' then
                   sum_bind (object_properties obj) (\<lambda>props.
                     let n = sc_properties c + length props in
                     if n > 256 then Inl SchemaLimitExceeded
                     else visit_properties props (Suc depth) (c\<lparr>sc_properties := n\<rparr>))
                 else if kind = ''array'' then
                   (case map_of obj ''items'' of
                      None \<Rightarrow> Inl UnsupportedProfile
                    | Some items \<Rightarrow> visit items (Suc depth) c)
                 else if kind = ''string'' then visit_string obj c
                 else if kind \<in> {''number'', ''integer'', ''boolean''} then Inr c
                 else Inl UnsupportedProfile)
                (\<lambda>c'. if sc_bytes c' > 16384 then Inl SchemaLimitExceeded else Inr c')))
      | _ \<Rightarrow> Inl UnsupportedProfile)"
| "visit_properties [] depth c = Inr c"
| "visit_properties (p # props) depth c =
     (let bytes = sc_bytes c + length (fst p) in
      if bytes > 16384 then Inl SchemaLimitExceeded
      else sum_bind (visit (snd p) depth (c\<lparr>sc_bytes := bytes\<rparr>)) (visit_properties props depth))"
  by pat_completeness auto
termination
proof (relation "measure (case_sum (\<lambda>(s, d, c). size s) (\<lambda>(ps, d, c). size (JObject ps)))",
    goal_cases)
  case (2 schema depth c0 obj kind c props n)
  then show ?case using object_properties_size [of obj props] by simp
next
  case (3 schema depth c0 obj kind c items)
  then show ?case using size_map_of [of obj "''items''" items] by simp
next
  case (4 p props depth c bytes)
  then show ?case by (cases p) simp
qed (auto simp: prod.size_neq)

declare visit.simps [simp del]

definition name_byte :: "char \<Rightarrow> bool" where
  "name_byte b \<longleftrightarrow>
     (let n = of_char b :: nat in
      48 \<le> n \<and> n \<le> 57 \<or> 65 \<le> n \<and> n \<le> 90 \<or> 97 \<le> n \<and> n \<le> 122 \<or> n = 95 \<or> n = 45)"

definition admit :: "(json \<Rightarrow> string option) \<Rightarrow> string \<Rightarrow> json \<Rightarrow> output_schema_error + unit" where
  "admit to_vec name schema =
     (if name = [] \<or> 64 < length name \<or> \<not> list_all name_byte name then Inl InvalidName
      else
        sum_bind (visit schema 1 \<lparr>sc_properties = 0, sc_enums = 0, sc_bytes = 0\<rparr>) (\<lambda>_.
          if Option.bind (json_get schema ''type'') json_as_str \<noteq> Some ''object'' then Inl UnsupportedProfile
          else case to_vec schema of
                 None \<Rightarrow> Inl UnsupportedProfile
               | Some bytes \<Rightarrow> if 65536 < length bytes then Inl SchemaLimitExceeded else Inr ()))"

fun canonical :: "json \<Rightarrow> json" where
  "canonical (JObject m) = JObject (sort_key fst (map (\<lambda>kv. (fst kv, canonical (snd kv))) m))"
| "canonical (JArray vs) = JArray (map canonical vs)"
| "canonical v = v"

definition output_contract_new ::
    "(json \<Rightarrow> string option) \<Rightarrow> (string \<Rightarrow> string) \<Rightarrow> (json \<Rightarrow> string option)
      \<Rightarrow> string \<Rightarrow> json \<Rightarrow> (output_schema_error, output_contract) result" where
  "output_contract_new to_vec sha256 compile_schema name schema =
     (case admit to_vec name schema of
        Inl e \<Rightarrow> Err e
      | Inr _ \<Rightarrow>
          (case compile_schema schema of
             Some e \<Rightarrow> Err (SchemaCompilation e)
           | None \<Rightarrow>
               (case to_vec (canonical (JArray [JString ''group-json-output/1'', JString name, schema])) of
                  None \<Rightarrow> Panic
                | Some encoded \<Rightarrow>
                    Ok \<lparr>oc_name = name, oc_schema = schema, oc_id = sha256 encoded\<rparr>)))"

definition contract_eq :: "output_contract \<Rightarrow> output_contract \<Rightarrow> bool" where
  "contract_eq a b \<longleftrightarrow> oc_name a = oc_name b \<and> oc_schema a = oc_schema b"

section \<open>The strict reader\<close>

text \<open>
  What the deserializer of a JSON text hands to the visitor. The nesting of the visitor starts at
  one and may not pass 64, and an object may not repeat a key.
\<close>

datatype raw_json =
    RawBool bool
  | RawI64 "64 word"
  | RawU64 "64 word"
  | RawF64 f64
  | RawStr string
  | RawUnit
  | RawSeq "raw_json list"
  | RawMap "(string \<times> raw_json) list"

function read_value :: "nat \<Rightarrow> raw_json \<Rightarrow> json_error + json"
  and read_seq :: "nat \<Rightarrow> raw_json list \<Rightarrow> json_error + json list"
  and read_map ::
    "nat \<Rightarrow> (string \<times> json) list \<Rightarrow> (string \<times> raw_json) list \<Rightarrow> json_error + (string \<times> json) list"
where
  "read_value depth raw =
     (if depth > 64 then Inl ''JSON nesting limit exceeded''
      else case raw of
        RawBool b \<Rightarrow> Inr (JBool b)
      | RawI64 v \<Rightarrow> Inr (JNumber (if v <s 0 then NegInt v else PosInt v))
      | RawU64 v \<Rightarrow> Inr (JNumber (PosInt v))
      | RawF64 v \<Rightarrow> (case v of Finite q \<Rightarrow> Inr (JNumber (Float q)) | _ \<Rightarrow> Inl ''invalid number'')
      | RawStr s \<Rightarrow> Inr (JString s)
      | RawUnit \<Rightarrow> Inr JNull
      | RawSeq rs \<Rightarrow> sum_bind (read_seq depth rs) (\<lambda>vs. Inr (JArray vs))
      | RawMap kvs \<Rightarrow> sum_bind (read_map depth [] kvs) (\<lambda>m. Inr (JObject m)))"
| "read_seq depth [] = Inr []"
| "read_seq depth (r # rs) =
     sum_bind (read_value (Suc depth) r) (\<lambda>v.
     sum_bind (read_seq depth rs) (\<lambda>vs. Inr (v # vs)))"
| "read_map depth m [] = Inr m"
| "read_map depth m (kr # krs) =
     (if map_of m (fst kr) \<noteq> None then Inl ''duplicate object key''
      else sum_bind (read_value (Suc depth) (snd kr)) (\<lambda>v.
        read_map depth (bt_insert (fst kr) v m) krs))"
  by pat_completeness auto
termination
proof (relation "measure (case_sum (\<lambda>(d, r). size r) (case_sum (\<lambda>(d, rs). size (RawSeq rs) - 1)
    (\<lambda>(d, m, krs). size (RawMap krs) - 1)))", goal_cases)
  case (6 depth m kr krs)
  then show ?case by (cases kr) simp
next
  case (7 depth m kr krs)
  then show ?case by (cases kr) simp
qed auto

declare read_value.simps [simp del]

definition read_strict :: "(string \<Rightarrow> json_error + raw_json) \<Rightarrow> string \<Rightarrow> json_error + json" where
  "read_strict lexer text = sum_bind (lexer text) (read_value 1)"

section \<open>Validation of a response\<close>

definition max_text :: nat where
  "max_text = 1024 * 1024"

definition into_model_error :: "structured_output_error \<Rightarrow> model_error" where
  "into_model_error e =
     model_error_with_source OutputValidation ''structured output validation failed'' (SourceOutput e)"

fun count_text :: "nat \<Rightarrow> content_part list \<Rightarrow> structured_output_error + nat" where
  "count_text bytes [] = Inr bytes"
| "count_text bytes (p # ps) =
     (case as_text p of
        None \<Rightarrow> Inl Incomplete
      | Some t \<Rightarrow>
          (case at_most max_text (usize_checked_add bytes (length t)) of
             None \<Rightarrow> Inl OutputLimitExceeded
           | Some n \<Rightarrow> count_text n ps))"

definition validate_response ::
    "(string \<Rightarrow> json_error + raw_json) \<Rightarrow> (json \<Rightarrow> json \<Rightarrow> string option) \<Rightarrow> output_contract
      \<Rightarrow> chat_response \<Rightarrow> structured_output_error + json option" where
  "validate_response lexer validates output r =
     sum_bind (count_text 0 (am_content (rs_message r))) (\<lambda>_.
       let calls = am_tool_calls (rs_message r) in
       if calls \<noteq> [] then
         (if rs_finish_reason r \<noteq> ToolCalls then Inl InvalidToolRound
          else if \<not> distinct (map tc_id calls) then Inl InvalidToolRound
          else Inr None)
       else if rs_finish_reason r \<noteq> Stop then Inl Incomplete
       else
         sum_bind (map_err InvalidJson (read_strict lexer (text_content (am_content (rs_message r))))) (\<lambda>v.
           case validates (oc_schema output) v of
             Some e \<Rightarrow> Inl (SchemaMismatch e)
           | None \<Rightarrow> Inr (Some v)))"

section \<open>Validation of a stream\<close>

text \<open>
  The state of the validated stream; \<open>None\<close> after its last item. \<open>next_validated\<close> is one poll:
  an accepted \<open>Finished\<close> is held back and the underlying stream polled again.
\<close>

record validated_state =
  vs_raw :: chat_event_stream
  vs_collector :: collector
  vs_terminal :: "finish_reason option"
  vs_bytes :: nat

definition text_limit :: "chat_stream_event \<Rightarrow> validated_state \<Rightarrow> nat option" where
  "text_limit ev st =
     (case (vs_terminal st, ev) of
        (None, TextDelta t) \<Rightarrow> at_most max_text (usize_checked_add (vs_bytes st) (length t))
      | _ \<Rightarrow> Some (vs_bytes st))"

definition finish_validated ::
    "(string \<Rightarrow> json_error + json) \<Rightarrow> (string \<Rightarrow> json_error + raw_json)
      \<Rightarrow> (json \<Rightarrow> json \<Rightarrow> string option) \<Rightarrow> output_contract \<Rightarrow> validated_state
      \<Rightarrow> (model_error, chat_stream_event) result" where
  "finish_validated parse lexer validates output st =
     (case collector_finish parse (vs_collector st) of
        Inl e \<Rightarrow> Err e
      | Inr r \<Rightarrow>
          (case validate_response lexer validates output r of
             Inl e \<Rightarrow> Err (into_model_error e)
           | Inr _ \<Rightarrow> (case vs_terminal st of None \<Rightarrow> Panic | Some reason \<Rightarrow> Ok (Finished reason))))"

lemma pushed_finished:
  "(Inr u, c') = collector_push parse (Finished r) c \<Longrightarrow>
     cs_state c = CollectorActive \<and> cs_state c' = CollectorFinished \<and> cs_finish_reason c' = Some r"
  by (drule sym) (auto simp: push_Inr split: sum.splits)

function next_validated ::
    "(string \<Rightarrow> json_error + json) \<Rightarrow> (string \<Rightarrow> json_error + raw_json)
      \<Rightarrow> (json \<Rightarrow> json \<Rightarrow> string option) \<Rightarrow> output_contract \<Rightarrow> validated_state
      \<Rightarrow> (model_error, chat_stream_event) result \<times> validated_state option" where
  "next_validated parse lexer validates output st =
     (case vs_raw st of
        StreamItem (Inl e) _ \<Rightarrow> (Err e, None)
      | StreamItem (Inr ev) raw \<Rightarrow>
          (case text_limit ev st of
             None \<Rightarrow> (Err (into_model_error OutputLimitExceeded), None)
           | Some bytes \<Rightarrow>
               (case collector_push parse ev (vs_collector st) of
                  (Inl e, _) \<Rightarrow> (Err e, None)
                | (Inr _, c) \<Rightarrow>
                    (case ev of
                       Finished reason \<Rightarrow>
                         next_validated parse lexer validates output
                           (st\<lparr>vs_raw := raw, vs_collector := c, vs_terminal := Some reason, vs_bytes := bytes\<rparr>)
                     | _ \<Rightarrow> (Ok ev, Some (st\<lparr>vs_raw := raw, vs_collector := c, vs_bytes := bytes\<rparr>)))))
      | StreamEnd \<Rightarrow> (finish_validated parse lexer validates output st, None))"
  by pat_completeness auto
termination
  by (relation "measure (\<lambda>(_, _, _, _, st). if cs_state (vs_collector st) = CollectorActive then 1 else 0)")
    (auto dest: pushed_finished)

declare next_validated.simps [simp del]

text \<open>The stream itself: a panic of a poll is no item of it, so it is kept in the result.\<close>

primcorec validated_items ::
    "(string \<Rightarrow> json_error + json) \<Rightarrow> (string \<Rightarrow> json_error + raw_json)
      \<Rightarrow> (json \<Rightarrow> json \<Rightarrow> string option) \<Rightarrow> output_contract \<Rightarrow> validated_state option
      \<Rightarrow> (model_error, chat_stream_event) result item_stream" where
  "validated_items parse lexer validates output x =
     (case x of
        None \<Rightarrow> StreamEnd
      | Some st \<Rightarrow>
          StreamItem (fst (next_validated parse lexer validates output st))
            (validated_items parse lexer validates output
               (snd (next_validated parse lexer validates output st))))"

definition validate_stream ::
    "(string \<Rightarrow> json_error + json) \<Rightarrow> (string \<Rightarrow> json_error + raw_json)
      \<Rightarrow> (json \<Rightarrow> json \<Rightarrow> string option) \<Rightarrow> output_contract \<Rightarrow> chat_event_stream
      \<Rightarrow> (model_error, chat_stream_event) result item_stream" where
  "validate_stream parse lexer validates output raw =
     validated_items parse lexer validates output
       (Some \<lparr>vs_raw = raw, vs_collector = with_max_text_bytes max_text collector_new,
              vs_terminal = None, vs_bytes = 0\<rparr>)"

section \<open>A validated stream ends well or with an error\<close>

text \<open>The items of a finite stream.\<close>

inductive delivers :: "'a item_stream \<Rightarrow> 'a list \<Rightarrow> bool" where
  deliver_end: "delivers StreamEnd []"
| deliver_item: "delivers s xs \<Longrightarrow> delivers (StreamItem x s) (x # xs)"

inductive_simps delivers_simps [simp]: "delivers StreamEnd xs" "delivers (StreamItem x s) xs"

lemma delivers_stream_of [simp]: "delivers (stream_of xs) ys \<longleftrightarrow> ys = xs"
  by (induction xs arbitrary: ys) auto

lemma validated_items_None [simp]: "validated_items p l v out None = StreamEnd"
  by (simp add: validated_items.code)

lemma validated_items_Some:
  "validated_items p l v out (Some st) = StreamItem (fst (next_validated p l v out st))
     (validated_items p l v out (snd (next_validated p l v out st)))"
  by (subst validated_items.code) simp

text \<open>
  What the validated stream delivers for a raw stream of events: the events before \<open>Finished\<close>
  that the collector accepts, then \<open>Finished\<close> if the collected response is valid, or an error.
\<close>

definition vstate :: "chat_stream_event list \<Rightarrow> collector \<Rightarrow> finish_reason option \<Rightarrow> nat \<Rightarrow> validated_state" where
  "vstate evs c t n = \<lparr>vs_raw = stream_of (map Inr evs), vs_collector = c, vs_terminal = t, vs_bytes = n\<rparr>"

lemma push_text_length:
  "collector_push parse ev c = (Inr u, c') \<Longrightarrow> length (cs_text c') = length (cs_text c) + length (event_text ev)"
  by (cases ev) (auto simp: push_Inr push_tool_delta_def Let_def split: if_splits option.splits sum.splits)

definition accepted ::
    "(string \<Rightarrow> json_error + json) \<Rightarrow> (string \<Rightarrow> json_error + raw_json)
      \<Rightarrow> (json \<Rightarrow> json \<Rightarrow> string option) \<Rightarrow> output_contract \<Rightarrow> collector
      \<Rightarrow> chat_stream_event list \<Rightarrow> finish_reason \<Rightarrow> bool" where
  "accepted p l v out c evs r \<longleftrightarrow>
     (\<exists>c' resp w. push_all p c evs = Inr c' \<and> collector_finish p c' = Inr resp
       \<and> validate_response l v out resp = Inr w \<and> rs_finish_reason resp = r)"

lemma finish_reason_kept: "collector_finish p c = Inr resp \<Longrightarrow> cs_finish_reason c = Some (rs_finish_reason resp)"
  by (auto simp: collector_finish_def chat_response_new_def Let_def split: collector_state.splits option.splits)

definition validated_outcome ::
    "(string \<Rightarrow> json_error + json) \<Rightarrow> (string \<Rightarrow> json_error + raw_json)
      \<Rightarrow> (json \<Rightarrow> json \<Rightarrow> string option) \<Rightarrow> output_contract \<Rightarrow> collector
      \<Rightarrow> chat_stream_event list \<Rightarrow> chat_stream_event list
      \<Rightarrow> (model_error, chat_stream_event) result \<Rightarrow> bool" where
  "validated_outcome p l v out c evs zs final \<longleftrightarrow>
     (\<forall>z \<in> set zs. \<forall>r. z \<noteq> Finished r) \<and> final \<noteq> Panic
     \<and> (\<forall>ev. final = Ok ev \<longrightarrow> (\<exists>r. ev = Finished r \<and> evs = zs @ [Finished r] \<and> accepted p l v out c evs r))
     \<and> (\<forall>r. accepted p l v out c evs r \<longrightarrow> final = Ok (Finished r))"

lemma validated_outcome_Err:
  "(\<And>r. \<not> accepted p l v out c evs r) \<Longrightarrow> validated_outcome p l v out c evs [] (Err e)"
  by (simp add: validated_outcome_def)

text \<open>The polls that end the stream: a failed push, and the one that sees \<open>Finished\<close>.\<close>

abbreviation outcome_of where
  "outcome_of p l v out c evs n \<equiv>
     \<exists>zs final. delivers (validated_items p l v out (Some (vstate evs c None n))) (map Ok zs @ [final])
       \<and> validated_outcome p l v out c evs zs final"

lemma validated_failed:
  "next_validated p l v out (vstate evs c None n) = (Err e, None) \<Longrightarrow>
     (\<And>r. \<not> accepted p l v out c evs r) \<Longrightarrow> outcome_of p l v out c evs n"
  using validated_outcome_Err [of p l v out c evs e]
  by (intro exI [of _ "[]"] exI [of _ "Err e"]) (simp add: validated_items_Some)

lemma validated_finished:
  assumes push: "collector_push p (Finished r) c = (Inr u, c')"
    and m: "text_limit (Finished r) (vstate (Finished r # evs) c None n) = Some m"
  shows "outcome_of p l v out c (Finished r # evs) n"
proof -
  have fin: "cs_state c' = CollectorFinished" "cs_finish_reason c' = Some r"
    using pushed_finished [of u c' p r c] push by simp_all
  have poll: "next_validated p l v out (vstate (Finished r # evs) c None n) =
      next_validated p l v out (vstate evs c' (Some r) m)"
    using m push by (subst next_validated.simps) (simp add: vstate_def)
  show ?thesis
  proof (cases evs)
    case Nil
    let ?last = "finish_validated p l v out (vstate [] c' (Some r) m)"
    have "next_validated p l v out (vstate (Finished r # evs) c None n) = (?last, None)"
      unfolding poll using Nil by (subst next_validated.simps) (simp add: vstate_def)
    then have "delivers (validated_items p l v out (Some (vstate (Finished r # evs) c None n)))
        (map Ok [] @ [?last])"
      by (simp add: validated_items_Some)
    moreover have "validated_outcome p l v out c (Finished r # evs) [] ?last"
      using push Nil fin(2) finish_reason_kept [of p c']
      by (auto simp: validated_outcome_def accepted_def finish_validated_def vstate_def
          split: sum.splits)
    ultimately show ?thesis by blast
  next
    case (Cons ev' evs')
    obtain e where e: "collector_push p ev' c' = (Inl e, c')"
      using push_stopped [of c' p ev'] fin by auto
    have "next_validated p l v out (vstate (Finished r # evs) c None n) = (Err e, None)"
      unfolding poll using Cons e by (subst next_validated.simps)
        (simp add: vstate_def text_limit_def split: chat_stream_event.split)
    then show ?thesis using push Cons e by (intro validated_failed) (auto simp: accepted_def)
  qed
qed

lemma push_keeps_active:
  "collector_push p ev c = (Inr u, c') \<Longrightarrow> \<forall>r. ev \<noteq> Finished r \<Longrightarrow> cs_state c' = CollectorActive"
  by (cases ev) (auto simp: push_Inr push_tool_delta_def Let_def split: if_splits option.splits sum.splits)

lemma text_limit_pushed:
  assumes "collector_push p ev c = (Inr u, c')" and "n = length (cs_text c)"
    and "cs_max_text_bytes c = max_text"
  shows "text_limit ev (vstate evs c None n) = Some (length (cs_text c'))"
  using assms push_text_length [OF assms(1)]
  by (cases ev) (auto simp: text_limit_def vstate_def push_Inr split: option.splits)

lemma validated_run:
  assumes "cs_state c = CollectorActive" and "n = length (cs_text c)" and "cs_max_text_bytes c = max_text"
  shows "outcome_of p l v out c evs n"
  using assms
proof (induction evs arbitrary: c n)
  case Nil
  have "next_validated p l v out (vstate [] c None n) = (Err (protocol_error MissingFinished), None)"
    using Nil by (simp add: vstate_def next_validated.simps finish_validated_def collector_finish_def)
  then show ?case using Nil by (intro validated_failed) (simp_all add: accepted_def collector_finish_def)
next
  case (Cons ev evs)
  let ?st = "vstate (ev # evs) c None n"
  obtain x c' where pair: "collector_push p ev c = (x, c')" by (cases "collector_push p ev c")
  show ?case
  proof (cases x)
    case (Inl e)
    then have "\<exists>e. next_validated p l v out ?st = (Err e, None)"
      using pair by (subst next_validated.simps) (simp add: vstate_def split: option.split)
    then obtain e' where "next_validated p l v out ?st = (Err e', None)" ..
    then show ?thesis using pair Inl by (intro validated_failed) (auto simp: accepted_def)
  next
    case (Inr u)
    then have push: "collector_push p ev c = (Inr u, c')" using pair by simp
    note m = text_limit_pushed [OF push Cons.prems(2,3), of "ev # evs"]
    show ?thesis
    proof (cases "\<exists>r. ev = Finished r")
      case True
      then show ?thesis using validated_finished push m by blast
    next
      case False
      have "next_validated p l v out ?st = (Ok ev, Some (vstate evs c' None (length (cs_text c'))))"
        using m push False by (subst next_validated.simps) (simp add: vstate_def split: chat_stream_event.split)
      moreover obtain zs final where
          "delivers (validated_items p l v out (Some (vstate evs c' None (length (cs_text c'))))) (map Ok zs @ [final])"
          "validated_outcome p l v out c' evs zs final"
        using Cons.IH [OF push_keeps_active [OF push] refl] push_keeps_limits [OF push] False Cons.prems(3)
        by (auto simp: same_limits_def)
      moreover have "accepted p l v out c (ev # evs) r \<longleftrightarrow> accepted p l v out c' evs r" for r
        using push by (simp add: accepted_def)
      ultimately show ?thesis
        using False by (intro exI [of _ "ev # zs"] exI [of _ final])
          (auto simp: validated_items_Some validated_outcome_def)
    qed
  qed
qed

end
