(* ===== verification/ChatModels.thy ===== *)
theory ChatModels
  imports Structured
begin

text \<open>
  Validation of requests (\<open>request.rs\<close>) and the chat model (\<open>model.rs\<close>): an adapter is only called
  with a validated request that the model's capabilities cover, and its answer to a request for
  structured output is validated. An adapter is a record of functions on the world.
\<close>

section \<open>Requests\<close>

fun is_finite :: "f64 \<Rightarrow> bool" where
  "is_finite (Finite q) = True"
| "is_finite _ = False"

fun f64_between :: "rat \<Rightarrow> rat option \<Rightarrow> f64 \<Rightarrow> bool" where
  "f64_between l u (Finite q) = (l \<le> q \<and> (\<forall>b \<in> set_option u. q \<le> b))"
| "f64_between l u _ = False"

fun empty_index :: "nat \<Rightarrow> string list \<Rightarrow> nat option" where
  "empty_index i [] = None"
| "empty_index i (s # ss) = (if s = [] then Some i else empty_index (Suc i) ss)"

definition generation_validate :: "generation_config \<Rightarrow> request_validation_error + unit" where
  "generation_validate g =
     sum_bind (case gc_temperature g of
         Some v \<Rightarrow> check_that (is_finite v \<and> f64_between 0 None v) (InvalidTemperature v)
       | None \<Rightarrow> Inr ()) (\<lambda>_.
     sum_bind (case gc_top_p g of
         Some v \<Rightarrow> check_that (is_finite v \<and> f64_between 0 (Some 1) v) (InvalidTopP v)
       | None \<Rightarrow> Inr ()) (\<lambda>_.
     sum_bind (check_that (gc_max_output_tokens g \<noteq> Some 0) ZeroMaxOutputTokens) (\<lambda>_.
       case empty_index 0 (gc_stop_sequences g) of
         Some i \<Rightarrow> Inl (EmptyStopSequence i)
       | None \<Rightarrow> Inr ())))"

fun check_tool_names ::
    "tool_name list \<Rightarrow> tool_definition list \<Rightarrow> request_validation_error + tool_name list" where
  "check_tool_names seen [] = Inr seen"
| "check_tool_names seen (t # ts) =
     (if td_name t \<in> set seen then Inl (DuplicateToolDefinition (td_name t))
      else check_tool_names (td_name t # seen) ts)"

fun check_calls ::
    "tool_call_id list \<Rightarrow> tool_call list \<Rightarrow> request_validation_error + tool_call_id list" where
  "check_calls known [] = Inr known"
| "check_calls known (call # calls) =
     (if tc_id call \<in> set known then Inl (DuplicateToolCallId (tc_id call))
      else check_calls (tc_id call # known) calls)"

fun check_messages ::
    "nat \<Rightarrow> tool_call_id list \<Rightarrow> tool_call_id list \<Rightarrow> message list \<Rightarrow> request_validation_error + unit" where
  "check_messages i known completed [] = Inr ()"
| "check_messages i known completed (m # ms) =
     sum_bind (case as_assistant m of None \<Rightarrow> Inr known | Some a \<Rightarrow> check_calls known (am_tool_calls a)) (\<lambda>known.
     sum_bind (case as_tool m of
         None \<Rightarrow> Inr completed
       | Some t \<Rightarrow>
           (if tm_tool_call_id t \<notin> set known then Inl (UnknownToolCallReference (tm_tool_call_id t) i)
            else if tm_tool_call_id t \<in> set completed then Inl (DuplicateToolResult (tm_tool_call_id t))
            else Inr (tm_tool_call_id t # completed))) (\<lambda>completed.
       check_messages (Suc i) known completed ms))"

definition request_validate :: "chat_request \<Rightarrow> request_validation_error + unit" where
  "request_validate r =
     (if cr_messages r = [] then Inl EmptyMessages
      else
        sum_bind (generation_validate (cr_generation r)) (\<lambda>_.
        sum_bind (check_tool_names [] (cr_tools r)) (\<lambda>tool_names.
        sum_bind (case cr_tool_choice r of
            Named n \<Rightarrow> check_that (n \<in> set tool_names) (UnknownNamedTool n)
          | _ \<Rightarrow> Inr ()) (\<lambda>_.
        sum_bind (check_that (\<not> (cr_tool_choice r = Required \<and> cr_tools r = []))
            RequiredToolChoiceWithoutTools) (\<lambda>_.
          check_messages 0 [] [] (cr_messages r))))))"

section \<open>The chat model\<close>

record 'w chat_adapter =
  ad_metadata :: model_metadata
  ad_complete_raw :: "chat_request \<Rightarrow> 'w \<Rightarrow> (model_error + chat_response) \<times> 'w"
  ad_stream_raw :: "chat_request \<Rightarrow> 'w \<Rightarrow> (model_error + chat_event_stream) \<times> 'w"

text \<open>The default \<open>stream_raw\<close> of an adapter that does not stream.\<close>

definition stream_raw_default ::
    "model_metadata \<Rightarrow> chat_request \<Rightarrow> 'w \<Rightarrow> (model_error + chat_event_stream) \<times> 'w" where
  "stream_raw_default m r w = (Inl (unsupported Streaming m), w)"

record 'w chat_model =
  cm_adapter :: "'w chat_adapter"
  cm_metadata :: model_metadata

definition chat_model_new :: "'w chat_adapter \<Rightarrow> metadata_validation_error + 'w chat_model" where
  "chat_model_new a =
     sum_bind (metadata_validate (ad_metadata a)) (\<lambda>_.
       Inr \<lparr>cm_adapter = a, cm_metadata = ad_metadata a\<rparr>)"

definition require_capability :: "'w chat_model \<Rightarrow> model_capability \<Rightarrow> model_error + unit" where
  "require_capability m c =
     (if supports (md_capabilities (cm_metadata m)) c then Inr () else Inl (unsupported c (cm_metadata m)))"

definition has_tool_history :: "chat_request \<Rightarrow> bool" where
  "has_tool_history r \<longleftrightarrow>
     list_ex (\<lambda>m. (case as_assistant m of None \<Rightarrow> False | Some a \<Rightarrow> am_tool_calls a \<noteq> [])
                  \<or> as_tool m \<noteq> None) (cr_messages r)"

definition wants_parallel :: "chat_request \<Rightarrow> bool" where
  "wants_parallel r \<longleftrightarrow> gc_parallel_tool_calls (cr_generation r) = Some True"

definition uses_tools :: "chat_request \<Rightarrow> bool" where
  "uses_tools r \<longleftrightarrow>
     cr_tools r \<noteq> [] \<or> cr_tool_choice r \<notin> {Auto, NoTools} \<or> has_tool_history r \<or> wants_parallel r"

definition validate_common :: "'w chat_model \<Rightarrow> chat_request \<Rightarrow> model_error + unit" where
  "validate_common m r =
     sum_bind (map_err invalid_request (request_validate r)) (\<lambda>_.
     sum_bind (if cr_output r \<noteq> None then require_capability m StructuredOutput else Inr ()) (\<lambda>_.
     sum_bind (if uses_tools r then require_capability m ToolCalling else Inr ()) (\<lambda>_.
       if wants_parallel r then require_capability m ParallelToolCalls else Inr ())))"

definition chat_complete ::
    "(string \<Rightarrow> json_error + raw_json) \<Rightarrow> (json \<Rightarrow> json \<Rightarrow> string option) \<Rightarrow> 'w chat_model
      \<Rightarrow> chat_request \<Rightarrow> 'w \<Rightarrow> (model_error + chat_response) \<times> 'w" where
  "chat_complete lexer validates m r w =
     (case validate_common m r of
        Inl e \<Rightarrow> (Inl e, w)
      | Inr _ \<Rightarrow>
          (case ad_complete_raw (cm_adapter m) r w of
             (Inl e, w1) \<Rightarrow> (Inl e, w1)
           | (Inr response, w1) \<Rightarrow>
               (case cr_output r of
                  None \<Rightarrow> (Inr response, w1)
                | Some output \<Rightarrow>
                    (case validate_response lexer validates output response of
                       Inl e \<Rightarrow> (Inl (into_model_error e), w1)
                     | Inr _ \<Rightarrow> (Inr response, w1)))))"

text \<open>Polls of a raw stream cannot panic, so its items are results without a panic.\<close>

primcorec plain_items ::
    "chat_event_stream \<Rightarrow> (model_error, chat_stream_event) result item_stream" where
  "plain_items s =
     (case s of
        StreamEnd \<Rightarrow> StreamEnd
      | StreamItem x rest \<Rightarrow>
          StreamItem (case x of Inl e \<Rightarrow> Err e | Inr ev \<Rightarrow> Ok ev) (plain_items rest))"

definition chat_stream ::
    "(string \<Rightarrow> json_error + json) \<Rightarrow> (string \<Rightarrow> json_error + raw_json)
      \<Rightarrow> (json \<Rightarrow> json \<Rightarrow> string option) \<Rightarrow> 'w chat_model \<Rightarrow> chat_request \<Rightarrow> 'w
      \<Rightarrow> (model_error + (model_error, chat_stream_event) result item_stream) \<times> 'w" where
  "chat_stream parse lexer validates m r w =
     (case sum_bind (validate_common m r) (\<lambda>_. require_capability m Streaming) of
        Inl e \<Rightarrow> (Inl e, w)
      | Inr _ \<Rightarrow>
          (case ad_stream_raw (cm_adapter m) r w of
             (Inl e, w1) \<Rightarrow> (Inl e, w1)
           | (Inr raw, w1) \<Rightarrow>
               (case cr_output r of
                  None \<Rightarrow> (Inr (plain_items raw), w1)
                | Some output \<Rightarrow> (Inr (validate_stream parse lexer validates output raw), w1))))"

section \<open>What validation means\<close>

definition generation_ok :: "generation_config \<Rightarrow> bool" where
  "generation_ok g \<longleftrightarrow>
     (\<forall>v. gc_temperature g = Some v \<longrightarrow> (\<exists>q \<ge> 0. v = Finite q))
     \<and> (\<forall>v. gc_top_p g = Some v \<longrightarrow> (\<exists>q. 0 \<le> q \<and> q \<le> 1 \<and> v = Finite q))
     \<and> gc_max_output_tokens g \<noteq> Some 0 \<and> [] \<notin> set (gc_stop_sequences g)"

lemma empty_index_None: "empty_index i ss = None \<longleftrightarrow> [] \<notin> set ss"
  by (induction ss arbitrary: i) auto

lemma f64_between_iff: "f64_between l u v \<longleftrightarrow> (\<exists>q. v = Finite q \<and> l \<le> q \<and> (\<forall>b \<in> set_option u. q \<le> b))"
  by (cases v) auto

lemma is_finite_iff: "is_finite v \<longleftrightarrow> (\<exists>q. v = Finite q)"
  by (cases v) auto

lemma generation_validate_iff: "generation_validate g = Inr () \<longleftrightarrow> generation_ok g"
  by (auto simp: generation_validate_def generation_ok_def f64_between_iff is_finite_iff empty_index_None
      split: option.splits) (metis empty_index_None option.distinct(1))+

lemma check_tool_names_iff:
  "check_tool_names seen ts = Inr names \<longleftrightarrow>
     distinct (map td_name ts) \<and> set (map td_name ts) \<inter> set seen = {}
     \<and> names = rev (map td_name ts) @ seen"
  by (induction ts arbitrary: seen) auto

definition message_call_ids :: "message \<Rightarrow> tool_call_id list" where
  "message_call_ids m = (case as_assistant m of None \<Rightarrow> [] | Some a \<Rightarrow> map tc_id (am_tool_calls a))"

definition message_results :: "message \<Rightarrow> tool_call_id list" where
  "message_results m = (case as_tool m of None \<Rightarrow> [] | Some t \<Rightarrow> [tm_tool_call_id t])"

text \<open>
  In a conversation every call identifier is new, and every tool result answers an earlier call
  that has no result yet.
\<close>

definition conversation_ok :: "message list \<Rightarrow> bool" where
  "conversation_ok ms \<longleftrightarrow>
     distinct (concat (map message_call_ids ms)) \<and> distinct (concat (map message_results ms))
     \<and> (\<forall>i < length ms. \<forall>c \<in> set (message_results (ms ! i)).
          \<exists>j < i. c \<in> set (message_call_ids (ms ! j)))"

lemma check_calls_iff:
  "check_calls known calls = Inr known' \<longleftrightarrow>
     distinct (map tc_id calls) \<and> set (map tc_id calls) \<inter> set known = {}
     \<and> known' = rev (map tc_id calls) @ known"
  by (induction calls arbitrary: known) auto

text \<open>The check with the calls seen and the results given before the first message.\<close>

definition conversation_from ::
    "tool_call_id set \<Rightarrow> tool_call_id set \<Rightarrow> message list \<Rightarrow> bool" where
  "conversation_from known completed ms \<longleftrightarrow>
     distinct (concat (map message_call_ids ms)) \<and> known \<inter> set (concat (map message_call_ids ms)) = {}
     \<and> distinct (concat (map message_results ms)) \<and> completed \<inter> set (concat (map message_results ms)) = {}
     \<and> (\<forall>i < length ms. \<forall>c \<in> set (message_results (ms ! i)).
          c \<in> known \<or> (\<exists>j < i. c \<in> set (message_call_ids (ms ! j))))"

lemma all_less_Suc: "(\<forall>i < Suc n. P i) \<longleftrightarrow> P 0 \<and> (\<forall>i < n. P (Suc i))"
  using less_Suc_eq_0_disj by auto

lemma ex_less_Suc: "(\<exists>i < Suc n. P i) \<longleftrightarrow> P 0 \<or> (\<exists>i < n. P (Suc i))"
  using less_Suc_eq_0_disj by auto

lemma conversation_from_Cons:
  "conversation_from K C (m # ms) \<longleftrightarrow>
     distinct (message_call_ids m) \<and> K \<inter> set (message_call_ids m) = {}
     \<and> distinct (message_results m) \<and> C \<inter> set (message_results m) = {} \<and> set (message_results m) \<subseteq> K
     \<and> conversation_from (K \<union> set (message_call_ids m)) (C \<union> set (message_results m)) ms"
proof -
  have fresh: "distinct (concat (map f (m # ms))) \<and> X \<inter> set (concat (map f (m # ms))) = {} \<longleftrightarrow>
      distinct (f m) \<and> X \<inter> set (f m) = {}
      \<and> distinct (concat (map f ms)) \<and> (X \<union> set (f m)) \<inter> set (concat (map f ms)) = {}"
    for f :: "message \<Rightarrow> tool_call_id list" and X by auto
  have answered: "(\<forall>i < length (m # ms). \<forall>c \<in> set (message_results ((m # ms) ! i)).
        c \<in> K \<or> (\<exists>j < i. c \<in> set (message_call_ids ((m # ms) ! j)))) \<longleftrightarrow>
      set (message_results m) \<subseteq> K
      \<and> (\<forall>i < length ms. \<forall>c \<in> set (message_results (ms ! i)).
          c \<in> K \<union> set (message_call_ids m) \<or> (\<exists>j < i. c \<in> set (message_call_ids (ms ! j))))"
    by (simp add: all_less_Suc ex_less_Suc subset_eq disj_assoc)
  show ?thesis
    using fresh [of message_call_ids K] fresh [of message_results C] answered
    unfolding conversation_from_def by argo
qed

lemma check_messages_iff:
  "check_messages i known completed ms = Inr () \<longleftrightarrow> conversation_from (set known) (set completed) ms"
proof (induction ms arbitrary: i known completed)
  case Nil
  then show ?case by (simp add: conversation_from_def)
next
  case (Cons m ms)
  show ?case
    unfolding conversation_from_Cons
    by (cases m) (auto simp: Cons.IH message_call_ids_def message_results_def check_calls_iff
        Un_commute insert_def [symmetric])
qed

definition request_ok :: "chat_request \<Rightarrow> bool" where
  "request_ok r \<longleftrightarrow>
     cr_messages r \<noteq> [] \<and> generation_ok (cr_generation r) \<and> distinct (map td_name (cr_tools r))
     \<and> (\<forall>n. cr_tool_choice r = Named n \<longrightarrow> n \<in> td_name ` set (cr_tools r))
     \<and> (cr_tool_choice r = Required \<longrightarrow> cr_tools r \<noteq> []) \<and> conversation_ok (cr_messages r)"

lemma request_validate_iff: "request_validate r = Inr () \<longleftrightarrow> request_ok r"
proof -
  have "check_messages 0 [] [] (cr_messages r) = Inr () \<longleftrightarrow> conversation_ok (cr_messages r)"
    by (simp add: check_messages_iff conversation_from_def conversation_ok_def)
  moreover have "(\<exists>u. generation_validate (cr_generation r) = Inr u) \<longleftrightarrow> generation_ok (cr_generation r)"
    using generation_validate_iff [of "cr_generation r"] by simp
  ultimately show ?thesis
    by (cases "cr_tool_choice r")
      (auto simp: request_validate_def request_ok_def check_tool_names_iff)
qed

definition covered :: "model_capabilities \<Rightarrow> chat_request \<Rightarrow> bool" where
  "covered c r \<longleftrightarrow>
     (cr_output r \<noteq> None \<longrightarrow> structured_output c) \<and> (uses_tools r \<longrightarrow> tool_calling c)
     \<and> (wants_parallel r \<longrightarrow> parallel_tool_calls c)"

lemma validate_common_iff:
  "validate_common m r = Inr () \<longleftrightarrow> request_ok r \<and> covered (md_capabilities (cm_metadata m)) r"
  using request_validate_iff [of r]
  by (auto simp: validate_common_def covered_def require_capability_def split: if_splits)

text \<open>What validation rejects is not worth a retry.\<close>

lemma validate_common_never: "validate_common m r = Inl e \<Longrightarrow> me_retryability e = Never"
  by (auto simp: validate_common_def require_capability_def unsupported_def invalid_request_def
      model_error_with_source_def model_error_new_def with_retryability_def
      split: if_splits elim!: sum_bind_Inl map_err_Inl)

end
