(* ===== verification/ChatGuarantees.thy ===== *)
theory ChatGuarantees
  imports ChatModels
begin

text \<open>
  What \<open>group-agent-model\<close> promises: a stream is collected to the response it spells out, a rejected
  event leaves no trace, the collector's limits hold, requests reach an adapter only when they are
  valid and covered, and structured output is validated before it is released.
\<close>

section \<open>A concrete stream\<close>

definition demo_parse :: "string \<Rightarrow> json_error + json" where
  "demo_parse s = (if s = ''{}'' then Inr (JObject []) else Inl ''eof'')"

definition demo_lexer :: "string \<Rightarrow> json_error + raw_json" where
  "demo_lexer s = (if s = ''{}'' then Inr (RawMap []) else Inl ''eof'')"

definition demo_deltas :: "tool_call_delta list" where
  "demo_deltas =
     [(tool_call_delta_new 3)\<lparr>dl_id := Some (ToolCallId ''c''), dl_arguments_fragment := ''{''\<rparr>,
      (tool_call_delta_new 3)\<lparr>dl_name := Some (ToolName ''f''), dl_arguments_fragment := ''}''\<rparr>]"

definition demo_body :: "chat_stream_event list" where
  "demo_body = [TextDelta ''he'', ToolCallDelta (demo_deltas ! 0), TextDelta ''y'', ToolCallDelta (demo_deltas ! 1)]"

definition demo_response :: chat_response where
  "demo_response = chat_response_new (assistant_message_new [Text ''hey'']
     [tool_call_new (ToolCallId ''c'') (ToolName ''f'') (JObject [])]) ToolCalls"

lemmas collector_simps =
  demo_body_def demo_deltas_def demo_parse_def tool_call_delta_new_def collector_push_def
  push_tool_delta_def check_tool_delta_def apply_tool_delta_def collector_new_def pending_default_def
  extensions_new_def validate_idempotent_merge_def commit_idempotent_merge_def at_most_def
  usize_checked_add_def usize_bound_def validate_finished_def complete_call_def collector_finish_def
  chat_response_new_def assistant_message_new_def tool_call_new_def

lemma demo_stream_collects:
  "collect_chat_stream demo_parse (stream_of (map Inr (demo_body @ [Finished ToolCalls]))) =
     Some (Inr demo_response)"
  unfolding collect_chat_stream_def collect_from_stream_of
  by (simp add: collector_simps demo_response_def)

lemma demo_events_ok: "\<forall>ev \<in> set (demo_body @ [Finished ToolCalls]). event_ok ev"
  by (simp add: demo_body_def demo_deltas_def event_ok_def tool_call_delta_new_def)

section \<open>Collecting a stream\<close>

text \<open>The tool call that the fragments of one index spell out.\<close>

definition assembled ::
    "(string \<Rightarrow> json_error + json) \<Rightarrow> tool_call_delta list \<Rightarrow> tool_call \<Rightarrow> bool" where
  "assembled parse ds call \<longleftrightarrow>
     given dl_id ds = [tc_id call] \<and> given dl_name ds = [tc_name call]
     \<and> parse (concat (map dl_arguments_fragment ds)) = Inr (tc_arguments call)
     \<and> (\<forall>d \<in> set ds. map_of (dl_extensions d) \<subseteq>\<^sub>m map_of (tc_extensions call))"

lemma complete_calls_assembled:
  assumes "complete_calls parse calls = Inr ts" and "\<forall>(i, p) \<in> set calls. pending_of (f i) p"
  shows "list_all2 (\<lambda>i t. assembled parse (f i) t) (map fst calls) ts"
  using assms
proof (induction calls arbitrary: ts)
  case (Cons x calls)
  obtain i p where x: "x = (i, p)" by (cases x)
  obtain t ts' where t: "complete_call parse x = Inr t" "complete_calls parse calls = Inr ts'" "ts = t # ts'"
    using Cons.prems(1) by auto
  have "assembled parse (f i) t"
    using t(1) Cons.prems(2) x
    by (auto simp: complete_call_def assembled_def pending_of_def tool_call_new_def split: option.splits sum.splits)
  then show ?case using Cons.IH [OF t(2)] Cons.prems(2) t(3) x by simp
qed simp

lemma collected_indices:
  assumes "collected evs c" and "bt_wf (cs_tool_calls c)"
  shows "set (map fst (cs_tool_calls c)) = {i. deltas evs i \<noteq> []}"
proof -
  have "i \<in> set (map fst (cs_tool_calls c)) \<longleftrightarrow> deltas evs i \<noteq> []" for i
    using assms(1) map_of_eq_None_iff [of "cs_tool_calls c" i]
    by (auto simp: collected_def tracked_def split: option.splits dest!: spec [of _ i])
  then show ?thesis by auto
qed

text \<open>C28: A stream that is collected to a response consists of events without \<open>Finished\<close> and one
  final \<open>Finished\<close> with the response's reason. The text of the response is the concatenation of the
  text deltas, and its tool calls are, in the order of their indices, those that the fragments of
  each index spell out: exactly one identifier, exactly one name, the parsed concatenation of the
  argument fragments, and every extension.\<close>

theorem stream_collects_response:
  assumes "collect_chat_stream parse (stream_of (map Inr evs)) = Some (Inr resp)"
    and "\<forall>ev \<in> set evs. event_ok ev"
  shows "\<exists>body indices. evs = body @ [Finished (rs_finish_reason resp)]
    \<and> (\<forall>ev \<in> set body. \<forall>r. ev \<noteq> Finished r)
    \<and> am_content (rs_message resp) = (if stream_text body = [] then [] else [Text (stream_text body)])
    \<and> sorted_wrt (<) indices \<and> set indices = {i. deltas body i \<noteq> []}
    \<and> list_all2 (\<lambda>i call. assembled parse (deltas body i) call) indices (am_tool_calls (rs_message resp))"
proof -
  obtain c where c: "push_all parse collector_new evs = Inr c" and fin: "collector_finish parse c = Inr resp"
    using assms(1) by (auto simp: collect_chat_stream_def collect_from_stream_of)
  have "cs_state c = CollectorFinished"
    using fin by (cases "cs_state c") (auto simp: collector_finish_def)
  then obtain body r c0 where body: "evs = body @ [Finished r]" "\<forall>ev \<in> set body. \<forall>x. ev \<noteq> Finished x"
      "push_all parse collector_new body = Inr c0" "collector_push parse (Finished r) c0 = (Inr (), c)"
    using push_all_finished [OF c] by (auto simp: collector_new_def)
  have ev: "\<forall>ev \<in> set body. event_ok ev" using assms(2) body(1) by simp
  have col: "collected body c0" by (rule push_all_collected [OF body(3) ev body(2)])
  have wf: "bt_wf (cs_tool_calls c0)"
    using push_all_ok [OF collector_ok_new ev body(3)] by (simp add: collector_ok_def)
  have cc: "cs_text c = cs_text c0" "cs_tool_calls c = cs_tool_calls c0" "cs_finish_reason c = Some r"
    using body(4) by (auto simp: push_Inr split: sum.splits)
  have reason: "rs_finish_reason resp = r"
    using finish_reason_kept [OF fin] cc(3) by simp
  obtain calls where calls: "complete_calls parse (cs_tool_calls c0) = Inr calls"
      "am_content (rs_message resp) = (if cs_text c0 = [] then [] else [Text (cs_text c0)])"
      "am_tool_calls (rs_message resp) = calls"
    using fin cc by (auto simp: collector_finish_def chat_response_new_def assistant_message_new_def Let_def
        split: collector_state.splits)
  have "\<forall>(i, p) \<in> set (cs_tool_calls c0). pending_of (deltas body i) p"
    using col bt_wf_distinct [OF wf] by (auto simp: collected_def tracked_def dest!: map_of_is_SomeI)
      (metis option.simps(5))
  from complete_calls_assembled [OF calls(1) this] show ?thesis
    using body(1,2) reason calls(2,3) col collected_indices [OF col wf] wf
    by (intro exI [of _ body] exI [of _ "map fst (cs_tool_calls c0)"]) (simp add: collected_def bt_wf_def)
qed

theorem stream_collects_response_witness:
  "\<exists>body indices. demo_body @ [Finished ToolCalls] = body @ [Finished ToolCalls]
    \<and> set indices = {i. deltas body i \<noteq> []}
    \<and> list_all2 (\<lambda>i call. assembled demo_parse (deltas body i) call) indices (am_tool_calls (rs_message demo_response))"
  using stream_collects_response [OF demo_stream_collects demo_events_ok]
  by (auto simp: demo_response_def chat_response_new_def)

text \<open>C29: An event that the collector rejects changes none of its data. The first rejection is final:
  every later event and \<open>finish\<close> fail too.\<close>

theorem rejected_event_commits_nothing:
  assumes "collector_push parse ev c = (Inl e, c')"
  shows "c' = c\<lparr>cs_state := cs_state c'\<rparr>
    \<and> (cs_state c = CollectorActive \<longrightarrow>
        (\<forall>ev'. collector_push parse ev' c' = (Inl (protocol_error CollectorAlreadyFailed), c'))
        \<and> collector_finish parse c' = Inl (protocol_error CollectorAlreadyFailed))"
  using push_Inl [OF assms] by (auto simp: collector_push_def collector_finish_def)

theorem rejected_event_commits_nothing_witness:
  "collector_push demo_parse (Finished Stop)
     (snd (collector_push demo_parse (ToolCallDelta (demo_deltas ! 0)) collector_new))
   = (Inl (protocol_error (MissingToolCallName 3)),
      (snd (collector_push demo_parse (ToolCallDelta (demo_deltas ! 0)) collector_new))
        \<lparr>cs_state := CollectorFailed\<rparr>)
   \<and> collector_finish demo_parse (snd (collector_push demo_parse (Finished Stop)
       (snd (collector_push demo_parse (ToolCallDelta (demo_deltas ! 0)) collector_new))))
     = Inl (protocol_error CollectorAlreadyFailed)"
proof -
  let ?c = "snd (collector_push demo_parse (ToolCallDelta (demo_deltas ! 0)) collector_new)"
  have push: "collector_push demo_parse (Finished Stop) ?c =
      (Inl (protocol_error (MissingToolCallName 3)), ?c\<lparr>cs_state := CollectorFailed\<rparr>)"
    and "cs_state ?c = CollectorActive" by (simp_all add: collector_simps)
  then show ?thesis using rejected_event_commits_nothing [OF push] by simp
qed

text \<open>C30: Whatever events are pushed into a new collector, accepted or not, its limits hold: the
  collected text, the argument text and the extensions of each call, and the indices; calls are kept
  once per index, and a finished collector always yields its response.\<close>

theorem collector_bounds:
  assumes "\<forall>ev \<in> set evs. event_ok ev"
    and "c = foldl (\<lambda>c ev. snd (collector_push parse ev c)) collector_new evs"
  shows "length (cs_text c) \<le> 16777216
    \<and> sorted_wrt (<) (map fst (cs_tool_calls c))
    \<and> (\<forall>(i, p) \<in> set (cs_tool_calls c). i \<le> 1024 \<and> length (pt_arguments p) \<le> 16777216
        \<and> length (pt_extensions p) \<le> 256)
    \<and> (cs_state c = CollectorFinished \<longrightarrow> (\<exists>resp. collector_finish parse c = Inr resp))"
proof -
  have "collector_ok parse c \<and> cs_max_text_bytes c = 16777216 \<and> cs_max_tool_call_index c = 1024
      \<and> cs_max_tool_argument_bytes c = 16777216 \<and> cs_max_tool_call_extensions c = 256"
    using assms
  proof (induction evs arbitrary: c rule: rev_induct)
    case Nil
    then show ?case using collector_ok_new by (simp add: collector_new_def)
  next
    case (snoc ev evs)
    let ?c = "foldl (\<lambda>c ev. snd (collector_push parse ev c)) collector_new evs"
    have ok: "collector_ok parse ?c" "event_ok ev" using snoc by simp_all
    obtain r c' where push: "collector_push parse ev ?c = (r, c')" by fastforce
    then have "c = c'" using snoc.prems(2) by simp
    then show ?case
      using collector_ok_push [OF ok push] snoc.IH [OF _ refl] snoc.prems(1)
        push_keeps_limits [OF push] by (simp add: same_limits_def)
  qed
  then show ?thesis
    using finish_total by (auto simp: collector_ok_def pending_ok_def bt_wf_def)
qed

theorem collector_bounds_witness:
  "\<exists>resp. collector_finish demo_parse (foldl (\<lambda>c ev. snd (collector_push demo_parse ev c)) collector_new
     (demo_body @ [Finished ToolCalls])) = Inr resp"
proof -
  let ?c = "foldl (\<lambda>c ev. snd (collector_push demo_parse ev c)) collector_new (demo_body @ [Finished ToolCalls])"
  have "cs_state ?c = CollectorFinished" by (simp add: collector_simps)
  then show ?thesis using collector_bounds [OF demo_events_ok refl, of demo_parse] by blast
qed

section \<open>The chat model\<close>

definition demo_adapter :: "nat chat_adapter" where
  "demo_adapter =
     \<lparr>ad_metadata = model_metadata_new (ProviderId ''p'') (ModelId ''m'') model_capabilities_new,
      ad_complete_raw = (\<lambda>r w. (Inr (chat_response_new (assistant_message_text ''{}'') Stop), Suc w)),
      ad_stream_raw = (\<lambda>r w. (Inr StreamEnd, Suc w))\<rparr>"

text \<open>C31: A request reaches the adapter exactly when it is valid - messages, finite parameters in
  range, unique tools, a satisfiable choice, every tool result answering one earlier call - and the
  model's capabilities cover it; otherwise nothing is called and the error is not retryable. An
  answer to a request for structured output is released only if it validates.\<close>

theorem complete_checks_request_and_output:
  "(\<not> (request_ok r \<and> covered (md_capabilities (cm_metadata m)) r) \<longrightarrow>
      (\<exists>e. chat_complete lexer validates m r w = (Inl e, w) \<and> me_retryability e = Never))
   \<and> (request_ok r \<and> covered (md_capabilities (cm_metadata m)) r \<longrightarrow>
      snd (chat_complete lexer validates m r w) = snd (ad_complete_raw (cm_adapter m) r w))
   \<and> (\<forall>resp. fst (chat_complete lexer validates m r w) = Inr resp \<longrightarrow>
      fst (ad_complete_raw (cm_adapter m) r w) = Inr resp
      \<and> (\<forall>out. cr_output r = Some out \<longrightarrow> (\<exists>v. validate_response lexer validates out resp = Inr v)))"
proof (cases "validate_common m r")
  case (Inl e)
  then have "\<not> (request_ok r \<and> covered (md_capabilities (cm_metadata m)) r)"
    using validate_common_iff [of m r] by auto
  moreover have "me_retryability e = Never" by (rule validate_common_never [OF Inl])
  ultimately show ?thesis using Inl by (auto simp: chat_complete_def)
next
  case (Inr u)
  then have "request_ok r \<and> covered (md_capabilities (cm_metadata m)) r"
    using validate_common_iff [of m r] by simp
  then show ?thesis
    using Inr by (auto simp: chat_complete_def split: prod.splits sum.splits option.splits)
qed

theorem complete_checks_request_and_output_witness:
  "snd (chat_complete demo_lexer (\<lambda>s v. None) \<lparr>cm_adapter = demo_adapter, cm_metadata = ad_metadata demo_adapter\<rparr>
     (chat_request_new [message_user ''hi'']) 0) = 1
   \<and> snd (chat_complete demo_lexer (\<lambda>s v. None) \<lparr>cm_adapter = demo_adapter, cm_metadata = ad_metadata demo_adapter\<rparr>
     (chat_request_new []) 0) = 0"
proof -
  have "request_ok (chat_request_new [message_user ''hi'']) \<and> covered
      (md_capabilities (ad_metadata demo_adapter)) (chat_request_new [message_user ''hi''])"
    by (simp add: request_ok_def chat_request_new_def generation_ok_def generation_config_new_def
        conversation_ok_def message_user_def message_call_ids_def message_results_def covered_def
        uses_tools_def has_tool_history_def wants_parallel_def)
  moreover have "\<not> request_ok (chat_request_new [])" by (simp add: request_ok_def chat_request_new_def)
  ultimately show ?thesis
    using complete_checks_request_and_output [of "chat_request_new [message_user ''hi'']"
        "\<lparr>cm_adapter = demo_adapter, cm_metadata = ad_metadata demo_adapter\<rparr>" demo_lexer "\<lambda>s v. None" 0]
      complete_checks_request_and_output [of "chat_request_new []"
        "\<lparr>cm_adapter = demo_adapter, cm_metadata = ad_metadata demo_adapter\<rparr>" demo_lexer "\<lambda>s v. None" 0]
    by (auto simp: demo_adapter_def)
qed

text \<open>C32: The validated stream of a raw stream of events delivers events other than \<open>Finished\<close> and
  then one last item. That item is the raw stream's \<open>Finished\<close> exactly when the whole stream is
  collected to a response that the output contract accepts, and an error otherwise.\<close>

theorem validated_stream_releases_valid_output:
  "\<exists>zs final. delivers (validate_stream parse lexer validates out (stream_of (map Inr evs)))
      (map Ok zs @ [final])
    \<and> (\<forall>z \<in> set zs. \<forall>r. z \<noteq> Finished r)
    \<and> (\<forall>r. final = Ok (Finished r) \<longleftrightarrow>
        accepted parse lexer validates out (with_max_text_bytes max_text collector_new) evs r)
    \<and> ((\<nexists>r. final = Ok (Finished r)) \<longrightarrow> (\<exists>e. final = Err e))"
proof -
  let ?c = "with_max_text_bytes max_text collector_new"
  obtain zs final where d: "delivers (validated_items parse lexer validates out (Some (vstate evs ?c None 0)))
      (map Ok zs @ [final])" and out: "validated_outcome parse lexer validates out ?c evs zs final"
    using validated_run [of ?c 0 parse lexer validates out evs]
    by (auto simp: with_max_text_bytes_def collector_new_def)
  have "delivers (validate_stream parse lexer validates out (stream_of (map Inr evs))) (map Ok zs @ [final])"
    using d by (simp add: validate_stream_def vstate_def)
  moreover have "(\<forall>z \<in> set zs. \<forall>r. z \<noteq> Finished r)
      \<and> (\<forall>r. final = Ok (Finished r) \<longleftrightarrow> accepted parse lexer validates out ?c evs r)
      \<and> ((\<nexists>r. final = Ok (Finished r)) \<longrightarrow> (\<exists>e. final = Err e))"
    using out unfolding validated_outcome_def by (cases final) auto
  ultimately show ?thesis by blast
qed

definition demo_contract :: output_contract where
  "demo_contract = \<lparr>oc_name = ''out'', oc_schema = JObject [], oc_id = ''id''\<rparr>"

theorem validated_stream_releases_valid_output_witness:
  "\<exists>zs. delivers (validate_stream demo_parse demo_lexer (\<lambda>s v. None) demo_contract
     (stream_of (map Inr [TextDelta ''{}'', Finished Stop]))) (map Ok zs @ [Ok (Finished Stop)])"
proof -
  have "read_strict demo_lexer ''{}'' = Inr (JObject [])"
    by (simp add: read_strict_def demo_lexer_def, subst read_value.simps, simp)
  then have acc: "accepted demo_parse demo_lexer (\<lambda>s v. None) demo_contract
      (with_max_text_bytes max_text collector_new) [TextDelta ''{}'', Finished Stop] Stop"
    by (simp add: accepted_def collector_simps with_max_text_bytes_def max_text_def
        validate_response_def text_content_def text_parts_def map_filter_def)
  note v = validated_stream_releases_valid_output [of demo_parse demo_lexer "\<lambda>s v. None"
      demo_contract "[TextDelta ''{}'', Finished Stop]"]
  from v obtain zs final where d: "delivers (validate_stream demo_parse demo_lexer (\<lambda>s v. None)
        demo_contract (stream_of (map Inr [TextDelta ''{}'', Finished Stop]))) (map Ok zs @ [final])"
      and f: "\<forall>r. final = Ok (Finished r) \<longleftrightarrow> accepted demo_parse demo_lexer (\<lambda>s v. None) demo_contract
        (with_max_text_bytes max_text collector_new) [TextDelta ''{}'', Finished Stop] r"
    by (elim exE conjE) (rule that)
  have "final = Ok (Finished Stop)" using f acc by (simp only:)
  then show ?thesis using d by (intro exI [of _ zs]) (simp only:)
qed

end
