(* ===== verification/Tools.thy ===== *)
theory Tools
  imports ChatModels
begin

text \<open>
  The data and the registry of \<open>group-agent-tool\<close>: tools and their declared behaviour (\<open>tool.rs\<close>),
  the errors (\<open>error.rs\<close>), events (\<open>event.rs\<close>) and the registry (\<open>registry.rs\<close>). A tool is a record
  of functions on the world; compiling a JSON schema is a parameter.
\<close>

section \<open>Behaviour\<close>

datatype tool_side_effect = ReadOnly | IdempotentWrite | NonIdempotentWrite

record tool_behavior =
  tb_side_effect :: tool_side_effect
  tb_allows_parallel :: bool
  tb_requires_idempotency_key :: bool

definition tool_behavior_new :: "tool_side_effect \<Rightarrow> tool_behavior" where
  "tool_behavior_new s =
     \<lparr>tb_side_effect = s, tb_allows_parallel = (s \<noteq> NonIdempotentWrite), tb_requires_idempotency_key = False\<rparr>"

definition with_parallel :: "bool \<Rightarrow> tool_behavior \<Rightarrow> tool_behavior" where
  "with_parallel p b = b\<lparr>tb_allows_parallel := p\<rparr>"

definition with_required_idempotency_key :: "bool \<Rightarrow> tool_behavior \<Rightarrow> tool_behavior" where
  "with_required_idempotency_key r b = b\<lparr>tb_requires_idempotency_key := r\<rparr>"

datatype tool_behavior_error =
  ReadOnlyRequiresIdempotencyKey | NonIdempotentWriteRequiresIdempotencyKey

definition behavior_validate :: "tool_behavior \<Rightarrow> tool_behavior_error + unit" where
  "behavior_validate b =
     (if tb_side_effect b = ReadOnly \<and> tb_requires_idempotency_key b
      then Inl ReadOnlyRequiresIdempotencyKey
      else if tb_side_effect b = NonIdempotentWrite \<and> tb_requires_idempotency_key b
      then Inl NonIdempotentWriteRequiresIdempotencyKey
      else Inr ())"

text \<open>\<open>char::is_control\<close> on the bytes of a string: the ASCII controls and U+0080 to U+009F.\<close>

fun has_control :: "string \<Rightarrow> bool" where
  "has_control [] = False"
| "has_control (c # cs) =
     (of_char c < (32::nat) \<or> of_char c = (127::nat)
      \<or> (of_char c = (194::nat) \<and> (case cs of [] \<Rightarrow> False | d # _ \<Rightarrow> 128 \<le> (of_char d :: nat) \<and> of_char d < (160::nat)))
      \<or> has_control cs)"

datatype idempotency_key = IdempotencyKey string
datatype idempotency_key_error = EmptyIdempotencyKey | SurroundingWhitespace | ControlCharacter

definition idempotency_key_new :: "string \<Rightarrow> idempotency_key_error + idempotency_key" where
  "idempotency_key_new s =
     (if s = [] then Inl EmptyIdempotencyKey
      else if trim s \<noteq> s then Inl SurroundingWhitespace
      else if has_control s then Inl ControlCharacter
      else Inr (IdempotencyKey s))"

section \<open>Tools and errors\<close>

record tool_input =
  ti_call_id :: tool_call_id
  ti_tool_name :: tool_name
  ti_arguments :: json
  ti_idempotency_key :: "idempotency_key option"
  ti_metadata :: extensions

record tool_output =
  to_result :: tool_result
  to_metadata :: extensions

definition tool_output_new :: "tool_result \<Rightarrow> tool_output" where
  "tool_output_new r = \<lparr>to_result = r, to_metadata = extensions_new\<rparr>"

datatype tool_error_kind = ToolCancelled | ToolOther

record tool_error =
  te_kind :: tool_error_kind
  te_message :: string

record 'w tool =
  tl_name :: tool_name
  tl_definition :: tool_definition
  tl_behavior :: tool_behavior
  tl_execute :: "tool_input \<Rightarrow> 'w \<Rightarrow> (tool_error + tool_output) \<times> 'w"

text \<open>What the code reads of a validation error of \<open>jsonschema\<close>.\<close>

record validation_error =
  ve_instance_path :: string
  ve_schema_path :: string
  ve_keyword :: string
  ve_text :: string

record schema_violation =
  sv_instance_path :: string
  sv_schema_path :: string
  sv_keyword :: string

definition violation_from_error :: "validation_error \<Rightarrow> schema_violation" where
  "violation_from_error e =
     \<lparr>sv_instance_path = ve_instance_path e, sv_schema_path = ve_schema_path e, sv_keyword = ve_keyword e\<rparr>"

datatype tool_definition_error =
    NameMismatch tool_name tool_name
  | InvalidToolName
  | EmptyDescription
  | InvalidSchema schema_violation validation_error
  | InvalidBehavior tool_behavior_error

datatype tool_registry_error =
    InvalidDefinition tool_name tool_definition_error
  | DuplicateTool tool_name

datatype tool_runtime_error_kind =
    KindInvalidDefinition
  | KindDuplicateTool
  | ToolNotFound
  | InvalidToolCall
  | InvalidArguments
  | UnsupportedExecution
  | MissingIdempotencyKey
  | TimedOut
  | ExecutionFailedKind
  | CancelledKind
  | NotStartedDueToFailFast
  | ObserverFailed
  | OtherRuntime

fun registry_error_kind :: "tool_registry_error \<Rightarrow> tool_runtime_error_kind" where
  "registry_error_kind (InvalidDefinition _ _) = KindInvalidDefinition"
| "registry_error_kind (DuplicateTool _) = KindDuplicateTool"

record tool_call_context =
  tcx_call_id :: tool_call_id
  tcx_tool_name :: tool_name
  tcx_batch_index :: "nat option"

datatype tool_observer_failure = ReturnedError string | ObserverPanicked

datatype tool_runtime_source =
    SourceSchema validation_error
  | SourceObserver tool_observer_failure
  | SourceElapsed
  | SourceTool tool_error

record tool_runtime_error =
  tre_kind :: tool_runtime_error_kind
  tre_context :: tool_call_context
  tre_violation :: "schema_violation option"
  tre_timeout :: "nat option"
  tre_source :: "tool_runtime_source option"

definition runtime_error_new :: "tool_runtime_error_kind \<Rightarrow> tool_call_context \<Rightarrow> tool_runtime_error" where
  "runtime_error_new k c =
     \<lparr>tre_kind = k, tre_context = c, tre_violation = None, tre_timeout = None, tre_source = None\<rparr>"

definition runtime_error_with_source ::
    "tool_runtime_error_kind \<Rightarrow> tool_call_context \<Rightarrow> tool_runtime_source \<Rightarrow> tool_runtime_error" where
  "runtime_error_with_source k c s = (runtime_error_new k c)\<lparr>tre_source := Some s\<rparr>"

definition invalid_arguments_error :: "tool_call_context \<Rightarrow> validation_error \<Rightarrow> tool_runtime_error" where
  "invalid_arguments_error c e =
     (runtime_error_new InvalidArguments c)
       \<lparr>tre_violation := Some (violation_from_error e), tre_source := Some (SourceSchema e)\<rparr>"

definition observer_failed :: "tool_call_context \<Rightarrow> tool_observer_failure \<Rightarrow> tool_runtime_error" where
  "observer_failed c f = runtime_error_with_source ObserverFailed c (SourceObserver f)"

definition timed_out :: "tool_call_context \<Rightarrow> nat \<Rightarrow> tool_runtime_error" where
  "timed_out c t = (runtime_error_with_source TimedOut c SourceElapsed)\<lparr>tre_timeout := Some t\<rparr>"

datatype tool_event =
    ExecutionStarted tool_call_context
  | ExecutionCompleted tool_call_context bool
  | ExecutionFailed tool_call_context tool_runtime_error_kind
  | ExecutionTimedOut tool_call_context nat

section \<open>The registry\<close>

record 'w registered_tool =
  rt_tool :: "'w tool"
  rt_definition :: tool_definition
  rt_behavior :: tool_behavior
  rt_validator :: "json \<Rightarrow> validation_error option"

type_synonym schema_compiler = "json \<Rightarrow> validation_error + (json \<Rightarrow> validation_error option)"

record 'w registry_builder =
  rb_entries :: "(tool_name \<times> 'w registered_tool) list"
  rb_schema_compilation_count :: nat

definition registry_builder_new :: "'w registry_builder" where
  "registry_builder_new = \<lparr>rb_entries = [], rb_schema_compilation_count = 0\<rparr>"

definition is_canonical_name :: "string \<Rightarrow> bool" where
  "is_canonical_name s \<longleftrightarrow> trim s = s \<and> \<not> has_control s"

text \<open>A failed registration leaves the builder as it is, the counter of compiled schemas apart.\<close>

definition register_arc ::
    "schema_compiler \<Rightarrow> 'w tool \<Rightarrow> 'w registry_builder
      \<Rightarrow> (tool_registry_error + unit) \<times> 'w registry_builder" where
  "register_arc compile_schema t b =
     (let advertised = tl_name t; definition = tl_definition t; defined = td_name definition in
      if map_of (rb_entries b) advertised \<noteq> None then (Inl (DuplicateTool advertised), b)
      else if advertised \<noteq> defined
      then (Inl (InvalidDefinition advertised (NameMismatch advertised defined)), b)
      else if \<not> is_canonical_name (tool_name_str advertised)
      then (Inl (InvalidDefinition advertised InvalidToolName), b)
      else if trim (td_description definition) = []
      then (Inl (InvalidDefinition advertised EmptyDescription), b)
      else
        (case behavior_validate (tl_behavior t) of
           Inl e \<Rightarrow> (Inl (InvalidDefinition advertised (InvalidBehavior e)), b)
         | Inr _ \<Rightarrow>
             (let b1 = b\<lparr>rb_schema_compilation_count := rb_schema_compilation_count b + 1\<rparr> in
              case compile_schema (td_input_schema definition) of
                Inl e \<Rightarrow>
                  (Inl (InvalidDefinition advertised (InvalidSchema (violation_from_error e) e)), b1)
              | Inr validator \<Rightarrow>
                  (Inr (), b1\<lparr>rb_entries := bt_insert advertised
                     \<lparr>rt_tool = t, rt_definition = definition, rt_behavior = tl_behavior t,
                      rt_validator = validator\<rparr> (rb_entries b1)\<rparr>))))"

record 'w tool_registry =
  rg_entries :: "'w registered_tool list"
  rg_indexes :: "tool_name \<Rightarrow> nat option"
  rg_schema_compilation_count :: nat

definition registry_build :: "'w registry_builder \<Rightarrow> 'w tool_registry" where
  "registry_build b =
     (let entries = map snd (rb_entries b) in
      \<lparr>rg_entries = entries,
       rg_indexes = map_of (map (\<lambda>(i, e). (td_name (rt_definition e), i)) (rev (enumerate 0 entries))),
       rg_schema_compilation_count = rb_schema_compilation_count b\<rparr>)"

definition registry_empty :: "'w tool_registry" where
  "registry_empty = registry_build registry_builder_new"

fun register_all ::
    "schema_compiler \<Rightarrow> 'w tool list \<Rightarrow> 'w registry_builder \<Rightarrow> tool_registry_error + 'w registry_builder" where
  "register_all compile_schema [] b = Inr b"
| "register_all compile_schema (t # ts) b =
     (case register_arc compile_schema t b of
        (Inl e, _) \<Rightarrow> Inl e | (Inr _, b') \<Rightarrow> register_all compile_schema ts b')"

definition try_from_tools ::
    "schema_compiler \<Rightarrow> 'w tool list \<Rightarrow> tool_registry_error + 'w tool_registry" where
  "try_from_tools compile_schema ts =
     map_sum id registry_build (register_all compile_schema ts registry_builder_new)"

definition registry_entry :: "'w tool_registry \<Rightarrow> tool_name \<Rightarrow> 'w registered_tool option" where
  "registry_entry g n =
     (case rg_indexes g n of
        None \<Rightarrow> None
      | Some i \<Rightarrow> if i < length (rg_entries g) then Some (rg_entries g ! i) else None)"

definition registry_get :: "'w tool_registry \<Rightarrow> tool_name \<Rightarrow> 'w tool option" where
  "registry_get g n = map_option rt_tool (registry_entry g n)"

definition registry_behavior :: "'w tool_registry \<Rightarrow> tool_name \<Rightarrow> tool_behavior option" where
  "registry_behavior g n = map_option rt_behavior (registry_entry g n)"

definition registry_definitions :: "'w tool_registry \<Rightarrow> tool_definition list" where
  "registry_definitions g = map rt_definition (rg_entries g)"

section \<open>The registry finds what was registered\<close>

definition builder_ok :: "schema_compiler \<Rightarrow> 'w registry_builder \<Rightarrow> bool" where
  "builder_ok compile_schema b \<longleftrightarrow>
     bt_wf (rb_entries b)
     \<and> (\<forall>(n, e) \<in> set (rb_entries b).
          td_name (rt_definition e) = n \<and> tl_name (rt_tool e) = n \<and> is_canonical_name (tool_name_str n)
          \<and> rt_definition e = tl_definition (rt_tool e) \<and> rt_behavior e = tl_behavior (rt_tool e)
          \<and> behavior_validate (rt_behavior e) = Inr ()
          \<and> compile_schema (td_input_schema (rt_definition e)) = Inr (rt_validator e))
     \<and> length (rb_entries b) \<le> rb_schema_compilation_count b"

lemma bt_insert_entries: "x \<in> set (bt_insert k v m) \<Longrightarrow> x = (k, v) \<or> x \<in> set m"
  by (induction k v m rule: bt_insert.induct) (auto split: if_splits)

lemma length_bt_insert_le: "length (bt_insert k v m) \<le> Suc (length m)"
  by (induction k v m rule: bt_insert.induct) auto

lemma register_arc_ok:
  assumes "builder_ok cs b" and "register_arc cs t b = (r, b')"
  shows "builder_ok cs b'"
  using assms bt_insert_entries length_bt_insert_le
  by (fastforce simp: builder_ok_def register_arc_def Let_def le_Suc_eq
      split: if_splits sum.splits intro: le_trans)

lemma entries_nth:
  assumes "bt_wf m" and "\<forall>(n, e) \<in> set m. f e = n"
  shows "map_of (map (\<lambda>(i, e). (f e, i)) (rev (enumerate 0 (map snd m)))) n = Some i
    \<longleftrightarrow> i < length m \<and> fst (m ! i) = n"
proof -
  have eq: "f (snd (m ! i)) = fst (m ! i)" if "i < length m" for i
    using assms(2) nth_mem [OF that] by (auto simp: split_beta)
  have "map (\<lambda>(i, e). (f e, i)) (enumerate 0 (map snd m)) = zip (map fst m) [0..<length m]"
    by (rule nth_equalityI) (auto simp: nth_enumerate_eq eq)
  then have xs: "map (\<lambda>(i, e). (f e, i)) (rev (enumerate 0 (map snd m))) = rev (zip (map fst m) [0..<length m])"
    by (metis rev_map)
  have "distinct (map fst (rev (zip (map fst m) [0..<length m])))"
    using bt_wf_distinct [OF assms(1)] by (simp add: rev_map [symmetric])
  then show ?thesis
    unfolding xs by (auto simp: map_of_eq_Some_iff in_set_zip intro!: exI [of _ i])
qed

lemma registry_entry_build:
  assumes "builder_ok cs b"
  shows "registry_entry (registry_build b) n = map_of (rb_entries b) n"
proof -
  let ?m = "rb_entries b" and ?f = "\<lambda>e. td_name (rt_definition e)"
  have wf: "bt_wf ?m" "\<forall>(n, e) \<in> set ?m. ?f e = n" using assms by (auto simp: builder_ok_def)
  have ix: "rg_indexes (registry_build b) n = Some i \<longleftrightarrow> i < length ?m \<and> fst (?m ! i) = n" for i
    using entries_nth [OF wf, of n i] by (simp add: registry_build_def Let_def)
  show ?thesis
  proof (cases "map_of ?m n")
    case None
    then have "fst (?m ! i) \<noteq> n" if "i < length ?m" for i
      using that by (metis image_eqI map_of_eq_None_iff nth_mem)
    then have "rg_indexes (registry_build b) n = None" using ix by (metis option.exhaust)
    then show ?thesis using None by (simp add: registry_entry_def)
  next
    case (Some e)
    then obtain i where i: "i < length ?m" "?m ! i = (n, e)"
      by (metis in_set_conv_nth map_of_SomeD)
    then have "rg_indexes (registry_build b) n = Some i" using ix by simp
    then show ?thesis using Some i by (simp add: registry_entry_def registry_build_def Let_def)
  qed
qed

end
