(* ===== verification/ToolRuns.thy ===== *)
theory ToolRuns
  imports Tools
begin

text \<open>
  Execution of tool calls (\<open>runtime.rs\<close> of \<open>group-agent-tool\<close>): one call with its events, timeout
  and observers, and batches under a concurrency limit. The world \<open>'w\<close> holds what tools, observers
  and the executor change; which running call makes progress next is the executor's choice.
\<close>

section \<open>Reports, options and configuration\<close>

record 'a execution_report =
  xr_primary :: "tool_runtime_error + 'a"
  xr_terminal_observer_failure :: "tool_observer_failure option"

definition report_new ::
    "tool_runtime_error + 'a \<Rightarrow> tool_observer_failure option \<Rightarrow> 'a execution_report" where
  "report_new p f = \<lparr>xr_primary = p, xr_terminal_observer_failure = f\<rparr>"

definition report_map :: "('a \<Rightarrow> 'b) \<Rightarrow> 'a execution_report \<Rightarrow> 'b execution_report" where
  "report_map f r = report_new (map_sum id f (xr_primary r)) (xr_terminal_observer_failure r)"

record tool_options =
  opt_timeout :: "nat option"
  opt_idempotency_key :: "idempotency_key option"
  opt_metadata :: extensions
  opt_allow_non_idempotent_writes :: bool

definition tool_options_new :: tool_options where
  "tool_options_new =
     \<lparr>opt_timeout = None, opt_idempotency_key = None, opt_metadata = extensions_new,
      opt_allow_non_idempotent_writes = True\<rparr>"

datatype batch_failure_policy = CollectAll | FailFast

record batch_config =
  bc_max_concurrency :: nat
  bc_failure_policy :: batch_failure_policy

definition batch_config_new :: "nat \<Rightarrow> batch_config" where
  "batch_config_new n = \<lparr>bc_max_concurrency = n, bc_failure_policy = CollectAll\<rparr>"

definition batch_config_default :: batch_config where
  "batch_config_default = batch_config_new 8"

record batch_item =
  bi_call :: tool_call
  bi_options :: tool_options

definition batch_item_new :: "tool_call \<Rightarrow> batch_item" where
  "batch_item_new c = \<lparr>bi_call = c, bi_options = tool_options_new\<rparr>"

record batch_report =
  br_call_ids :: "tool_call_id list"
  br_results :: "(tool_runtime_error + tool_result) list"
  br_terminal_observer_failures :: "tool_observer_failure option list"

definition into_tool_messages :: "batch_report \<Rightarrow> (tool_runtime_error + message) list" where
  "into_tool_messages r =
     map (\<lambda>(i, x). map_sum id (message_tool i) x) (zip (br_call_ids r) (br_results r))"

datatype batch_error = ZeroConcurrency | DuplicateBatchCallId tool_call_id nat nat

section \<open>The runtime\<close>

text \<open>A sink accepts an event, returns an error or panics; the panic is caught.\<close>

datatype sink_result = SinkOk | SinkError string | SinkPanic

type_synonym 'w event_sink = "tool_event \<Rightarrow> 'w \<Rightarrow> sink_result \<times> 'w"

record 'w tool_runtime =
  rtm_registry :: "'w tool_registry"
  rtm_event_sink :: "'w event_sink option"
  rtm_additional_event_sinks :: "'w event_sink list"

definition tool_runtime_new :: "'w tool_registry \<Rightarrow> 'w tool_runtime" where
  "tool_runtime_new g = \<lparr>rtm_registry = g, rtm_event_sink = None, rtm_additional_event_sinks = []\<rparr>"

definition with_event_sink :: "'w event_sink \<Rightarrow> 'w tool_runtime \<Rightarrow> 'w tool_runtime" where
  "with_event_sink s rt = rt\<lparr>rtm_event_sink := Some s, rtm_additional_event_sinks := []\<rparr>"

definition with_additional_event_sink :: "'w event_sink \<Rightarrow> 'w tool_runtime \<Rightarrow> 'w tool_runtime" where
  "with_additional_event_sink s rt =
     rt\<lparr>rtm_additional_event_sinks := rtm_additional_event_sinks rt @ [s]\<rparr>"

definition runtime_sinks :: "'w tool_runtime \<Rightarrow> 'w event_sink list" where
  "runtime_sinks rt =
     (case rtm_event_sink rt of None \<Rightarrow> [] | Some s \<Rightarrow> [s]) @ rtm_additional_event_sinks rt"

fun is_started_event :: "tool_event \<Rightarrow> bool" where
  "is_started_event (ExecutionStarted _) = True"
| "is_started_event _ = False"

fun emit_to ::
    "'w event_sink list \<Rightarrow> tool_event \<Rightarrow> tool_observer_failure option \<Rightarrow> 'w
      \<Rightarrow> (tool_observer_failure + unit) \<times> 'w" where
  "emit_to [] ev first w = (case first of None \<Rightarrow> (Inr (), w) | Some f \<Rightarrow> (Inl f, w))"
| "emit_to (s # ss) ev first w =
     (case s ev w of
        (SinkOk, w1) \<Rightarrow> emit_to ss ev first w1
      | (bad, w1) \<Rightarrow>
          (let failure = (case bad of SinkError e \<Rightarrow> ReturnedError e | _ \<Rightarrow> ObserverPanicked) in
           if is_started_event ev then (Inl failure, w1)
           else emit_to ss ev (case first of None \<Rightarrow> Some failure | Some f \<Rightarrow> Some f) w1))"

definition tool_emit :: "'w tool_runtime \<Rightarrow> tool_event \<Rightarrow> 'w \<Rightarrow> (tool_observer_failure + unit) \<times> 'w" where
  "tool_emit rt ev w = emit_to (runtime_sinks rt) ev None w"

definition failure_of :: "'f + unit \<Rightarrow> 'f option" where
  "failure_of x = (case x of Inl f \<Rightarrow> Some f | Inr _ \<Rightarrow> None)"

definition emit_failure ::
    "'w tool_runtime \<Rightarrow> tool_runtime_error \<Rightarrow> 'w \<Rightarrow> tool_observer_failure option \<times> 'w" where
  "emit_failure rt e w =
     (case tool_emit rt (ExecutionFailed (tre_context e) (tre_kind e)) w of (x, w1) \<Rightarrow> (failure_of x, w1))"

definition call_context :: "tool_call \<Rightarrow> nat option \<Rightarrow> tool_call_context" where
  "call_context c i = \<lparr>tcx_call_id = tc_id c, tcx_tool_name = tc_name c, tcx_batch_index = i\<rparr>"

definition is_valid_call_identifier :: "string \<Rightarrow> bool" where
  "is_valid_call_identifier s \<longleftrightarrow> trim s = s \<and> \<not> has_control s"

definition prepare ::
    "'w tool_runtime \<Rightarrow> tool_call \<Rightarrow> tool_options \<Rightarrow> tool_call_context
      \<Rightarrow> tool_runtime_error + 'w registered_tool" where
  "prepare rt call opts ctx =
     (if \<not> is_valid_call_identifier (tool_call_id_str (tc_id call))
         \<or> \<not> is_valid_call_identifier (tool_name_str (tc_name call))
      then Inl (runtime_error_new InvalidToolCall ctx)
      else
        (case registry_entry (rtm_registry rt) (tc_name call) of
           None \<Rightarrow> Inl (runtime_error_new ToolNotFound ctx)
         | Some entry \<Rightarrow>
             (case rt_validator entry (tc_arguments call) of
                Some e \<Rightarrow> Inl (invalid_arguments_error ctx e)
              | None \<Rightarrow>
                  (if tb_requires_idempotency_key (rt_behavior entry) \<and> opt_idempotency_key opts = None
                   then Inl (runtime_error_new MissingIdempotencyKey ctx)
                   else if tb_side_effect (rt_behavior entry) = NonIdempotentWrite
                        \<and> \<not> opt_allow_non_idempotent_writes opts
                   then Inl (runtime_error_new UnsupportedExecution ctx)
                   else Inr entry))))"

text \<open>
  The executor: whether a deadline of the given length passes before the tool is done, with what the
  abandoned tool did, and which of \<open>n\<close> running calls is polled next.
\<close>

record 'w executor =
  exe_elapses :: "nat \<Rightarrow> tool_input \<Rightarrow> 'w \<Rightarrow> bool \<times> 'w"
  exe_next :: "nat \<Rightarrow> 'w \<Rightarrow> nat \<times> 'w"

definition tool_input_of :: "tool_call \<Rightarrow> tool_options \<Rightarrow> tool_input" where
  "tool_input_of call opts =
     \<lparr>ti_call_id = tc_id call, ti_tool_name = tc_name call, ti_arguments = tc_arguments call,
      ti_idempotency_key = opt_idempotency_key opts, ti_metadata = opt_metadata opts\<rparr>"

text \<open>A call announces itself; the tool runs only if every observer accepts that.\<close>

definition announce ::
    "'w tool_runtime \<Rightarrow> tool_call_context \<Rightarrow> 'w \<Rightarrow> tool_output execution_report option \<times> 'w" where
  "announce rt ctx w =
     (case tool_emit rt (ExecutionStarted ctx) w of
        (Inl f, w1) \<Rightarrow> (Some (report_new (Inl (observer_failed ctx f)) None), w1)
      | (Inr _, w1) \<Rightarrow> (None, w1))"

definition conclude ::
    "'w tool_runtime \<Rightarrow> tool_call_context \<Rightarrow> tool_error + tool_output \<Rightarrow> 'w
      \<Rightarrow> tool_output execution_report \<times> 'w" where
  "conclude rt ctx output w =
     (case output of
        Inr out \<Rightarrow>
          (case tool_emit rt (ExecutionCompleted ctx (tr_is_error (to_result out))) w of
             (x, w1) \<Rightarrow> (report_new (Inr out) (failure_of x), w1))
      | Inl e \<Rightarrow>
          (let kind = (case te_kind e of ToolCancelled \<Rightarrow> CancelledKind | ToolOther \<Rightarrow> ExecutionFailedKind) in
           case tool_emit rt (ExecutionFailed ctx kind) w of
             (x, w1) \<Rightarrow> (report_new (Inl (runtime_error_with_source kind ctx (SourceTool e))) (failure_of x), w1)))"

definition perform ::
    "'w executor \<Rightarrow> 'w tool_runtime \<Rightarrow> tool_call \<Rightarrow> tool_options \<Rightarrow> tool_call_context
      \<Rightarrow> 'w registered_tool \<Rightarrow> 'w \<Rightarrow> tool_output execution_report \<times> 'w" where
  "perform exe rt call opts ctx entry w =
     (case opt_timeout opts of
        None \<Rightarrow>
          (case tl_execute (rt_tool entry) (tool_input_of call opts) w of
             (output, w1) \<Rightarrow> conclude rt ctx output w1)
      | Some t \<Rightarrow>
          (case exe_elapses exe t (tool_input_of call opts) w of
             (True, w1) \<Rightarrow>
               (case tool_emit rt (ExecutionTimedOut ctx t) w1 of
                  (x, w2) \<Rightarrow> (report_new (Inl (timed_out ctx t)) (failure_of x), w2))
           | (False, w1) \<Rightarrow>
               (case tl_execute (rt_tool entry) (tool_input_of call opts) w1 of
                  (output, w2) \<Rightarrow> conclude rt ctx output w2)))"

definition execute_prepared ::
    "'w executor \<Rightarrow> 'w tool_runtime \<Rightarrow> tool_call \<Rightarrow> tool_options \<Rightarrow> tool_call_context
      \<Rightarrow> 'w registered_tool \<Rightarrow> 'w \<Rightarrow> tool_output execution_report \<times> 'w" where
  "execute_prepared exe rt call opts ctx entry w =
     (case announce rt ctx w of
        (Some report, w1) \<Rightarrow> (report, w1)
      | (None, w1) \<Rightarrow> perform exe rt call opts ctx entry w1)"

definition execute_output_report ::
    "'w executor \<Rightarrow> 'w tool_runtime \<Rightarrow> tool_call \<Rightarrow> tool_options \<Rightarrow> 'w
      \<Rightarrow> tool_output execution_report \<times> 'w" where
  "execute_output_report exe rt call opts w =
     (let ctx = call_context call None in
      case prepare rt call opts ctx of
        Inl e \<Rightarrow> (case emit_failure rt e w of (f, w1) \<Rightarrow> (report_new (Inl e) f, w1))
      | Inr entry \<Rightarrow> execute_prepared exe rt call opts ctx entry w)"

definition execute_report ::
    "'w executor \<Rightarrow> 'w tool_runtime \<Rightarrow> tool_call \<Rightarrow> tool_options \<Rightarrow> 'w
      \<Rightarrow> tool_result execution_report \<times> 'w" where
  "execute_report exe rt call opts w =
     (case execute_output_report exe rt call opts w of (r, w1) \<Rightarrow> (report_map to_result r, w1))"

definition tool_execute ::
    "'w executor \<Rightarrow> 'w tool_runtime \<Rightarrow> tool_call \<Rightarrow> 'w \<Rightarrow> (tool_runtime_error + tool_result) \<times> 'w" where
  "tool_execute exe rt call w =
     (case execute_report exe rt call tool_options_new w of (r, w1) \<Rightarrow> (xr_primary r, w1))"

definition execute_message_report ::
    "'w executor \<Rightarrow> 'w tool_runtime \<Rightarrow> tool_call \<Rightarrow> 'w \<Rightarrow> message execution_report \<times> 'w" where
  "execute_message_report exe rt call w =
     (case execute_report exe rt call tool_options_new w of
        (r, w1) \<Rightarrow> (report_map (message_tool (tc_id call)) r, w1))"

section \<open>Batches\<close>

fun unique_call_ids ::
    "(tool_call_id \<Rightarrow> nat option) \<Rightarrow> nat \<Rightarrow> batch_item list \<Rightarrow> batch_error option" where
  "unique_call_ids seen i [] = None"
| "unique_call_ids seen i (x # xs) =
     (let c = tc_id (bi_call x) in
      case seen c of
        Some first \<Rightarrow> Some (DuplicateBatchCallId c first i)
      | None \<Rightarrow> unique_call_ids (seen(c \<mapsto> i)) (Suc i) xs)"

definition validate_unique_call_ids :: "batch_item list \<Rightarrow> batch_error option" where
  "validate_unique_call_ids = unique_call_ids (\<lambda>_. None) 0"

text \<open>The slots of a batch, by index: what was prepared, the results, and the observer failures.\<close>

record 'w batch_slots =
  sl_prepared :: "'w registered_tool option list"
  sl_results :: "(tool_runtime_error + tool_result) option list"
  sl_failures :: "tool_observer_failure option list"

fun prepare_all ::
    "'w tool_runtime \<Rightarrow> nat \<Rightarrow> batch_item list \<Rightarrow> 'w \<Rightarrow> 'w batch_slots \<times> 'w" where
  "prepare_all rt i [] w = (\<lparr>sl_prepared = [], sl_results = [], sl_failures = []\<rparr>, w)"
| "prepare_all rt i (x # xs) w =
     (case (case prepare rt (bi_call x) (bi_options x) (call_context (bi_call x) (Some i)) of
              Inr entry \<Rightarrow> ((Some entry, None, None), w)
            | Inl e \<Rightarrow> (case emit_failure rt e w of (f, w1) \<Rightarrow> ((None, Some (Inl e), f), w1))) of
        ((p, r, f), w1) \<Rightarrow>
          (case prepare_all rt (Suc i) xs w1 of
             (s, w2) \<Rightarrow>
               (\<lparr>sl_prepared = p # sl_prepared s, sl_results = r # sl_results s,
                 sl_failures = f # sl_failures s\<rparr>, w2)))"

definition mark_not_started ::
    "batch_item list \<Rightarrow> (tool_runtime_error + tool_result) option list
      \<Rightarrow> (tool_runtime_error + tool_result) option list" where
  "mark_not_started items results =
     map (\<lambda>(i, x, r). case r of
            Some y \<Rightarrow> Some y
          | None \<Rightarrow> Some (Inl (runtime_error_new NotStartedDueToFailFast (call_context (bi_call x) (Some i)))))
       (enumerate 0 (zip items results))"

definition finish_report ::
    "batch_item list \<Rightarrow> (tool_runtime_error + tool_result) option list
      \<Rightarrow> tool_observer_failure option list \<Rightarrow> ('e, batch_report) result" where
  "finish_report items results failures =
     (case those results of
        None \<Rightarrow> Panic
      | Some rs \<Rightarrow>
          Ok \<lparr>br_call_ids = map (\<lambda>x. tc_id (bi_call x)) items, br_results = rs,
              br_terminal_observer_failures = failures\<rparr>)"

text \<open>
  The state of the scheduling loop. A running call is an index with its tool and whether it has
  announced itself yet.
\<close>

type_synonym 'w running_call = "nat \<times> 'w registered_tool \<times> bool"

record 'w batch_state =
  bs_slots :: "'w batch_slots"
  bs_running :: "'w running_call list"
  bs_next :: nat
  bs_exclusive :: bool
  bs_stop :: bool

text \<open>
  The inner loop: start calls in order while the limit allows; a call that does not allow parallel
  execution starts only when nothing runs. A missing entry is the \<open>expect\<close> of the code.
\<close>

function batch_schedule ::
    "batch_item list \<Rightarrow> batch_config \<Rightarrow> 'w batch_state \<Rightarrow> 'w batch_state option" where
  "batch_schedule items cfg st =
     (if \<not> bs_stop st \<and> bs_next st < length items
         \<and> length (bs_running st) < bc_max_concurrency cfg \<and> \<not> bs_exclusive st
      then
        (if sl_results (bs_slots st) ! bs_next st \<noteq> None
         then batch_schedule items cfg (st\<lparr>bs_next := Suc (bs_next st)\<rparr>)
         else
           (case sl_prepared (bs_slots st) ! bs_next st of
              None \<Rightarrow> None
            | Some entry \<Rightarrow>
                (if \<not> tb_allows_parallel (rt_behavior entry)
                 then
                   (if bs_running st = []
                    then Some (st\<lparr>bs_running := [(bs_next st, entry, False)], bs_exclusive := True,
                                 bs_next := Suc (bs_next st)\<rparr>)
                    else Some st)
                 else batch_schedule items cfg
                        (st\<lparr>bs_running := bs_running st @ [(bs_next st, entry, False)],
                            bs_next := Suc (bs_next st)\<rparr>))))
      else Some st)"
  by pat_completeness auto
termination
  by (relation "measure (\<lambda>(items, cfg, st). length items - bs_next st)") auto

declare batch_schedule.simps [simp del]

text \<open>Poll running calls until one of them completes.\<close>

definition pending_count :: "'w running_call list \<Rightarrow> nat" where
  "pending_count rs = length (filter (\<lambda>(i, e, announced). \<not> announced) rs)"

definition drop_nth :: "nat \<Rightarrow> 'a list \<Rightarrow> 'a list" where
  "drop_nth k xs = take k xs @ drop (Suc k) xs"

lemma pending_count_update:
  assumes "k < length rs" and "rs ! k = (i, e, False)"
  shows "pending_count (rs[k := (i, e, True)]) < pending_count rs"
  using assms
proof (induction rs arbitrary: k)
  case (Cons r rs)
  then show ?case by (cases k) (auto simp: pending_count_def)
qed simp

function batch_await ::
    "'w executor \<Rightarrow> 'w tool_runtime \<Rightarrow> batch_item list \<Rightarrow> 'w running_call list \<Rightarrow> 'w
      \<Rightarrow> (nat \<times> tool_output execution_report) option \<times> 'w running_call list \<times> 'w" where
  "batch_await exe rt items running w =
     (if running = [] then (None, [], w)
      else
        (case exe_next exe (length running) w of
           (n, w1) \<Rightarrow>
             (let k = n mod length running in
              case running ! k of
                (i, entry, announced) \<Rightarrow>
                  (let x = items ! i; ctx = call_context (bi_call x) (Some i) in
                   if announced
                   then (case perform exe rt (bi_call x) (bi_options x) ctx entry w1 of
                           (report, w2) \<Rightarrow> (Some (i, report), drop_nth k running, w2))
                   else (case announce rt ctx w1 of
                           (Some report, w2) \<Rightarrow> (Some (i, report), drop_nth k running, w2)
                         | (None, w2) \<Rightarrow>
                             batch_await exe rt items (running[k := (i, entry, True)]) w2)))))"
  by pat_completeness auto
termination
  by (relation "measure (\<lambda>(exe, rt, items, running, w). pending_count running)")
    (auto intro!: pending_count_update)

declare batch_await.simps [simp del]

definition batch_record ::
    "batch_config \<Rightarrow> nat \<Rightarrow> tool_result execution_report \<Rightarrow> 'w running_call list \<Rightarrow> 'w batch_state
      \<Rightarrow> 'w batch_state" where
  "batch_record cfg i report running st =
     (let failed = (case xr_primary report of Inl _ \<Rightarrow> True | Inr _ \<Rightarrow> False); s = bs_slots st in
      st\<lparr>bs_slots := s\<lparr>sl_results := (sl_results s)[i := Some (xr_primary report)],
                       sl_failures := (sl_failures s)[i := xr_terminal_observer_failure report]\<rparr>,
         bs_running := running, bs_exclusive := False,
         bs_stop := (bs_stop st \<or> failed \<and> bc_failure_policy cfg = FailFast)\<rparr>)"

text \<open>
  The outer loop. It ends when nothing runs and nothing may be scheduled; \<open>None\<close> is a run that
  never ends.
\<close>

partial_function (option) batch_loop ::
    "'w executor \<Rightarrow> 'w tool_runtime \<Rightarrow> batch_item list \<Rightarrow> batch_config \<Rightarrow> 'w batch_state \<Rightarrow> 'w
      \<Rightarrow> ((batch_error, 'w batch_state) result \<times> 'w) option" where
  "batch_loop exe rt items cfg st w =
     (case batch_schedule items cfg st of
        None \<Rightarrow> Some (Panic, w)
      | Some st1 \<Rightarrow>
          (if bs_running st1 = []
           then
             (if bs_stop st1
              then Some (Ok (st1\<lparr>bs_slots := (bs_slots st1)\<lparr>sl_results :=
                       mark_not_started items (sl_results (bs_slots st1))\<rparr>\<rparr>), w)
              else if length items \<le> bs_next st1 then Some (Ok st1, w)
              else batch_loop exe rt items cfg st1 w)
           else
             (case batch_await exe rt items (bs_running st1) w of
                (None, running, w1) \<Rightarrow> Some (Panic, w1)
              | (Some (i, report), running, w1) \<Rightarrow>
                  batch_loop exe rt items cfg (batch_record cfg i (report_map to_result report) running st1) w1)))"

definition execute_batch_items ::
    "'w executor \<Rightarrow> 'w tool_runtime \<Rightarrow> batch_item list \<Rightarrow> batch_config \<Rightarrow> 'w
      \<Rightarrow> ((batch_error, batch_report) result \<times> 'w) option" where
  "execute_batch_items exe rt items cfg w =
     (if bc_max_concurrency cfg = 0 then Some (Err ZeroConcurrency, w)
      else case validate_unique_call_ids items of
        Some e \<Rightarrow> Some (Err e, w)
      | None \<Rightarrow>
          (case prepare_all rt 0 items w of
             (s, w1) \<Rightarrow>
               (if bc_failure_policy cfg = FailFast \<and> (\<exists>r \<in> set (sl_results s). r \<noteq> None)
                then Some (finish_report items (mark_not_started items (sl_results s)) (sl_failures s), w1)
                else
                  (case batch_loop exe rt items cfg
                          \<lparr>bs_slots = s, bs_running = [], bs_next = 0, bs_exclusive = False, bs_stop = False\<rparr> w1 of
                     None \<Rightarrow> None
                   | Some (x, w2) \<Rightarrow>
                       Some (result_bind x (\<lambda>st. finish_report items (sl_results (bs_slots st))
                               (sl_failures (bs_slots st))), w2)))))"

definition execute_batch ::
    "'w executor \<Rightarrow> 'w tool_runtime \<Rightarrow> tool_call list \<Rightarrow> batch_config \<Rightarrow> 'w
      \<Rightarrow> ((batch_error, batch_report) result \<times> 'w) option" where
  "execute_batch exe rt calls cfg = execute_batch_items exe rt (map batch_item_new calls) cfg"

end
