(* ===== verification/ToolBatches.thy ===== *)
theory ToolBatches
  imports ToolRuns
begin

text \<open>
  Reasoning about batches: the invariant of the scheduling loop, its progress, and what the loop
  delivers.
\<close>

section \<open>The invariant\<close>

definition runs_parallel :: "'w running_call \<Rightarrow> bool" where
  "runs_parallel x \<longleftrightarrow> tb_allows_parallel (rt_behavior (fst (snd x)))"

definition exclusive_ok :: "'w running_call list \<Rightarrow> bool" where
  "exclusive_ok rs \<longleftrightarrow> ((\<exists>x \<in> set rs. \<not> runs_parallel x) \<longrightarrow> length rs = 1)"

text \<open>A result of a call is what its own tool returned for this call.\<close>

definition produced_by :: "batch_item \<Rightarrow> 'w registered_tool \<Rightarrow> tool_result \<Rightarrow> bool" where
  "produced_by x entry res \<longleftrightarrow>
     (\<exists>w out w'. tl_execute (rt_tool entry) (tool_input_of (bi_call x) (bi_options x)) w = (Inr out, w')
        \<and> to_result out = res)"

definition delivered ::
    "batch_item list \<Rightarrow> 'w registered_tool option list \<Rightarrow> (tool_runtime_error + tool_result) option list \<Rightarrow> bool" where
  "delivered items ps rs \<longleftrightarrow>
     (\<forall>i < length items. \<forall>res. rs ! i = Some (Inr res) \<longrightarrow>
        (\<exists>entry. ps ! i = Some entry \<and> produced_by (items ! i) entry res))"

definition slots_ok :: "batch_item list \<Rightarrow> 'w batch_slots \<Rightarrow> bool" where
  "slots_ok items s \<longleftrightarrow>
     length (sl_prepared s) = length items \<and> length (sl_results s) = length items
     \<and> length (sl_failures s) = length items
     \<and> (\<forall>i < length items. sl_results s ! i = None \<longrightarrow> sl_prepared s ! i \<noteq> None)
     \<and> (\<forall>i < length items. \<forall>e. sl_results s ! i = Some (Inl e) \<longrightarrow> tre_kind e \<noteq> NotStartedDueToFailFast)
     \<and> delivered items (sl_prepared s) (sl_results s)"

definition batch_ok :: "batch_item list \<Rightarrow> batch_config \<Rightarrow> 'w batch_state \<Rightarrow> bool" where
  "batch_ok items cfg st \<longleftrightarrow>
     slots_ok items (bs_slots st) \<and> bs_next st \<le> length items
     \<and> distinct (map fst (bs_running st))
     \<and> (\<forall>x \<in> set (bs_running st). fst x < bs_next st \<and> sl_results (bs_slots st) ! fst x = None
          \<and> sl_prepared (bs_slots st) ! fst x = Some (fst (snd x)))
     \<and> (\<forall>i < bs_next st. sl_results (bs_slots st) ! i = None \<longrightarrow> i \<in> fst ` set (bs_running st))
     \<and> length (bs_running st) \<le> bc_max_concurrency cfg
     \<and> exclusive_ok (bs_running st)
     \<and> (bs_exclusive st \<longleftrightarrow> (\<exists>x \<in> set (bs_running st). \<not> runs_parallel x))
     \<and> (bs_stop st \<longrightarrow> bc_failure_policy cfg = FailFast)"

lemma batch_okD:
  assumes "batch_ok items cfg st"
  shows "slots_ok items (bs_slots st)" "bs_next st \<le> length items" "distinct (map fst (bs_running st))"
    "x \<in> set (bs_running st) \<Longrightarrow> fst x < bs_next st \<and> sl_results (bs_slots st) ! fst x = None
          \<and> sl_prepared (bs_slots st) ! fst x = Some (fst (snd x))"
    "i < bs_next st \<Longrightarrow> sl_results (bs_slots st) ! i = None \<Longrightarrow> i \<in> fst ` set (bs_running st)"
    "length (bs_running st) \<le> bc_max_concurrency cfg" "exclusive_ok (bs_running st)"
    "bs_exclusive st \<longleftrightarrow> (\<exists>x \<in> set (bs_running st). \<not> runs_parallel x)"
    "bs_stop st \<Longrightarrow> bc_failure_policy cfg = FailFast"
  using assms unfolding batch_ok_def by blast+

section \<open>Scheduling\<close>

definition schedule_result ::
    "batch_item list \<Rightarrow> batch_config \<Rightarrow> 'w batch_state \<Rightarrow> 'w batch_state \<Rightarrow> bool" where
  "schedule_result items cfg st st1 \<longleftrightarrow>
     batch_ok items cfg st1 \<and> bs_slots st1 = bs_slots st \<and> bs_stop st1 = bs_stop st
     \<and> (bs_running st1 = [] \<longrightarrow> bs_stop st1 \<or> bs_next st1 = length items \<or> bc_max_concurrency cfg = 0)"

lemma batch_schedule_ok:
  "batch_ok items cfg st \<Longrightarrow> \<exists>st1. batch_schedule items cfg st = Some st1 \<and> schedule_result items cfg st st1"
proof (induction items cfg st rule: batch_schedule.induct)
  case (1 items cfg st)
  let ?s = "bs_slots st" and ?n = "bs_next st"
  show ?case
  proof (cases "\<not> bs_stop st \<and> ?n < length items \<and> length (bs_running st) < bc_max_concurrency cfg \<and> \<not> bs_exclusive st")
    case False
    then have "batch_schedule items cfg st = Some st" by (subst batch_schedule.simps) (simp only: if_False)
    moreover have "bs_exclusive st \<longrightarrow> bs_running st \<noteq> []" "?n \<le> length items"
      using batch_okD(2,8) [OF "1.prems"] by auto
    then have "schedule_result items cfg st st"
      using False "1.prems" by (auto simp: schedule_result_def)
    ultimately show ?thesis by blast
  next
    case go: True
    show ?thesis
    proof (cases "sl_results ?s ! ?n")
      case (Some r)
      have "batch_ok items cfg (st\<lparr>bs_next := Suc ?n\<rparr>)"
        using "1.prems" go Some by (auto simp: batch_ok_def less_Suc_eq)
      from "1.IH"(1) [OF go _ this] show ?thesis
        using go Some by (subst batch_schedule.simps) (simp add: schedule_result_def)
    next
      case None
      then obtain entry where e: "sl_prepared ?s ! ?n = Some entry"
        using batch_okD(1) [OF "1.prems"] go by (auto simp: slots_ok_def)
      have fresh: "?n \<notin> fst ` set (bs_running st)" using batch_okD(4) [OF "1.prems"] by fastforce
      have par: "\<forall>x \<in> set (bs_running st). runs_parallel x"
        using batch_okD(8) [OF "1.prems"] go by blast
      show ?thesis
      proof (cases "tb_allows_parallel (rt_behavior entry)")
        case True
        let ?st = "st\<lparr>bs_running := bs_running st @ [(?n, entry, False)], bs_next := Suc ?n\<rparr>"
        have "batch_ok items cfg ?st"
          using "1.prems" go None e fresh True par
          by (auto simp: batch_ok_def less_Suc_eq exclusive_ok_def runs_parallel_def)
        from "1.IH"(2) [OF go _ e _ this] show ?thesis
          using go None e True by (subst batch_schedule.simps) (simp add: schedule_result_def)
      next
        case False
        show ?thesis
        proof (cases "bs_running st = []")
          case True
          let ?st = "st\<lparr>bs_running := [(?n, entry, False)], bs_exclusive := True, bs_next := Suc ?n\<rparr>"
          have "batch_ok items cfg ?st"
            using "1.prems" go None e False True
            by (auto simp: batch_ok_def less_Suc_eq exclusive_ok_def runs_parallel_def)
          then show ?thesis
            using go None e False True by (subst batch_schedule.simps) (simp add: schedule_result_def)
        next
          case running: False
          then show ?thesis
            using go None e False "1.prems" by (subst batch_schedule.simps) (simp add: schedule_result_def)
        qed
      qed
    qed
  qed
qed

section \<open>Completion\<close>

definition same_calls :: "'w running_call list \<Rightarrow> 'w running_call list \<Rightarrow> bool" where
  "same_calls rs rs' \<longleftrightarrow> map (\<lambda>x. (fst x, fst (snd x))) rs = map (\<lambda>x. (fst x, fst (snd x))) rs'"

lemma announce_kind:
  "announce rt ctx w = (Some rep, w1) \<Longrightarrow> \<exists>e. xr_primary rep = Inl e \<and> tre_kind e = ObserverFailed"
  by (auto simp: announce_def report_new_def observer_failed_def runtime_error_with_source_def
      runtime_error_new_def split: prod.splits sum.splits)

lemma conclude_kind:
  "conclude rt ctx out w = (rep, w1) \<Longrightarrow> xr_primary rep = Inl e \<Longrightarrow> tre_kind e \<noteq> NotStartedDueToFailFast"
  by (auto simp: conclude_def report_new_def runtime_error_with_source_def runtime_error_new_def Let_def
      split: prod.splits sum.splits tool_error_kind.splits)

lemma perform_kind:
  "perform exe rt call opts ctx entry w = (rep, w1) \<Longrightarrow> xr_primary rep = Inl e \<Longrightarrow>
     tre_kind e \<noteq> NotStartedDueToFailFast"
  using conclude_kind
  by (fastforce simp: perform_def report_new_def timed_out_def runtime_error_with_source_def
      runtime_error_new_def split: prod.splits option.splits bool.splits)

lemma conclude_produced:
  "conclude rt ctx out w = (rep, w1) \<Longrightarrow> xr_primary rep = Inr o1 \<Longrightarrow> out = Inr o1"
  by (auto simp: conclude_def report_new_def Let_def split: prod.splits sum.splits)

lemma perform_produced:
  "perform exe rt (bi_call x) (bi_options x) ctx entry w = (rep, w1) \<Longrightarrow> xr_primary rep = Inr out \<Longrightarrow>
     produced_by x entry (to_result out)"
  unfolding perform_def produced_by_def
  by (auto simp: report_new_def split: prod.splits option.splits bool.splits dest!: conclude_produced)

definition await_result ::
    "batch_item list \<Rightarrow> 'w running_call list \<Rightarrow> (nat \<times> tool_output execution_report) option
      \<Rightarrow> 'w running_call list \<Rightarrow> bool" where
  "await_result items rs x rs' \<longleftrightarrow>
     (\<exists>k i rep rs0. x = Some (i, rep) \<and> k < length rs0 \<and> same_calls rs rs0 \<and> i = fst (rs0 ! k)
        \<and> rs' = drop_nth k rs0
        \<and> (\<forall>e. xr_primary rep = Inl e \<longrightarrow> tre_kind e \<noteq> NotStartedDueToFailFast)
        \<and> (\<forall>out. xr_primary rep = Inr out \<longrightarrow>
             produced_by (items ! i) (fst (snd (rs0 ! k))) (to_result out)))"

lemma await_resultI:
  assumes "k < length rs0" and "same_calls rs rs0" and "rs0 ! k = (i, entry, a)"
    and "\<And>e. xr_primary rep = Inl e \<Longrightarrow> tre_kind e \<noteq> NotStartedDueToFailFast"
    and "\<And>out. xr_primary rep = Inr out \<Longrightarrow> produced_by (items ! i) entry (to_result out)"
  shows "await_result items rs (Some (i, rep)) (drop_nth k rs0)"
  unfolding await_result_def
  by (intro exI [of _ k] exI [of _ i] exI [of _ rep] exI [of _ rs0]) (use assms in simp)

lemma await_result_same:
  assumes "same_calls rs rs1" and "await_result items rs1 x rs'"
  shows "await_result items rs x rs'"
proof -
  have "same_calls rs rs0" if "same_calls rs1 rs0" for rs0
    using assms(1) that by (simp add: same_calls_def)
  then show ?thesis
    using assms(2) unfolding await_result_def by (elim exE conjE) (intro exI conjI; blast)
qed

lemma same_calls_update: "k < length rs \<Longrightarrow> rs ! k = (i, e, a) \<Longrightarrow> same_calls rs (rs[k := (i, e, b)])"
  unfolding same_calls_def by (rule nth_equalityI) (auto simp: nth_list_update)

lemma batch_await_result:
  "rs \<noteq> [] \<Longrightarrow> batch_await exe rt items rs w = (x, rs', w') \<Longrightarrow> await_result items rs x rs'"
proof (induction exe rt items rs w arbitrary: x rs' w' rule: batch_await.induct)
  case (1 exe rt items rs w)
  obtain n w1 where n: "exe_next exe (length rs) w = (n, w1)" by fastforce
  let ?k = "n mod length rs"
  have k: "?k < length rs" using "1.prems"(1) by simp
  obtain i entry announced where c: "rs ! ?k = (i, entry, announced)" by (metis prod.exhaust)
  let ?x = "items ! i"
  let ?ctx = "call_context (bi_call ?x) (Some i)"
  have refl: "same_calls rs rs" by (simp add: same_calls_def)
  show ?case
  proof (cases announced)
    case True
    obtain rep w2 where p: "perform exe rt (bi_call ?x) (bi_options ?x) ?ctx entry w1 = (rep, w2)" by fastforce
    then have "x = Some (i, rep) \<and> rs' = drop_nth ?k rs"
      using "1.prems" n c True by (subst (asm) batch_await.simps) (simp add: Let_def)
    then show ?thesis
      using await_resultI [OF k refl c, of rep items] perform_kind [OF p] perform_produced [OF p] by simp
  next
    case False
    obtain r w2 where a: "announce rt ?ctx w1 = (r, w2)" by fastforce
    show ?thesis
    proof (cases r)
      case None
      let ?rs = "rs[?k := (i, entry, True)]"
      have "batch_await exe rt items ?rs w2 = (x, rs', w')"
        using "1.prems" n c False a None by (subst (asm) batch_await.simps) (simp add: Let_def)
      moreover have "?rs \<noteq> []" using "1.prems"(1) by simp
      ultimately have "await_result items ?rs x rs'"
        using "1.IH" n c False a None by simp
      then show ?thesis
        by (rule await_result_same [OF same_calls_update [OF k c]])
    next
      case (Some rep)
      then have "x = Some (i, rep) \<and> rs' = drop_nth ?k rs"
        using "1.prems" n c False a by (subst (asm) batch_await.simps) (simp add: Let_def)
      moreover obtain e where e: "xr_primary rep = Inl e" "tre_kind e = ObserverFailed"
        using announce_kind [of rt ?ctx w1 rep w2] a Some by blast
      ultimately show ?thesis
        using await_resultI [OF k refl c, of rep items] by simp
    qed
  qed
qed

lemma same_calls_facts:
  assumes "same_calls rs rs'"
  shows "map fst rs' = map fst rs" "length rs' = length rs"
    "x \<in> set rs' \<Longrightarrow> \<exists>y \<in> set rs. fst y = fst x \<and> fst (snd y) = fst (snd x)"
    "x \<in> set rs \<Longrightarrow> \<exists>y \<in> set rs'. fst y = fst x \<and> fst (snd y) = fst (snd x)"
proof -
  let ?p = "\<lambda>x :: 'a running_call. (fst x, fst (snd x))"
  have eq: "map ?p rs = map ?p rs'" using assms by (simp add: same_calls_def)
  from arg_cong [OF eq, of "map fst"] show "map fst rs' = map fst rs" by (simp add: comp_def)
  from arg_cong [OF eq, of length] show "length rs' = length rs" by simp
  from arg_cong [OF eq, of set] have sets: "?p ` set rs = ?p ` set rs'" by simp
  show "\<exists>y \<in> set rs. fst y = fst x \<and> fst (snd y) = fst (snd x)" if "x \<in> set rs'"
  proof -
    have "?p x \<in> ?p ` set rs" using imageI [OF that, of ?p] sets by (simp only:)
    then obtain y where "y \<in> set rs" "?p x = ?p y" by (elim imageE)
    then show ?thesis by (intro bexI [of _ y]) simp_all
  qed
  show "\<exists>y \<in> set rs'. fst y = fst x \<and> fst (snd y) = fst (snd x)" if "x \<in> set rs"
  proof -
    have "?p x \<in> ?p ` set rs'" using imageI [OF that, of ?p] sets by (simp only:)
    then obtain y where "y \<in> set rs'" "?p x = ?p y" by (elim imageE)
    then show ?thesis by (intro bexI [of _ y]) simp_all
  qed
qed

lemma batch_ok_same_calls:
  assumes ok: "batch_ok items cfg st" and "same_calls (bs_running st) rs"
  shows "batch_ok items cfg (st\<lparr>bs_running := rs\<rparr>)"
proof -
  note f = same_calls_facts [OF assms(2)]
  have par: "(\<exists>x \<in> set rs. \<not> runs_parallel x) \<longleftrightarrow> (\<exists>x \<in> set (bs_running st). \<not> runs_parallel x)"
    using f(3,4) unfolding runs_parallel_def by metis
  have run: "fst x < bs_next st \<and> sl_results (bs_slots st) ! fst x = None
      \<and> sl_prepared (bs_slots st) ! fst x = Some (fst (snd x))" if "x \<in> set rs" for x
    using f(3) [OF that] batch_okD(4) [OF ok] by metis
  have "fst ` set rs = fst ` set (bs_running st)" using f(1) by (metis set_map)
  then show ?thesis
    using ok f(1,2) par run unfolding batch_ok_def exclusive_ok_def by simp
qed

lemma drop_nth_facts:
  assumes "k < length rs" and "distinct (map fst rs)"
  shows "set (drop_nth k rs) \<subseteq> set rs" "fst ` set (drop_nth k rs) = fst ` set rs - {fst (rs ! k)}"
    "distinct (map fst (drop_nth k rs))" "length (drop_nth k rs) = length rs - 1"
proof -
  have rs: "rs = take k rs @ rs ! k # drop (Suc k) rs" using assms(1) by (rule id_take_nth_drop)
  show "set (drop_nth k rs) \<subseteq> set rs" by (auto simp: drop_nth_def dest: in_set_takeD in_set_dropD)
  show "length (drop_nth k rs) = length rs - 1" using assms(1) by (simp add: drop_nth_def)
  have d: "distinct (map fst (take k rs @ rs ! k # drop (Suc k) rs))" using assms(2) rs by metis
  then show "distinct (map fst (drop_nth k rs))" by (simp add: drop_nth_def)
  have "fst ` set rs = fst ` set (take k rs @ rs ! k # drop (Suc k) rs)" using rs by metis
  then show "fst ` set (drop_nth k rs) = fst ` set rs - {fst (rs ! k)}"
    using d by (simp add: drop_nth_def image_Un insert_Diff_if)
qed

definition undone :: "'w batch_state \<Rightarrow> nat" where
  "undone st = length (filter (\<lambda>r. r = None) (sl_results (bs_slots st)))"

lemma undone_update: "i < length xs \<Longrightarrow> xs ! i = None \<Longrightarrow>
    length (filter (\<lambda>r. r = None) (xs[i := Some y])) < length (filter (\<lambda>r. r = None) xs)"
  by (induction xs arbitrary: i) (auto simp: nth_Cons split: nat.splits)

lemma report_map_Inl: "xr_primary (report_map f r) = Inl e \<longleftrightarrow> xr_primary r = Inl e"
  by (cases "xr_primary r") (auto simp: report_map_def report_new_def)

lemma report_map_Inr: "xr_primary (report_map f r) = Inr x \<longleftrightarrow> (\<exists>y. xr_primary r = Inr y \<and> x = f y)"
  by (cases "xr_primary r") (auto simp: report_map_def report_new_def)

text \<open>A result that is known stays.\<close>

definition keeps_results :: "'a option list \<Rightarrow> 'a option list \<Rightarrow> bool" where
  "keeps_results rs rs' \<longleftrightarrow>
     length rs' = length rs \<and> (\<forall>i < length rs. rs ! i \<noteq> None \<longrightarrow> rs' ! i = rs ! i)"

lemma keeps_results_refl [simp]: "keeps_results rs rs"
  by (simp add: keeps_results_def)

lemma keeps_results_trans: "keeps_results a b \<Longrightarrow> keeps_results b c \<Longrightarrow> keeps_results a c"
  by (simp add: keeps_results_def)

lemma keeps_results_update: "rs ! i = None \<Longrightarrow> keeps_results rs (rs[i := r])"
proof -
  have "rs[i := r] ! j = rs ! j" if "rs ! i = None" "rs ! j \<noteq> None" for j
    using that by (cases "j = i") auto
  then show "rs ! i = None \<Longrightarrow> keeps_results rs (rs[i := r])" by (simp add: keeps_results_def)
qed

lemma batch_record_ok:
  assumes ok: "batch_ok items cfg st" and await: "await_result items (bs_running st) (Some (i, rep)) rs'"
  shows "batch_ok items cfg (batch_record cfg i (report_map to_result rep) rs' st)
    \<and> undone (batch_record cfg i (report_map to_result rep) rs' st) < undone st
    \<and> keeps_results (sl_results (bs_slots st))
        (sl_results (bs_slots (batch_record cfg i (report_map to_result rep) rs' st)))"
proof -
  obtain k rs0 where k: "k < length rs0" "same_calls (bs_running st) rs0" "i = fst (rs0 ! k)"
      "rs' = drop_nth k rs0" and kind: "\<And>e. xr_primary rep = Inl e \<Longrightarrow> tre_kind e \<noteq> NotStartedDueToFailFast"
      and made: "\<And>out. xr_primary rep = Inr out \<Longrightarrow>
        produced_by (items ! i) (fst (snd (rs0 ! k))) (to_result out)"
    using await by (auto simp: await_result_def)
  let ?st = "st\<lparr>bs_running := rs0\<rparr>"
  have ok0: "batch_ok items cfg ?st" using batch_ok_same_calls [OF ok k(2)] .
  note D = batch_okD [OF ok0, simplified]
  note drop = drop_nth_facts [OF k(1) D(3), folded k(3,4)]
  have i: "i < bs_next st" "sl_results (bs_slots st) ! i = None"
    using D(4) [OF nth_mem [OF k(1)]] k(3) by auto
  have len: "i < length (sl_results (bs_slots st))" "i < length items"
    using i(1) D(1,2) by (auto simp: slots_ok_def)
  have par: "\<forall>x \<in> set rs'. runs_parallel x"
  proof
    fix x assume "x \<in> set rs'"
    then have "length rs' \<noteq> 0" "x \<in> set rs0" using drop(1) by auto
    then show "runs_parallel x" using D(7) drop(4) by (auto simp: exclusive_ok_def)
  qed
  let ?s = "(bs_slots st)\<lparr>sl_results := (sl_results (bs_slots st))[i := Some (xr_primary (report_map to_result rep))],
      sl_failures := (sl_failures (bs_slots st))[i := xr_terminal_observer_failure (report_map to_result rep)]\<rparr>"
  have "sl_prepared (bs_slots st) ! i = Some (fst (snd (rs0 ! k)))"
    using D(4) [OF nth_mem [OF k(1)]] k(3) by simp
  then have deliver: "delivered items (sl_prepared ?s) (sl_results ?s)"
    using D(1) len made
    by (auto simp: slots_ok_def delivered_def nth_list_update report_map_Inr)
  have slots: "slots_ok items ?s"
    using D(1) len kind deliver by (auto simp: slots_ok_def nth_list_update report_map_Inl)
  have running: "fst x < bs_next st \<and> sl_results ?s ! fst x = None \<and> sl_prepared ?s ! fst x = Some (fst (snd x))"
    if "x \<in> set rs'" for x
  proof -
    have "fst x \<noteq> i" using that drop(2) by (metis Diff_iff image_eqI insertI1)
    then show ?thesis using D(4) [of x] drop(1) that by auto
  qed
  have rest: "j \<in> fst ` set rs'" if "j < bs_next st" "sl_results ?s ! j = None" for j
  proof -
    have "j \<noteq> i" using that(2) len(1) by auto
    then show ?thesis using that D(5) [of j] drop(2) by auto
  qed
  have "batch_ok items cfg (batch_record cfg i (report_map to_result rep) rs' st)"
    using slots running rest D(2,6,9) drop(3,4) par
    unfolding batch_ok_def batch_record_def Let_def exclusive_ok_def by auto
  moreover have "undone (batch_record cfg i (report_map to_result rep) rs' st) < undone st"
    using undone_update [OF len(1) i(2)] by (simp add: undone_def batch_record_def Let_def)
  moreover have "keeps_results (sl_results (bs_slots st))
      (sl_results (bs_slots (batch_record cfg i (report_map to_result rep) rs' st)))"
    using i(2) by (simp add: batch_record_def Let_def keeps_results_update)
  ultimately show ?thesis by simp
qed

section \<open>The loop\<close>

definition loop_result ::
    "batch_item list \<Rightarrow> batch_config \<Rightarrow> 'w batch_slots
      \<Rightarrow> (batch_error, 'w batch_state) result \<Rightarrow> bool" where
  "loop_result items cfg s x \<longleftrightarrow>
     (\<exists>st. x = Ok st \<and> keeps_results (sl_results s) (sl_results (bs_slots st))
        \<and> delivered items (sl_prepared s) (sl_results (bs_slots st))
        \<and> length (sl_results (bs_slots st)) = length items
        \<and> length (sl_failures (bs_slots st)) = length items
        \<and> None \<notin> set (sl_results (bs_slots st))
        \<and> (bc_failure_policy cfg = CollectAll \<longrightarrow>
             (\<forall>e. Some (Inl e) \<in> set (sl_results (bs_slots st)) \<longrightarrow> tre_kind e \<noteq> NotStartedDueToFailFast)))"

lemma mark_not_started_total:
  "length items = length rs \<Longrightarrow> delivered items ps rs \<Longrightarrow> None \<notin> set (mark_not_started items rs)
     \<and> length (mark_not_started items rs) = length rs \<and> keeps_results rs (mark_not_started items rs)
     \<and> delivered items ps (mark_not_started items rs)"
  by (auto simp: mark_not_started_def keeps_results_def delivered_def nth_enumerate_eq split: option.splits)

lemma batch_loop_total:
  assumes "batch_ok items cfg st" and "bc_max_concurrency cfg \<noteq> 0"
  shows "\<exists>x w'. batch_loop exe rt items cfg st w = Some (x, w') \<and> loop_result items cfg (bs_slots st) x"
  using assms(1)
proof (induction st arbitrary: w rule: measure_induct_rule [where f = undone])
  case (less st)
  obtain st1 where sch: "batch_schedule items cfg st = Some st1" "schedule_result items cfg st st1"
    using batch_schedule_ok [OF less.prems] by blast
  have ok1: "batch_ok items cfg st1" and u: "undone st1 = undone st"
    and eq: "bs_slots st1 = bs_slots st"
    using sch(2) by (simp_all add: schedule_result_def undone_def)
  have slots: "slots_ok items (bs_slots st1)" by (rule batch_okD(1) [OF ok1])
  show ?case
  proof (cases "bs_running st1 = []")
    case True
    show ?thesis
    proof (cases "bs_stop st1")
      case stop: True
      then have "bc_failure_policy cfg = FailFast" by (rule batch_okD(9) [OF ok1])
      then show ?thesis
        using sch(1) True stop slots eq mark_not_started_total [of items "sl_results (bs_slots st1)" "sl_prepared (bs_slots st1)"]
        by (subst batch_loop.simps) (simp add: loop_result_def slots_ok_def)
    next
      case False
      then have "bs_next st1 = length items" using sch(2) True assms(2) by (simp add: schedule_result_def)
      moreover have "sl_results (bs_slots st1) ! i \<noteq> None" if "i < length items" for i
        using batch_okD(5) [OF ok1, of i] that calculation True by auto
      ultimately show ?thesis
        using sch(1) True False slots eq
        by (subst batch_loop.simps) (auto simp: loop_result_def slots_ok_def in_set_conv_nth)
    qed
  next
    case False
    obtain x rs' w1 where aw: "batch_await exe rt items (bs_running st1) w = (x, rs', w1)" by (metis prod.exhaust)
    have res: "await_result items (bs_running st1) x rs'" by (rule batch_await_result [OF False aw])
    then obtain i rep where x: "x = Some (i, rep)" by (auto simp: await_result_def)
    let ?st = "batch_record cfg i (report_map to_result rep) rs' st1"
    have rec: "batch_ok items cfg ?st" "undone ?st < undone st"
        "keeps_results (sl_results (bs_slots st)) (sl_results (bs_slots ?st))"
      using batch_record_ok [OF ok1 res [unfolded x]] u eq by simp_all
    have prep: "sl_prepared (bs_slots ?st) = sl_prepared (bs_slots st)"
      using eq by (simp add: batch_record_def Let_def)
    have "batch_loop exe rt items cfg st w = batch_loop exe rt items cfg ?st w1"
      using sch(1) False aw x by (subst batch_loop.simps) simp
    then show ?thesis
      using less.IH [OF rec(2,1), of w1] keeps_results_trans [OF rec(3)] prep
      by (auto simp: loop_result_def)
  qed
qed

section \<open>Preparation\<close>

lemma prepare_kind: "prepare rt call opts ctx = Inl e \<Longrightarrow> tre_kind e \<noteq> NotStartedDueToFailFast"
  by (auto simp: prepare_def runtime_error_new_def invalid_arguments_error_def
      split: if_splits option.splits)

lemma prepare_all_slots:
  assumes "prepare_all rt k items w = (s, w')"
  shows "slots_ok items s \<and> (\<forall>i < length items. (sl_prepared s ! i, sl_results s ! i) =
    (case prepare rt (bi_call (items ! i)) (bi_options (items ! i))
            (call_context (bi_call (items ! i)) (Some (k + i))) of
       Inl e \<Rightarrow> (None, Some (Inl e)) | Inr entry \<Rightarrow> (Some entry, None)))"
  using assms
proof (induction rt k items w arbitrary: s w' rule: prepare_all.induct)
  case (1 rt k w)
  then show ?case by (auto simp: slots_ok_def delivered_def)
next
  case (2 rt k x xs w)
  show ?case
  proof (cases "prepare rt (bi_call x) (bi_options x) (call_context (bi_call x) (Some k))")
    case (Inl e)
    obtain f w1 where f: "emit_failure rt e w = (f, w1)" by fastforce
    obtain s1 w2 where s1: "prepare_all rt (Suc k) xs w1 = (s1, w2)" by fastforce
    have "s = \<lparr>sl_prepared = None # sl_prepared s1, sl_results = Some (Inl e) # sl_results s1,
        sl_failures = f # sl_failures s1\<rparr>"
      using "2.prems" Inl f s1 by simp
    then show ?thesis
      using "2.IH" Inl f s1 prepare_kind [OF Inl]
      by (auto simp: slots_ok_def delivered_def all_less_Suc)
  next
    case (Inr entry)
    obtain s1 w2 where s1: "prepare_all rt (Suc k) xs w = (s1, w2)" by fastforce
    have "s = \<lparr>sl_prepared = Some entry # sl_prepared s1, sl_results = None # sl_results s1,
        sl_failures = None # sl_failures s1\<rparr>"
      using "2.prems" Inr s1 by simp
    then show ?thesis
      using "2.IH" Inr s1
      by (auto simp: slots_ok_def delivered_def all_less_Suc)
  qed
qed

lemma batch_ok_start:
  "slots_ok items s \<Longrightarrow> batch_ok items cfg
     \<lparr>bs_slots = s, bs_running = [], bs_next = 0, bs_exclusive = False, bs_stop = False\<rparr>"
  by (simp add: batch_ok_def exclusive_ok_def)

lemma unique_call_ids_None:
  "unique_call_ids seen i items = None \<longleftrightarrow>
     distinct (map (\<lambda>x. tc_id (bi_call x)) items) \<and> dom seen \<inter> (\<lambda>x. tc_id (bi_call x)) ` set items = {}"
proof (induction seen i items rule: unique_call_ids.induct)
  case (2 seen i x xs)
  show ?case
  proof (cases "seen (tc_id (bi_call x))")
    case None
    then show ?thesis
      using "2.IH" [OF refl None] by (simp add: Let_def dom_fun_upd del: fun_upd_apply) blast
  next
    case (Some j)
    then have "tc_id (bi_call x) \<in> dom seen" by blast
    then show ?thesis using Some by (auto simp: Let_def)
  qed
qed simp

lemma those_total: "None \<notin> set xs \<Longrightarrow> \<exists>ys. those xs = Some ys \<and> map Some ys = xs"
proof (induction xs)
  case (Cons x xs)
  then show ?case by (cases x) auto
qed simp

end
