(* ===== verification/AgentNodes.thy ===== *)
theory AgentNodes
  imports Resumption ToolBatches
begin

text \<open>
  The tool-calling agent of \<open>group-agent-prebuilt\<close>: its state (\<open>state.rs\<close>, \<open>snapshot.rs\<close>), stream
  events (\<open>stream.rs\<close>), approval values (\<open>approval.rs\<close>) and the two nodes of its graph
  (\<open>agent_nodes.rs\<close>). Reading and validating JSON are parameters, as in the model crate.
\<close>

section \<open>Outcomes and events\<close>

datatype agent_stop_reason = FinalAnswer | MaxRounds

record agent_outcome =
  ao_output :: "json option"
  ao_messages :: "message list"
  ao_model_rounds :: nat
  ao_usage_by_round :: "token_usage option list"
  ao_stop_reason :: agent_stop_reason

text \<open>The requests and decisions of approvals, among the dynamically typed values.\<close>

datatype approval_decision = Approve | Reject

datatype agent_value =
    ApprovalRequest "tool_call list"
  | ApprovalDecision approval_decision
  | OpaqueValue string

definition approval_request_type :: type_id where "approval_request_type = 1"
definition approval_decision_type :: type_id where "approval_decision_type = 2"

definition approval_payload :: "tool_call list \<Rightarrow> agent_value typed_value" where
  "approval_payload calls =
     TypedValue approval_request_type ''group_agent_prebuilt::approval::AgentApprovalRequest''
       (ApprovalRequest calls)"

record agent_interrupted =
  ai_thread_id :: thread_id
  ai_checkpoint_id :: checkpoint_id
  ai_approval_request :: "tool_call list option"

datatype agent_stream_event =
    ModelStartedEvent nat
  | TextDeltaEvent nat string
  | ToolCallDeltaEvent nat tool_call_delta
  | ModelCompletedEvent nat
  | ApprovalRequiredEvent "tool_call list"
  | ToolStartedEvent tool_call_id tool_name nat
  | ToolCompletedEvent tool_call_id tool_name nat bool
  | CompletedEvent agent_outcome
  | InterruptedEvent agent_interrupted

type_synonym 'w agent_sink = "agent_stream_event \<Rightarrow> 'w \<Rightarrow> 'w"

section \<open>State\<close>

record 'w agent_state =
  as_messages :: "message list"
  as_model_rounds :: nat
  as_usage_by_round :: "token_usage option list"
  as_stop_reason :: "agent_stop_reason option"
  as_sink :: "'w agent_sink option"

definition agent_state_new :: "message list \<Rightarrow> 'w agent_state" where
  "agent_state_new ms =
     \<lparr>as_messages = ms, as_model_rounds = 0, as_usage_by_round = [], as_stop_reason = None, as_sink = None\<rparr>"

definition with_sink :: "'w agent_sink \<Rightarrow> 'w agent_state \<Rightarrow> 'w agent_state" where
  "with_sink k s = s\<lparr>as_sink := Some k\<rparr>"

definition usage_is_aligned :: "'w agent_state \<Rightarrow> bool" where
  "usage_is_aligned s \<longleftrightarrow> length (as_usage_by_round s) = as_model_rounds s"

definition last_message :: "message list \<Rightarrow> message option" where
  "last_message ms = (if ms = [] then None else Some (last ms))"

definition pending_tool_calls :: "'w agent_state \<Rightarrow> tool_call list option" where
  "pending_tool_calls s =
     map_option am_tool_calls (Option.bind (last_message (as_messages s)) as_assistant)"

datatype agent_update =
    ModelUpdate assistant_message "token_usage option"
  | ToolsUpdate "tool_message list" bool

fun agent_apply :: "'w agent_state \<Rightarrow> agent_update \<Rightarrow> state_error + 'w agent_state" where
  "agent_apply s (ModelUpdate m usage) =
     (if as_stop_reason s \<noteq> None then Inl (error_message ''agent is already stopped'')
      else if \<not> usage_is_aligned s
      then Inl (error_message ''agent usage and round counts diverged'')
      else
        (case usize_checked_add (as_model_rounds s) 1 of
           None \<Rightarrow> Inl (error_message ''agent model round counter overflow'')
         | Some rounds \<Rightarrow>
             Inr (s\<lparr>as_messages := as_messages s @ [Assistant m], as_model_rounds := rounds,
                    as_usage_by_round := as_usage_by_round s @ [usage],
                    as_stop_reason := (if am_tool_calls m = [] then Some FinalAnswer else None)\<rparr>)))"
| "agent_apply s (ToolsUpdate ms reached) =
     (if as_stop_reason s \<noteq> None then Inl (error_message ''agent is already stopped'')
      else if as_model_rounds s = 0 \<or> \<not> usage_is_aligned s
      then Inl (error_message ''agent model round state is invalid'')
      else
        (case pending_tool_calls s of
           None \<Rightarrow> Inl (error_message ''tool update requires a preceding assistant message'')
         | Some calls \<Rightarrow>
             (if calls = []
              then Inl (error_message ''tool update requires at least one pending tool call'')
              else if length calls \<noteq> length ms
                   \<or> list_ex (\<lambda>(c, m). tc_id c \<noteq> tm_tool_call_id m) (zip calls ms)
              then Inl (error_message ''tool update messages do not match pending calls'')
              else Inr (s\<lparr>as_messages := as_messages s @ map Tool ms,
                          as_stop_reason := (if reached then Some MaxRounds else None)\<rparr>))))"

definition agent_ops :: "('w agent_state, agent_update) state_ops" where
  "agent_ops = \<lparr>apply_update = agent_apply, apply_batch = default_apply_batch agent_apply\<rparr>"

record agent_snapshot =
  sn_messages :: "message list"
  sn_model_rounds :: nat
  sn_usage_by_round :: "token_usage option list"
  sn_stop_reason :: "agent_stop_reason option"

definition agent_snapshot_of :: "'w agent_state \<Rightarrow> snapshot_error + agent_snapshot" where
  "agent_snapshot_of s =
     Inr \<lparr>sn_messages = as_messages s, sn_model_rounds = as_model_rounds s,
          sn_usage_by_round = as_usage_by_round s, sn_stop_reason = as_stop_reason s\<rparr>"

definition agent_restore :: "agent_snapshot \<Rightarrow> snapshot_error + 'w agent_state" where
  "agent_restore sn =
     Inr \<lparr>as_messages = sn_messages sn, as_model_rounds = sn_model_rounds sn,
          as_usage_by_round = sn_usage_by_round sn, as_stop_reason = sn_stop_reason sn, as_sink = None\<rparr>"

definition agent_snapshots :: "('w agent_state, agent_snapshot) checkpoint_state_ops" where
  "agent_snapshots = \<lparr>snapshot = agent_snapshot_of, restore = agent_restore\<rparr>"

section \<open>The model node\<close>

record json_tools =
  jt_parse :: "string \<Rightarrow> json_error + json"
  jt_lexer :: "string \<Rightarrow> json_error + raw_json"
  jt_validates :: "json \<Rightarrow> json \<Rightarrow> string option"

record 'w model_node =
  mn_output :: "output_contract option"
  mn_model :: "'w chat_model"
  mn_tools :: "'w tool_runtime"

definition output_request :: "output_contract option \<Rightarrow> chat_request \<Rightarrow> chat_request" where
  "output_request contract r = (case contract of Some c \<Rightarrow> r\<lparr>cr_output := Some c\<rparr> | None \<Rightarrow> r)"

definition model_request :: "'w model_node \<Rightarrow> 'w agent_state \<Rightarrow> chat_request" where
  "model_request nd s =
     (let definitions = registry_definitions (rtm_registry (mn_tools nd)) in
      output_request (mn_output nd)
        ((chat_request_new (as_messages s))
           \<lparr>cr_tools := definitions, cr_tool_choice := (if definitions = [] then NoTools else Auto)\<rparr>))"

definition stream_delta :: "nat \<Rightarrow> chat_stream_event \<Rightarrow> agent_stream_event option" where
  "stream_delta rnd ev =
     (case ev of
        TextDelta t \<Rightarrow> Some (TextDeltaEvent rnd t)
      | ToolCallDelta d \<Rightarrow> Some (ToolCallDeltaEvent rnd d)
      | _ \<Rightarrow> None)"

text \<open>
  Reading the model's stream. A stream may have no end, so reading it is a computation that may not
  return (\<open>None\<close>).
\<close>

partial_function (option) read_stream ::
    "(string \<Rightarrow> json_error + json) \<Rightarrow> nat \<Rightarrow> 'w agent_sink \<Rightarrow> collector
      \<Rightarrow> (model_error, chat_stream_event) result item_stream \<Rightarrow> 'w
      \<Rightarrow> ((node_error, chat_response) result \<times> 'w) option" where
  "read_stream parse rnd sink c s w =
     (case s of
        StreamEnd \<Rightarrow>
          (case collector_finish parse c of
             Inl e \<Rightarrow> Some (Err (error_with_source ''stream collection finish failed'' (me_message e)), w)
           | Inr response \<Rightarrow> Some (Ok response, w))
      | StreamItem x rest \<Rightarrow>
          (case x of
             Panic \<Rightarrow> Some (Panic, w)
           | Err e \<Rightarrow> Some (Err (error_with_source ''model stream chunk failed'' (me_message e)), w)
           | Ok ev \<Rightarrow>
               (case collector_push parse ev c of
                  (Inl e, _) \<Rightarrow> Some (Err (error_with_source ''stream collection failed'' (me_message e)), w)
                | (Inr _, c') \<Rightarrow>
                    read_stream parse rnd sink c' rest
                      (case stream_delta rnd ev of Some d \<Rightarrow> sink d w | None \<Rightarrow> w))))"

definition model_node_run ::
    "json_tools \<Rightarrow> 'w model_node \<Rightarrow> 'w agent_state \<Rightarrow> 'w
      \<Rightarrow> ((node_error, agent_update) result \<times> 'w) option" where
  "model_node_run js nd s w =
     (let request = model_request nd s; rnd = usize_add (as_model_rounds s) 1;
          update = (\<lambda>r. ModelUpdate (rs_message r) (rs_usage r)) in
      case as_sink s of
        Some sink \<Rightarrow>
          (case chat_stream (jt_parse js) (jt_lexer js) (jt_validates js) (mn_model nd) request w of
             (Inl e, w1) \<Rightarrow> Some (Err (error_with_source ''model stream failed'' (me_message e)), w1)
           | (Inr stream, w1) \<Rightarrow>
               map_option (\<lambda>(x, w2). case x of
                   Ok response \<Rightarrow> (Ok (update response), sink (ModelCompletedEvent rnd) w2)
                 | Err e \<Rightarrow> (Err e, w2)
                 | Panic \<Rightarrow> (Panic, w2))
                 (read_stream (jt_parse js) rnd sink collector_new stream
                    (sink (ModelStartedEvent rnd) w1)))
      | None \<Rightarrow>
          (case chat_complete (jt_lexer js) (jt_validates js) (mn_model nd) request w of
             (Inl e, w1) \<Rightarrow> Some (Err (error_with_source ''model completion failed'' (me_message e)), w1)
           | (Inr response, w1) \<Rightarrow> Some (Ok (update response), w1)))"

section \<open>The tool node\<close>

record 'w tool_node =
  tn_runtime :: "'w tool_runtime"
  tn_max_rounds :: nat

definition tool_node_invariant :: node_error where
  "tool_node_invariant =
     error_with_source ''tool node invariant failed'' ''tool node state invariant failed''"

definition validated_pending_calls :: "'w tool_node \<Rightarrow> 'w agent_state \<Rightarrow> node_error + tool_call list" where
  "validated_pending_calls nd s =
     (case pending_tool_calls s of
        None \<Rightarrow> Inl tool_node_invariant
      | Some calls \<Rightarrow>
          (if calls = [] then Inl tool_node_invariant
           else if as_model_rounds s > tn_max_rounds nd then Inl tool_node_invariant
           else Inr calls))"

definition tools_completed :: "'w tool_node \<Rightarrow> 'w agent_state \<Rightarrow> tool_message list \<Rightarrow> agent_update" where
  "tools_completed nd s ms = ToolsUpdate ms (as_model_rounds s = tn_max_rounds nd)"

definition TOOL_REJECTION_NOTICE :: string where
  "TOOL_REJECTION_NOTICE = ''tool call rejected by approval''"

definition rejected_update :: "'w tool_node \<Rightarrow> 'w agent_state \<Rightarrow> tool_call list \<Rightarrow> agent_update" where
  "rejected_update nd s calls =
     tools_completed nd s (map (\<lambda>c.
       \<lparr>tm_tool_call_id = tc_id c, tm_result = tool_result_error_text TOOL_REJECTION_NOTICE\<rparr>) calls)"

text \<open>The observer that forwards the events of tools to the agent's sink. It never fails.\<close>

definition forward_tool_event :: "'w agent_sink \<Rightarrow> nat \<Rightarrow> 'w event_sink" where
  "forward_tool_event sink rnd ev w =
     (SinkOk,
      (case ev of
         ExecutionStarted c \<Rightarrow> sink (ToolStartedEvent (tcx_call_id c) (tcx_tool_name c) rnd) w
       | ExecutionCompleted c is_err \<Rightarrow>
           sink (ToolCompletedEvent (tcx_call_id c) (tcx_tool_name c) rnd is_err) w
       | ExecutionFailed c k \<Rightarrow>
           (if k \<in> {ExecutionFailedKind, CancelledKind}
            then sink (ToolCompletedEvent (tcx_call_id c) (tcx_tool_name c) rnd True) w else w)
       | ExecutionTimedOut c t \<Rightarrow>
           sink (ToolCompletedEvent (tcx_call_id c) (tcx_tool_name c) rnd True) w))"

definition observed_runtime :: "'w tool_node \<Rightarrow> 'w agent_state \<Rightarrow> 'w tool_runtime" where
  "observed_runtime nd s =
     (case as_sink s of
        Some sink \<Rightarrow> with_additional_event_sink (forward_tool_event sink (as_model_rounds s)) (tn_runtime nd)
      | None \<Rightarrow> tn_runtime nd)"

fun show_nat :: "nat \<Rightarrow> string" where
  "show_nat n = (if n < 10 then [char_of (48 + n)] else show_nat (n div 10) @ [char_of (48 + n mod 10)])"

declare show_nat.simps [simp del]

fun batch_error_text :: "batch_error \<Rightarrow> string" where
  "batch_error_text ZeroConcurrency = ''tool batch max concurrency must be greater than zero''"
| "batch_error_text (DuplicateBatchCallId c i j) =
     ''tool call id `'' @ tool_call_id_str c @ ''` is duplicated at batch indices '' @ show_nat i
       @ '' and '' @ show_nat j"

fun tool_message_of :: "tool_runtime_error + message \<Rightarrow> tool_message option" where
  "tool_message_of (Inr (Tool m)) = Some m"
| "tool_message_of _ = None"

text \<open>A message that is not a tool message is the \<open>unreachable!\<close> of the code.\<close>

definition execute_pending ::
    "'w executor \<Rightarrow> 'w tool_node \<Rightarrow> 'w agent_state \<Rightarrow> tool_call list \<Rightarrow> 'w
      \<Rightarrow> ((node_error, agent_update) result \<times> 'w) option" where
  "execute_pending exe nd s calls w =
     map_option (\<lambda>(x, w1).
       (case x of
          Panic \<Rightarrow> Panic
        | Err e \<Rightarrow> Err (error_with_source ''tool batch rejected'' (batch_error_text e))
        | Ok report \<Rightarrow>
            (if \<exists>r \<in> set (br_results report). isl r
             then Err (error_with_source ''tool batch execution failed''
                         ''agent tool batch infrastructure failure'')
             else
               (case those (map tool_message_of (into_tool_messages report)) of
                  None \<Rightarrow> Panic
                | Some ms \<Rightarrow> Ok (tools_completed nd s ms))), w1))
       (execute_batch exe (observed_runtime nd s) calls batch_config_default w)"

definition tool_node_run ::
    "'w executor \<Rightarrow> 'w tool_node \<Rightarrow> 'w agent_state \<Rightarrow> 'w
      \<Rightarrow> ((node_error, agent_update) result \<times> 'w) option" where
  "tool_node_run exe nd s w =
     (case validated_pending_calls nd s of
        Inl e \<Rightarrow> Some (Err e, w) | Inr calls \<Rightarrow> execute_pending exe nd s calls w)"

fun resume_error_text :: "resume_value_error \<Rightarrow> string" where
  "resume_error_text (Missing t) = ''resume value is missing; expected type `'' @ t @ ''`''"
| "resume_error_text (TypeMismatch t u) =
     ''resume value type mismatch: expected `'' @ t @ ''`, actual `'' @ u @ ''`''"

text \<open>The node that asks for approval: a request, and nothing else, until a decision arrives.\<close>

definition approval_node_run ::
    "'w environment \<Rightarrow> 'w executor \<Rightarrow> 'w tool_node \<Rightarrow> 'w agent_state \<Rightarrow> agent_value node_context \<Rightarrow> 'w
      \<Rightarrow> ((node_error, (agent_update, agent_value) node_outcome) result \<times> 'w) option" where
  "approval_node_run env exe nd s ctx w =
     (let decision_name = ''group_agent_prebuilt::approval::AgentApprovalDecision'' in
      case validated_pending_calls nd s of
        Inl e \<Rightarrow> Some (Err e, w)
      | Inr calls \<Rightarrow>
          (if ctx_resume_value ctx = None
           then
             (let w1 = (case as_sink s of Some sink \<Rightarrow> sink (ApprovalRequiredEvent calls) w | None \<Rightarrow> w) in
              case env_uuid env w1 of
                (u, w2) \<Rightarrow>
                  Some (Ok (Interrupt \<lparr>ir_id = InterruptId u, ir_payload = approval_payload calls\<rparr>), w2))
           else
             (case require_resume_value approval_decision_type decision_name ctx of
                Inl e \<Rightarrow> Some (Err (error_with_source ''invalid approval decision'' (resume_error_text e)), w)
              | Inr (ApprovalDecision Approve) \<Rightarrow>
                  map_option (\<lambda>(x, w1). (result_bind x (\<lambda>u. Ok (Update u)), w1))
                    (execute_pending exe nd s calls w)
              | Inr (ApprovalDecision Reject) \<Rightarrow> Some (Ok (Update (rejected_update nd s calls)), w)
              | Inr _ \<Rightarrow>
                  Some (Err (error_with_source ''invalid approval decision'' decision_name), w))))"

end
