(* ===== verification/Agents.thy ===== *)
theory Agents
  imports AgentNodes Events
begin

text \<open>
  The tool-calling agent as a whole (\<open>lib.rs\<close>, \<open>agent.rs\<close>, \<open>structured_output.rs\<close>, \<open>outcome.rs\<close>,
  \<open>durable_stream.rs\<close>, \<open>codec.rs\<close> and \<open>error.rs\<close> of \<open>group-agent-prebuilt\<close>): its configuration, its
  graph with the two routers, construction, and the operations that invoke, resume, replay and fork
  it through the runtime.
\<close>

section \<open>Configuration\<close>

record agent_config =
  agc_max_rounds :: nat
  agc_tool_approval :: bool

datatype agent_config_error = ZeroMaxRounds | MaxStepsOverflow

definition agent_config_new :: "nat \<Rightarrow> agent_config_error + agent_config" where
  "agent_config_new n =
     (if n = 0 then Inl ZeroMaxRounds
      else if n * 2 \<ge> usize_bound then Inl MaxStepsOverflow
      else Inr \<lparr>agc_max_rounds = n, agc_tool_approval = False\<rparr>)"

definition with_tool_approval :: "bool \<Rightarrow> agent_config \<Rightarrow> agent_config" where
  "with_tool_approval b c = c\<lparr>agc_tool_approval := b\<rparr>"

definition agent_config_default :: agent_config where
  "agent_config_default = \<lparr>agc_max_rounds = 8, agc_tool_approval = False\<rparr>"

datatype agent_build_error =
    OutputConfiguration model_error
  | GraphBuild graph_build_error
  | GraphCompile graph_compile_error

datatype agent_error =
    AgentOutput structured_output_error
  | AgentGraph graph_run_error
  | UnknownOutcome

section \<open>The graph\<close>

definition MODEL_NODE_ID :: node_id where "MODEL_NODE_ID = NodeId ''model''"
definition TOOL_NODE_ID :: node_id where "TOOL_NODE_ID = NodeId ''tools''"

definition AGENT_GRAPH_VERSION :: graph_version where
  "AGENT_GRAPH_VERSION = GraphVersion ''group-agent-prebuilt/tool-calling-agent/1''"

definition AGENT_APPROVAL_GRAPH_VERSION :: graph_version where
  "AGENT_APPROVAL_GRAPH_VERSION = GraphVersion ''group-agent-prebuilt/tool-calling-agent/approval/1''"

definition output_version :: "output_contract option \<Rightarrow> bool \<Rightarrow> graph_version option" where
  "output_version contract approval =
     (case contract of
        None \<Rightarrow> None
      | Some c \<Rightarrow>
          Some (GraphVersion (''group-agent-prebuilt/tool-calling-agent/''
            @ (if approval then ''approval/structured'' else ''structured'') @ ''/1/'' @ oc_id c)))"

datatype tool_route_invariant =
    NoCommittedModelRound
  | UsageRoundMismatch
  | EmptyTranscript
  | TranscriptTailNotTool
  | ContinuationAtRoundLimit
  | MaxRoundsMismatch
  | FinalAnswerAtToolRoute

fun tool_route_text :: "tool_route_invariant \<Rightarrow> string" where
  "tool_route_text NoCommittedModelRound = ''tool route requires a committed model round''"
| "tool_route_text UsageRoundMismatch = ''tool route usage alignment failed''"
| "tool_route_text EmptyTranscript = ''tool route requires a transcript''"
| "tool_route_text TranscriptTailNotTool = ''tool route requires a ToolMessage tail''"
| "tool_route_text ContinuationAtRoundLimit = ''tool continuation round invariant failed''"
| "tool_route_text MaxRoundsMismatch = ''tool max-rounds invariant failed''"
| "tool_route_text FinalAnswerAtToolRoute = ''tool route cannot follow a final answer''"

definition route_after_model :: "'w agent_state \<Rightarrow> route_error + node_id" where
  "route_after_model s =
     (case pending_tool_calls s of
        None \<Rightarrow> Inl (error_message ''model route requires a committed assistant turn'')
      | Some calls \<Rightarrow> Inr (if calls = [] then node_id_end else TOOL_NODE_ID))"

definition tools_route_target :: "'w agent_state \<Rightarrow> nat \<Rightarrow> tool_route_invariant + node_id" where
  "tools_route_target s max_rounds =
     (if as_model_rounds s = 0 then Inl NoCommittedModelRound
      else if \<not> usage_is_aligned s then Inl UsageRoundMismatch
      else
        (case last_message (as_messages s) of
           None \<Rightarrow> Inl EmptyTranscript
         | Some m \<Rightarrow>
             (if as_tool m = None then Inl TranscriptTailNotTool
              else
                (case as_stop_reason s of
                   Some MaxRounds \<Rightarrow>
                     (if as_model_rounds s = max_rounds then Inr node_id_end else Inl MaxRoundsMismatch)
                 | None \<Rightarrow>
                     (if as_model_rounds s < max_rounds then Inr MODEL_NODE_ID
                      else Inl ContinuationAtRoundLimit)
                 | Some FinalAnswer \<Rightarrow> Inl FinalAnswerAtToolRoute))))"

definition route_after_tools :: "nat \<Rightarrow> 'w agent_state \<Rightarrow> route_error + node_id" where
  "route_after_tools max_rounds s =
     map_err (\<lambda>e. error_with_source ''tool route invariant failed'' (tool_route_text e))
       (tools_route_target s max_rounds)"

text \<open>
  A node of the graph is a function that returns. A computation that does not return, or panics, is
  given the error \<open>lost\<close> here; that neither happens is proved where it is used.
\<close>

definition lost :: node_error where
  "lost = error_message ''the node did not return''"

definition returning :: "((node_error, 'a) result \<times> 'w) option \<Rightarrow> 'w \<Rightarrow> (node_error + 'a) \<times> 'w" where
  "returning x w =
     (case x of
        Some (Ok a, w') \<Rightarrow> (Inr a, w') | Some (Err e, w') \<Rightarrow> (Inl e, w')
      | Some (Panic, w') \<Rightarrow> (Inl lost, w') | None \<Rightarrow> (Inl lost, w))"

text \<open>What an agent is built from, with the parts of its surroundings that its nodes use.\<close>

record 'w agent_parts =
  ap_json :: json_tools
  ap_env :: "'w environment"
  ap_executor :: "'w executor"
  ap_model :: "'w chat_model"
  ap_tools :: "'w tool_runtime"
  ap_max_rounds :: nat
  ap_tool_approval :: bool
  ap_output :: "output_contract option"

definition model_kind :: "'w agent_parts \<Rightarrow> ('w agent_state, agent_update, agent_value, 'w) node_kind" where
  "model_kind p =
     Normal (\<lambda>s ctx w. returning (model_node_run (ap_json p)
       \<lparr>mn_output = ap_output p, mn_model = ap_model p, mn_tools = ap_tools p\<rparr> s w) w)"

definition part_tool_node :: "'w agent_parts \<Rightarrow> 'w tool_node" where
  "part_tool_node p = \<lparr>tn_runtime = ap_tools p, tn_max_rounds = ap_max_rounds p\<rparr>"

definition tool_kind :: "'w agent_parts \<Rightarrow> ('w agent_state, agent_update, agent_value, 'w) node_kind" where
  "tool_kind p =
     (if ap_tool_approval p
      then Interruptible (\<lambda>s ctx w.
             returning (approval_node_run (ap_env p) (ap_executor p) (part_tool_node p) s ctx w) w)
      else Normal (\<lambda>s ctx w. returning (tool_node_run (ap_executor p) (part_tool_node p) s w) w))"

type_synonym 'w agent_graph = "('w agent_state, agent_update, agent_value, 'w) compiled_graph"

definition agent_state_graph ::
    "'w agent_parts \<Rightarrow> graph_build_error + ('w agent_state, agent_update, agent_value, 'w) state_graph" where
  "agent_state_graph p =
     (let g0 = set_version state_graph_new
            (if ap_tool_approval p then AGENT_APPROVAL_GRAPH_VERSION else AGENT_GRAPH_VERSION);
          g1 = (case output_version (ap_output p) (ap_tool_approval p) of
                  Some v \<Rightarrow> set_version g0 v | None \<Rightarrow> g0) in
      sum_bind (insert_node g1 MODEL_NODE_ID (model_kind p)) (\<lambda>g2.
      sum_bind (insert_node g2 TOOL_NODE_ID (tool_kind p)) (\<lambda>g3.
      sum_bind (add_conditional_edges (add_edge g3 node_id_start MODEL_NODE_ID) MODEL_NODE_ID
          [node_id_end, TOOL_NODE_ID] route_after_model) (\<lambda>g4.
        add_conditional_edges g4 TOOL_NODE_ID [node_id_end, MODEL_NODE_ID]
          (route_after_tools (ap_max_rounds p))))))"

definition compile_agent_graph ::
    "dfs_search \<Rightarrow> 'w agent_parts \<Rightarrow> (agent_build_error, 'w agent_graph) result" where
  "compile_agent_graph dfs p =
     (case agent_state_graph p of
        Inl e \<Rightarrow> Err (GraphBuild e)
      | Inr g \<Rightarrow>
          (case compile dfs g of Ok cg \<Rightarrow> Ok cg | Err e \<Rightarrow> Err (GraphCompile e) | Panic \<Rightarrow> Panic))"

section \<open>Construction\<close>

record 'w agent =
  ag_output :: "output_contract option"
  ag_graph :: "'w agent_graph"
  ag_run_config :: run_config

definition agent_parts_of ::
    "json_tools \<Rightarrow> 'w environment \<Rightarrow> 'w executor \<Rightarrow> 'w chat_model \<Rightarrow> 'w tool_runtime \<Rightarrow> agent_config
      \<Rightarrow> output_contract option \<Rightarrow> 'w agent_parts" where
  "agent_parts_of js env exe m tools cfg output =
     \<lparr>ap_json = js, ap_env = env, ap_executor = exe, ap_model = m, ap_tools = tools,
      ap_max_rounds = agc_max_rounds cfg, ap_tool_approval = agc_tool_approval cfg, ap_output = output\<rparr>"

text \<open>\<open>ToolCallingAgent::new_inner\<close>; the multiplication that overflows is its \<open>expect\<close>.\<close>

definition agent_new_inner :: "dfs_search \<Rightarrow> 'w agent_parts \<Rightarrow> (agent_build_error, 'w agent) result" where
  "agent_new_inner dfs p =
     (if ap_max_rounds p * 2 \<ge> usize_bound then Panic
      else result_bind (compile_agent_graph dfs p) (\<lambda>g.
        Ok \<lparr>ag_output = ap_output p, ag_graph = g, ag_run_config = \<lparr>max_steps = ap_max_rounds p * 2\<rparr>\<rparr>))"

definition agent_new where
  "agent_new dfs js env exe m tools cfg =
     agent_new_inner dfs (agent_parts_of js env exe m tools cfg None)"

definition agent_new_with_output where
  "agent_new_with_output dfs js env exe m tools cfg output =
     (if \<not> structured_output (md_capabilities (cm_metadata m))
      then Err (OutputConfiguration (unsupported StructuredOutput (cm_metadata m)))
      else agent_new_inner dfs (agent_parts_of js env exe m tools cfg (Some output)))"

section \<open>Outcomes\<close>

text \<open>A completed state without a stop reason is the \<open>expect\<close> of the code.\<close>

definition from_completed_state :: "'w agent_state \<Rightarrow> (agent_error, agent_outcome) result" where
  "from_completed_state s =
     (case as_stop_reason s of
        None \<Rightarrow> Panic
      | Some r \<Rightarrow>
          Ok \<lparr>ao_output = None, ao_messages = as_messages s, ao_model_rounds = as_model_rounds s,
              ao_usage_by_round = as_usage_by_round s, ao_stop_reason = r\<rparr>)"

definition final_message :: "agent_outcome \<Rightarrow> assistant_message option" where
  "final_message out =
     (if ao_stop_reason out \<noteq> FinalAnswer then None
      else Option.bind (last_message (ao_messages out)) as_assistant)"

definition output_validate ::
    "json_tools \<Rightarrow> output_contract option \<Rightarrow> agent_outcome \<Rightarrow> (agent_error, agent_outcome) result" where
  "output_validate js contract out =
     (case contract of
        Some c \<Rightarrow>
          (if ao_stop_reason out = FinalAnswer
           then
             (case final_message out of
                None \<Rightarrow> Err (AgentOutput Incomplete)
              | Some m \<Rightarrow>
                  (case validate_response (jt_lexer js) (jt_validates js) c (chat_response_new m Stop) of
                     Inl e \<Rightarrow> Err (AgentOutput e)
                   | Inr v \<Rightarrow> Ok (out\<lparr>ao_output := v\<rparr>)))
           else Ok out)
      | None \<Rightarrow> Ok out)"

definition completed_outcome ::
    "json_tools \<Rightarrow> output_contract option \<Rightarrow> 'w agent_state \<Rightarrow> (agent_error, agent_outcome) result" where
  "completed_outcome js contract s = result_bind (from_completed_state s) (output_validate js contract)"

datatype agent_run_outcome = AgentCompleted agent_outcome | AgentInterrupted agent_interrupted

definition interrupted_from_report :: "('w agent_state, agent_value) interrupt_report \<Rightarrow> agent_interrupted" where
  "interrupted_from_report rep =
     \<lparr>ai_thread_id = it_thread_id rep, ai_checkpoint_id = it_checkpoint_id rep,
      ai_approval_request =
        (case downcast_ref approval_request_type (ci_payload (it_interrupt rep)) of
           Some (ApprovalRequest calls) \<Rightarrow> Some calls | _ \<Rightarrow> None)\<rparr>"

definition from_execution ::
    "json_tools \<Rightarrow> output_contract option \<Rightarrow> ('w agent_state, agent_value) execution_outcome
      \<Rightarrow> (agent_error, agent_run_outcome) result" where
  "from_execution js contract out =
     (case out of
        execution_outcome.Completed rep \<Rightarrow>
          result_bind (completed_outcome js contract (rr_final_state rep)) (\<lambda>o'. Ok (AgentCompleted o'))
      | execution_outcome.Interrupted rep \<Rightarrow> Ok (AgentInterrupted (interrupted_from_report rep)))"

text \<open>Results of the runtime that are turned into results of the agent.\<close>

type_synonym ('w, 'a) agent_result = "((agent_error, 'a) result \<times> 'w run_state) option"

definition agent_then ::
    "('w, 'a) outcome \<Rightarrow> ('a \<Rightarrow> (agent_error, 'b) result) \<Rightarrow> ('w, 'b) agent_result" where
  "agent_then x f =
     map_option (\<lambda>(y, st). (case y of Ok a \<Rightarrow> f a | Err e \<Rightarrow> Err (AgentGraph e) | Panic \<Rightarrow> Panic, st)) x"

definition notify :: "'w agent_sink option \<Rightarrow> ('a \<Rightarrow> agent_stream_event) \<Rightarrow> ('w, 'a) agent_result \<Rightarrow> ('w, 'a) agent_result" where
  "notify sink ev x =
     map_option (\<lambda>(y, st). (y,
       case (y, sink) of
         (Ok a, Some k) \<Rightarrow> st\<lparr>rs_world := k (ev a) (rs_world st)\<rparr>
       | _ \<Rightarrow> st)) x"

section \<open>Invoking, resuming, replaying and forking\<close>

definition initial_agent_state :: "message list \<Rightarrow> 'w agent_sink option \<Rightarrow> 'w agent_state" where
  "initial_agent_state ms sink =
     (case sink of Some k \<Rightarrow> with_sink k (agent_state_new ms) | None \<Rightarrow> agent_state_new ms)"

definition agent_invoke ::
    "json_tools \<Rightarrow> 'w environment \<Rightarrow> 'w agent \<Rightarrow> message list \<Rightarrow> 'w agent_sink option \<Rightarrow> event_config
      \<Rightarrow> run_control \<Rightarrow> 'w \<Rightarrow> ('w, agent_outcome) agent_result" where
  "agent_invoke js env ag ms sink events control w =
     notify sink CompletedEvent
       (agent_then (invoke_with_control env agent_ops (ag_graph ag) (initial_agent_state ms sink)
            (ag_run_config ag) events control w)
          (\<lambda>rep. completed_outcome js (ag_output ag) (rr_final_state rep)))"

fun outcome_event :: "agent_run_outcome \<Rightarrow> agent_stream_event" where
  "outcome_event (AgentCompleted out) = CompletedEvent out"
| "outcome_event (AgentInterrupted i) = InterruptedEvent i"

definition agent_invoke_with_checkpoint ::
    "json_tools \<Rightarrow> 'w environment \<Rightarrow> 'w agent \<Rightarrow> message list \<Rightarrow> 'w agent_sink option \<Rightarrow> event_config
      \<Rightarrow> run_control \<Rightarrow> (agent_snapshot, agent_value, 'w) checkpoint_config \<Rightarrow> 'w
      \<Rightarrow> ('w, agent_run_outcome) agent_result" where
  "agent_invoke_with_checkpoint js env ag ms sink events control cfg w =
     notify sink outcome_event
       (agent_then (invoke_with_checkpoint env agent_ops agent_snapshots (ag_graph ag)
            (initial_agent_state ms sink) (ag_run_config ag) events control cfg w)
          (from_execution js (ag_output ag)))"

text \<open>A run configuration equal to the default counts as unset.\<close>

definition own_budget :: "'w agent \<Rightarrow> run_config \<Rightarrow> run_config" where
  "own_budget ag c = (if c = run_config_default then ag_run_config ag else c)"

definition agent_resume ::
    "json_tools \<Rightarrow> 'w environment \<Rightarrow> 'w agent \<Rightarrow> 'w agent_sink option
      \<Rightarrow> (agent_snapshot, agent_value, 'w) resume_config \<Rightarrow> 'w \<Rightarrow> ('w, agent_run_outcome) agent_result" where
  "agent_resume js env ag sink cfg w =
     notify sink outcome_event
       (agent_then (resume_with_state_initializer env agent_ops agent_snapshots (ag_graph ag)
            (resume_with_run_config (own_budget ag (rc_run_config cfg)) cfg)
            (\<lambda>s. Inr (case sink of Some k \<Rightarrow> with_sink k s | None \<Rightarrow> s)) w)
          (from_execution js (ag_output ag)))"

record agent_replay_report =
  arr_run_id :: run_id
  arr_source_thread_id :: thread_id
  arr_source_checkpoint_id :: checkpoint_id
  arr_source_step :: nat
  arr_source_superstep :: nat
  arr_steps :: nat
  arr_outcome :: agent_run_outcome

definition from_replay ::
    "json_tools \<Rightarrow> output_contract option \<Rightarrow> 'w agent_state replay_report
      \<Rightarrow> (agent_error, agent_replay_report) result" where
  "from_replay js contract rep =
     result_bind (completed_outcome js contract (rr_final_state (rpr_run rep))) (\<lambda>out.
       Ok \<lparr>arr_run_id = rr_run_id (rpr_run rep), arr_source_thread_id = rpr_source_thread_id rep,
           arr_source_checkpoint_id = rpr_source_checkpoint_id rep,
           arr_source_step = rpr_source_step rep, arr_source_superstep = rpr_source_superstep rep,
           arr_steps = rr_steps (rpr_run rep), arr_outcome = AgentCompleted out\<rparr>)"

definition agent_replay ::
    "json_tools \<Rightarrow> 'w environment \<Rightarrow> 'w agent \<Rightarrow> (agent_snapshot, agent_value, 'w) replay_config \<Rightarrow> 'w
      \<Rightarrow> ('w, agent_replay_report) agent_result" where
  "agent_replay js env ag cfg w =
     agent_then (replay env agent_ops agent_snapshots (ag_graph ag)
         (replay_with_run_config (own_budget ag (rp_run_config cfg)) cfg) w)
       (from_replay js (ag_output ag))"

record agent_fork_report =
  afr_branch_id :: branch_id
  afr_source_thread_id :: thread_id
  afr_source_checkpoint_id :: checkpoint_id
  afr_run_id :: run_id
  afr_outcome :: agent_run_outcome

definition from_fork ::
    "json_tools \<Rightarrow> output_contract option \<Rightarrow> ('w agent_state, agent_value) fork_report
      \<Rightarrow> (agent_error, agent_fork_report) result" where
  "from_fork js contract rep =
     result_bind (from_execution js contract (fr_outcome rep)) (\<lambda>out.
       Ok \<lparr>afr_branch_id = fr_branch_id rep, afr_source_thread_id = fr_source_thread_id rep,
           afr_source_checkpoint_id = fr_source_checkpoint_id rep,
           afr_run_id = outcome_run_id (fr_outcome rep), afr_outcome = out\<rparr>)"

definition agent_fork ::
    "json_tools \<Rightarrow> 'w environment \<Rightarrow> 'w agent \<Rightarrow> (agent_snapshot, agent_value, 'w) fork_config \<Rightarrow> 'w
      \<Rightarrow> ('w, agent_fork_report) agent_result" where
  "agent_fork js env ag cfg w =
     agent_then (fork env agent_ops agent_snapshots (ag_graph ag)
         (fork_with_run_config (own_budget ag (fk_run_config cfg)) cfg) w)
       (from_fork js (ag_output ag))"

section \<open>The codec of agent checkpoints\<close>

definition approval_interrupt_descriptor :: codec_descriptor where
  "approval_interrupt_descriptor =
     \<lparr>schema = ''group-agent-prebuilt-tool-approval'', schema_version = 1, encoding = ''json''\<rparr>"

definition agent_snapshot_descriptor :: codec_descriptor where
  "agent_snapshot_descriptor =
     \<lparr>schema = ''group-agent-prebuilt-agent-state'', schema_version = 1, encoding = ''json''\<rparr>"

text \<open>Serialization to bytes is a parameter for the two types the codec serializes.\<close>

record 'a serde =
  to_vec :: "'a \<Rightarrow> string + byte list"
  from_slice :: "byte list \<Rightarrow> string + 'a"

definition agent_codec ::
    "agent_snapshot serde \<Rightarrow> tool_call list serde \<Rightarrow> (agent_snapshot, agent_value) checkpoint_codec" where
  "agent_codec ss rs =
     \<lparr>snapshot_descriptor = agent_snapshot_descriptor,
      encode_snapshot = (\<lambda>sn. map_err (\<lambda>e. CodecFailed (CodecMessage ''agent snapshot encoding failed''))
        (to_vec ss sn)),
      decode_snapshot = (\<lambda>b. map_err (\<lambda>e. CodecFailed (CodecMessage ''agent snapshot decoding failed''))
        (from_slice ss b)),
      encode_interrupt = (\<lambda>payload.
        (case downcast_ref approval_request_type payload of
           Some (ApprovalRequest calls) \<Rightarrow>
             sum_bind (map_err (\<lambda>e. CodecFailed (CodecMessage ''agent approval payload encoding failed''))
               (to_vec rs calls)) (\<lambda>b. Inr \<lparr>descriptor = approval_interrupt_descriptor, bytes = b\<rparr>)
         | _ \<Rightarrow> Inl (UnsupportedInterruptPayload (tv_type_name payload)))),
      decode_interrupt = (\<lambda>v.
        (if descriptor v \<noteq> approval_interrupt_descriptor
         then Inl (CodecFailed (CodecMessage ''interrupt descriptor does not match the supported one''))
         else
           sum_bind (map_err (\<lambda>e. CodecFailed (CodecMessage ''agent approval payload decoding failed''))
             (from_slice rs (bytes v))) (\<lambda>calls. Inr (approval_payload calls))))\<rparr>"

end
