(* ===== verification/SingleRuns.thy ===== *)
theory SingleRuns
  imports Invocation
begin

text \<open>
  Invariants of runs whose frontiers hold at most one node, on a graph without mounted graphs. The
  locale \<open>single_run\<close> asks for what one node preserves: a property of the world and an invariant of
  the state, the step count and the frontier; the run then ends with the invariant and never with
  the step limit, as long as the invariant stays below it.
\<close>

section \<open>Judgements\<close>

named_theorems track_rules "rules for judgements on worlds, results and errors"

definition within_limit :: "graph_run_error \<Rightarrow> bool" where
  "within_limit e \<longleftrightarrow> (\<forall>m p n. e \<noteq> graph_run_error.MaxStepsExceeded m p n)"

fun fine :: "('a \<Rightarrow> bool) \<Rightarrow> (graph_run_error, 'a) result \<Rightarrow> bool" where
  "fine Q (Ok a) = Q a"
| "fine Q (Err e) = within_limit e"
| "fine Q Panic = True"

lemma fine_mono: "fine Q y \<Longrightarrow> (\<And>a. Q a \<Longrightarrow> R a) \<Longrightarrow> fine R y"
  by (cases y) auto

definition tracks :: "('w \<Rightarrow> bool) \<Rightarrow> ('w, 'a) run \<Rightarrow> ('a \<Rightarrow> bool) \<Rightarrow> bool" where
  "tracks P x Q \<longleftrightarrow>
     (\<forall>st y st'. P (rs_world st) \<longrightarrow> x st = Some (y, st') \<longrightarrow>
        P (rs_world st') \<and> fine Q y)"

definition io_tracks :: "('w \<Rightarrow> bool) \<Rightarrow> ('w, 'a) io \<Rightarrow> ('a \<Rightarrow> bool) \<Rightarrow> bool" where
  "io_tracks P m Q \<longleftrightarrow>
     (\<forall>w y w'. P w \<longrightarrow> m w = (y, w') \<longrightarrow>
        P w' \<and> fine Q y)"

lemma tracksD:
  "tracks P x Q \<Longrightarrow> P (rs_world st) \<Longrightarrow> x st = Some (y, st') \<Longrightarrow>
     P (rs_world st') \<and> fine Q y"
  by (simp add: tracks_def)

lemma tracks_conseq: "tracks P x Q \<Longrightarrow> (\<And>a. Q a \<Longrightarrow> R a) \<Longrightarrow> tracks P x R"
  unfolding tracks_def by (meson fine_mono)

lemma io_tracks_conseq: "io_tracks P x Q \<Longrightarrow> (\<And>a. Q a \<Longrightarrow> R a) \<Longrightarrow> io_tracks P x R"
  unfolding io_tracks_def by (meson fine_mono)

lemma tracks_bind:
  assumes "tracks P x Q" and "\<And>a. Q a \<Longrightarrow> tracks P (f a) R"
  shows "tracks P (run_bind x f) R"
  unfolding tracks_def
proof (intro allI impI)
  fix st y st' assume st: "P (rs_world st)" "run_bind x f st = Some (y, st')"
  then obtain z st1 where z: "x st = Some (z, st1)" by (auto simp: run_bind_def split: option.splits)
  note first = tracksD [OF assms(1) st(1) z]
  show "P (rs_world st') \<and> fine R y"
    using st(2) z first tracksD [OF assms(2)] by (cases z) (auto simp: run_bind_def)
qed

lemma tracks_seq [track_rules]:
  "tracks P x (\<lambda>_. True) \<Longrightarrow> (\<And>a. tracks P (f a) R) \<Longrightarrow> tracks P (run_bind x f) R"
  by (rule tracks_bind)

lemma io_tracks_bind:
  assumes "io_tracks P x Q" and "\<And>a. Q a \<Longrightarrow> io_tracks P (f a) R"
  shows "io_tracks P (io_bind x f) R"
  unfolding io_tracks_def
proof (intro allI impI)
  fix w y w' assume w: "P w" "io_bind x f w = (y, w')"
  obtain z w1 where z: "x w = (z, w1)" by fastforce
  have first: "P w1 \<and> fine Q z"
    using assms(1) w(1) z unfolding io_tracks_def by blast
  show "P w' \<and> fine R y"
    using w(2) z first assms(2) by (cases z) (auto simp: io_bind_def io_tracks_def)
qed

lemma tracks_return [track_rules]: "Q a \<Longrightarrow> tracks P (run_return a) Q"
  by (simp add: tracks_def run_return_def)

lemma tracks_emit [track_rules]: "tracks P (run_emit e) (\<lambda>_. True)"
  by (simp add: tracks_def run_emit_def)

lemma tracks_fail [track_rules]: "within_limit e \<Longrightarrow> tracks P (run_fail e) Q"
  by (simp add: tracks_def run_fail_def)

lemma tracks_or_fail: "io_tracks P x Q \<Longrightarrow> tracks P (or_fail x) Q"
  unfolding tracks_def or_fail_def run_fail_def io_tracks_def
  by (fastforce split: prod.splits result.splits)

lemma tracks_world: "(\<And>w. P w \<Longrightarrow> P (snd (f w))) \<Longrightarrow> tracks P (run_world f) (\<lambda>_. True)"
  unfolding tracks_def run_world_def by (auto split: prod.splits) (metis snd_conv)

lemma tracks_if_some [track_rules]: "(\<And>a. x = Some a \<Longrightarrow> Q a) \<Longrightarrow> tracks P (run_if_some x) Q"
  by (cases x) (simp_all add: run_if_some_def run_panic_def tracks_return tracks_def run_return_def)

lemma tracks_when [track_rules]: "tracks P x (\<lambda>_. True) \<Longrightarrow> tracks P (run_when b x) (\<lambda>_. True)"
  by (simp add: run_when_def tracks_return)

lemma tracks_retained [track_rules]: "tracks P run_retained (\<lambda>_. True)"
  by (simp add: tracks_def run_retained_def)

lemma tracks_for [track_rules]:
  "(\<And>x. tracks P (f x) (\<lambda>_. True)) \<Longrightarrow> tracks P (run_for f xs) (\<lambda>_. True)"
  by (induction xs) (auto intro!: track_rules)

lemma tracks_map [track_rules]:
  "(\<And>x. tracks P (f x) (\<lambda>_. True)) \<Longrightarrow> tracks P (run_map f xs) (\<lambda>_. True)"
  by (induction xs) (auto intro!: track_rules)

lemma tracks_get_node [track_rules]:
  "tracks P (get_node iv i) (\<lambda>nd. node_at (iv_graph iv) i = Some nd)"
  unfolding get_node_def by (rule tracks_if_some)

lemma tracks_node_paths [track_rules]: "tracks P (node_paths_of iv F) (\<lambda>_. True)"
  unfolding node_paths_of_def
  by (rule tracks_map, rule tracks_bind [OF tracks_get_node], rule tracks_return) simp

text \<open>The paths of a frontier, in order.\<close>

definition frontier_paths_at :: "('s, 'u, 'v, 'w) compiled_graph \<Rightarrow> nat list \<Rightarrow> node_path option list" where
  "frontier_paths_at g F = map (\<lambda>i. map_option cn_path (node_at g i)) F"

lemma tracks_frontier_paths:
  "tracks P (node_paths_of iv F) (\<lambda>ps. map Some ps = frontier_paths_at (iv_graph iv) F)"
proof (induction F)
  case Nil
  show ?case by (simp add: node_paths_of_def frontier_paths_at_def tracks_return)
next
  case (Cons i F)
  have head: "tracks P (run_bind (get_node iv i) (\<lambda>n. run_return (cn_path n)))
      (\<lambda>p. Some p = map_option cn_path (node_at (iv_graph iv) i))"
    by (rule tracks_bind [OF tracks_get_node]) (simp add: tracks_return)
  show ?case
    using Cons.IH unfolding node_paths_of_def
    by (auto simp: frontier_paths_at_def intro!: tracks_bind [OF head] tracks_bind tracks_return)
qed

section \<open>Environments that keep a property of the world\<close>

definition env_keeps :: "('w \<Rightarrow> bool) \<Rightarrow> 'w environment \<Rightarrow> bool" where
  "env_keeps P env \<longleftrightarrow>
     (\<forall>w. P w \<longrightarrow> (\<forall>t. P (snd (env_cancelled env t w))) \<and> P (snd (env_fresh_token env w))
        \<and> P (snd (env_now env w)) \<and> P (snd (env_uuid env w)) \<and> (\<forall>t d. P (snd (env_race env t d w))))"

lemma env_keepsD:
  assumes "env_keeps P env" and "P w"
  shows "env_cancelled env t w = (b, w') \<Longrightarrow> P w'" "env_now env w = (i, w') \<Longrightarrow> P w'"
    "env_uuid env w = (u, w') \<Longrightarrow> P w'" "env_fresh_token env w = (t, w') \<Longrightarrow> P w'"
    "env_race env t d w = (r, w') \<Longrightarrow> P w'"
  using assms unfolding env_keeps_def by (metis snd_conv)+

lemma fine_deadline_error: "fine Q (deadline_error ac r node step d)"
  by (auto simp: deadline_error_def run_timeout_error_def node_timeout_error_def within_limit_def
      split: active_deadline.split option.split)

lemma fine_cancelled: "within_limit (cancelled_error r node step)"
  by (simp add: cancelled_error_def within_limit_def)

lemma io_tracks_check:
  assumes "env_keeps P env"
  shows "io_tracks P (check env ac r node step d) (\<lambda>_. True)"
  unfolding io_tracks_def
proof (intro allI impI)
  fix w y w' assume w: "P w" "check env ac r node step d w = (y, w')"
  obtain b w1 where c: "env_cancelled env (ac_cancellation_token ac) w = (b, w1)" by fastforce
  have w1: "P w1" by (rule env_keepsD(1) [OF assms w(1) c])
  show "P w' \<and> fine (\<lambda>_. True) y"
  proof (cases b)
    case True
    then show ?thesis using w(2) c w1 by (auto simp: check_def fine_cancelled)
  next
    case False
    show ?thesis
    proof (cases d)
      case None
      then show ?thesis using w(2) c w1 False by (auto simp: check_def)
    next
      case (Some d')
      obtain now w2 where n: "env_now env w1 = (now, w2)" by fastforce
      have "P w2" by (rule env_keepsD(2) [OF assms w1 n])
      then show ?thesis
        using w(2) c False Some n by (auto simp: check_def fine_deadline_error split: if_splits)
    qed
  qed
qed

lemma io_tracks_select:
  assumes "env_keeps P env" and "io_tracks P future Q"
  shows "io_tracks P (select_future env ac r node step d future) Q"
  unfolding io_tracks_def
proof (intro allI impI)
  fix w y w' assume w: "P w" "select_future env ac r node step d future w = (y, w')"
  obtain b w1 where c: "env_race env (ac_cancellation_token ac) (map_option deadline_instant d) w = (b, w1)"
    by fastforce
  have w1: "P w1" by (rule env_keepsD(5) [OF assms(1) w(1) c])
  have fut: "P w' \<and> fine Q y"
    if "future w1 = (y, w')" using assms(2) w1 that unfolding io_tracks_def by blast
  show "P w' \<and> fine Q y"
  proof (cases b)
    case CancelledFirst
    then show ?thesis using w(2) c w1 by (auto simp: select_future_def fine_cancelled)
  next
    case DeadlineFirst
    show ?thesis
    proof (cases d)
      case None
      then show ?thesis using w(2) c DeadlineFirst fut by (auto simp: select_future_def)
    next
      case (Some d')
      then show ?thesis
        using w(2) c DeadlineFirst w1 by (auto simp: select_future_def fine_deadline_error)
    qed
  next
    case FutureFirst
    then show ?thesis using w(2) c fut by (auto simp: select_future_def)
  qed
qed

lemma io_tracks_boundary:
  "env_keeps P env \<Longrightarrow> io_tracks P future Q \<Longrightarrow> io_tracks P (await_run_boundary env ac r step future) Q"
  by (simp add: await_run_boundary_def io_tracks_select)

lemma tracks_guard:
  "env_keeps P (iv_env iv) \<Longrightarrow> tracks P (guard iv node step nd) (\<lambda>_. True)"
  unfolding guard_def run_check_def by (rule tracks_or_fail [OF io_tracks_check])


lemma begin_invocation_keeps:
  assumes env: "env_keeps P env" and w: "P w"
    and begun: "begin_invocation env config events control w = (x, st)"
  shows "P (rs_world st)"
proof -
  obtain i w1 where w1: "env_now env w = (i, w1)" by fastforce
  obtain u w2 where w2: "env_uuid env w1 = (u, w2)" by fastforce
  have P2: "P w2" using env_keepsD(3) [OF env _ w2] env_keepsD(2) [OF env w w1] by blast
  have "P (snd (active_control_new env control i w2))"
    using P2 env_keepsD(4) [OF env P2]
    by (auto simp: active_control_new_def split: option.splits prod.splits)
  then show ?thesis using begun w1 w2 by (auto simp: begin_invocation_def split: prod.splits)
qed

section \<open>The contract of one node\<close>

definition flat_graph :: "('s, 'u, 'v, 'w) compiled_graph \<Rightarrow> bool" where
  "flat_graph g \<longleftrightarrow>
     (\<forall>i < length (cg_items g). node_at g i \<noteq> None) \<and> cg_scope_exits g = []"

text \<open>
  \<open>P\<close> is the property of the world, \<open>Inv\<close> the invariant of state, steps and frontier, \<open>R\<close> what
  resume values may be, and \<open>H\<close> what holds of a state and the request it is interrupted with.
\<close>

definition boundary_of ::
    "('s, 'u, 'v, 'w) compiled_graph \<Rightarrow> ('s \<Rightarrow> nat \<Rightarrow> nat list \<Rightarrow> bool)
      \<Rightarrow> ('s \<Rightarrow> 'v interrupt_payload \<Rightarrow> bool) \<Rightarrow> 's \<Rightarrow> 'v checkpoint_boundary \<Rightarrow> bool" where
  "boundary_of g Inv H s b \<longleftrightarrow>
     (\<exists>F. Inv s (cb_step b) F \<and> map Some (cb_next_frontier b) = frontier_paths_at g F)
     \<and> (\<forall>c. cb_interrupt b = Some c \<longrightarrow> H s (ci_payload c))"

locale single_run =
  fixes env :: "'w environment" and ops :: "('s, 'u) state_ops"
    and g :: "('s, 'u, 'v, 'w) compiled_graph" and rk :: "('s, 'v, 'c, 'w) runtime_checkpoint"
    and limit :: nat and P :: "'w \<Rightarrow> bool" and Inv :: "'s \<Rightarrow> nat \<Rightarrow> nat list \<Rightarrow> bool"
    and R :: "'v resume_value option \<Rightarrow> bool" and H :: "'s \<Rightarrow> 'v interrupt_payload \<Rightarrow> bool"
  assumes flat: "flat_graph g"
    and env: "env_keeps P env"
    and save: "boundary_of g Inv H s b \<Longrightarrow> io_tracks P (rk_save rk r s b chk) (\<lambda>_. True)"
    and interrupt_error: "rk_interrupt_error rk r intr path k parallel = Some e \<Longrightarrow> within_limit e"
    and resume_none: "R None"
    and small: "limit < usize_bound"
    and single: "Inv s n F \<Longrightarrow> F = [] \<or> (\<exists>i. F = [i] \<and> n < limit)"
    and node: "Inv s n [i] \<Longrightarrow> node_at g i = Some nd \<Longrightarrow> P w \<Longrightarrow> R (ctx_resume_value ctx) \<Longrightarrow>
      run_node (cn_kind nd) s ctx w = (x, w') \<Longrightarrow>
      P w' \<and> (\<forall>req. x = Inr (Interrupt req) \<longrightarrow> H s (ir_payload req))
      \<and> (\<forall>u s' d ts. x = Inr (Update u) \<longrightarrow> apply_update ops s u = Inr s' \<longrightarrow>
           resolve_into (cn_transition nd) s' (cn_graph_path nd) [] (path_at g) = Ok (d, ts) \<longrightarrow>
           Inv s' (Suc n) (sort_dedup ts))"

definition runs_on ::
    "'w environment \<Rightarrow> ('s, 'u) state_ops \<Rightarrow> ('s, 'u, 'v, 'w) compiled_graph
      \<Rightarrow> ('s, 'v, 'c, 'w) runtime_checkpoint \<Rightarrow> ('s, 'u, 'v, 'c, 'w) invocation \<Rightarrow> bool" where
  "runs_on env ops g rk iv \<longleftrightarrow>
     iv_env iv = env \<and> iv_ops iv = ops \<and> iv_graph iv = g \<and> iv_checkpoints iv = rk"

lemma runs_onD:
  assumes "runs_on env ops g rk iv"
  shows "iv_env iv = env" "iv_ops iv = ops" "iv_graph iv = g" "iv_checkpoints iv = rk"
  using assms by (simp_all add: runs_on_def)

text \<open>On a flat graph a frontier is its own normal form.\<close>

lemma normalize_flat:
  assumes "flat_graph g" and "normalize_frontier g r s step bs F em = Some (Ok (bs', F'), em')"
  shows "F' = F"
proof (cases "length F = 1")
  case True
  then obtain i where F: "F = [i]" by (cases F) auto
  show ?thesis
  proof (cases "i < length (cg_items g)")
    case True
    then obtain nd where "cg_items g ! i = Node nd"
      using assms(1) unfolding flat_graph_def by (metis node_at_Some option.exhaust)
    then show ?thesis
      using assms(2) True F by (subst (asm) normalize_frontier.simps) (simp add: normalize_turn_def)
  next
    case False
    then show ?thesis
      using assms(2) F by (subst (asm) normalize_frontier.simps) (simp add: normalize_turn_def)
  qed
next
  case False
  then have "normalize_turn g r s step F em = (Stop (Ok ()), em)"
    by (auto simp: normalize_turn_def split: list.splits)
  then show ?thesis using assms(2) by (subst (asm) normalize_frontier.simps) simp
qed

lemma normalize_flat_no_error:
  assumes "flat_graph g"
  shows "normalize_frontier g r s step bs F em \<noteq> Some (Err e, em')"
proof (cases "length F = 1")
  case True
  then obtain i where F: "F = [i]" by (cases F) auto
  show ?thesis
  proof (cases "i < length (cg_items g)")
    case True
    then obtain nd where "cg_items g ! i = Node nd"
      using assms unfolding flat_graph_def by (metis node_at_Some option.exhaust)
    then show ?thesis
      using True F by (subst normalize_frontier.simps) (simp add: normalize_turn_def)
  next
    case False
    then show ?thesis
      using F by (subst normalize_frontier.simps) (simp add: normalize_turn_def)
  qed
next
  case False
  then have "normalize_turn g r s step F em = (Stop (Ok ()), em)"
    by (auto simp: normalize_turn_def split: list.splits)
  then show ?thesis by (subst normalize_frontier.simps) simp
qed

lemma tracks_normalize:
  assumes "flat_graph (iv_graph iv)"
  shows "tracks P (run_normalize iv s step F) (\<lambda>(bs, F'). F' = F)"
proof -
  have "fine (\<lambda>(bs, F'). F' = F) (fst y)"
    if "normalize_frontier (iv_graph iv) (iv_run_id iv) s step [] F em = Some y" for y em
  proof (cases "fst y")
    case (Ok a)
    then show ?thesis
      using normalize_flat [OF assms, of _ s step "[]" F em] that by (cases a; cases y) fastforce
  next
    case (Err e)
    then show ?thesis
      using normalize_flat_no_error [OF assms, of _ s step "[]" F em] that by (cases y) fastforce
  qed simp
  then show ?thesis
    unfolding tracks_def run_normalize_def run_emitter_def run_fail_def
    by (fastforce split: option.splits prod.splits result.splits)
qed

section \<open>A super-step keeps the invariant\<close>

definition routes_well ::
    "('s, 'u, 'v, 'w) compiled_graph \<Rightarrow> ('s \<Rightarrow> nat \<Rightarrow> nat list \<Rightarrow> bool) \<Rightarrow> nat
      \<Rightarrow> ('s, 'u, 'v, 'w) compiled_node \<Rightarrow> 's \<Rightarrow> bool" where
  "routes_well g Inv n nd s \<longleftrightarrow>
     (\<forall>d ts. resolve_into (cn_transition nd) s (cn_graph_path nd) [] (path_at g) = Ok (d, ts) \<longrightarrow>
        Inv s (Suc n) (sort_dedup ts))"

definition held ::
    "('s \<Rightarrow> nat \<Rightarrow> nat list \<Rightarrow> bool) \<Rightarrow> ('s \<Rightarrow> 'v interrupt_payload \<Rightarrow> bool) \<Rightarrow> ('s, 'v) interrupt_report
      \<Rightarrow> bool" where
  "held Inv H rep \<longleftrightarrow>
     (\<exists>i. Inv (it_state rep) (it_steps rep) [i]) \<and> H (it_state rep) (ci_payload (it_interrupt rep))"

definition kept ::
    "('s \<Rightarrow> nat \<Rightarrow> nat list \<Rightarrow> bool) \<Rightarrow> ('v resume_value option \<Rightarrow> bool) \<Rightarrow> ('s, 'v, 'c) execution
      \<Rightarrow> bool" where
  "kept Inv R ex \<longleftrightarrow> Inv (ex_state ex) (ex_steps ex) (ex_frontier ex) \<and> R (ex_resume_value ex)"

definition well_ended ::
    "('s \<Rightarrow> nat \<Rightarrow> nat list \<Rightarrow> bool) \<Rightarrow> ('s \<Rightarrow> 'v interrupt_payload \<Rightarrow> bool) \<Rightarrow> ('s, 'v) execution_outcome
      \<Rightarrow> bool" where
  "well_ended Inv H out \<longleftrightarrow>
     (case out of Completed rep \<Rightarrow> Inv (rr_final_state rep) (rr_steps rep) [] | Interrupted rep \<Rightarrow> held Inv H rep)"

context single_run
begin

lemma tracks_guards:
  "runs_on env ops g rk iv \<Longrightarrow> tracks P (guard iv p n nd) (\<lambda>_. True)"
  using env by (simp add: tracks_guard runs_on_def)

lemma io_tracks_execute_node:
  assumes inv: "Inv s n [i]" and nd: "node_at g i = Some nd" and "R (ctx_resume_value ctx)"
  shows "io_tracks P (execute_node env ac r nd s ctx dl) (\<lambda>out. case out of
      Interrupt req \<Rightarrow> H s (ir_payload req)
    | Update u \<Rightarrow> \<forall>s'. apply_update ops s u = Inr s' \<longrightarrow> routes_well g Inv n nd s')"
proof -
  let ?Q = "\<lambda>x :: node_error + ('u, 'v) node_outcome. (\<forall>req. x = Inr (Interrupt req) \<longrightarrow> H s (ir_payload req))
      \<and> (\<forall>u s'. x = Inr (Update u) \<longrightarrow> apply_update ops s u = Inr s' \<longrightarrow> routes_well g Inv n nd s')"
  have future: "io_tracks P (\<lambda>w. case run_node (cn_kind nd) s ctx w of (x, w') \<Rightarrow> (Ok x, w')) ?Q"
    unfolding io_tracks_def
  proof (intro allI impI)
    fix w w' and y :: "(graph_run_error, node_error + ('u, 'v) node_outcome) result"
    assume w: "P w" "(case run_node (cn_kind nd) s ctx w of (x, w') \<Rightarrow> (Ok x, w')) = (y, w')"
    then obtain x where x: "run_node (cn_kind nd) s ctx w = (x, w')" "y = Ok x"
      by (auto split: prod.splits)
    show "P w' \<and> fine ?Q y"
      using node [OF inv nd w(1) assms(3) x(1)] x(2) by (simp add: routes_well_def)
  qed
  show ?thesis
    unfolding execute_node_def Let_def
  proof (rule io_tracks_bind [OF io_tracks_check [OF env]],
      rule io_tracks_bind [where Q = "?Q"])
    show "io_tracks P (if is_disabled ac then \<lambda>w. case run_node (cn_kind nd) s ctx w of (x, w') \<Rightarrow> (Ok x, w')
        else select_future env ac r (Some (cn_path nd)) (ctx_step ctx) (deadline ac dl)
          (\<lambda>w. case run_node (cn_kind nd) s ctx w of (x, w') \<Rightarrow> (Ok x, w'))) ?Q"
      using future io_tracks_select [OF env future] by simp
    fix x assume x: "?Q x"
    show "io_tracks P (io_bind (check env ac r (Some (cn_path nd)) (ctx_step ctx) (deadline ac None))
        (\<lambda>_. io_return (case x of Inl e \<Rightarrow> Err (graph_run_error.NodeFailed (cn_path nd) (ctx_step ctx) e)
           | Inr outcome \<Rightarrow> Ok outcome)))
      (\<lambda>out. case out of Interrupt req \<Rightarrow> H s (ir_payload req)
        | Update u \<Rightarrow> \<forall>s'. apply_update ops s u = Inr s' \<longrightarrow> routes_well g Inv n nd s')"
      using x
      by (intro io_tracks_bind [OF io_tracks_check [OF env]])
        (auto simp: io_tracks_def io_return_def within_limit_def split: sum.split node_outcome.split)
  qed
qed

lemma tracks_start_node:
  assumes "runs_on env ops g rk iv" and "R (ex_resume_value ex)"
  shows "tracks P (start_node iv ex x) (\<lambda>(ctx, dl). R (ctx_resume_value ctx))"
proof -
  have now: "tracks P (run_world (env_now (iv_env iv))) (\<lambda>_. True)"
    using env assms(1) by (intro tracks_world) (auto simp: env_keeps_def runs_on_def)
  show ?thesis
    using assms(2) resume_none unfolding start_node_def
    by (cases x) (auto simp: Let_def node_context_new_def intro!: tracks_bind [OF tracks_get_node]
        tracks_seq [OF tracks_guards [OF assms(1)]] tracks_seq [OF now] tracks_seq [OF tracks_emit]
        tracks_return)
qed

lemma tracks_suspend:
  assumes iv: "runs_on env ops g rk iv" and inv: "Inv (ex_state ex) (ex_steps ex) [i]"
    and nd: "node_at g i = Some nd" and "H (ex_state ex) (ir_payload req)"
  shows "tracks P (suspend iv ex nd ss step req)
    (\<lambda>c. case c of Committed s \<Rightarrow> False | Suspended rep \<Rightarrow> held Inv H rep)"
proof -
  let ?b = "boundary_new (usize_pred ss) (ex_steps ex) [cn_path nd] False
    (Some (interrupt_into_checkpoint req (cn_path nd)))"
  have payload: "ci_payload (interrupt_into_checkpoint req (cn_path nd)) = ir_payload req"
    by (simp add: interrupt_into_checkpoint_def)
  have "boundary_of g Inv H (ex_state ex) ?b"
    unfolding boundary_of_def
    by (intro conjI exI [of _ "[i]"])
      (use assms in \<open>simp_all add: boundary_new_def frontier_paths_at_def payload\<close>)
  then have saves: "tracks P (or_fail (await_run_boundary (iv_env iv) (iv_control iv) r' base
      (rk_save (iv_checkpoints iv) r (ex_state ex) ?b c))) (\<lambda>_. True)" for r' base r c
    using iv env save by (intro tracks_or_fail io_tracks_boundary) (auto simp: runs_on_def)
  have rejected: "within_limit e" if "rk_interrupt_error (iv_checkpoints iv) r intr p k b = Some e" for r intr p k b e
    using that iv interrupt_error by (auto simp: runs_on_def)
  show ?thesis
    unfolding suspend_def Let_def
    by (rule tracks_seq [OF tracks_emit])
      (use assms rejected in \<open>auto simp: held_def payload intro!: tracks_fail
        tracks_seq [OF saves] tracks_seq [OF tracks_emit] tracks_seq [OF tracks_guards [OF iv]]
        tracks_seq [OF tracks_retained] tracks_return split: prod.split option.split\<close>)
qed

lemma tracks_run_single:
  assumes iv: "runs_on env ops g rk iv" and ex: "kept Inv R ex" and F: "ex_frontier ex = [i]"
    and nd: "node_at g i = Some nd"
  shows "tracks P (run_single iv ex nd) (\<lambda>c. case c of
      Committed s \<Rightarrow> routes_well g Inv (ex_steps ex) nd s | Suspended rep \<Rightarrow> held Inv H rep)"
proof -
  have inv: "Inv (ex_state ex) (ex_steps ex) [i]" and r: "R (ex_resume_value ex)"
    using ex F by (simp_all add: kept_def)
  let ?Q = "\<lambda>out. case out of Interrupt req \<Rightarrow> H (ex_state ex) (ir_payload req)
    | Update u \<Rightarrow> \<forall>s'. apply_update ops (ex_state ex) u = Inr s' \<longrightarrow> routes_well g Inv (ex_steps ex) nd s'"
  have exec: "tracks P (or_fail (execute_node (iv_env iv) (iv_control iv) (iv_run_id iv) nd (ex_state ex) ctx dl)) ?Q"
    if "R (ctx_resume_value ctx)" for ctx dl
    using iv by (intro tracks_or_fail) (simp add: runs_on_def io_tracks_execute_node [OF inv nd that])
  show ?thesis
    unfolding run_single_def Let_def
  proof (rule tracks_bind [OF tracks_start_node [OF iv r]], clarify, rule tracks_bind [OF exec], assumption)
    fix out assume out: "?Q out"
    show "tracks P (case out of
          Interrupt req \<Rightarrow> suspend iv ex nd (usize_add (ex_superstep ex) 1) (offset_step (ex_steps ex) 0) req
        | Update u \<Rightarrow>
            run_bind (run_emit (NodeCompleted (iv_run_id iv) (cn_path nd) (offset_step (ex_steps ex) 0))) (\<lambda>_.
            run_bind (guard iv (Some (cn_path nd)) (offset_step (ex_steps ex) 0) None) (\<lambda>_.
            run_bind (guard iv (Some (cn_path nd)) (offset_step (ex_steps ex) 0) None) (\<lambda>_.
              (case apply_update (iv_ops iv) (ex_state ex) u of
                 Inl e \<Rightarrow> run_fail (graph_run_error.StateUpdateFailed (cn_path nd) (offset_step (ex_steps ex) 0) e)
               | Inr s \<Rightarrow> run_return (Committed s))))))
      (\<lambda>c. case c of Committed s \<Rightarrow> routes_well g Inv (ex_steps ex) nd s | Suspended rep \<Rightarrow> held Inv H rep)"
    proof (cases out)
      case (Update u)
      then show ?thesis
        using out
        by (auto simp: runs_onD [OF iv] within_limit_def intro!: tracks_seq [OF tracks_emit]
            tracks_seq [OF tracks_guards [OF iv]] tracks_fail tracks_return split: sum.split)
    next
      case (Interrupt req)
      then show ?thesis
        using out tracks_conseq [OF tracks_suspend [OF iv inv nd, of req]] by (simp split: commit.splits)
    qed
  qed
qed

lemma tracks_next_frontier:
  assumes iv: "runs_on env ops g rk iv" and "ex_frontier ex = [i]" and nd: "node_at g i = Some nd"
    and "routes_well g Inv (ex_steps ex) nd s"
  shows "tracks P (next_frontier iv ex nd s) (\<lambda>(bs, F). Inv s (Suc (ex_steps ex)) F)"
proof -
  have resolve: "tracks P (run_emitter (resolve_transition g (iv_run_id iv) (cn_transition nd) s
      (cn_graph_path nd) (cn_path nd) step [])) (\<lambda>ts. Inv s (Suc (ex_steps ex)) (sort_dedup ts))" for step
    using assms(4) unfolding tracks_def run_emitter_def resolve_transition_def run_fail_def routes_well_def
    by (auto simp: transition_run_error_def within_limit_def
        split: result.splits prod.splits transition_error.splits)
  show ?thesis
    unfolding next_frontier_def assms(2)
  proof (rule tracks_bind [where Q = "\<lambda>ts. Inv s (Suc (ex_steps ex)) (sort_dedup ts)"])
    show "tracks P (route_nodes iv (ex_steps ex) s (enumerate 0 [i]) [])
        (\<lambda>ts. Inv s (Suc (ex_steps ex)) (sort_dedup ts))"
      using nd by (auto simp: runs_onD [OF iv] intro!: tracks_bind [OF tracks_get_node] tracks_bind [OF resolve]
          tracks_seq [OF tracks_guards [OF iv]] tracks_return)
    fix ts assume ts: "Inv s (Suc (ex_steps ex)) (sort_dedup ts)"
    have exits: "cg_scope_exits (iv_graph iv) = []" and flat': "flat_graph (iv_graph iv)"
      using iv flat by (simp_all add: runs_on_def flat_graph_def)
    show "tracks P (let routed = sort_dedup ts; frontier = (if routed = []
             then option_list (map_of (cg_scope_exits (iv_graph iv)) (cn_graph_path nd)) else routed)
       in run_normalize iv s (usize_add (ex_steps ex) (length [i])) frontier)
      (\<lambda>(bs, F). Inv s (Suc (ex_steps ex)) F)"
      using ts exits unfolding Let_def
      by (intro tracks_conseq [OF tracks_normalize [OF flat']]) (auto simp: sort_dedup_def split: if_splits)
  qed
qed

lemma tracks_save_boundary:
  assumes iv: "runs_on env ops g rk iv" and inv: "Inv s n F"
  shows "tracks P (save_boundary iv s ss n F chk) (\<lambda>_. True)"
proof -
  have saves: "tracks P (or_fail (await_run_boundary (iv_env iv) (iv_control iv) r' base
      (rk_save (iv_checkpoints iv) r s (boundary_new ss n ps (F = []) None) c))) (\<lambda>_. True)"
    if "map Some ps = frontier_paths_at (iv_graph iv) F" for r' base r ps c
  proof -
    have "boundary_of g Inv H s (boundary_new ss n ps (F = []) None)"
      unfolding boundary_of_def
      by (intro conjI exI [of _ F]) (use that inv in \<open>simp_all add: boundary_new_def runs_onD [OF iv]\<close>)
    then show ?thesis
      using iv env save by (intro tracks_or_fail io_tracks_boundary) (auto simp: runs_on_def)
  qed
  show ?thesis
    unfolding save_boundary_def Let_def
    by (auto intro!: tracks_return tracks_bind [OF tracks_frontier_paths] tracks_seq [OF saves]
        tracks_seq [OF tracks_emit] split: prod.split)
qed

lemma tracks_finish_superstep:
  assumes iv: "runs_on env ops g rk iv" and F: "ex_frontier ex = [i]" and nd: "node_at g i = Some nd"
    and "ex_steps ex < limit" and "routes_well g Inv (ex_steps ex) nd s"
  shows "tracks P (finish_superstep iv ex nd s) (kept Inv R)"
proof -
  have steps: "usize_add (ex_steps ex) (length (ex_frontier ex)) = Suc (ex_steps ex)"
    using assms(4) F small by simp
  have updated: "tracks P (run_for (state_updated iv ex) xs) (\<lambda>_. True)" for xs
    unfolding state_updated_def
    by (rule tracks_for) (auto simp: Let_def intro!: tracks_bind [OF tracks_get_node]
        tracks_seq [OF tracks_emit] tracks_guards [OF iv] split: prod.split)
  show ?thesis
    unfolding finish_superstep_def Let_def steps
    by (rule tracks_seq [OF updated], rule tracks_bind [OF tracks_next_frontier [OF iv F nd assms(5)]])
      (auto simp: kept_def resume_none intro!: tracks_seq [OF tracks_save_boundary [OF iv]]
        tracks_seq [OF tracks_when] tracks_guards [OF iv] tracks_seq [OF tracks_for] tracks_emit
        tracks_seq [OF tracks_guards [OF iv]] tracks_seq [OF tracks_node_paths] tracks_return)
qed

lemma tracks_superstep_turn:
  assumes iv: "runs_on env ops g rk iv" and ex: "kept Inv R ex" and "ex_frontier ex \<noteq> []"
  shows "tracks P (superstep_turn iv limit ex)
    (\<lambda>t. case t of Halted rep \<Rightarrow> held Inv H rep | Advanced ex' \<Rightarrow> kept Inv R ex')"
proof -
  obtain i where F: "ex_frontier ex = [i]" and n: "ex_steps ex < limit"
    using single ex assms(3) by (fastforce simp: kept_def)
  have entered: "tracks P (begin_superstep iv limit ex) (\<lambda>nd. node_at g i = Some nd)"
    using F n unfolding begin_superstep_def Let_def
    by (auto simp: runs_onD [OF iv] intro!: tracks_bind [OF tracks_get_node] tracks_seq [OF tracks_guards [OF iv]]
        tracks_seq [OF tracks_when] tracks_seq [OF tracks_node_paths] tracks_emit tracks_return)
  show ?thesis
    unfolding superstep_turn_def
  proof (rule tracks_bind [OF entered])
    fix nd assume nd: "node_at g i = Some nd"
    note single = tracks_run_single [OF iv ex F nd]
    show "tracks P (run_bind (if length (ex_frontier ex) > 1 then run_parallel iv ex nd else run_single iv ex nd)
        (\<lambda>c. case c of Suspended report \<Rightarrow> run_return (Halted report)
          | Committed s \<Rightarrow> run_bind (finish_superstep iv ex nd s) (\<lambda>ex'. run_return (Advanced ex'))))
      (\<lambda>t. case t of Halted rep \<Rightarrow> held Inv H rep | Advanced ex' \<Rightarrow> kept Inv R ex')"
      using F n by (auto intro!: tracks_bind [OF single] tracks_return
          tracks_bind [OF tracks_finish_superstep [OF iv F nd]] split: commit.splits)
  qed
qed

lemma run_loop_tracked:
  assumes run: "run_loop iv l ex st = Some z"
    and "runs_on env ops g rk iv" and "l = limit" and "kept Inv R ex" and "P (rs_world st)"
  shows "P (rs_world (snd z)) \<and> fine (\<lambda>t. case t of
      Halted rep \<Rightarrow> held Inv H rep | Advanced ex' \<Rightarrow> kept Inv R ex' \<and> ex_frontier ex' = []) (fst z)"
  using assms(2-)
proof (induction rule: run_loop.raw_induct [OF _ run])
  case (1 f iv l ex st z)
  note iv = "1.prems"(1) and ex = "1.prems"(3)
  show ?case
  proof (cases "ex_frontier ex = []")
    case True
    then show ?thesis using "1"(2) "1.prems" by auto
  next
    case False
    then obtain x st1 where turn: "superstep_turn iv l ex st = Some (x, st1)"
      using "1"(2) by (auto simp: bind_eq_Some_conv split: prod.splits)
    have t: "P (rs_world st1) \<and> fine (\<lambda>t. case t of Halted rep \<Rightarrow> held Inv H rep
        | Advanced ex' \<Rightarrow> kept Inv R ex') x"
      using tracksD [OF tracks_superstep_turn [OF iv ex False] "1.prems"(4)] turn "1.prems"(2) by blast
    show ?thesis
    proof (cases "\<exists>ex'. x = Ok (Advanced ex')")
      case True
      then obtain ex' where x: "x = Ok (Advanced ex')" by blast
      then have "f iv l ex' st1 = Some z" using "1"(2) False turn by simp
      from "1"(1) [OF this iv "1.prems"(2)] show ?thesis using t x by simp
    next
      case no: False
      then show ?thesis
        using "1"(2) False turn t by (cases x) (auto split: turn_result.splits)
    qed
  qed
qed

lemma tracks_run_loop:
  "runs_on env ops g rk iv \<Longrightarrow> kept Inv R ex \<Longrightarrow> tracks P (run_loop iv limit ex) (\<lambda>t. case t of
      Halted rep \<Rightarrow> held Inv H rep | Advanced ex' \<Rightarrow> kept Inv R ex' \<and> ex_frontier ex' = [])"
  unfolding tracks_def using run_loop_tracked by fastforce

lemma tracks_execute_internal:
  assumes iv: "runs_on env ops g rk iv" and ex: "kept Inv R ex"
    and limit: "usize_saturating_add (ex_steps ex) (iv_max_steps iv) = limit"
  shows "tracks P (execute_internal iv ex) (well_ended Inv H)"
proof -
  have complete: "tracks P (complete_run iv ex') (well_ended Inv H)"
    if "kept Inv R ex' \<and> ex_frontier ex' = []" for ex'
    using that unfolding complete_run_def
    by (auto simp: well_ended_def kept_def intro!: tracks_seq [OF tracks_guards [OF iv]]
        tracks_seq [OF tracks_emit] tracks_seq [OF tracks_retained] tracks_return)
  have loop: "tracks P (run_loop iv limit (ex\<lparr>ex_checkpoints := chk\<rparr>)) (\<lambda>t. case t of
      Halted rep \<Rightarrow> held Inv H rep | Advanced ex' \<Rightarrow> kept Inv R ex' \<and> ex_frontier ex' = [])" for chk
    by (rule tracks_run_loop [OF iv]) (use ex in \<open>simp add: kept_def\<close>)
  have save: "tracks P (save_boundary iv (ex_state ex) ss (ex_steps ex) [] chk) (\<lambda>_. True)"
    if "ex_frontier ex = []" for ss chk
    using ex that by (intro tracks_save_boundary [OF iv]) (simp add: kept_def)
  show ?thesis
    unfolding execute_internal_def limit Let_def
    by (rule tracks_seq)
      (auto intro!: tracks_return tracks_bind [OF loop] complete save
        simp: well_ended_def split: turn_result.splits)
qed

lemma tracks_start_run:
  assumes iv: "runs_on env ops g rk iv" and "iv_max_steps iv = limit"
    and start: "Inv s 0 (option_list (cg_entry_index g))"
  shows "tracks P (start_run iv s chk) (well_ended Inv H)"
proof -
  have flat': "flat_graph (iv_graph iv)" using flat by (simp add: runs_onD [OF iv])
  have limit: "usize_saturating_add 0 (iv_max_steps iv) = limit"
    using small assms(2) by (simp add: usize_saturating_add_def)
  show ?thesis
    unfolding start_run_def emit_boundaries_def runs_onD(3) [OF iv]
    by (rule tracks_bind [OF tracks_normalize [OF flat']])
      (use start resume_none in \<open>auto simp: kept_def limit intro!: tracks_seq [OF tracks_for] tracks_emit
        tracks_seq [OF tracks_node_paths] tracks_seq [OF tracks_guards [OF iv]]
        tracks_execute_internal [OF iv]\<close>)
qed

lemma invoke_internal_tracked:
  assumes run: "invoke_internal env ops g s config events control rk chk w = Some (y, st)"
    and "max_steps config = limit" and "Inv s 0 (option_list (cg_entry_index g))" and "P w"
  shows "P (rs_world st) \<and> fine (well_ended Inv H) y"
proof -
  obtain r ac st0 where begun: "begin_invocation env config events control w = ((r, ac), st0)"
    by (metis prod.exhaust)
  have st0: "P (rs_world st0)"
    using begin_invocation_keeps [OF env assms(4) begun] .
  let ?iv = "\<lparr>iv_graph = g, iv_ops = ops, iv_env = env, iv_control = ac, iv_run_id = r,
    iv_max_steps = max_steps config, iv_checkpoints = rk\<rparr>"
  have iv: "runs_on env ops g rk ?iv" by (simp add: runs_on_def)
  have "start_run ?iv s chk st0 = Some (y, st)"
    using run begun by (simp add: invoke_internal_def)
  then show ?thesis
    using tracksD [OF tracks_start_run [OF iv _ assms(3)] st0] assms(2) by simp
qed

end

end
