(* ===== verification/AgentGraphs.thy ===== *)
theory AgentGraphs
  imports Agents Evaluation SingleRuns
begin

text \<open>
  The compiled graph of the tool-calling agent: its two nodes in order, each with its router. The
  graph compiles with every correct search, and without any of the errors of the builder or the
  compiler.
\<close>

section \<open>The search does not matter\<close>

lemma validate_reachability_set:
  "set xs = set ys \<Longrightarrow> validate_reachability g ea ix xs = validate_reachability g ea ix ys"
  by (simp add: validate_reachability_def)

lemma compile_same_search:
  assumes "dfs_correct dfs" and "dfs_correct dfs'"
  shows "compile dfs g = compile dfs' g"
proof -
  have "set (dfs es s) = set (dfs' es s)" for es s
    using assms by (simp add: dfs_correct_def)
  then have reach: "validate_reachability g ea ix (dfs es s) = validate_reachability g ea ix (dfs' es s)" for ea ix es s
    by (intro validate_reachability_set)
  have "validate_topology dfs g ea = validate_topology dfs' g ea" for ea
    unfolding validate_topology_def by (simp only: reach)
  then show ?thesis by (simp add: compile_def)
qed

section \<open>The graph\<close>

definition agent_version :: "'w agent_parts \<Rightarrow> graph_version" where
  "agent_version p =
     (case output_version (ap_output p) (ap_tool_approval p) of
        Some v \<Rightarrow> v
      | None \<Rightarrow> if ap_tool_approval p then AGENT_APPROVAL_GRAPH_VERSION else AGENT_GRAPH_VERSION)"

definition model_item :: "'w agent_parts \<Rightarrow> ('w agent_state, agent_update, agent_value, 'w) compiled_node" where
  "model_item p =
     \<lparr>cn_path = NodePath [MODEL_NODE_ID], cn_graph_path = GraphPath [], cn_kind = model_kind p,
      cn_transition = Conditional route_after_model [(node_id_end, None), (TOOL_NODE_ID, Some 1)]\<rparr>"

definition tool_item :: "'w agent_parts \<Rightarrow> ('w agent_state, agent_update, agent_value, 'w) compiled_node" where
  "tool_item p =
     \<lparr>cn_path = NodePath [TOOL_NODE_ID], cn_graph_path = GraphPath [], cn_kind = tool_kind p,
      cn_transition = Conditional (route_after_tools (ap_max_rounds p))
        [(node_id_end, None), (MODEL_NODE_ID, Some 0)]\<rparr>"

definition agent_graph_of :: "'w agent_parts \<Rightarrow> 'w agent_graph" where
  "agent_graph_of p =
     \<lparr>cg_items = [Node (model_item p), Node (tool_item p)],
      cg_node_paths = [(NodePath [MODEL_NODE_ID], 0), (NodePath [TOOL_NODE_ID], 1)],
      cg_scope_exits = [], cg_entry_index = Some 0, cg_version = Some (agent_version p)\<rparr>"

definition agent_calls :: "'w agent_parts \<Rightarrow> ('w agent_state, agent_update, agent_value, 'w) builder_call list" where
  "agent_calls p =
     [CallSetVersion (agent_version p), CallAddNode MODEL_NODE_ID (model_kind p),
      CallAddNode TOOL_NODE_ID (tool_kind p), CallAddEdge node_id_start MODEL_NODE_ID,
      CallAddConditionalEdges MODEL_NODE_ID [node_id_end, TOOL_NODE_ID] route_after_model,
      CallAddConditionalEdges TOOL_NODE_ID [node_id_end, MODEL_NODE_ID]
        (route_after_tools (ap_max_rounds p))]"

lemma agent_state_graph_eq:
  "agent_state_graph p = Inr (builder_run state_graph_new (agent_calls p))"
  by (cases "output_version (ap_output p) (ap_tool_approval p)")
    (simp_all add: agent_state_graph_def agent_calls_def agent_version_def MODEL_NODE_ID_def TOOL_NODE_ID_def
      compile_eval)

lemma agent_compiles_search:
  "compile reach_search (builder_run state_graph_new (agent_calls p)) = Ok (agent_graph_of p)"
  by (simp add: agent_calls_def agent_graph_of_def model_item_def tool_item_def MODEL_NODE_ID_def
      TOOL_NODE_ID_def compile_eval)

lemma agent_compiles:
  "dfs_correct dfs \<Longrightarrow> compile dfs (builder_run state_graph_new (agent_calls p)) = Ok (agent_graph_of p)"
  using agent_compiles_search compile_same_search [OF _ reach_search_correct] by metis

lemma compile_agent_graph_eq:
  "dfs_correct dfs \<Longrightarrow> compile_agent_graph dfs p = Ok (agent_graph_of p)"
  by (simp add: compile_agent_graph_def agent_state_graph_eq agent_compiles)

lemma agent_built: "dfs_correct dfs \<Longrightarrow> built dfs (agent_graph_of p)"
  by (rule built.built [OF _ agent_compiles]) (auto simp: agent_calls_def)

lemma agent_graph_simps [simp]:
  "cg_items (agent_graph_of p) = [Node (model_item p), Node (tool_item p)]"
  "cg_scope_exits (agent_graph_of p) = []" "cg_entry_index (agent_graph_of p) = Some 0"
  "cg_version (agent_graph_of p) = Some (agent_version p)"
  by (simp_all add: agent_graph_of_def)

lemma agent_node_at:
  "node_at (agent_graph_of p) i =
     (if i = 0 then Some (model_item p) else if i = 1 then Some (tool_item p) else None)"
  by (simp add: node_at_def nth_Cons split: nat.split)

lemma agent_flat: "flat_graph (agent_graph_of p)"
  by (auto simp: flat_graph_def agent_node_at less_Suc_eq)

lemma agent_no_empty: "no_empty_subgraph (agent_graph_of p)"
  by (simp add: no_empty_subgraph_def enters_node_def)

end
