(* ===== verification/AgentRuns.thy ===== *)
theory AgentRuns
  imports AgentGraphs
begin

text \<open>
  What the runs of an agent keep: the conversation is the input followed by rounds whose tool calls
  are all answered in order, the counters follow it, and a frontier holds the node whose turn it is.
\<close>

section \<open>Conversations\<close>

type_synonym agent_round = "assistant_message \<times> tool_message list"

definition answered :: "agent_round \<Rightarrow> bool" where
  "answered r \<longleftrightarrow>
     am_tool_calls (fst r) \<noteq> []
     \<and> map tm_tool_call_id (snd r) = map tc_id (am_tool_calls (fst r))"

definition conversation :: "message list \<Rightarrow> agent_round list \<Rightarrow> message list" where
  "conversation input rs = input @ concat (map (\<lambda>(a, ts). Assistant a # map Tool ts) rs)"

lemma conversation_snoc:
  "conversation input (rs @ [(a, ts)]) = conversation input rs @ Assistant a # map Tool ts"
  by (simp add: conversation_def)

lemma conversation_Nil [simp]: "conversation input [] = input"
  by (simp add: conversation_def)

text \<open>The three situations of a run: the model's turn, the tools' turn, and its end.\<close>

definition model_turn :: "'w agent_parts \<Rightarrow> message list \<Rightarrow> 'w agent_state \<Rightarrow> nat \<Rightarrow> agent_round list \<Rightarrow> bool" where
  "model_turn p input s n rs \<longleftrightarrow>
     as_messages s = conversation input rs \<and> as_stop_reason s = None
     \<and> as_model_rounds s = length rs \<and> length rs < ap_max_rounds p \<and> n = 2 * length rs"

definition tools_turn :: "'w agent_parts \<Rightarrow> message list \<Rightarrow> 'w agent_state \<Rightarrow> nat \<Rightarrow> agent_round list \<Rightarrow> bool" where
  "tools_turn p input s n rs \<longleftrightarrow>
     (\<exists>a. am_tool_calls a \<noteq> [] \<and> as_messages s = conversation input rs @ [Assistant a])
     \<and> as_stop_reason s = None \<and> as_model_rounds s = Suc (length rs)
     \<and> length rs < ap_max_rounds p \<and> n = Suc (2 * length rs)"

definition stopped :: "'w agent_parts \<Rightarrow> message list \<Rightarrow> 'w agent_state \<Rightarrow> agent_round list \<Rightarrow> bool" where
  "stopped p input s rs \<longleftrightarrow>
     as_stop_reason s = Some FinalAnswer \<and> as_model_rounds s = Suc (length rs)
       \<and> length rs < ap_max_rounds p
       \<and> (\<exists>a. am_tool_calls a = [] \<and> as_messages s = conversation input rs @ [Assistant a])
     \<or> as_stop_reason s = Some MaxRounds \<and> as_model_rounds s = length rs
       \<and> length rs = ap_max_rounds p \<and> as_messages s = conversation input rs"

text \<open>A gated run is one whose tools wait for an approval that it does not have.\<close>

definition agent_inv ::
    "'w agent_parts \<Rightarrow> 'w agent_sink option \<Rightarrow> message list \<Rightarrow> bool \<Rightarrow> 'w agent_state \<Rightarrow> nat \<Rightarrow> nat list \<Rightarrow> bool" where
  "agent_inv p sink input gated s n F \<longleftrightarrow>
     0 < ap_max_rounds p \<and> ap_max_rounds p * 2 < usize_bound \<and> as_sink s = sink \<and> usage_is_aligned s
     \<and> (\<exists>rs. (\<forall>r \<in> set rs. answered r) \<and> (gated \<longrightarrow> rs = [])
          \<and> (F = [0] \<and> model_turn p input s n rs \<or> F = [1] \<and> tools_turn p input s n rs
             \<or> F = [] \<and> stopped p input s rs))"

definition asks_for :: "'w agent_parts \<Rightarrow> 'w agent_state \<Rightarrow> agent_value typed_value \<Rightarrow> bool" where
  "asks_for p s payload \<longleftrightarrow>
     ap_tool_approval p
     \<and> (\<exists>calls. pending_tool_calls s = Some calls \<and> calls \<noteq> [] \<and> payload = approval_payload calls)"

definition step_bound :: "'w agent_parts \<Rightarrow> nat" where
  "step_bound p = (if ap_max_rounds p * 2 < usize_bound then ap_max_rounds p * 2 else 0)"

lemma step_bound_small: "step_bound p < usize_bound"
  by (simp add: step_bound_def)

section \<open>Updates\<close>

lemma returning_Inr: "returning x w = (Inr a, w') \<longleftrightarrow> x = Some (Ok a, w')"
  by (auto simp: returning_def split: option.splits result.splits prod.splits)

lemma model_node_run_update:
  assumes "model_node_run js nd s w = Some (Ok u, w')"
  shows "\<exists>m usage. u = ModelUpdate m usage"
proof (cases "as_sink s")
  case None
  then show ?thesis
    using assms by (auto simp: model_node_run_def Let_def split: sum.splits prod.splits)
next
  case (Some sink)
  have "\<exists>m usage. u = ModelUpdate m usage"
    if "(case x of Ok r \<Rightarrow> (Ok (ModelUpdate (rs_message r) (rs_usage r)), f w2)
        | Err e \<Rightarrow> (Err e, w2) | Panic \<Rightarrow> (Panic, w2)) = (Ok u, w')"
    for x :: "(node_error, chat_response) result" and f w2
    using that by (cases x) auto
  note returned = this
  show ?thesis
    using assms Some by (auto simp: model_node_run_def Let_def split: sum.splits prod.splits dest!: returned)
qed

lemma model_node_update:
  "run_node (model_kind p) s ctx w = (Inr out, w') \<Longrightarrow> \<exists>m usage. out = Update (ModelUpdate m usage)"
  using model_node_run_update
  by (fastforce simp: model_kind_def returning_Inr split: prod.splits sum.splits)

lemma execute_pending_update:
  assumes "execute_pending exe nd s calls w = Some (Ok u, w')"
  shows "\<exists>ms. u = ToolsUpdate ms (as_model_rounds s = tn_max_rounds nd)"
proof -
  obtain x w1 where x: "execute_batch exe (observed_runtime nd s) calls batch_config_default w = Some (x, w1)"
    using assms by (auto simp: execute_pending_def)
  then show ?thesis
    using assms by (cases x) (auto simp: execute_pending_def tools_completed_def split: if_splits option.splits)
qed

lemma approval_node_update:
  assumes "approval_node_run env exe nd s ctx w = Some (Ok (Update u), w')"
  shows "\<exists>ms. u = ToolsUpdate ms (as_model_rounds s = tn_max_rounds nd)"
proof -
  have "\<exists>ms. u = ToolsUpdate ms (as_model_rounds s = tn_max_rounds nd)"
    if "map_option (\<lambda>(x, w1). (result_bind x (\<lambda>u. Ok (Update u)), w1)) (execute_pending exe nd s calls w)
      = Some (Ok (Update u :: (agent_update, agent_value) node_outcome), w')" for calls
    using that execute_pending_update [of exe nd s calls w u w'] by auto
  then show ?thesis
    using assms
    by (auto simp: approval_node_run_def Let_def rejected_update_def tools_completed_def
        split: sum.splits if_splits prod.splits agent_value.splits approval_decision.splits)
qed

lemma tool_node_run_update:
  "tool_node_run exe nd s w = Some (Ok u, w') \<Longrightarrow> \<exists>ms. u = ToolsUpdate ms (as_model_rounds s = tn_max_rounds nd)"
  using execute_pending_update by (fastforce simp: tool_node_run_def split: sum.splits)

lemma tool_node_update:
  "run_node (tool_kind p) s ctx w = (Inr (Update u), w') \<Longrightarrow>
     \<exists>ms. u = ToolsUpdate ms (as_model_rounds s = ap_max_rounds p)"
  using approval_node_update [of _ _ "part_tool_node p"] tool_node_run_update [of _ "part_tool_node p"]
  by (fastforce simp: tool_kind_def returning_Inr part_tool_node_def split: if_splits prod.splits sum.splits)

lemma model_turn_step:
  assumes "model_turn p input s n rs" and "agent_apply s (ModelUpdate m usage) = Inr s'"
  shows "usage_is_aligned s' \<and> as_sink s' = as_sink s
    \<and> (if am_tool_calls m = [] then stopped p input s' rs else tools_turn p input s' (Suc n) rs)
    \<and> pending_tool_calls s' = Some (am_tool_calls m)"
  using assms
  by (auto simp: model_turn_def stopped_def tools_turn_def usage_is_aligned_def usize_checked_add_def
      pending_tool_calls_def last_message_def split: if_splits option.splits)

lemma tools_turn_step:
  assumes "tools_turn p input s n rs"
    and "agent_apply s (ToolsUpdate ms (as_model_rounds s = ap_max_rounds p)) = Inr s'"
  shows "\<exists>a. answered (a, ms) \<and> usage_is_aligned s' \<and> as_sink s' = as_sink s
    \<and> (if as_model_rounds s = ap_max_rounds p then stopped p input s' (rs @ [(a, ms)])
       else model_turn p input s' (Suc n) (rs @ [(a, ms)]))
    \<and> (\<exists>m. last_message (as_messages s') = Some (Tool m))"
proof -
  obtain a where a: "am_tool_calls a \<noteq> []" "as_messages s = conversation input rs @ [Assistant a]"
    using assms(1) by (auto simp: tools_turn_def)
  have pending: "pending_tool_calls s = Some (am_tool_calls a)"
    using a(2) by (simp add: pending_tool_calls_def last_message_def)
  have len: "length (am_tool_calls a) = length ms"
    and ids: "\<not> list_ex (\<lambda>(c, m). tc_id c \<noteq> tm_tool_call_id m) (zip (am_tool_calls a) ms)"
    using assms(2) a(1) pending by (auto split: if_splits)
  have "map tm_tool_call_id ms = map tc_id (am_tool_calls a)"
  proof (rule nth_equalityI)
    fix i assume "i < length (map tm_tool_call_id ms)"
    then have "(am_tool_calls a ! i, ms ! i) \<in> set (zip (am_tool_calls a) ms)" and i: "i < length ms"
      using len by (auto simp: set_zip)
    then have "tc_id (am_tool_calls a ! i) = tm_tool_call_id (ms ! i)"
      using ids by (fastforce simp: list_ex_iff)
    then show "map tm_tool_call_id ms ! i = map tc_id (am_tool_calls a) ! i" using i len by simp
  qed (simp add: len)
  moreover have "ms \<noteq> []" using a(1) len by auto
  moreover have "s' = s\<lparr>as_messages := as_messages s @ map Tool ms, as_stop_reason :=
      (if as_model_rounds s = ap_max_rounds p then Some MaxRounds else None)\<rparr>" and "usage_is_aligned s"
    using assms(2) a(1) pending by (auto split: if_splits)
  ultimately show ?thesis
    using assms(1) a
    by (intro exI [of _ a]) (auto simp: answered_def tools_turn_def stopped_def model_turn_def usage_is_aligned_def
        conversation_snoc last_message_def last_map)
qed

section \<open>Routes\<close>

lemma agent_ids: "MODEL_NODE_ID \<noteq> node_id_end" "TOOL_NODE_ID \<noteq> node_id_end"
  by (simp_all add: MODEL_NODE_ID_def TOOL_NODE_ID_def node_id_end_def END_def)

lemma routed_to:
  assumes "resolve_into (Conditional r [(a, None), (b, Some i)]) s gp [] f = Ok (d, ts)" and "b \<noteq> a"
  shows "r s = Inr a \<and> ts = [] \<or> r s = Inr b \<and> ts = [i]"
  using assms by (cases "r s") (auto simp: resolve_into_def split: option.splits if_splits)

lemma model_route:
  assumes "pending_tool_calls s = Some calls"
    and "resolve_into (cn_transition (model_item p)) s gp [] f = Ok (d, ts)"
  shows "ts = (if calls = [] then [] else [1])"
  using assms(1) routed_to [of route_after_model node_id_end TOOL_NODE_ID 1 s gp f d ts] assms(2) agent_ids
  by (auto simp: model_item_def route_after_model_def)

lemma tool_route:
  assumes "as_model_rounds s \<noteq> 0" and "usage_is_aligned s" and "last_message (as_messages s) = Some (Tool m)"
    and "resolve_into (cn_transition (tool_item p)) s gp [] f = Ok (d, ts)"
  shows "ts = (if as_stop_reason s = None then [0] else [])"
  using assms(1-3) routed_to [of "route_after_tools (ap_max_rounds p)" node_id_end MODEL_NODE_ID 0 s gp f d ts]
    assms(4) agent_ids
  by (cases "as_stop_reason s")
    (auto simp: tool_item_def route_after_tools_def tools_route_target_def
      split: if_splits agent_stop_reason.splits)

section \<open>What the nodes keep\<close>

definition model_keeps :: "('w \<Rightarrow> bool) \<Rightarrow> 'w agent_parts \<Rightarrow> 'w agent_sink option \<Rightarrow> bool" where
  "model_keeps P p sink \<longleftrightarrow>
     (\<forall>s ctx w. as_sink s = sink \<longrightarrow> P w \<longrightarrow> P (snd (run_node (model_kind p) s ctx w)))"

definition tools_keep :: "('w \<Rightarrow> bool) \<Rightarrow> 'w agent_parts \<Rightarrow> 'w agent_sink option \<Rightarrow> bool \<Rightarrow> bool" where
  "tools_keep P p sink gated \<longleftrightarrow>
     (\<forall>s ctx w. as_sink s = sink \<longrightarrow> (gated \<longrightarrow> ctx_resume_value ctx = None) \<longrightarrow> P w \<longrightarrow>
        P (snd (run_node (tool_kind p) s ctx w)))"

lemma execute_pending_no_interrupt:
  "map_option (\<lambda>(x, w1). (result_bind x (\<lambda>u. Ok (Update u)), w1)) y \<noteq> Some (Ok (Interrupt req), w')"
  by (auto simp: result_bind_eq_Ok)

lemma tool_node_asks:
  assumes "run_node (tool_kind p) s ctx w = (Inr (Interrupt req), w')"
  shows "asks_for p s (ir_payload req)"
proof -
  have ap: "ap_tool_approval p"
    using assms by (auto simp: tool_kind_def split: if_splits prod.splits sum.splits)
  then have "approval_node_run (ap_env p) (ap_executor p) (part_tool_node p) s ctx w = Some (Ok (Interrupt req), w')"
    using assms by (simp add: tool_kind_def returning_Inr)
  then show ?thesis
    using ap execute_pending_no_interrupt
    by (auto simp: approval_node_run_def Let_def asks_for_def validated_pending_calls_def
        split: sum.splits if_splits prod.splits agent_value.splits approval_decision.splits option.splits)
qed

lemma gated_no_update:
  assumes "ap_tool_approval p" and "ctx_resume_value ctx = None"
  shows "run_node (tool_kind p) s ctx w \<noteq> (Inr (Update u), w')"
  using assms
  by (auto simp: tool_kind_def returning_Inr approval_node_run_def Let_def split: sum.splits prod.splits)

lemma agent_single_run:
  assumes "env_keeps P env"
    and "\<And>r s b chk. boundary_of (agent_graph_of p) (agent_inv p sink input gated) (asks_for p) s b \<Longrightarrow>
      io_tracks P (rk_save rk r s b chk) (\<lambda>_. True)"
    and "\<And>r intr path k b e. rk_interrupt_error rk r intr path k b = Some e \<Longrightarrow> within_limit e"
    and model: "model_keeps P p sink" and tools: "tools_keep P p sink gated"
    and gate: "gated \<Longrightarrow> ap_tool_approval p"
    and limit: "step_bound p \<le> limit" "limit < usize_bound"
  shows "single_run env agent_ops (agent_graph_of p) rk limit P (agent_inv p sink input gated)
    (\<lambda>r. gated \<longrightarrow> r = None) (asks_for p)"
proof
  show "flat_graph (agent_graph_of p)" by (rule agent_flat)
  show "limit < usize_bound" by (rule limit(2))
  show "F = [] \<or> (\<exists>i. F = [i] \<and> n < limit)" if "agent_inv p sink input gated s n F" for s n F
    using that limit(1) by (auto simp: agent_inv_def step_bound_def model_turn_def tools_turn_def)
  fix s n i nd w ctx x w'
  assume inv: "agent_inv p sink input gated s n [i]" and nd: "node_at (agent_graph_of p) i = Some nd"
    and w: "P w" and r: "gated \<longrightarrow> ctx_resume_value ctx = None"
    and run: "run_node (cn_kind nd) s ctx w = (x, w')"
  obtain rs where bound: "0 < ap_max_rounds p" "ap_max_rounds p * 2 < usize_bound"
      and s: "as_sink s = sink" "usage_is_aligned s"
      and rs: "\<forall>r \<in> set rs. answered r" "gated \<longrightarrow> rs = []"
      and turn: "i = 0 \<and> model_turn p input s n rs \<or> i = 1 \<and> tools_turn p input s n rs"
    using inv by (auto simp: agent_inv_def)
  have invI: "agent_inv p sink input gated s' n' F"
    if "as_sink s' = sink" "usage_is_aligned s'" "\<forall>r \<in> set rs'. answered r" "gated \<longrightarrow> rs' = []"
      "F = [0] \<and> model_turn p input s' n' rs' \<or> F = [1] \<and> tools_turn p input s' n' rs'
        \<or> F = [] \<and> stopped p input s' rs'" for s' n' F rs'
    using that bound unfolding agent_inv_def by blast
  show "P w' \<and> (\<forall>req. x = Inr (Interrupt req) \<longrightarrow> asks_for p s (ir_payload req))
    \<and> (\<forall>u s' d ts. x = Inr (Update u) \<longrightarrow> apply_update agent_ops s u = Inr s' \<longrightarrow>
         resolve_into (cn_transition nd) s' (cn_graph_path nd) [] (path_at (agent_graph_of p)) = Ok (d, ts) \<longrightarrow>
         agent_inv p sink input gated s' (Suc n) (sort_dedup ts))"
  proof (cases "i = 0")
    case True
    then have nd: "nd = model_item p" and mt: "model_turn p input s n rs" using nd turn by (simp_all add: agent_node_at)
    then have run: "run_node (model_kind p) s ctx w = (x, w')" using run by (simp add: model_item_def)
    have "P w'" using model s(1) w run unfolding model_keeps_def by (metis snd_conv)
    moreover have "agent_inv p sink input gated s' (Suc n) (sort_dedup ts)"
      if "x = Inr (Update u)" "apply_update agent_ops s u = Inr s'"
        "resolve_into (cn_transition nd) s' (cn_graph_path nd) [] (path_at (agent_graph_of p)) = Ok (d, ts)"
      for u s' d ts
    proof -
      note upd = that(1)
      obtain m usage where u: "u = ModelUpdate m usage" using model_node_update [of p s ctx w "Update u"] run upd by auto
      note step = model_turn_step [OF mt, of m usage s']
      have "agent_apply s (ModelUpdate m usage) = Inr s'" using that(2) u by (simp add: agent_ops_def)
      note step = step [OF this]
      have "ts = (if am_tool_calls m = [] then [] else [1])"
        using model_route step that(3) nd by blast
      then show ?thesis
        using step s rs by (intro invI [of s' rs]) (auto simp: sort_dedup_def)
    qed
    moreover have "x \<noteq> Inr (Interrupt req)" for req
      using model_node_update [of p s ctx w] run by fastforce
    ultimately show ?thesis by blast
  next
    case False
    then have nd: "nd = tool_item p" and tt: "tools_turn p input s n rs" using nd turn by (auto simp: agent_node_at)
    then have run: "run_node (tool_kind p) s ctx w = (x, w')" using run by (simp add: tool_item_def)
    have "P w'" using tools s(1) w run r unfolding tools_keep_def by (metis snd_conv)
    moreover have "agent_inv p sink input gated s' (Suc n) (sort_dedup ts)"
      if "x = Inr (Update u)" "apply_update agent_ops s u = Inr s'"
        "resolve_into (cn_transition nd) s' (cn_graph_path nd) [] (path_at (agent_graph_of p)) = Ok (d, ts)"
      for u s' d ts
    proof -
      note upd = that(1)
      have ungated: "\<not> gated" using gated_no_update [of p ctx s w u] gate r run upd by blast
      obtain ms where "u = ToolsUpdate ms (as_model_rounds s = ap_max_rounds p)"
        using tool_node_update [of p s ctx w u] run upd by auto
      then have "agent_apply s (ToolsUpdate ms (as_model_rounds s = ap_max_rounds p)) = Inr s'"
        using that(2) by (simp add: agent_ops_def)
      from tools_turn_step [OF tt this] obtain a m where a: "answered (a, ms)" "usage_is_aligned s'"
          "as_sink s' = as_sink s" "last_message (as_messages s') = Some (Tool m)"
          and next_turn: "if as_model_rounds s = ap_max_rounds p then stopped p input s' (rs @ [(a, ms)])
            else model_turn p input s' (Suc n) (rs @ [(a, ms)])" by blast
      have "as_model_rounds s' \<noteq> 0"
        using next_turn by (auto simp: stopped_def model_turn_def split: if_splits)
      from tool_route [OF this a(2,4)] have "ts = (if as_stop_reason s' = None then [0] else [])"
        using that(3) nd by blast
      then show ?thesis
        using next_turn ungated a s rs
        by (intro invI [of s' "rs @ [(a, ms)]"])
          (auto simp: sort_dedup_def stopped_def model_turn_def split: if_splits)
    qed
    moreover have "asks_for p s (ir_payload req)" if "x = Inr (Interrupt req)" for req
      using tool_node_asks [of p s ctx w req w'] run that by simp
    ultimately show ?thesis by blast
  qed
qed (use assms in auto)

text \<open>The locale on every agent, whatever its surroundings do.\<close>

lemma env_keeps_True: "env_keeps (\<lambda>_. True) env" by (simp add: env_keeps_def)

lemma plain_disabled:
  "io_tracks P (rk_save disabled_checkpoint r s bd chk) Q"
  "rk_interrupt_error disabled_checkpoint r intr path k parallel = Some e \<Longrightarrow> within_limit e"
  by (auto simp: disabled_checkpoint_def within_limit_def io_tracks_def split: if_splits)

lemma keeps_True: "model_keeps (\<lambda>_. True) p sink" "tools_keep (\<lambda>_. True) p sink gated"
  by (simp_all add: model_keeps_def tools_keep_def)

lemma agent_plain_run:
  "single_run env agent_ops (agent_graph_of p) disabled_checkpoint (step_bound p)
     (\<lambda>_. True) (agent_inv p sink input False) (\<lambda>r. False \<longrightarrow> r = None) (asks_for p)"
  by (rule agent_single_run) (rule env_keeps_True plain_disabled keeps_True step_bound_small order_refl
      | assumption | simp)+

interpretation plain_run: single_run env agent_ops "agent_graph_of p" disabled_checkpoint "step_bound p"
  "\<lambda>_. True" "agent_inv p sink input False" "\<lambda>_. True" "asks_for p" for env p sink input
  using agent_plain_run by simp

end
