(* ===== verification/ToolGuarantees.thy ===== *)
theory ToolGuarantees
  imports ToolBatches
begin

text \<open>
  What \<open>group-agent-tool\<close> promises: the registry accepts exactly the well-declared tools and finds
  them, a batch always ends with one report per call and each result comes from the tool of its call,
  the scheduler keeps its concurrency limit and runs exclusive tools alone, and a fail-fast batch with
  an invalid call executes nothing.
\<close>

section \<open>A concrete runtime\<close>

text \<open>The world of the examples lists the calls that were executed.\<close>

definition demo_tool :: "string \<Rightarrow> bool \<Rightarrow> tool_call_id list tool" where
  "demo_tool n parallel =
     \<lparr>tl_name = ToolName n,
      tl_definition = \<lparr>td_name = ToolName n, td_description = ''d'', td_input_schema = JObject []\<rparr>,
      tl_behavior = with_parallel parallel (tool_behavior_new ReadOnly),
      tl_execute = \<lambda>input w. (Inr (tool_output_new (tool_result_text ''ok'')), w @ [ti_call_id input])\<rparr>"

definition demo_schemas :: schema_compiler where
  "demo_schemas schema = Inr (\<lambda>_. None)"

definition demo_tools :: "tool_call_id list tool list" where
  "demo_tools = [demo_tool ''b'' False, demo_tool ''a'' True]"

definition demo_runtime :: "tool_call_id list tool_runtime" where
  "demo_runtime =
     tool_runtime_new (case try_from_tools demo_schemas demo_tools of Inr g \<Rightarrow> g | Inl _ \<Rightarrow> registry_empty)"

definition demo_item :: "string \<Rightarrow> string \<Rightarrow> batch_item" where
  "demo_item c n = batch_item_new (tool_call_new (ToolCallId c) (ToolName n) (JObject []))"

definition demo_executor :: "tool_call_id list executor" where
  "demo_executor = \<lparr>exe_elapses = \<lambda>_ _ w. (False, w), exe_next = \<lambda>_ w. (0, w)\<rparr>"

text \<open>A string between graphic ASCII characters has no white space to trim.\<close>

definition graphic :: "char \<Rightarrow> bool" where
  "graphic c \<longleftrightarrow> of_char c \<in> {33 ..< 127 :: nat}"

lemma white_space_not_graphic: "w \<in> set white_space \<Longrightarrow> w \<noteq> [] \<and> \<not> graphic (hd w) \<and> \<not> graphic (last w)"
  by (auto simp: white_space_def utf8_def graphic_def)

lemma trim_graphic:
  assumes "s \<noteq> []" and "graphic (hd s)" and "graphic (last s)"
  shows "trim s = s"
proof -
  have "take (length w) s \<noteq> w" if "w \<in> set white_space" for w
    using white_space_not_graphic [OF that] assms(1,2) by (metis hd_take length_greater_0_conv)
  then have start: "strip_one white_space s = None" by (simp add: strip_one_None_iff)
  have "take (length w) (rev s) \<noteq> w" if "rev w \<in> set white_space" for w
  proof -
    have "w \<noteq> []" "\<not> graphic (hd w)" using white_space_not_graphic [OF that] by (auto simp: last_rev)
    moreover have "graphic (hd (rev s))" using assms(1,3) by (simp add: hd_rev)
    ultimately show ?thesis using assms(1) by (metis hd_take length_greater_0_conv)
  qed
  then have "strip_one (map rev white_space) (rev s) = None" by (auto simp: strip_one_None_iff) (metis length_rev rev_rev_ident)
  then show ?thesis using start by (simp add: trim_def trim_start_def trim_end_def strip_all_id)
qed

lemma trim_demo [simp]:
  "trim ''a'' = ''a''" "trim ''b'' = ''b''" "trim ''c'' = ''c''" "trim ''d'' = ''d''"
  "trim ''1'' = ''1''" "trim ''2'' = ''2''"
  by (rule trim_graphic; simp add: graphic_def)+

lemma control_demo [simp]:
  "\<not> has_control ''a''" "\<not> has_control ''b''" "\<not> has_control ''c''" "\<not> has_control ''1''" "\<not> has_control ''2''"
  by simp_all

definition demo_entry :: "string \<Rightarrow> bool \<Rightarrow> tool_call_id list registered_tool" where
  "demo_entry n parallel =
     \<lparr>rt_tool = demo_tool n parallel, rt_definition = tl_definition (demo_tool n parallel),
      rt_behavior = tl_behavior (demo_tool n parallel), rt_validator = \<lambda>_. None\<rparr>"

lemma demo_registry:
  "try_from_tools demo_schemas demo_tools =
     Inr (registry_build \<lparr>rb_entries = [(ToolName ''a'', demo_entry ''a'' True), (ToolName ''b'', demo_entry ''b'' False)],
       rb_schema_compilation_count = 2\<rparr>)"
  by (simp add: demo_tools_def demo_tool_def demo_schemas_def demo_entry_def try_from_tools_def
      registry_builder_new_def register_arc_def Let_def is_canonical_name_def behavior_validate_def
      with_parallel_def tool_behavior_new_def less_tool_name_def numeral_2_eq_2)

lemma prepare_demo:
  "prepare demo_runtime (bi_call (demo_item ''1'' ''a'')) (bi_options (demo_item ''1'' ''a'')) ctx =
     Inr (demo_entry ''a'' True)"
  "prepare demo_runtime (bi_call (demo_item ''2'' ''b'')) (bi_options (demo_item ''2'' ''b'')) ctx =
     Inr (demo_entry ''b'' False)"
  "prepare demo_runtime (bi_call (demo_item ''2'' ''c'')) (bi_options (demo_item ''2'' ''c'')) ctx =
     Inl (runtime_error_new ToolNotFound ctx)"
  by (simp_all add: prepare_def demo_runtime_def demo_registry demo_item_def batch_item_new_def
      tool_call_new_def is_valid_call_identifier_def tool_runtime_new_def registry_entry_def
      registry_build_def Let_def demo_entry_def demo_tool_def with_parallel_def tool_behavior_new_def)

section \<open>The registry\<close>

definition registrable :: "schema_compiler \<Rightarrow> 'w tool \<Rightarrow> bool" where
  "registrable cs t \<longleftrightarrow>
     td_name (tl_definition t) = tl_name t \<and> is_canonical_name (tool_name_str (tl_name t))
     \<and> trim (td_description (tl_definition t)) \<noteq> []
     \<and> behavior_validate (tl_behavior t) = Inr ()
     \<and> (\<exists>v. cs (td_input_schema (tl_definition t)) = Inr v)"

lemma map_sum_Inr_iff: "map_sum id f x = Inr y \<longleftrightarrow> (\<exists>z. x = Inr z \<and> y = f z)"
  by (cases x) auto

lemma register_arc_iff:
  "(\<exists>b'. register_arc cs t b = (Inr (), b')) \<longleftrightarrow>
     map_of (rb_entries b) (tl_name t) = None \<and> registrable cs t"
  by (auto simp: register_arc_def registrable_def Let_def split: sum.splits if_splits)

lemma register_arc_entries:
  "register_arc cs t b = (Inr u, b') \<Longrightarrow> \<exists>e. rb_entries b' = bt_insert (tl_name t) e (rb_entries b) \<and> rt_tool e = t"
  by (auto simp: register_arc_def Let_def split: sum.splits if_splits)

lemma register_all_iff:
  "builder_ok cs b \<Longrightarrow>
     (\<exists>b'. register_all cs ts b = Inr b') \<longleftrightarrow>
       distinct (map tl_name ts) \<and> (\<forall>t \<in> set ts. registrable cs t \<and> map_of (rb_entries b) (tl_name t) = None)"
proof (induction ts arbitrary: b)
  case (Cons t ts)
  obtain r b1 where reg: "register_arc cs t b = (r, b1)" by fastforce
  have ok: "builder_ok cs b1" by (rule register_arc_ok [OF Cons.prems reg])
  show ?case
  proof (cases r)
    case (Inl e)
    then show ?thesis using reg register_arc_iff [of cs t b] by auto
  next
    case (Inr u)
    obtain e where e: "rb_entries b1 = bt_insert (tl_name t) e (rb_entries b)"
      using register_arc_entries [OF reg [unfolded Inr]] by blast
    have "map_of (rb_entries b1) = (map_of (rb_entries b))(tl_name t \<mapsto> e)"
      using Cons.prems e by (simp add: builder_ok_def)
    moreover have "map_of (rb_entries b) (tl_name t) = None" "registrable cs t"
      using register_arc_iff [of cs t b] reg Inr by auto
    moreover have "(\<forall>u \<in> set ts. tl_name u \<noteq> tl_name t) \<longleftrightarrow> tl_name t \<notin> tl_name ` set ts"
      by (metis image_iff)
    ultimately show ?thesis using Cons.IH [OF ok] reg Inr by (auto split: if_splits)
  qed
qed simp

lemma register_all_entries:
  "builder_ok cs b \<Longrightarrow> register_all cs ts b = Inr b' \<Longrightarrow>
     builder_ok cs b'
     \<and> (\<forall>n. map_option rt_tool (map_of (rb_entries b') n) =
          (case map_of (map (\<lambda>t. (tl_name t, t)) ts) n of
             Some t \<Rightarrow> Some t | None \<Rightarrow> map_option rt_tool (map_of (rb_entries b) n)))"
proof (induction ts arbitrary: b)
  case (Cons t ts)
  obtain r b1 where reg: "register_arc cs t b = (r, b1)" by fastforce
  have ok: "builder_ok cs b1" by (rule register_arc_ok [OF Cons.prems(1) reg])
  obtain u where r: "r = Inr u" "register_all cs ts b1 = Inr b'"
    using Cons.prems(2) reg by (cases r) auto
  obtain e where e: "rb_entries b1 = bt_insert (tl_name t) e (rb_entries b)" "rt_tool e = t"
    using register_arc_entries [OF reg [unfolded r(1)]] by blast
  have b1: "map_of (rb_entries b1) = (map_of (rb_entries b))(tl_name t \<mapsto> e)"
    using Cons.prems(1) e(1) by (simp add: builder_ok_def)
  have "map_of (map (\<lambda>t. (tl_name t, t)) ts) (tl_name t) = None"
    using register_all_iff [OF Cons.prems(1), of "t # ts"] Cons.prems(2)
    by (auto simp: map_of_eq_None_iff)
  then show ?case using Cons.IH [OF ok r(2)] b1 e(2) by (auto split: option.splits)
qed simp

lemma builder_ok_new [simp]: "builder_ok cs registry_builder_new"
  by (simp add: builder_ok_def registry_builder_new_def)

lemma rb_entries_new [simp]: "rb_entries registry_builder_new = []"
  by (simp add: registry_builder_new_def)

text \<open>C36: The registry accepts a list of tools exactly when their names are distinct and each tool
  is well declared: its definition bears its name, the name is canonical, the description is not
  blank, the behaviour is consistent and the schema compiles. A registry that was built finds exactly
  the registered tools by their names, with the declared behaviour, and lists the definitions in the
  strict order of the names.\<close>
theorem registry_holds_registered_tools:
  "((\<exists>g. try_from_tools cs ts = Inr g) \<longleftrightarrow>
      distinct (map tl_name ts) \<and> (\<forall>t \<in> set ts. registrable cs t))
   \<and> (\<forall>g. try_from_tools cs ts = Inr g \<longrightarrow>
        registry_get g = map_of (map (\<lambda>t. (tl_name t, t)) ts)
        \<and> registry_behavior g = map_of (map (\<lambda>t. (tl_name t, tl_behavior t)) ts)
        \<and> sorted_wrt (<) (map td_name (registry_definitions g))
        \<and> set (registry_definitions g) = tl_definition ` set ts)"
proof (intro conjI allI impI)
  show "(\<exists>g. try_from_tools cs ts = Inr g) \<longleftrightarrow>
      distinct (map tl_name ts) \<and> (\<forall>t \<in> set ts. registrable cs t)"
    using register_all_iff [of cs registry_builder_new ts]
    by (simp add: try_from_tools_def map_sum_Inr_iff)
next
  fix g assume "try_from_tools cs ts = Inr g"
  then obtain b where b: "register_all cs ts registry_builder_new = Inr b" "g = registry_build b"
    by (auto simp: try_from_tools_def map_sum_Inr_iff)
  have ok: "builder_ok cs b" using register_all_entries [OF builder_ok_new b(1)] by simp
  have get: "map_option rt_tool (map_of (rb_entries b) n) = map_of (map (\<lambda>t. (tl_name t, t)) ts) n" for n
    using register_all_entries [OF builder_ok_new b(1)] by (simp split: option.splits)
  note entry = registry_entry_build [OF ok, folded b(2)]
  show "registry_get g = map_of (map (\<lambda>t. (tl_name t, t)) ts)"
    by (rule ext) (simp add: registry_get_def entry get)
  have beh: "rt_behavior e = tl_behavior (rt_tool e)" "rt_definition e = tl_definition (rt_tool e)"
    if "(n, e) \<in> set (rb_entries b)" for n e
    using ok that by (auto simp: builder_ok_def)
  have "map_option rt_behavior (map_of (rb_entries b) n)
      = map_option tl_behavior (map_option rt_tool (map_of (rb_entries b) n))" for n
    using beh by (cases "map_of (rb_entries b) n") (auto dest: map_of_SomeD)
  also have "\<dots> n = map_of (map (\<lambda>t. (tl_name t, tl_behavior t)) ts) n" for n
    unfolding get by (induction ts) auto
  finally show "registry_behavior g = map_of (map (\<lambda>t. (tl_name t, tl_behavior t)) ts)"
    by (intro ext) (simp add: registry_behavior_def entry)
  have names: "map td_name (registry_definitions g) = map fst (rb_entries b)"
    using ok by (auto simp: registry_definitions_def b(2) registry_build_def Let_def builder_ok_def)
  then show "sorted_wrt (<) (map td_name (registry_definitions g))"
    using ok by (simp add: builder_ok_def bt_wf_def)
  have wf: "distinct (map fst (rb_entries b))" using ok by (auto simp: builder_ok_def dest: bt_wf_distinct)
  have names: "distinct (map tl_name ts)"
    using register_all_iff [OF builder_ok_new, of cs ts] b(1) by blast
  have "t \<in> rt_tool ` snd ` set (rb_entries b) \<longleftrightarrow> t \<in> set ts" for t
  proof -
    have "t \<in> rt_tool ` snd ` set (rb_entries b) \<longleftrightarrow> (\<exists>n e. map_of (rb_entries b) n = Some e \<and> rt_tool e = t)"
      using wf by (force simp: map_of_eq_Some_iff)
    also have "\<dots> \<longleftrightarrow> (\<exists>n. map_of (map (\<lambda>t. (tl_name t, t)) ts) n = Some t)"
      unfolding get [symmetric] by auto
    also have "\<dots> \<longleftrightarrow> t \<in> set ts"
      using names by (auto simp: map_of_eq_Some_iff comp_def)
    finally show ?thesis .
  qed
  then have tools: "rt_tool ` snd ` set (rb_entries b) = set ts" by blast
  have "set (registry_definitions g) = (\<lambda>e. tl_definition (rt_tool e)) ` snd ` set (rb_entries b)"
    using beh(2) by (force simp: registry_definitions_def b(2) registry_build_def Let_def image_iff)
  then show "set (registry_definitions g) = tl_definition ` set ts"
    unfolding tools [symmetric] by (simp add: image_image)
qed


theorem registry_holds_registered_tools_witness:
  "\<exists>g. try_from_tools demo_schemas demo_tools = Inr g
     \<and> registry_get g (ToolName ''b'') = Some (demo_tool ''b'' False) \<and> registry_get g (ToolName ''c'') = None"
proof -
  have "\<forall>t \<in> set demo_tools. registrable demo_schemas t" "distinct (map tl_name demo_tools)"
    by (auto simp: demo_tools_def demo_tool_def registrable_def is_canonical_name_def trim_demo control_demo
        demo_schemas_def behavior_validate_def with_parallel_def tool_behavior_new_def)
  then obtain g where "try_from_tools demo_schemas demo_tools = Inr g"
    using registry_holds_registered_tools [of demo_schemas demo_tools] by blast
  moreover from this have "registry_get g = map_of (map (\<lambda>t. (tl_name t, t)) demo_tools)"
    using registry_holds_registered_tools [of demo_schemas demo_tools] by blast
  ultimately show ?thesis by (simp add: demo_tools_def demo_tool_def)
qed

section \<open>Batches\<close>

text \<open>The first duplicate is reported with the two places it occurs at.\<close>

lemma unique_call_ids_Some:
  assumes "unique_call_ids seen (length pre) items = Some e"
    and "\<And>c i. seen c = Some i \<Longrightarrow> i < length pre \<and> tc_id (bi_call (pre ! i)) = c"
  shows "\<exists>c i j. e = DuplicateBatchCallId c i j \<and> i < j \<and> j < length (pre @ items)
    \<and> tc_id (bi_call ((pre @ items) ! i)) = c \<and> tc_id (bi_call ((pre @ items) ! j)) = c"
  using assms
proof (induction items arbitrary: seen pre)
  case (Cons x xs)
  show ?case
  proof (cases "seen (tc_id (bi_call x))")
    case None
    let ?seen = "seen(tc_id (bi_call x) \<mapsto> length pre)"
    have "unique_call_ids ?seen (length (pre @ [x])) xs = Some e"
      using Cons.prems(1) None by (simp add: Let_def)
    moreover have "i < length (pre @ [x]) \<and> tc_id (bi_call ((pre @ [x]) ! i)) = c" if "?seen c = Some i" for c i
      using that Cons.prems(2) by (auto simp: nth_append split: if_splits)
    ultimately show ?thesis using Cons.IH [of ?seen "pre @ [x]"] by (simp del: fun_upd_apply)
  next
    case (Some i)
    then have "i < length pre" "tc_id (bi_call (pre ! i)) = tc_id (bi_call x)"
      using Cons.prems(2) by auto
    moreover have "e = DuplicateBatchCallId (tc_id (bi_call x)) i (length pre)"
      using Cons.prems(1) Some by (simp add: Let_def)
    ultimately show ?thesis
      by (intro exI [of _ "tc_id (bi_call x)"] exI [of _ i] exI [of _ "length pre"]) (simp add: nth_append)
  qed
qed simp

text \<open>What a report of a batch must say: it names the calls in order, has one result per call, gives
  invalid calls their own error and valid ones only what their own tool returned, and blames
  fail-fast only under that policy.\<close>

definition report_fits :: "'w tool_runtime \<Rightarrow> batch_item list \<Rightarrow> batch_config \<Rightarrow> batch_report \<Rightarrow> bool" where
  "report_fits rt items cfg r \<longleftrightarrow>
     br_call_ids r = map (\<lambda>x. tc_id (bi_call x)) items
     \<and> length (br_results r) = length items \<and> length (br_terminal_observer_failures r) = length items
     \<and> (\<forall>i < length items.
          case prepare rt (bi_call (items ! i)) (bi_options (items ! i))
                 (call_context (bi_call (items ! i)) (Some i)) of
            Inl e \<Rightarrow> br_results r ! i = Inl e
          | Inr entry \<Rightarrow> (\<forall>res. br_results r ! i = Inr res \<longrightarrow> produced_by (items ! i) entry res))
     \<and> (bc_failure_policy cfg = CollectAll \<longrightarrow>
          (\<forall>e. Inl e \<in> set (br_results r) \<longrightarrow> tre_kind e \<noteq> NotStartedDueToFailFast))"

lemma report_fitsI:
  assumes prep: "prepare_all rt 0 items w = (s, w1)"
    and keeps: "keeps_results (sl_results s) rs" and del: "delivered items (sl_prepared s) rs"
    and len: "length rs = length items" "length fs = length items" and all: "None \<notin> set rs"
    and policy: "bc_failure_policy cfg = CollectAll \<Longrightarrow>
      \<forall>e. Some (Inl e) \<in> set rs \<longrightarrow> tre_kind e \<noteq> NotStartedDueToFailFast"
  shows "\<exists>r. finish_report items rs fs = Ok r \<and> report_fits rt items cfg r"
proof -
  obtain ys where ys: "those rs = Some ys" "map Some ys = rs" using those_total [OF all] by blast
  have nth: "rs ! i = Some (ys ! i)" if "i < length items" for i
    using that ys(2) len(1) by (metis length_map nth_map)
  let ?prep = "\<lambda>i. prepare rt (bi_call (items ! i)) (bi_options (items ! i))
                 (call_context (bi_call (items ! i)) (Some i))"
  note slots = prepare_all_slots [OF prep, simplified]
  have "case ?prep i of Inl e \<Rightarrow> ys ! i = Inl e
      | Inr entry \<Rightarrow> (\<forall>res. ys ! i = Inr res \<longrightarrow> produced_by (items ! i) entry res)"
    if i: "i < length items" for i
  proof (cases "?prep i")
    case (Inl e)
    then have "sl_results s ! i = Some (Inl e)" using slots i by auto
    then have "rs ! i = Some (Inl e)"
      using keeps i slots by (auto simp: keeps_results_def slots_ok_def)
    then show ?thesis using Inl nth [OF i] by simp
  next
    case (Inr entry)
    then have "sl_prepared s ! i = Some entry" using slots i by auto
    then show ?thesis using Inr del i nth [OF i] by (auto simp: delivered_def)
  qed
  moreover have "Inl e \<in> set ys \<Longrightarrow> Some (Inl e) \<in> set rs" for e using ys(2) by auto
  moreover have "length ys = length items" using ys(2) len(1) by auto
  ultimately show ?thesis
    using ys(1) len(2) policy by (auto simp: finish_report_def report_fits_def cong: sum.case_cong)
qed

definition ids_distinct :: "batch_item list \<Rightarrow> bool" where
  "ids_distinct items \<longleftrightarrow> distinct (map (\<lambda>x. tc_id (bi_call x)) items)"

lemma validate_unique_iff: "validate_unique_call_ids items = None \<longleftrightarrow> ids_distinct items"
  by (simp add: validate_unique_call_ids_def unique_call_ids_None ids_distinct_def)

text \<open>A batch with distinct calls and a limit always returns a fitting report.\<close>

lemma batch_returns_report:
  assumes limit: "bc_max_concurrency cfg \<noteq> 0" and ids: "ids_distinct items"
  shows "\<exists>r w'. execute_batch_items exe rt items cfg w = Some (Ok r, w') \<and> report_fits rt items cfg r"
proof -
  have None: "validate_unique_call_ids items = None" using ids by (simp add: validate_unique_iff)
  obtain s w1 where prep: "prepare_all rt 0 items w = (s, w1)" by fastforce
  have slots: "slots_ok items s" using prepare_all_slots [OF prep] by simp
  show ?thesis
  proof (cases "bc_failure_policy cfg = FailFast \<and> (\<exists>r \<in> set (sl_results s). r \<noteq> None)")
    case True
    have "\<exists>r. finish_report items (mark_not_started items (sl_results s)) (sl_failures s) = Ok r
        \<and> report_fits rt items cfg r"
      using slots True mark_not_started_total [of items "sl_results s" "sl_prepared s"]
      by (intro report_fitsI [OF prep]) (auto simp: slots_ok_def)
    then show ?thesis
      using True limit None ids prep by (auto simp: execute_batch_items_def)
  next
    case False
    let ?st = "\<lparr>bs_slots = s, bs_running = [], bs_next = 0, bs_exclusive = False, bs_stop = False\<rparr>"
    obtain st w2 where loop: "batch_loop exe rt items cfg ?st w1 = Some (Ok st, w2)"
        and res: "loop_result items cfg s (Ok st)"
      using batch_loop_total [OF batch_ok_start [OF slots] limit, of exe rt w1]
      by (auto simp: loop_result_def)
    have "\<exists>r. finish_report items (sl_results (bs_slots st)) (sl_failures (bs_slots st)) = Ok r
        \<and> report_fits rt items cfg r"
      using res by (intro report_fitsI [OF prep]) (auto simp: loop_result_def)
    then show ?thesis
      using False loop limit None ids prep by (auto simp: execute_batch_items_def)
  qed
qed

text \<open>C33: A batch always returns and never panics. It is refused, with nothing done, exactly for a zero
  limit or a call id that occurs twice, and the error names two such places; otherwise it returns a
  report with one result per call in the order of the calls: an invalid call has its own error, a
  valid call has what its own tool returned for it or an error, and only a fail-fast batch leaves
  calls unstarted.\<close>
theorem batch_reports_every_call:
  "\<exists>x w'. execute_batch_items exe rt items cfg w = Some (x, w')
     \<and> (if bc_max_concurrency cfg = 0 then x = Err ZeroConcurrency \<and> w' = w
        else if \<not> ids_distinct items
        then (\<exists>c i j. x = Err (DuplicateBatchCallId c i j) \<and> i < j \<and> j < length items
                \<and> tc_id (bi_call (items ! i)) = c \<and> tc_id (bi_call (items ! j)) = c) \<and> w' = w
        else (\<exists>r. x = Ok r \<and> report_fits rt items cfg r))"
proof (cases "bc_max_concurrency cfg = 0 \<or> ids_distinct items")
  case True
  then show ?thesis
    using batch_returns_report [of cfg items exe rt w] by (auto simp: execute_batch_items_def)
next
  case False
  then obtain e where "validate_unique_call_ids items = Some e" by (auto simp: validate_unique_iff [symmetric])
  then show ?thesis
    using False unique_call_ids_Some [of "\<lambda>_. None" "[]" items e]
    by (auto simp: execute_batch_items_def validate_unique_call_ids_def)
qed

section \<open>Scheduling\<close>

text \<open>The states of a batch in which calls run: after the inner loop has scheduled, and again after
  every completion.\<close>

inductive running_state ::
    "'w executor \<Rightarrow> 'w tool_runtime \<Rightarrow> batch_item list \<Rightarrow> batch_config
      \<Rightarrow> 'w batch_state \<Rightarrow> 'w \<Rightarrow> 'w batch_state \<Rightarrow> bool"
  for exe rt items cfg where
  here: "batch_schedule items cfg st = Some st1 \<Longrightarrow> running_state exe rt items cfg st w st1"
| later: "batch_schedule items cfg st = Some st1 \<Longrightarrow>
    batch_await exe rt items (bs_running st1) w = (Some (i, rep), running, w1) \<Longrightarrow>
    running_state exe rt items cfg (batch_record cfg i (report_map to_result rep) running st1) w1 st2 \<Longrightarrow>
    running_state exe rt items cfg st w st2"

lemma running_state_ok:
  "running_state exe rt items cfg st w st1 \<Longrightarrow> batch_ok items cfg st \<Longrightarrow> batch_ok items cfg st1"
proof (induction rule: running_state.induct)
  case (here st st1 w)
  then show ?case using batch_schedule_ok by (fastforce simp: schedule_result_def)
next
  case (later st st1 w i rep running w1 st2)
  have ok: "batch_ok items cfg st1"
    using batch_schedule_ok [OF later.prems] later.hyps(1) by (auto simp: schedule_result_def)
  have "bs_running st1 \<noteq> []"
    using later.hyps(2) by (auto simp: batch_await.simps)
  then have "await_result items (bs_running st1) (Some (i, rep)) running"
    using later.hyps(2) by (rule batch_await_result)
  then show ?case using later.IH batch_record_ok [OF ok] by blast
qed

definition batch_start :: "'w batch_slots \<Rightarrow> 'w batch_state" where
  "batch_start s = \<lparr>bs_slots = s, bs_running = [], bs_next = 0, bs_exclusive = False, bs_stop = False\<rparr>"

text \<open>C34: In every state of a batch at most \<open>max_concurrency\<close> calls run, no call runs twice, every
  running call is a valid call without a result, started in order, and a tool that does not allow
  parallel execution runs alone.\<close>
theorem batch_concurrency_safe:
  assumes "prepare_all rt 0 items w = (s, w1)"
    and "running_state exe rt items cfg (batch_start s) w1 st"
  shows "length (bs_running st) \<le> bc_max_concurrency cfg
    \<and> distinct (map fst (bs_running st))
    \<and> (\<forall>(i, entry, announced) \<in> set (bs_running st).
         i < length items \<and> sl_results (bs_slots st) ! i = None
         \<and> (tb_allows_parallel (rt_behavior entry) \<or> length (bs_running st) = 1))
    \<and> (\<forall>i < length items. sl_results (bs_slots st) ! i = None \<longrightarrow>
         i \<in> fst ` set (bs_running st) \<or> bs_next st \<le> i)"
proof -
  have "slots_ok items s" using prepare_all_slots [OF assms(1)] by simp
  then have ok: "batch_ok items cfg st"
    using running_state_ok [OF assms(2)] batch_ok_start [of items s cfg] by (simp add: batch_start_def)
  have "i < length items \<and> sl_results (bs_slots st) ! i = None
      \<and> (tb_allows_parallel (rt_behavior entry) \<or> length (bs_running st) = 1)"
    if x: "(i, entry, announced) \<in> set (bs_running st)" for i entry announced
    using batch_okD(4) [OF ok x] batch_okD(2) [OF ok] batch_okD(7) [OF ok] x
    by (fastforce simp: exclusive_ok_def runs_parallel_def)
  moreover have "i \<in> fst ` set (bs_running st) \<or> bs_next st \<le> i"
    if "sl_results (bs_slots st) ! i = None" for i
    using batch_okD(5) [OF ok _ that] by fastforce
  ultimately show ?thesis using batch_okD(3,6) [OF ok] by blast
qed

section \<open>Failing fast\<close>

lemma those_map_Some: "those (map Some xs) = Some xs"
  by (induction xs) auto

text \<open>The preparation errors of a batch in the order of the calls, and the world after observers were
  told of them.\<close>

definition preparation_errors :: "'w tool_runtime \<Rightarrow> batch_item list \<Rightarrow> tool_runtime_error list" where
  "preparation_errors rt items =
     concat (map (\<lambda>(i, x). case prepare rt (bi_call x) (bi_options x) (call_context (bi_call x) (Some i)) of
                     Inl e \<Rightarrow> [e] | Inr _ \<Rightarrow> []) (enumerate 0 items))"

lemma prepare_all_world:
  "snd (prepare_all rt k items w) =
     fold (\<lambda>e w. snd (emit_failure rt e w))
       (concat (map (\<lambda>(i, x). case prepare rt (bi_call x) (bi_options x) (call_context (bi_call x) (Some i)) of
                     Inl e \<Rightarrow> [e] | Inr _ \<Rightarrow> []) (enumerate k items))) w"
  by (induction rt k items w rule: prepare_all.induct)
    (auto split: prod.splits sum.splits)

text \<open>C35: A fail-fast batch with an invalid call executes no tool: all that happens is that observers
  are told of the invalid calls, in order. The invalid calls have their errors and every other call
  is reported as not started.\<close>
theorem fail_fast_rejects_before_running:
  assumes "bc_failure_policy cfg = FailFast" and "bc_max_concurrency cfg \<noteq> 0" and "ids_distinct items"
    and "preparation_errors rt items \<noteq> []"
  shows "\<exists>r. execute_batch_items exe rt items cfg w =
      Some (Ok r, fold (\<lambda>e w. snd (emit_failure rt e w)) (preparation_errors rt items) w)
    \<and> br_results r = map (\<lambda>(i, x). Inl (let ctx = call_context (bi_call x) (Some i) in
        case prepare rt (bi_call x) (bi_options x) ctx of
          Inl e \<Rightarrow> e | Inr _ \<Rightarrow> runtime_error_new NotStartedDueToFailFast ctx)) (enumerate 0 items)"
proof -
  obtain s w1 where prep: "prepare_all rt 0 items w = (s, w1)" by fastforce
  note slots = prepare_all_slots [OF prep, simplified]
  have w1: "w1 = fold (\<lambda>e w. snd (emit_failure rt e w)) (preparation_errors rt items) w"
    using prepare_all_world [of rt 0 items w] prep by (simp add: preparation_errors_def)
  let ?f = "\<lambda>(i, x). Inl (let ctx = call_context (bi_call x) (Some i) in
        case prepare rt (bi_call x) (bi_options x) ctx of
          Inl e \<Rightarrow> e | Inr _ \<Rightarrow> runtime_error_new NotStartedDueToFailFast ctx)"
  have marked: "mark_not_started items (sl_results s) = map Some (map ?f (enumerate 0 items))"
    (is "?l = ?r")
  proof (rule nth_equalityI)
    show "length ?l = length ?r" using slots by (simp add: mark_not_started_def slots_ok_def)
    fix i assume "i < length ?l"
    then have "i < length items" by (simp add: mark_not_started_def)
    then show "?l ! i = ?r ! i"
      using slots by (auto simp: mark_not_started_def slots_ok_def nth_enumerate_eq Let_def split: sum.splits)
  qed
  obtain e where "e \<in> set (preparation_errors rt items)" using assms(4) by (meson list.set_sel(1))
  then obtain i x where x: "(i, x) \<in> set (enumerate 0 items)"
      and e: "prepare rt (bi_call x) (bi_options x) (call_context (bi_call x) (Some i)) = Inl e"
    by (fastforce simp: preparation_errors_def split: sum.splits)
  then have "i < length items" "items ! i = x" by (auto simp: in_set_enumerate_eq)
  then have "sl_results s ! i = Some (Inl e)" "i < length (sl_results s)"
    using slots e by (auto simp: slots_ok_def)
  then have "\<exists>r \<in> set (sl_results s). r \<noteq> None" by (metis nth_mem option.distinct(1))
  then show ?thesis
    using assms prep validate_unique_iff [of items] w1
    by (simp add: execute_batch_items_def finish_report_def marked those_map_Some del: map_map)
qed


theorem fail_fast_rejects_before_running_witness:
  "\<exists>r. execute_batch_items demo_executor demo_runtime [demo_item ''1'' ''a'', demo_item ''2'' ''c'']
      \<lparr>bc_max_concurrency = 2, bc_failure_policy = FailFast\<rparr> [] = Some (Ok r, [])
    \<and> map (\<lambda>x. case x of Inl e \<Rightarrow> Some (tre_kind e) | Inr _ \<Rightarrow> None) (br_results r) =
        [Some NotStartedDueToFailFast, Some ToolNotFound]"
proof -
  let ?items = "[demo_item ''1'' ''a'', demo_item ''2'' ''c'']"
    and ?cfg = "\<lparr>bc_max_concurrency = 2, bc_failure_policy = FailFast\<rparr>"
  have errors: "preparation_errors demo_runtime ?items =
      [runtime_error_new ToolNotFound (call_context (bi_call (demo_item ''2'' ''c'')) (Some 1))]"
    by (simp add: preparation_errors_def prepare_demo)
  have silent: "emit_failure demo_runtime e w = (None, w)" for e and w :: "tool_call_id list"
    by (simp add: emit_failure_def tool_emit_def runtime_sinks_def demo_runtime_def tool_runtime_new_def
        failure_of_def)
  have distinct: "ids_distinct ?items"
    by (simp add: ids_distinct_def demo_item_def batch_item_new_def tool_call_new_def)
  show ?thesis
    using fail_fast_rejects_before_running [of ?cfg ?items demo_runtime demo_executor "[]"]
    by (auto simp: errors silent distinct prepare_demo runtime_error_new_def)
qed

theorem batch_concurrency_safe_witness:
  "\<exists>st. running_state demo_executor demo_runtime [demo_item ''1'' ''a'', demo_item ''2'' ''b''] (batch_config_new 2)
      (batch_start (fst (prepare_all demo_runtime 0 [demo_item ''1'' ''a'', demo_item ''2'' ''b''] []))) [] st
    \<and> bs_next st = 1 \<and> length (bs_running st) \<le> 2 \<and> distinct (map fst (bs_running st))"
proof -
  let ?items = "[demo_item ''1'' ''a'', demo_item ''2'' ''b'']"
    and ?s = "\<lparr>sl_prepared = [Some (demo_entry ''a'' True), Some (demo_entry ''b'' False)],
        sl_results = [None, None], sl_failures = [None, None]\<rparr>"
  have prep: "prepare_all demo_runtime 0 ?items [] = (?s, [])"
    by (simp add: prepare_demo)
  let ?st = "(batch_start ?s)\<lparr>bs_running := [(0, demo_entry ''a'' True, False)], bs_next := 1\<rparr>"
  have "batch_schedule ?items (batch_config_new 2) (batch_start ?s) = Some ?st"
    by (simp add: batch_schedule.simps batch_start_def batch_config_new_def demo_entry_def demo_tool_def
        with_parallel_def)
  then have run: "running_state demo_executor demo_runtime ?items (batch_config_new 2) (batch_start ?s) [] ?st"
    by (rule running_state.here)
  show ?thesis
    using batch_concurrency_safe [OF prep run] run unfolding prep
    by (intro exI [of _ ?st]) (simp add: batch_config_new_def)
qed

end
