(* ===== verification/AgentReturns.thy ===== *)
theory AgentReturns
  imports AgentRuns ToolGuarantees
begin

text \<open>
  The nodes of an agent return: batches of tools always do, completions of the model do, and so does
  reading a stream that ends, validated or not.
\<close>

section \<open>Streams\<close>

definition poll_ok :: "validated_state \<Rightarrow> bool" where
  "poll_ok st \<longleftrightarrow> (cs_state (vs_collector st) = CollectorFinished \<longrightarrow> vs_terminal st \<noteq> None)"

lemma finish_validated_ok: "poll_ok st \<Longrightarrow> finish_validated p l v out st \<noteq> Panic"
  by (auto simp: poll_ok_def finish_validated_def collector_finish_def split: sum.splits option.splits collector_state.splits)

lemma pushed_active:
  "collector_push parse ev c = (Inr u, c') \<Longrightarrow> \<forall>r. ev \<noteq> Finished r \<Longrightarrow> cs_state c' \<noteq> CollectorFinished"
  using push_keeps_active [of parse ev c u c'] by auto

lemma next_validated_ok:
  assumes "next_validated p l v out st = (y, st')" and "vs_raw st = stream_of xs" and "poll_ok st"
  shows "y \<noteq> Panic \<and> (\<forall>s. st' = Some s \<longrightarrow> poll_ok s \<and> (\<exists>zs. vs_raw s = stream_of zs \<and> length zs < length xs))"
  using assms
proof (induction xs arbitrary: st)
  case Nil
  then show ?case
    using finish_validated_ok [of st p l v out] by (subst (asm) next_validated.simps) auto
next
  case (Cons x xs)
  show ?case
  proof (cases x)
    case (Inl e)
    then show ?thesis using Cons.prems by (subst (asm) next_validated.simps) auto
  next
    case (Inr ev)
    show ?thesis
    proof (cases "text_limit ev st")
      case None
      then show ?thesis using Cons.prems Inr by (subst (asm) next_validated.simps) auto
    next
      case (Some bytes)
      obtain z c where push: "collector_push p ev (vs_collector st) = (z, c)" by fastforce
      show ?thesis
      proof (cases z)
        case (Inl e)
        then show ?thesis using Cons.prems Inr Some push by (subst (asm) next_validated.simps) auto
      next
        case z: (Inr u)
        show ?thesis
        proof (cases "\<exists>r. ev = Finished r")
          case True
          then obtain r where ev: "ev = Finished r" by blast
          let ?st = "st\<lparr>vs_raw := stream_of xs, vs_collector := c, vs_terminal := Some r, vs_bytes := bytes\<rparr>"
          have "next_validated p l v out ?st = (y, st')"
            using Cons.prems Inr Some push z ev by (subst (asm) next_validated.simps) simp
          from Cons.IH [OF this] have "y \<noteq> Panic \<and> (\<forall>s. st' = Some s \<longrightarrow>
              poll_ok s \<and> (\<exists>zs. vs_raw s = stream_of zs \<and> length zs < length xs))"
            by (simp add: poll_ok_def)
          then show ?thesis using less_SucI [of _ "length xs"] unfolding length_Cons by blast
        next
          case False
          then have "y = Ok ev \<and> st' = Some (st\<lparr>vs_raw := stream_of xs, vs_collector := c, vs_bytes := bytes\<rparr>)"
            using Cons.prems Inr Some push z
            by (subst (asm) next_validated.simps) (simp split: chat_stream_event.splits)
          then show ?thesis
            using pushed_active push z False by (auto simp: poll_ok_def)
        qed
      qed
    qed
  qed
qed

lemma validated_items_finite:
  assumes "vs_raw st = stream_of xs" and "poll_ok st"
  shows "\<exists>ys. delivers (validated_items p l v out (Some st)) ys \<and> Panic \<notin> set ys"
  using assms
proof (induction xs arbitrary: st rule: length_induct)
  case (1 xs)
  obtain y st' where poll: "next_validated p l v out st = (y, st')" by fastforce
  note ok = next_validated_ok [OF poll "1.prems"]
  show ?case
  proof (cases st')
    case None
    then show ?thesis using ok poll by (intro exI [of _ "[y]"]) (auto simp: validated_items_Some)
  next
    case (Some s)
    then obtain zs where zs: "vs_raw s = stream_of zs" "length zs < length xs" "poll_ok s" using ok by blast
    then obtain ys where "delivers (validated_items p l v out (Some s)) ys" "Panic \<notin> set ys"
      using "1.IH" by blast
    then show ?thesis
      using Some ok poll by (intro exI [of _ "y # ys"]) (auto simp: validated_items_Some [of _ _ _ _ st])
  qed
qed

lemma plain_items_finite: "\<exists>ys. delivers (plain_items (stream_of xs)) ys \<and> Panic \<notin> set ys"
proof (induction xs)
  case Nil
  then show ?case by (intro exI [of _ "[]"]) (simp add: plain_items.code)
next
  case (Cons x xs)
  then obtain ys where "delivers (plain_items (stream_of xs)) ys" "Panic \<notin> set ys" by blast
  then show ?case
    by (intro exI [of _ "(case x of Inl e \<Rightarrow> Err e | Inr ev \<Rightarrow> Ok ev) # ys"])
      (simp add: plain_items.code split: sum.split)
qed

definition finite_streams :: "'w chat_model \<Rightarrow> bool" where
  "finite_streams m \<longleftrightarrow>
     (\<forall>r w s w'. ad_stream_raw (cm_adapter m) r w = (Inr s, w') \<longrightarrow> (\<exists>xs. s = stream_of xs))"

lemma chat_stream_finite:
  assumes "finite_streams m" and "chat_stream parse lexer validates m r w = (Inr s, w')"
  shows "\<exists>ys. delivers s ys \<and> Panic \<notin> set ys"
proof -
  obtain raw w1 where raw: "ad_stream_raw (cm_adapter m) r w = (Inr raw, w1)"
    and s: "s = (case cr_output r of None \<Rightarrow> plain_items raw | Some output \<Rightarrow> validate_stream parse lexer validates output raw)"
    using assms(2) by (auto simp: chat_stream_def split: sum.splits prod.splits option.splits)
  obtain xs where xs: "raw = stream_of xs" using assms(1) raw unfolding finite_streams_def by blast
  show ?thesis
    using s xs plain_items_finite [of xs] validated_items_finite [of _ xs parse lexer validates]
    by (cases "cr_output r") (auto simp: validate_stream_def poll_ok_def collector_new_def with_max_text_bytes_def)
qed

lemma read_stream_total:
  assumes "delivers s ys" and "Panic \<notin> set ys"
  shows "\<exists>x w'. read_stream parse rnd sink c s w = Some (x, w') \<and> x \<noteq> Panic"
  using assms
proof (induction arbitrary: c w rule: delivers.induct)
  case deliver_end
  then show ?case by (subst read_stream.simps) (simp split: sum.split)
next
  case (deliver_item s xs x)
  show ?case
  proof (cases x)
    case (Ok ev)
    obtain z c' where push: "collector_push parse ev c = (z, c')" by fastforce
    have "Panic \<notin> set xs" using deliver_item.prems by simp
    from deliver_item.IH [OF this] show ?thesis
      using Ok push by (subst read_stream.simps) (simp split: sum.split)
  next
    case (Err e)
    then show ?thesis by (subst read_stream.simps) simp
  next
    case Panic
    then show ?thesis using deliver_item by simp
  qed
qed

section \<open>Nodes\<close>

lemma model_node_returns:
  assumes "as_sink s = None \<or> finite_streams (mn_model nd)"
  shows "\<exists>x w'. model_node_run js nd s w = Some (x, w') \<and> x \<noteq> Panic"
proof (cases "as_sink s")
  case None
  then show ?thesis by (auto simp: model_node_run_def Let_def split: sum.splits prod.splits)
next
  case (Some sink)
  obtain y w1 where y: "chat_stream (jt_parse js) (jt_lexer js) (jt_validates js) (mn_model nd)
      (model_request nd s) w = (y, w1)" by fastforce
  show ?thesis
  proof (cases y)
    case (Inl e)
    then show ?thesis using Some y by (simp add: model_node_run_def Let_def)
  next
    case (Inr stream)
    obtain ys where ys: "delivers stream ys" "Panic \<notin> set ys"
      using chat_stream_finite [of "mn_model nd" "jt_parse js"] assms Some y Inr by fastforce
    let ?rnd = "usize_add (as_model_rounds s) 1"
    obtain x w2 where "read_stream (jt_parse js) ?rnd sink collector_new stream
        (sink (ModelStartedEvent ?rnd) w1) = Some (x, w2)" "x \<noteq> Panic"
      using read_stream_total [OF ys] by metis
    then show ?thesis
      using Some y Inr by (cases x) (simp_all add: model_node_run_def Let_def)
  qed
qed

lemma execute_batch_total:
  "\<exists>x w'. execute_batch exe rt calls batch_config_default w = Some (x, w') \<and> x \<noteq> Panic"
proof (cases "ids_distinct (map batch_item_new calls)")
  case True
  then show ?thesis
    using batch_returns_report [of batch_config_default "map batch_item_new calls" exe rt w]
    by (auto simp: execute_batch_def batch_config_default_def batch_config_new_def)
next
  case False
  then obtain e where "validate_unique_call_ids (map batch_item_new calls) = Some e"
    by (auto simp: validate_unique_iff [symmetric])
  then show ?thesis
    by (simp add: execute_batch_def execute_batch_items_def batch_config_default_def batch_config_new_def)
qed

lemma those_Some: "(\<And>x. x \<in> set xs \<Longrightarrow> x \<noteq> None) \<Longrightarrow> those xs \<noteq> None"
  using those_total [of xs] by auto

lemma execute_pending_returns:
  "\<exists>x w'. execute_pending exe nd s calls w = Some (x, w') \<and> x \<noteq> Panic"
proof -
  obtain x w1 where x: "execute_batch exe (observed_runtime nd s) calls batch_config_default w = Some (x, w1)"
      "x \<noteq> Panic" using execute_batch_total [of exe _ calls w] by meson
  have "\<exists>ms. those (map tool_message_of (into_tool_messages r)) = Some ms" if "\<not> (\<exists>y \<in> set (br_results r). isl y)" for r
  proof (rule not_None_eq [THEN iffD1], rule those_Some)
    fix z assume "z \<in> set (map tool_message_of (into_tool_messages r))"
    then obtain i y where "(i, y) \<in> set (zip (br_call_ids r) (br_results r))"
        "z = tool_message_of (map_sum id (message_tool i) y)"
      by (auto simp: into_tool_messages_def)
    moreover have "\<not> isl y" using that calculation(1) set_zip_rightD by fastforce
    ultimately show "z \<noteq> None" by (cases y) (auto simp: message_tool_def)
  qed
  then show ?thesis
    using x by (cases x) (auto simp: execute_pending_def split: option.split, metis option.distinct(1))
qed

lemma tool_nodes_return:
  "\<exists>x w'. tool_node_run exe nd s w = Some (x, w') \<and> x \<noteq> Panic"
  "\<exists>x w'. approval_node_run env exe nd s ctx w = Some (x, w') \<and> x \<noteq> Panic"
proof -
  show "\<exists>x w'. tool_node_run exe nd s w = Some (x, w') \<and> x \<noteq> Panic"
    using execute_pending_returns by (auto simp: tool_node_run_def split: sum.split)
  have "\<exists>x w'. map_option (\<lambda>(x, w1). (result_bind x (\<lambda>u. Ok (Update u)), w1)) (execute_pending exe nd s calls w)
      = Some (x :: (node_error, (agent_update, agent_value) node_outcome) result, w') \<and> x \<noteq> Panic" for calls
  proof -
    obtain x w1 where "execute_pending exe nd s calls w = Some (x, w1)" "x \<noteq> Panic"
      using execute_pending_returns [of exe nd s calls w] by blast
    then show ?thesis by (cases x) simp_all
  qed
  then show "\<exists>x w'. approval_node_run env exe nd s ctx w = Some (x, w') \<and> x \<noteq> Panic"
    by (simp add: approval_node_run_def Let_def split: sum.split prod.split agent_value.split approval_decision.split)
qed

text \<open>The nodes of an agent, with a given sink, return without a panic: none of them is ever \<open>lost\<close>.\<close>

definition nodes_return :: "'w agent_parts \<Rightarrow> 'w agent_sink option \<Rightarrow> bool" where
  "nodes_return p sink \<longleftrightarrow>
     (\<forall>s ctx w. as_sink s = sink \<longrightarrow>
        (\<exists>x w'. model_node_run (ap_json p) \<lparr>mn_output = ap_output p, mn_model = ap_model p, mn_tools = ap_tools p\<rparr> s w
           = Some (x, w') \<and> x \<noteq> Panic)
        \<and> (\<exists>x w'. tool_node_run (ap_executor p) (part_tool_node p) s w = Some (x, w') \<and> x \<noteq> Panic)
        \<and> (\<exists>x w'. approval_node_run (ap_env p) (ap_executor p) (part_tool_node p) s ctx w = Some (x, w')
             \<and> x \<noteq> Panic))"

lemma agent_nodes_return: "sink = None \<or> finite_streams (ap_model p) \<Longrightarrow> nodes_return p sink"
  unfolding nodes_return_def using model_node_returns tool_nodes_return by (metis model_node.select_convs(2))

end
