(* ===== verification/AgentResults.thy ===== *)
theory AgentResults
  imports AgentReturns
begin

text \<open>
  What an agent promises its callers: construction and runs succeed or fail without a panic and never
  by the step limit; the conversation it returns is the input and answered rounds; with tool approval
  nothing a tool could do happens before the decision; and all of it across checkpoints.
\<close>

section \<open>Construction\<close>

lemma agent_made:
  assumes "dfs_correct dfs" and "agent_config_new (ap_max_rounds p) = Inr c"
  shows "0 < ap_max_rounds p" "ap_max_rounds p * 2 < usize_bound" "step_bound p = ap_max_rounds p * 2"
    "agent_new_inner dfs p = Ok \<lparr>ag_output = ap_output p, ag_graph = agent_graph_of p,
       ag_run_config = \<lparr>max_steps = ap_max_rounds p * 2\<rparr>\<rparr>"
  using assms compile_agent_graph_eq [OF assms(1), of p]
  by (auto simp: agent_config_new_def agent_new_inner_def step_bound_def split: if_splits)

lemma agent_start:
  assumes "agent_config_new (ap_max_rounds p) = Inr c"
  shows "agent_inv p sink input gated (initial_agent_state input sink) 0
    (option_list (cg_entry_index (agent_graph_of p)))"
  using assms
  by (auto simp: agent_inv_def initial_agent_state_def with_sink_def agent_state_new_def usage_is_aligned_def
      model_turn_def agent_config_new_def split: if_splits option.splits intro!: exI [of _ "[]"])

section \<open>Outcomes\<close>

definition outcome_fits ::
    "'w agent_parts \<Rightarrow> message list \<Rightarrow> agent_round list \<Rightarrow> agent_outcome \<Rightarrow> bool" where
  "outcome_fits p input rs out \<longleftrightarrow>
     (\<forall>r \<in> set rs. answered r) \<and> length (ao_usage_by_round out) = ao_model_rounds out
     \<and> (case ao_stop_reason out of
          FinalAnswer \<Rightarrow>
            ao_model_rounds out = Suc (length rs) \<and> length rs < ap_max_rounds p
            \<and> (\<exists>a. am_tool_calls a = [] \<and> ao_messages out = conversation input rs @ [Assistant a]
                 \<and> final_message out = Some a
                 \<and> (\<forall>c. ap_output p = Some c \<longrightarrow>
                      validate_response (jt_lexer (ap_json p)) (jt_validates (ap_json p)) c
                        (chat_response_new a Stop) = Inr (ao_output out)))
        | MaxRounds \<Rightarrow>
            ao_model_rounds out = length rs \<and> length rs = ap_max_rounds p
            \<and> ao_messages out = conversation input rs \<and> final_message out = None)"

lemma completed_fits:
  assumes inv: "agent_inv p sink input gated s n []"
  shows "completed_outcome (ap_json p) (ap_output p) s \<noteq> Panic"
    and "completed_outcome (ap_json p) (ap_output p) s \<noteq> Err (AgentGraph e)"
    and "completed_outcome (ap_json p) (ap_output p) s = Ok out \<Longrightarrow>
      \<exists>rs. outcome_fits p input rs out \<and> (gated \<longrightarrow> rs = [])"
proof -
  obtain rs where rs: "\<forall>r \<in> set rs. answered r" "gated \<longrightarrow> rs = []" "stopped p input s rs"
      "usage_is_aligned s"
    using inv by (auto simp: agent_inv_def)
  obtain r where r: "as_stop_reason s = Some r" using rs(3) by (auto simp: stopped_def)
  let ?out = "\<lparr>ao_output = None, ao_messages = as_messages s, ao_model_rounds = as_model_rounds s,
              ao_usage_by_round = as_usage_by_round s, ao_stop_reason = r\<rparr>"
  have eq: "completed_outcome (ap_json p) (ap_output p) s = output_validate (ap_json p) (ap_output p) ?out"
    using r by (simp add: completed_outcome_def from_completed_state_def)
  show "completed_outcome (ap_json p) (ap_output p) s \<noteq> Panic"
    "completed_outcome (ap_json p) (ap_output p) s \<noteq> Err (AgentGraph e)"
    unfolding eq by (auto simp: output_validate_def split: option.split sum.split)
  assume "completed_outcome (ap_json p) (ap_output p) s = Ok out"
  then have out: "output_validate (ap_json p) (ap_output p) ?out = Ok out" using eq by simp
  have "outcome_fits p input rs out"
  proof (cases r)
    case FinalAnswer
    then obtain a where a: "am_tool_calls a = []" "as_messages s = conversation input rs @ [Assistant a]"
        "as_model_rounds s = Suc (length rs)" "length rs < ap_max_rounds p"
      using rs(3) r by (auto simp: stopped_def)
    have final: "final_message (?out\<lparr>ao_output := v\<rparr>) = Some a" for v
      using FinalAnswer a by (simp add: final_message_def last_message_def)
    then obtain v where v: "out = ?out\<lparr>ao_output := v\<rparr>"
        "\<forall>c. ap_output p = Some c \<longrightarrow> validate_response (jt_lexer (ap_json p)) (jt_validates (ap_json p)) c
           (chat_response_new a Stop) = Inr v"
      using out FinalAnswer final [of None]
      by (auto simp: output_validate_def split: option.splits sum.splits)
    show ?thesis
      using v a rs(1,4) final FinalAnswer by (simp add: outcome_fits_def usage_is_aligned_def)
  next
    case MaxRounds
    then have "out = ?out" using out by (auto simp: output_validate_def split: option.splits)
    then show ?thesis
      using MaxRounds rs(1,3,4) r
      by (auto simp: outcome_fits_def stopped_def usage_is_aligned_def final_message_def)
  qed
  then show "\<exists>rs. outcome_fits p input rs out \<and> (gated \<longrightarrow> rs = [])" using rs(2) by blast
qed

section \<open>Results of the agent from results of the runtime\<close>

definition sound_result :: "(agent_error, 'a) result \<Rightarrow> bool" where
  "sound_result x \<longleftrightarrow>
     x \<noteq> Panic \<and> (\<forall>k q i. x \<noteq> Err (AgentGraph (graph_run_error.MaxStepsExceeded k q i)))"

definition sink_keeps :: "('w \<Rightarrow> bool) \<Rightarrow> 'w agent_sink option \<Rightarrow> bool" where
  "sink_keeps P sink \<longleftrightarrow> (\<forall>k ev w. sink = Some k \<longrightarrow> P w \<longrightarrow> P (k ev w))"

abbreviation agent_result_of where
  "agent_result_of f y \<equiv> (case y of Ok a \<Rightarrow> f a | Err e \<Rightarrow> Err (AgentGraph e) | Panic \<Rightarrow> Panic)"

lemma notify_Some:
  "notify sink ev (Some (x, st0)) = Some (x', st) \<Longrightarrow> sink_keeps P sink \<Longrightarrow>
     x' = x \<and> (P (rs_world st0) \<longrightarrow> P (rs_world st))"
  by (cases x; cases sink) (auto simp: notify_def sink_keeps_def)

lemma notify_then:
  assumes "notify sink ev (agent_then z f) = Some (x, st)" and "sink_keeps P sink"
  shows "\<exists>y st0. z = Some (y, st0) \<and> (P (rs_world st0) \<longrightarrow> P (rs_world st)) \<and> x = agent_result_of f y"
proof -
  obtain y st0 where z: "z = Some (y, st0)" using assms(1) by (auto simp: notify_def agent_then_def)
  then have "notify sink ev (Some (agent_result_of f y, st0)) = Some (x, st)"
    using assms(1) by (simp add: agent_then_def)
  from notify_Some [OF this assms(2)] z show ?thesis by blast
qed

lemma notify_then_returns:
  "\<exists>st'. notify sink ev (agent_then (Some (y, st)) f) =
     Some (agent_result_of f y, st')"
  by (simp add: notify_def agent_then_def)

text \<open>What a finished run of the graph means for the agent: a completed outcome fits, an interruption
  asks for the approval of calls.\<close>

definition result_fits ::
    "'w agent_parts \<Rightarrow> message list \<Rightarrow> bool \<Rightarrow> (agent_error, agent_run_outcome) result \<Rightarrow> bool" where
  "result_fits p input gated x \<longleftrightarrow>
     (\<forall>k q i. x \<noteq> Err (AgentGraph (graph_run_error.MaxStepsExceeded k q i)))
     \<and> (\<forall>out. x = Ok (AgentCompleted out) \<longrightarrow> (\<exists>rs. outcome_fits p input rs out \<and> (gated \<longrightarrow> rs = [])))
     \<and> (\<forall>i. x = Ok (AgentInterrupted i) \<longrightarrow>
          ap_tool_approval p \<and> (\<exists>calls. ai_approval_request i = Some calls \<and> calls \<noteq> []))"

lemma approval_payload_read:
  "asks_for p s payload \<Longrightarrow> \<exists>calls. calls \<noteq> [] \<and> downcast_ref approval_request_type payload = Some (ApprovalRequest calls)"
  by (auto simp: asks_for_def approval_payload_def downcast_ref_def)

lemma execution_fits:
  assumes "fine (well_ended (agent_inv p sink input gated) (asks_for p)) y"
  shows "y \<noteq> Panic \<Longrightarrow> agent_result_of (from_execution (ap_json p) (ap_output p)) y \<noteq> Panic"
    and "result_fits p input gated
    (agent_result_of (from_execution (ap_json p) (ap_output p)) y)"
proof -
  have no_panic: "from_execution (ap_json p) (ap_output p) outcome \<noteq> Panic" if "y = Ok outcome" for outcome
    using assms that completed_fits(1)
    by (cases outcome) (fastforce simp: from_execution_def well_ended_def result_bind_eq_Panic)+
  then show "y \<noteq> Panic \<Longrightarrow> agent_result_of (from_execution (ap_json p) (ap_output p)) y \<noteq> Panic"
    by (cases y) simp_all
next
  show "result_fits p input gated (agent_result_of (from_execution (ap_json p) (ap_output p)) y)"
proof (cases y)
  case (Ok outcome)
  show ?thesis
  proof (cases outcome)
    case (Completed rep)
    then have "agent_inv p sink input gated (rr_final_state rep) (rr_steps rep) []"
      using assms Ok by (simp add: well_ended_def)
    note fits = completed_fits [OF this]
    show ?thesis
    proof (cases "completed_outcome (ap_json p) (ap_output p) (rr_final_state rep)")
      case (Ok out)
      then show ?thesis using fits(3) [OF Ok] Completed \<open>y = Ok outcome\<close>
        by (simp add: result_fits_def from_execution_def)
    qed (use fits Completed \<open>y = Ok outcome\<close> in \<open>auto simp: result_fits_def from_execution_def\<close>)
  next
    case (Interrupted rep)
    then have asks: "asks_for p (it_state rep) (ci_payload (it_interrupt rep))"
      using assms Ok by (simp add: well_ended_def held_def)
    obtain calls where "calls \<noteq> []"
        "downcast_ref approval_request_type (ci_payload (it_interrupt rep)) = Some (ApprovalRequest calls)"
      using approval_payload_read [OF asks] by blast
    moreover have "ap_tool_approval p" using asks by (simp add: asks_for_def)
    ultimately show ?thesis
      using Ok Interrupted by (simp add: result_fits_def from_execution_def interrupted_from_report_def)
  qed
qed (use assms in \<open>auto simp: result_fits_def within_limit_def\<close>)
qed

section \<open>Checkpoints of agents\<close>

text \<open>A checkpoint that fits: its snapshot is a state of the conversation, at the step and frontier it
  names, and an interruption in it asks for the approval of the pending calls.\<close>

definition fits_checkpoint :: "'w agent_parts \<Rightarrow> message list \<Rightarrow> (agent_snapshot, agent_value) checkpoint \<Rightarrow> bool" where
  "fits_checkpoint p input cp \<longleftrightarrow>
     (\<exists>s F. (agent_restore (c_snapshot cp) :: snapshot_error + 'w agent_state) = Inr s
        \<and> agent_inv p None input False s (c_step cp) F
        \<and> map Some (c_next_frontier cp) = frontier_paths_at (agent_graph_of p) F
        \<and> (\<forall>c. c_interrupt cp = Some c \<longrightarrow> asks_for p s (ci_payload c)))"

definition writes_keep ::
    "('w \<Rightarrow> bool) \<Rightarrow> (agent_snapshot, agent_value, 'w) checkpointer
      \<Rightarrow> ((agent_snapshot, agent_value) checkpoint \<Rightarrow> bool) \<Rightarrow> bool" where
  "writes_keep P ck Q \<longleftrightarrow>
     (\<forall>w q. P w \<longrightarrow> Q (into_checkpoint q) \<longrightarrow>
        P (snd (ck_save ck q w)) \<and> (\<forall>br. P (snd (ck_save_branch ck br q w))))"

lemma save_error_limit: "within_limit (save_error r t br k n e)"
  by (cases e) (simp_all add: save_error_def within_limit_def split: option.split)

lemma enabled_saves:
  assumes env: "env_keeps P env" and writes: "writes_keep P (cc_checkpointer cfg) Q"
    and fits: "\<And>q. agent_snapshot_of s = Inr (q_snapshot q) \<Longrightarrow> q_step q = cb_step b \<Longrightarrow>
      q_next_frontier q = cb_next_frontier b \<Longrightarrow> q_interrupt q = cb_interrupt b \<Longrightarrow> Q (into_checkpoint q)"
  shows "io_tracks P (rk_save (enabled_checkpoint env agent_snapshots cfg v) r s b chk) (\<lambda>_. True)"
  unfolding io_tracks_def
proof (intro allI impI)
  fix w w' and y :: "(graph_run_error, saved_checkpoint \<times> checkpoint_id option) result"
  assume w: "P w" "rk_save (enabled_checkpoint env agent_snapshots cfg v) r s b chk w = (y, w')"
  obtain snap where snap: "agent_snapshot_of s = Inr snap" by (simp add: agent_snapshot_of_def)
  obtain u w1 where u: "env_uuid env w = (u, w1)" by fastforce
  have w1: "P w1" by (rule env_keepsD(3) [OF env w(1) u])
  let ?q = "request_new \<lparr>l_checkpoint_id = CheckpointId u, l_expected_parent = chk,
      l_graph_version = v, l_thread_id = cc_thread_id cfg, l_run_id = r\<rparr>
    (cb_superstep b) (cb_step b) snap (cb_next_frontier b) (cb_completed b) (cb_interrupt b)"
  have "Q (into_checkpoint ?q)" by (rule fits) (simp_all add: snap request_new_def)
  then have kept: "P (snd (ck_save (cc_checkpointer cfg) ?q w1))"
      "P (snd (ck_save_branch (cc_checkpointer cfg) br ?q w1))" for br
    using writes w1 unfolding writes_keep_def by blast+
  obtain z w2 where z: "(case cc_branch_id cfg of Some br \<Rightarrow> ck_save_branch (cc_checkpointer cfg) br ?q w1
      | None \<Rightarrow> ck_save (cc_checkpointer cfg) ?q w1) = (z, w2)" by fastforce
  have "P (snd (case cc_branch_id cfg of Some br \<Rightarrow> ck_save_branch (cc_checkpointer cfg) br ?q w1
      | None \<Rightarrow> ck_save (cc_checkpointer cfg) ?q w1))"
    using kept by (simp split: option.split)
  then have "P w2" unfolding z by simp
  then show "P w' \<and> fine (\<lambda>_. True) y"
    using w(2) snap u z save_error_limit
    by (cases z) (auto simp: enabled_checkpoint_def enabled_save_def agent_snapshots_def Let_def)
qed

lemma enabled_interrupt:
  "rk_interrupt_error (enabled_checkpoint env cops cfg v) r intr path k parallel = Some e \<Longrightarrow> within_limit e"
  by (auto simp: enabled_checkpoint_def within_limit_def split: if_splits)

lemma boundary_fits:
  assumes "boundary_of (agent_graph_of p) (agent_inv p sink input gated) (asks_for p) s b"
    and "agent_snapshot_of s = Inr (q_snapshot q)" "q_step q = cb_step b"
      "q_next_frontier q = cb_next_frontier b" "q_interrupt q = cb_interrupt b"
  shows "fits_checkpoint p input (into_checkpoint q)"
proof -
  obtain F where F: "agent_inv p sink input gated s (cb_step b) F"
      "map Some (cb_next_frontier b) = frontier_paths_at (agent_graph_of p) F"
      "\<forall>c. cb_interrupt b = Some c \<longrightarrow> asks_for p s (ci_payload c)"
    using assms(1) by (auto simp: boundary_of_def)
  let ?s = "s\<lparr>as_sink := None\<rparr>"
  have snap: "q_snapshot q = \<lparr>sn_messages = as_messages s, sn_model_rounds = as_model_rounds s,
      sn_usage_by_round = as_usage_by_round s, sn_stop_reason = as_stop_reason s\<rparr>"
    using assms(2) by (simp add: agent_snapshot_of_def)
  have "agent_restore (q_snapshot q) = Inr ?s"
    by (cases s) (simp add: agent_restore_def snap)
  moreover have "agent_inv p None input False ?s (cb_step b) F"
    using F(1) by (auto simp: agent_inv_def usage_is_aligned_def model_turn_def tools_turn_def stopped_def)
  moreover have "asks_for p ?s = asks_for p s" by (intro ext) (simp add: asks_for_def pending_tool_calls_def)
  ultimately show ?thesis
    using F assms unfolding fits_checkpoint_def by (intro exI [of _ ?s] exI [of _ F]) (simp add: into_checkpoint_def)
qed

section \<open>Invocations\<close>

lemma agent_invoked:
  assumes cfg: "agent_config_new (ap_max_rounds p) = Inr c" and w: "P w"
    and keeps: "env_keeps P env" "model_keeps P p sink" "tools_keep P p sink gated" "gated \<Longrightarrow> ap_tool_approval p"
    and rk: "\<And>r s b chk. boundary_of (agent_graph_of p) (agent_inv p sink input gated) (asks_for p) s b \<Longrightarrow>
        io_tracks P (rk_save rk r s b chk) (\<lambda>_. True)"
      "\<And>r intr path k b e. rk_interrupt_error rk r intr path k b = Some e \<Longrightarrow> within_limit e"
    and run: "invoke_internal env agent_ops (agent_graph_of p) (initial_agent_state input sink)
      \<lparr>max_steps = ap_max_rounds p * 2\<rparr> events control rk chk w = Some (y, st)"
  shows "P (rs_world st) \<and> fine (well_ended (agent_inv p sink input gated) (asks_for p)) y"
proof -
  have bound: "step_bound p = ap_max_rounds p * 2"
    using cfg by (auto simp: agent_config_new_def step_bound_def split: if_splits)
  have "single_run env agent_ops (agent_graph_of p) rk (step_bound p) P (agent_inv p sink input gated)
      (\<lambda>r. gated \<longrightarrow> r = None) (asks_for p)"
    by (rule agent_single_run [OF keeps(1) rk(1,2) keeps(2,3,4) order_refl step_bound_small])
  from single_run.invoke_internal_tracked [OF this run _ agent_start [OF cfg] w] show ?thesis
    by (simp add: bound)
qed

text \<open>What keeps a property of the world: the environment, the model with its adapter, the sink, and the
  tools, or, in a gated run, only the request for an approval.\<close>

definition surroundings_keep :: "('w \<Rightarrow> bool) \<Rightarrow> 'w agent_parts \<Rightarrow> 'w agent_sink option \<Rightarrow> bool \<Rightarrow> bool" where
  "surroundings_keep P p sink gated \<longleftrightarrow>
     env_keeps P (ap_env p) \<and> model_keeps P p sink \<and> tools_keep P p sink gated \<and> sink_keeps P sink
     \<and> (gated \<longrightarrow> ap_tool_approval p)"

definition agent_of :: "'w agent_parts \<Rightarrow> 'w agent" where
  "agent_of p = \<lparr>ag_output = ap_output p, ag_graph = agent_graph_of p,
     ag_run_config = \<lparr>max_steps = ap_max_rounds p * 2\<rparr>\<rparr>"

lemma agent_of_sel:
  "ag_output (agent_of p) = ap_output p" "ag_graph (agent_of p) = agent_graph_of p"
  "ag_run_config (agent_of p) = \<lparr>max_steps = ap_max_rounds p * 2\<rparr>"
  by (simp_all add: agent_of_def)

lemma agent_of_made:
  "dfs_correct dfs \<Longrightarrow> agent_config_new (ap_max_rounds p) = Inr c \<Longrightarrow>
     agent_new_inner dfs p = Ok ag \<longleftrightarrow> ag = agent_of p"
  using agent_made(4) [of dfs p c] by (auto simp: agent_of_def)

lemma checkpoint_result:
  assumes cfg: "agent_config_new (ap_max_rounds p) = Inr c" and keeps: "surroundings_keep P p sink gated"
    and writes: "writes_keep P (cc_checkpointer ccfg) Q" and Q: "\<And>cp. fits_checkpoint p input cp \<Longrightarrow> Q cp"
    and w: "P w"
    and run: "agent_invoke_with_checkpoint (ap_json p) (ap_env p) (agent_of p) input sink events control ccfg w
      = Some (x, st)"
  shows "P (rs_world st) \<and> result_fits p input gated x"
proof -
  note k = keeps [unfolded surroundings_keep_def]
  have sink: "sink_keeps P sink" using k by blast
  obtain y st0 where y: "invoke_internal (ap_env p) agent_ops (agent_graph_of p) (initial_agent_state input sink)
      \<lparr>max_steps = ap_max_rounds p * 2\<rparr> events control
      (enabled_checkpoint (ap_env p) agent_snapshots ccfg (Some (agent_version p))) (cc_expected_parent ccfg) w
      = Some (y, st0)"
    and st0: "P (rs_world st0) \<longrightarrow> P (rs_world st)"
    and x: "x = agent_result_of (from_execution (ap_json p) (ap_output p)) y"
    using notify_then [OF run [unfolded agent_invoke_with_checkpoint_def agent_of_sel invoke_with_checkpoint_def
        agent_graph_simps] sink] by auto
  have saves: "io_tracks P (rk_save (enabled_checkpoint (ap_env p) agent_snapshots ccfg v) r s b chk) (\<lambda>_. True)"
    if "boundary_of (agent_graph_of p) (agent_inv p sink input gated) (asks_for p) s b" for v r s b chk
    using k by (intro enabled_saves [OF _ writes]) (blast intro: Q boundary_fits [OF that])+
  have "P (rs_world st0) \<and> fine (well_ended (agent_inv p sink input gated) (asks_for p)) y"
    by (rule agent_invoked [where P = P and gated = gated, OF cfg w _ _ _ _ _ _ y]) (use k in \<open>auto intro: saves enabled_interrupt\<close>)
  then show ?thesis using st0 execution_fits(2) x by blast
qed

lemma plain_result:
  assumes cfg: "agent_config_new (ap_max_rounds p) = Inr c" and keeps: "surroundings_keep P p sink gated"
    and w: "P w"
    and run: "agent_invoke (ap_json p) (ap_env p) (agent_of p) input sink events control w = Some (x, st)"
  shows "P (rs_world st) \<and> result_fits p input gated (result_bind x (\<lambda>out. Ok (AgentCompleted out)))"
proof -
  note k = keeps [unfolded surroundings_keep_def]
  have sink: "sink_keeps P sink" using k by blast
  let ?f = "\<lambda>rep. completed_outcome (ap_json p) (ap_output p) (rr_final_state rep)"
  obtain z st0 where z: "expect_completed (invoke_internal (ap_env p) agent_ops (agent_graph_of p)
      (initial_agent_state input sink) \<lparr>max_steps = ap_max_rounds p * 2\<rparr> events control disabled_checkpoint () w)
      = Some (z, st0)"
    and st0: "P (rs_world st0) \<longrightarrow> P (rs_world st)" and x: "x = agent_result_of ?f z"
    using notify_then [OF run [unfolded agent_invoke_def agent_of_sel invoke_with_control_def] sink] by auto
  then obtain y where y: "invoke_internal (ap_env p) agent_ops (agent_graph_of p)
      (initial_agent_state input sink) \<lparr>max_steps = ap_max_rounds p * 2\<rparr> events control disabled_checkpoint () w
      = Some (y, st0)" by (auto simp: expect_completed_def)
  have run: "P (rs_world st0) \<and> fine (well_ended (agent_inv p sink input gated) (asks_for p)) y"
    by (rule agent_invoked [where P = P and gated = gated, OF cfg w _ _ _ _ _ _ y]) (use k in \<open>auto intro: plain_disabled\<close>)
  then have fine: "fine (well_ended (agent_inv p sink input gated) (asks_for p)) y" by blast
  have "y \<noteq> Ok (Interrupted rep)" for rep by (rule invoke_internal_completes [OF rejecting_disabled y])
  then have "result_bind x (\<lambda>out. Ok (AgentCompleted out)) = Panic
      \<or> result_bind x (\<lambda>out. Ok (AgentCompleted out)) = agent_result_of (from_execution (ap_json p) (ap_output p)) y"
    using z y x by (cases y) (auto simp: expect_completed_def from_execution_def split: execution_outcome.splits)
  moreover have "result_fits p input gated Panic" by (simp add: result_fits_def)
  ultimately have "result_fits p input gated (result_bind x (\<lambda>out. Ok (AgentCompleted out)))"
    using execution_fits(2) [OF fine] by metis
  then show ?thesis using run st0 by blast
qed

lemma surroundings_True: "surroundings_keep (\<lambda>_. True) p sink False"
  by (simp add: surroundings_keep_def env_keeps_True keeps_True sink_keeps_def)

lemma writes_True: "writes_keep (\<lambda>_. True) ck Q"
  by (simp add: writes_keep_def)

lemma agent_runs_built:
  "built reach_search (agent_graph_of p)" "no_empty_subgraph (agent_graph_of p)"
  by (rule agent_built [OF reach_search_correct], rule agent_no_empty)

lemma checkpoint_invoke_returns:
  assumes cfg: "agent_config_new (ap_max_rounds p) = Inr c"
  shows "\<exists>x st. agent_invoke_with_checkpoint (ap_json p) (ap_env p) (agent_of p) input sink events control ccfg w
    = Some (x, st) \<and> sound_result x"
proof -
  let ?run = "invoke_internal (ap_env p) agent_ops (agent_graph_of p) (initial_agent_state input sink)
      \<lparr>max_steps = ap_max_rounds p * 2\<rparr> events control
      (enabled_checkpoint (ap_env p) agent_snapshots ccfg (Some (agent_version p))) (cc_expected_parent ccfg) w"
  obtain y st where y: "?run = Some (y, st)"
    using invoke_internal_total [OF enabled.checkpointing_axioms agent_runs_built(1) reach_search_correct
        agent_runs_built(2)] by (metis agent_graph_simps(4))
  have "y \<noteq> Panic"
    using invoke_internal_finished [OF enabled.checkpointing_axioms agent_runs_built(1) reach_search_correct
        y [folded agent_graph_simps(4)]] by (auto simp: run_finished_def)
  moreover have fine: "fine (well_ended (agent_inv p sink input False) (asks_for p)) y"
    by (rule agent_invoked [where P = "\<lambda>_. True" and gated = False,
          OF cfg _ env_keeps_True keeps_True _ _ _ y, THEN conjunct2])
      (auto intro: enabled_saves [OF env_keeps_True writes_True [where Q = "\<lambda>_. True"]] enabled_interrupt)
  ultimately have "sound_result (agent_result_of (from_execution (ap_json p) (ap_output p)) y)"
    using execution_fits [OF fine] by (simp add: sound_result_def result_fits_def)
  moreover obtain st' where "agent_invoke_with_checkpoint (ap_json p) (ap_env p) (agent_of p) input sink events
      control ccfg w = Some (agent_result_of (from_execution (ap_json p) (ap_output p)) y, st')"
    using notify_then_returns [of sink outcome_event y st "from_execution (ap_json p) (ap_output p)"] y
    unfolding agent_invoke_with_checkpoint_def agent_of_sel invoke_with_checkpoint_def agent_graph_simps by metis
  ultimately show ?thesis by blast
qed

lemma plain_invoke_returns:
  assumes cfg: "agent_config_new (ap_max_rounds p) = Inr c"
  shows "\<exists>x st. agent_invoke (ap_json p) (ap_env p) (agent_of p) input sink events control w
    = Some (x, st) \<and> sound_result x"
proof -
  let ?f = "\<lambda>rep. completed_outcome (ap_json p) (ap_output p) (rr_final_state rep)"
  obtain y st where y: "invoke_internal (ap_env p) agent_ops (agent_graph_of p) (initial_agent_state input sink)
      \<lparr>max_steps = ap_max_rounds p * 2\<rparr> events control disabled_checkpoint () w = Some (y, st)"
    using invoke_internal_total [OF disabled.checkpointing_axioms agent_runs_built(1) reach_search_correct
        agent_runs_built(2)] by metis
  have panic: "y \<noteq> Panic"
    using invoke_internal_finished [OF disabled.checkpointing_axioms agent_runs_built(1) reach_search_correct y]
    by (auto simp: run_finished_def)
  have inter: "y \<noteq> Ok (Interrupted rep)" for rep by (rule invoke_internal_completes [OF rejecting_disabled y])
  have fine: "fine (well_ended (agent_inv p sink input False) (asks_for p)) y"
    by (rule agent_invoked [where P = "\<lambda>_. True" and gated = False,
          OF cfg _ env_keeps_True keeps_True _ _ _ y, THEN conjunct2]) (auto intro: plain_disabled)
  obtain z where z: "expect_completed (Some (y, st)) = Some (z, st)"
    "sound_result (agent_result_of ?f z)"
  proof (cases y)
    case (Ok out)
    then obtain rep where rep: "out = Completed rep" using inter by (cases out) auto
    then have "agent_inv p sink input False (rr_final_state rep) (rr_steps rep) []"
      using fine Ok by (simp add: well_ended_def)
    then have "sound_result (?f rep)"
      using completed_fits(1,2) by (fastforce simp: sound_result_def)
    then show ?thesis using that [of "Ok rep"] Ok rep by (simp add: expect_completed_def)
  next
    case (Err e)
    then show ?thesis
      using that [of "Err e"] fine by (auto simp: expect_completed_def sound_result_def within_limit_def)
  qed (use panic in simp)
  obtain st' where "agent_invoke (ap_json p) (ap_env p) (agent_of p) input sink events
      control w = Some (agent_result_of ?f z, st')"
    using notify_then_returns [of sink CompletedEvent z st ?f] z(1) y
    unfolding agent_invoke_def agent_of_sel invoke_with_control_def by metis
  then show ?thesis using z(2) by blast
qed

end
