(* ===== verification/Spec2Isabelle.thy ===== *)
theory Spec2Isabelle
  imports Compilation Checkpointer Events Guarantees ChatGuarantees AgentResults
begin

text \<open>
  A verification development for the graph runtime in \<open>src/crates/group-agent-core\<close>.

  The program. A user declares a graph of nodes over a state type (\<open>graph.rs\<close>): ordinary nodes,
  mounted subgraphs, fixed edges, fan-outs, conditional edges and conditional fan-outs.
  \<open>compile\<close> checks the graph and flattens it into one list of items with compiled transitions. A
  run (\<open>runtime.rs\<close>) goes through super-steps: it executes the nodes of the frontier, applies
  their updates to the state, routes to the next frontier and, when configured, saves a checkpoint
  (\<open>checkpoint.rs\<close>) through a checkpointer over a record store (\<open>checkpoint_store.rs\<close>). A
  saved checkpoint can be resumed, replayed without writing, or forked into a branch.

  Theories and code.
  \<^item> Prelude: results of fallible code (\<open>Ok\<close>, \<open>Err\<close>, and \<open>Panic\<close> for \<open>expect\<close>, indexing and
    \<open>unreachable!\<close>), \<open>usize\<close> and \<open>u64\<close> counters, identifiers, insertion-ordered maps.
  \<^item> Paths: \<open>edge.rs\<close>, \<open>path.rs\<close>; node identifiers, nested paths and their display form.
  \<^item> Records: \<open>checkpoint_record.rs\<close>, \<open>checkpoint_codec.rs\<close>; durable records and codecs.
  \<^item> Errors, Events, Nodes: \<open>error.rs\<close>, \<open>event.rs\<close>, \<open>node.rs\<close>, \<open>state.rs\<close>, \<open>context.rs\<close>.
  \<^item> Transitions: \<open>transition.rs\<close>; Builder: the registration half of \<open>graph.rs\<close>.
  \<^item> Edges, Frontiers, Compiler: the compilation half of \<open>graph.rs\<close>; Validation, Placement,
    Layout, Scheduling and Compilation prove it against the specification \<open>graph_valid\<close>.
  \<^item> Store, Checkpointer: \<open>checkpoint_store.rs\<close> and the typed checkpointers of \<open>checkpoint.rs\<close>.
  \<^item> Configs: the configurations and reports of \<open>checkpoint.rs\<close>, \<open>interrupt.rs\<close>, \<open>runtime.rs\<close>.
  \<^item> Control, Runtime, Superstep, Run, Resumption: \<open>runtime.rs\<close>, in the order of its calls.
  \<^item> RunLogic, RunSafety, RunOutcome, RunTermination, Invocation, Recovery, Assertions,
    Continuation, Parallel, Cancellation, Divergence: the reasoning about runs; Guarantees states
    the resulting properties; Demos and Evaluation hold the concrete programs of the witnesses.

  State and operations. A builder is the record \<open>state_graph\<close>, a compiled graph the record
  \<open>compiled_graph\<close> with its items as a list addressed by index; a store is the record
  \<open>memory_state\<close> and its operations return the next state. A run is a function from a state (the
  world and the event emitter) to \<open>None\<close> when it does not return, or to a result and the next
  state; \<open>run_bind\<close> is the sequencing of the code with its early returns through
  \<open>events.fail\<close>. The world \<open>'w\<close> is everything the runtime does not control: user nodes, routers,
  state operations and checkpointers are functions on it, the \<open>environment\<close> record supplies the
  clock, fresh identifiers, cancellation tokens, the race of a future with its deadline and the
  choice of the next finished node.

  Modelling choices. A node of a parallel frontier runs as one step at the moment it completes, in
  any completion order; a node that is dropped because another one failed does not run. Instants
  are natural numbers. \<open>usize\<close> arithmetic wraps as in a release build. The decoded cache of
  \<open>RecordCheckpointer\<close> holds weak handles; an arbitrary oracle says which are alive. The
  depth-first search of the graph library is the parameter \<open>dfs\<close> with the documented contract
  \<open>dfs_correct\<close>, which \<open>reach_search\<close> satisfies.

  What the lemmas show. Builder calls keep a graph well formed; \<open>compile\<close> accepts exactly the valid
  graphs, never panics and lays them out faithfully. Stores keep every thread and branch one linked
  lineage, decide concurrent writers, and survive export and import; the typed checkpointer decodes
  what the store holds whatever its cache does. Runs never panic, return when no mounted graph is
  empty, close their event log with their result, keep their step budget, commit parallel updates in
  frontier order and save only checkpoints that they can continue; resume, replay and fork keep the
  same promises, replay without writing. An empty mounted graph routed to itself runs forever.

  Bounds. The frontier analysis works on unordered pairs of nodes, of which there are finitely many.
  The super-step loop is a \<open>partial_function\<close>; it returns because every turn adds the size of a
  nonempty frontier to the steps below the limit. The routing through subgraph boundaries returns
  because the nesting depth bounds the consecutive exits and entries. No fuel is used.

  Not modelled. Display texts of errors, debug logging, the \<open>Send\<close> and \<open>Sync\<close> bounds and the
  types' trait plumbing have no behaviour here.
\<close>

end
